(* ===== verification/Prelude.thy ===== *)
theory Prelude
  imports Main "HOL-Library.Word" "HOL-Library.AList" "HOL-Library.Multiset"
begin

text \<open>
  Shared vocabulary of the development: Go's unsigned integers, results that may be an error or a
  panic, slices with their bounds checks, Go maps as association lists, and the two sources of
  nondeterminism of the Go runtime the raft package uses (the iteration order of a map and the
  random number generator), which are made explicit as an oracle.

  The \<^emph>\<open>post\<close> predicate is the development's Hoare-style judgement: \<open>post m Q\<close> holds when
  the computation \<open>m\<close> either fails or returns a value that satisfies \<open>Q\<close>. Its rules are collected
  in \<open>post_intros\<close>, and component theories extend the collection with a rule per operation.
\<close>

named_theorems post_intros \<open>rules that push a postcondition through an operation\<close>
named_theorems u64_nat \<open>reading u64 comparisons and arithmetic as natural numbers\<close>

section \<open>Machine integers\<close>

type_synonym u64 = "64 word"
type_synonym byte = "8 word"
type_synonym bytes = "8 word list"

lemmas [u64_nat] = word_le_nat_alt word_less_nat_alt unat_sub_if' unat_plus_if'

lemma u64_unat_lt: "unat (x :: u64) < 18446744073709551616"
  using unsigned_less [of x, where ?'a = nat] by simp

lemma u64_neq_max: "x \<noteq> - 1 \<longleftrightarrow> unat (x :: u64) < 18446744073709551615"
proof -
  have "x = - 1 \<longleftrightarrow> unat x = unat (- 1 :: u64)"
    by (rule word_unat_eq_iff)
  moreover have "unat (- 1 :: u64) = 18446744073709551615"
    by (simp add: unsigned_minus_1_eq_mask mask_eq_exp_minus_1)
  ultimately show ?thesis
    using u64_unat_lt [of x] by linarith
qed

lemma unat_Suc_u64: "x \<noteq> - 1 \<Longrightarrow> unat (x + 1 :: u64) = Suc (unat x)"
  using unatSuc [of x] by (metis add.commute add_eq_0_iff2 minus_equation_iff)

lemma unat_pred_u64: "x \<noteq> 0 \<Longrightarrow> unat (x - 1 :: u64) = unat x - 1"
  by (simp add: unat_minus_one)

lemma unat_of_nat_u64: "n < 18446744073709551616 \<Longrightarrow> unat (of_nat n :: u64) = n"
  by (simp add: unat_of_nat)

lemma unat_add_u64:
  "unat x + unat y < 18446744073709551616 \<Longrightarrow> unat (x + y :: u64) = unat x + unat y"
  by (simp add: unat_plus_if')

lemma unat_sub_u64: "y \<le> x \<Longrightarrow> unat (x - y :: u64) = unat x - unat y"
  by (simp add: unat_sub)

section \<open>Results, errors and panics\<close>

text \<open>
  A Go function that returns an \<open>error\<close> or may panic is a function into \<open>go_error + 'a\<close>. The
  callers of the raft package stop the process on every error it returns (\<open>panicNow\<close> in
  \<^verbatim>\<open>raft/engine.go\<close>), so the state a failed call leaves behind is not kept.
\<close>

datatype go_error =
    ErrCompacted
  | ErrUnavailable
  | ErrSnapshotOutOfDate
  | ErrOther string
  | GoPanic string

type_synonym 'a res = "go_error + 'a"

definition bind_res :: "'a res \<Rightarrow> ('a \<Rightarrow> 'b res) \<Rightarrow> 'b res" where
  "bind_res m f = (case m of Inl e \<Rightarrow> Inl e | Inr x \<Rightarrow> f x)"

definition post :: "'a res \<Rightarrow> ('a \<Rightarrow> bool) \<Rightarrow> bool" where
  "post m Q = (case m of Inl e \<Rightarrow> True | Inr x \<Rightarrow> Q x)"

definition is_panic :: "'a res \<Rightarrow> bool" where
  "is_panic m = (case m of Inl (GoPanic s) \<Rightarrow> True | _ \<Rightarrow> False)"

fun foldM :: "('a \<Rightarrow> 'b \<Rightarrow> 'b res) \<Rightarrow> 'a list \<Rightarrow> 'b \<Rightarrow> 'b res" where
  "foldM f [] s = Inr s"
| "foldM f (x # xs) s = bind_res (f x s) (foldM f xs)"

lemma bind_res_simps [simp]:
  "bind_res (Inl e) f = Inl e"
  "bind_res (Inr x) f = f x"
  by (simp_all add: bind_res_def)

lemma bind_res_eq_Inr [simp]:
  "bind_res m f = Inr y \<longleftrightarrow> (\<exists>x. m = Inr x \<and> f x = Inr y)"
  by (cases m) auto

lemma post_simps [simp]:
  "post (Inl e) Q"
  "post (Inr x) Q = Q x"
  "post (bind_res m f) Q = post m (\<lambda>x. post (f x) Q)"
  by (simp_all add: post_def bind_res_def split: sum.split)

lemma postD: "post m Q \<Longrightarrow> m = Inr x \<Longrightarrow> Q x"
  by simp

lemma post_iff: "post m Q \<longleftrightarrow> (\<forall>x. m = Inr x \<longrightarrow> Q x)"
  by (cases m) auto

lemma post_mono: "post m P \<Longrightarrow> (\<And>x. P x \<Longrightarrow> Q x) \<Longrightarrow> post m Q"
  by (cases m) auto

lemma post_conj: "post m (\<lambda>x. P x \<and> Q x) \<longleftrightarrow> post m P \<and> post m Q"
  by (cases m) auto

lemma post_foldM:
  assumes "I s" and "\<And>x s. x \<in> set xs \<Longrightarrow> I s \<Longrightarrow> post (f x s) I"
  shows "post (foldM f xs s) I"
  using assms
proof (induction xs arbitrary: s)
  case Nil
  then show ?case by simp
next
  case (Cons x xs)
  from Cons.prems have "post (f x s) I" by simp
  then have "post (f x s) (\<lambda>s'. post (foldM f xs s') I)"
    by (rule post_mono) (use Cons in simp)
  then show ?case by simp
qed

section \<open>Slices\<close>

text \<open>
  Indexing and slicing panic out of range. \<open>slice_from xs i\<close> is \<open>xs[i:]\<close>, \<open>slice_to xs i\<close> is
  \<open>xs[:i]\<close> with \<open>i\<close> at most the length, which is the only use the sources make of it.
\<close>

definition slice_index :: "'a list \<Rightarrow> u64 \<Rightarrow> 'a res" where
  "slice_index xs i = (if unat i < length xs then Inr (xs ! unat i)
     else Inl (GoPanic ''index out of range''))"

definition slice_from :: "'a list \<Rightarrow> u64 \<Rightarrow> 'a list res" where
  "slice_from xs i = (if unat i \<le> length xs then Inr (drop (unat i) xs)
     else Inl (GoPanic ''slice bounds out of range''))"

definition slice_range :: "'a list \<Rightarrow> u64 \<Rightarrow> u64 \<Rightarrow> 'a list res" where
  "slice_range xs i j = (if i \<le> j \<and> unat j \<le> length xs
     then Inr (drop (unat i) (take (unat j) xs))
     else Inl (GoPanic ''slice bounds out of range''))"

definition slice_last :: "'a list \<Rightarrow> 'a res" where
  "slice_last xs = (if xs = [] then Inl (GoPanic ''index out of range'') else Inr (last xs))"

abbreviation slice_len :: "'a list \<Rightarrow> u64" where
  "slice_len xs \<equiv> of_nat (length xs)"

lemma slice_index_Inr [simp]:
  "slice_index xs i = Inr x \<longleftrightarrow> unat i < length xs \<and> x = xs ! unat i"
  by (auto simp: slice_index_def)

lemma slice_from_Inr [simp]:
  "slice_from xs i = Inr ys \<longleftrightarrow> unat i \<le> length xs \<and> ys = drop (unat i) xs"
  by (auto simp: slice_from_def)

section \<open>Go maps\<close>

text \<open>
  A Go map is an association list with distinct keys. Lookup is \<open>map_of\<close>; assignment and
  \<open>delete\<close> are the library's \<open>AList.update\<close> and \<open>AList.delete\<close>; \<open>len\<close> is \<open>length\<close>.
\<close>

type_synonym ('k, 'v) gomap = "('k \<times> 'v) list"

abbreviation mget :: "('k, 'v) gomap \<Rightarrow> 'k \<Rightarrow> 'v option" where
  "mget m k \<equiv> map_of m k"

abbreviation mput :: "'k \<Rightarrow> 'v \<Rightarrow> ('k, 'v) gomap \<Rightarrow> ('k, 'v) gomap" where
  "mput k v m \<equiv> AList.update k v m"

abbreviation mdel :: "'k \<Rightarrow> ('k, 'v) gomap \<Rightarrow> ('k, 'v) gomap" where
  "mdel k m \<equiv> AList.delete k m"

abbreviation mkeys :: "('k, 'v) gomap \<Rightarrow> 'k list" where
  "mkeys m \<equiv> map fst m"

definition mhas :: "('k, 'v) gomap \<Rightarrow> 'k \<Rightarrow> bool" where
  "mhas m k \<longleftrightarrow> map_of m k \<noteq> None"

definition gm_wf :: "('k, 'v) gomap \<Rightarrow> bool" where
  "gm_wf m \<longleftrightarrow> distinct (map fst m)"

definition mmap :: "('k \<Rightarrow> 'v \<Rightarrow> 'w) \<Rightarrow> ('k, 'v) gomap \<Rightarrow> ('k, 'w) gomap" where
  "mmap f m = map (\<lambda>(k, v). (k, f k v)) m"

text \<open>\<open>maps.Copy(dst, src)\<close>: every pair of \<open>src\<close> is assigned into \<open>dst\<close>.\<close>

definition maps_copy :: "('k, 'v) gomap \<Rightarrow> ('k, 'v) gomap \<Rightarrow> ('k, 'v) gomap" where
  "maps_copy dst src = fold (\<lambda>(k, v). AList.update k v) src dst"

lemma gm_wf_Nil [simp]: "gm_wf []"
  by (simp add: gm_wf_def)

lemma gm_wf_mput [simp, intro]: "gm_wf m \<Longrightarrow> gm_wf (mput k v m)"
  by (simp add: gm_wf_def distinct_update)

lemma gm_wf_mdel [simp, intro]: "gm_wf m \<Longrightarrow> gm_wf (mdel k m)"
  by (simp add: gm_wf_def distinct_delete)

lemma mhas_iff: "mhas m k \<longleftrightarrow> k \<in> set (mkeys m)"
  by (auto simp: mhas_def map_of_eq_None_iff)

lemma mhas_mput [simp]: "mhas (mput k v m) k' \<longleftrightarrow> k' = k \<or> mhas m k'"
  by (auto simp: mhas_def update_conv')

lemma mhas_mdel [simp]: "mhas (mdel k m) k' \<longleftrightarrow> k' \<noteq> k \<and> mhas m k'"
  by (auto simp: mhas_def delete_conv' fun_upd_def)

lemma mget_mput [simp]: "mget (mput k v m) k' = (if k' = k then Some v else mget m k')"
  by (simp add: update_conv')

lemma mget_mdel [simp]: "mget (mdel k m) k' = (if k' = k then None else mget m k')"
  by (simp add: delete_conv')

lemma mkeys_mmap [simp]: "mkeys (mmap f m) = mkeys m"
  by (induction m) (auto simp: mmap_def)

lemma mget_mmap [simp]: "mget (mmap f m) k = map_option (f k) (mget m k)"
  by (induction m) (auto simp: mmap_def)

lemma gm_wf_mmap [simp]: "gm_wf (mmap f m) = gm_wf m"
  by (simp add: gm_wf_def)

lemma length_mmap [simp]: "length (mmap f m) = length m"
  by (simp add: mmap_def)

lemma mhas_mmap [simp]: "mhas (mmap f m) k = mhas m k"
  by (simp add: mhas_def)

lemma mkeys_mput_same: "mhas m k \<Longrightarrow> mkeys (mput k v m) = mkeys m"
  by (simp add: mhas_iff update_keys)

lemma length_mput: "length (mput k v m) = (if mhas m k then length m else Suc (length m))"
proof -
  have "length (mkeys (mput k v m)) = (if mhas m k then length m else Suc (length m))"
    by (simp add: mhas_iff update_keys)
  then show ?thesis by simp
qed

section \<open>Nondeterminism of the Go runtime\<close>

text \<open>
  \<open>rt_rand n\<close> is the value of the \<open>n\<close>-th call of the random source and \<open>rt_order n ks\<close> the order
  in which the \<open>n\<close>-th \<open>range\<close> over a map with the keys \<open>ks\<close> visits them. Go promises only that it
  is a permutation (\<open>rt_ok\<close>); every theorem about loops over maps is for an arbitrary such oracle.
\<close>

record go_rt =
  rt_calls :: nat
  rt_rand :: "nat \<Rightarrow> u64"
  rt_order :: "nat \<Rightarrow> u64 list \<Rightarrow> u64 list"

definition rt_ok :: "go_rt \<Rightarrow> bool" where
  "rt_ok rt \<longleftrightarrow> (\<forall>n ks. mset (rt_order rt n ks) = mset ks)"

definition range_keys :: "go_rt \<Rightarrow> (u64, 'v) gomap \<Rightarrow> u64 list \<times> go_rt" where
  "range_keys rt m = (rt_order rt (rt_calls rt) (mkeys m), rt\<lparr>rt_calls := Suc (rt_calls rt)\<rparr>)"

definition rand_uint64 :: "go_rt \<Rightarrow> u64 \<times> go_rt" where
  "rand_uint64 rt = (rt_rand rt (rt_calls rt), rt\<lparr>rt_calls := Suc (rt_calls rt)\<rparr>)"

lemma set_range_keys: "rt_ok rt \<Longrightarrow> set (fst (range_keys rt m)) = set (mkeys m)"
  unfolding range_keys_def rt_ok_def by (metis fst_conv mset_eq_setD)

lemma rt_ok_range_keys [simp]: "rt_ok (snd (range_keys rt m)) = rt_ok rt"
  by (simp add: rt_ok_def range_keys_def)

lemma rt_ok_rand [simp]: "rt_ok (snd (rand_uint64 rt)) = rt_ok rt"
  by (simp add: rt_ok_def rand_uint64_def)

end
