(* ===== verification/Raftpb.thy ===== *)
theory Raftpb
  imports Prelude
begin

text \<open>
  The protocol data of \<^verbatim>\<open>raft/raftpb\<close>: message, entry, snapshot, membership and update
  structures as records (fields carry a short prefix, since Go scopes field names by struct and
  Isabelle does not), the enumerations as datatypes, and the pure helper functions of
  \<^verbatim>\<open>raft/raftpb/raft.go\<close>, \<^verbatim>\<open>raft/raftpb/entry.go\<close> and
  \<^verbatim>\<open>raft/raftpb/raft_optimized.go\<close> the protocol code calls. The reference count and
  the compactor of a snapshot, which are not marshalled, are not part of the record.
\<close>

section \<open>Enumerations\<close>

datatype MessageType =
    LocalTick | Election | LeaderHeartbeat | ConfigChangeEvent | NoOP | Ping | Pong | Propose
  | SnapshotStatus | Unreachable | CheckQuorum | BatchedReadIndex | Replicate | ReplicateResp
  | RequestVote | RequestVoteResp | InstallSnapshot | Heartbeat | HeartbeatResp | ReadIndex
  | ReadIndexResp | Quiesce | SnapshotReceived | LeaderTransfer | TimeoutNow | RateLimit
  | RequestPreVote | RequestPreVoteResp | LogQuery

datatype EntryType = ApplicationEntry | ConfigChangeEntry | EncodedEntry | MetadataEntry

datatype ConfigChangeType = AddNode | RemoveNode | AddNonVoting | AddWitness

datatype StateMachineType =
  UnknownStateMachine | RegularStateMachine | ConcurrentStateMachine | OnDiskStateMachine

datatype CompressionType = NoCompression | Snappy

section \<open>Structures\<close>

record Entry =
  e_Term :: u64
  e_Index :: u64
  e_Type :: EntryType
  e_Key :: u64
  e_ClientID :: u64
  e_SeriesID :: u64
  e_RespondedTo :: u64
  e_Cmd :: bytes

record State =
  st_Term :: u64
  st_Vote :: u64
  st_Commit :: u64

record Membership =
  mb_ConfigChangeId :: u64
  mb_Addresses :: "(u64, string) gomap"
  mb_Removed :: "(u64, bool) gomap"
  mb_NonVotings :: "(u64, string) gomap"
  mb_Witnesses :: "(u64, string) gomap"

record SnapshotFile =
  sf_Filepath :: string
  sf_FileSize :: u64
  sf_FileId :: u64
  sf_Metadata :: bytes

record Snapshot =
  ss_Filepath :: string
  ss_FileSize :: u64
  ss_Index :: u64
  ss_Term :: u64
  ss_Membership :: Membership
  ss_Files :: "SnapshotFile list"
  ss_Checksum :: bytes
  ss_Dummy :: bool
  ss_ShardID :: u64
  ss_Type :: StateMachineType
  ss_Imported :: bool
  ss_OnDiskIndex :: u64
  ss_Witness :: bool

record ConfigChange =
  cc_ConfigChangeId :: u64
  cc_Type :: ConfigChangeType
  cc_ReplicaID :: u64
  cc_Address :: string
  cc_Initialize :: bool

record Message =
  m_Type :: MessageType
  m_To :: u64
  m_From :: u64
  m_ShardID :: u64
  m_Term :: u64
  m_LogTerm :: u64
  m_LogIndex :: u64
  m_Commit :: u64
  m_Reject :: bool
  m_Hint :: u64
  m_Entries :: "Entry list"
  m_Snapshot :: Snapshot
  m_HintHigh :: u64

record SystemCtx =
  ctx_Low :: u64
  ctx_High :: u64

record ReadyToRead =
  rtr_Index :: u64
  rtr_SystemCtx :: SystemCtx

record LeaderUpdate =
  lu_LeaderID :: u64
  lu_Term :: u64

record LogQueryResult =
  lq_FirstIndex :: u64
  lq_LastIndex :: u64
  lq_Error :: "go_error option"
  lq_Entries :: "Entry list"

record UpdateCommit =
  uc_Processed :: u64
  uc_LastApplied :: u64
  uc_StableLogTo :: u64
  uc_StableLogTerm :: u64
  uc_StableSnapshotTo :: u64
  uc_ReadyToRead :: u64

record Update =
  ud_ShardID :: u64
  ud_ReplicaID :: u64
  ud_State :: State
  ud_FastApply :: bool
  ud_EntriesToSave :: "Entry list"
  ud_CommittedEntries :: "Entry list"
  ud_MoreCommittedEntries :: bool
  ud_Snapshot :: Snapshot
  ud_ReadyToReads :: "ReadyToRead list"
  ud_Messages :: "Message list"
  ud_LastApplied :: u64
  ud_UpdateCommit :: UpdateCommit
  ud_DroppedEntries :: "Entry list"
  ud_DroppedReadIndexes :: "SystemCtx list"
  ud_LogQueryResult :: LogQueryResult
  ud_LeaderUpdate :: LeaderUpdate

section \<open>Zero values\<close>

definition zero_Entry :: Entry where
  "zero_Entry = \<lparr>e_Term = 0, e_Index = 0, e_Type = ApplicationEntry, e_Key = 0, e_ClientID = 0,
     e_SeriesID = 0, e_RespondedTo = 0, e_Cmd = []\<rparr>"

definition zero_State :: State where
  "zero_State = \<lparr>st_Term = 0, st_Vote = 0, st_Commit = 0\<rparr>"

definition zero_Membership :: Membership where
  "zero_Membership = \<lparr>mb_ConfigChangeId = 0, mb_Addresses = [], mb_Removed = [],
     mb_NonVotings = [], mb_Witnesses = []\<rparr>"

definition zero_Snapshot :: Snapshot where
  "zero_Snapshot = \<lparr>ss_Filepath = [], ss_FileSize = 0, ss_Index = 0, ss_Term = 0,
     ss_Membership = zero_Membership, ss_Files = [], ss_Checksum = [], ss_Dummy = False,
     ss_ShardID = 0, ss_Type = UnknownStateMachine, ss_Imported = False, ss_OnDiskIndex = 0,
     ss_Witness = False\<rparr>"

definition zero_Message :: "MessageType \<Rightarrow> Message" where
  "zero_Message t = \<lparr>m_Type = t, m_To = 0, m_From = 0, m_ShardID = 0, m_Term = 0, m_LogTerm = 0,
     m_LogIndex = 0, m_Commit = 0, m_Reject = False, m_Hint = 0, m_Entries = [],
     m_Snapshot = zero_Snapshot, m_HintHigh = 0\<rparr>"

definition zero_SystemCtx :: SystemCtx where
  "zero_SystemCtx = \<lparr>ctx_Low = 0, ctx_High = 0\<rparr>"

definition zero_LogQueryResult :: LogQueryResult where
  "zero_LogQueryResult =
     \<lparr>lq_FirstIndex = 0, lq_LastIndex = 0, lq_Error = None, lq_Entries = []\<rparr>"

definition zero_LeaderUpdate :: LeaderUpdate where
  "zero_LeaderUpdate = \<lparr>lu_LeaderID = 0, lu_Term = 0\<rparr>"

definition zero_UpdateCommit :: UpdateCommit where
  "zero_UpdateCommit = \<lparr>uc_Processed = 0, uc_LastApplied = 0, uc_StableLogTo = 0,
     uc_StableLogTerm = 0, uc_StableSnapshotTo = 0, uc_ReadyToRead = 0\<rparr>"

definition zero_Update :: Update where
  "zero_Update = \<lparr>ud_ShardID = 0, ud_ReplicaID = 0, ud_State = zero_State, ud_FastApply = False,
     ud_EntriesToSave = [], ud_CommittedEntries = [], ud_MoreCommittedEntries = False,
     ud_Snapshot = zero_Snapshot, ud_ReadyToReads = [], ud_Messages = [], ud_LastApplied = 0,
     ud_UpdateCommit = zero_UpdateCommit, ud_DroppedEntries = [], ud_DroppedReadIndexes = [],
     ud_LogQueryResult = zero_LogQueryResult, ud_LeaderUpdate = zero_LeaderUpdate\<rparr>"

lemmas zero_defs [simp] = zero_Entry_def zero_State_def zero_Membership_def zero_Snapshot_def
  zero_Message_def zero_SystemCtx_def zero_LogQueryResult_def zero_LeaderUpdate_def
  zero_UpdateCommit_def zero_Update_def

section \<open>Constants\<close>

text \<open>\<^verbatim>\<open>raft/client/session.pb.go\<close> and \<^verbatim>\<open>raft/internal/settings/settings.go\<close>.\<close>

definition NotSessionManagedClientID :: u64 where
  "NotSessionManagedClientID = 0"

definition NoOPSeriesID :: u64 where
  "NoOPSeriesID = 0"

definition SeriesIDForRegister :: u64 where
  "SeriesIDForRegister = - 2"

definition SeriesIDForUnregister :: u64 where
  "SeriesIDForUnregister = - 1"

definition SeriesIDFirstProposal :: u64 where
  "SeriesIDFirstProposal = 1"

definition EntryNonCmdFieldsSize :: u64 where
  "EntryNonCmdFieldsSize = 16 * 8"

definition MaxEntrySize :: u64 where
  "MaxEntrySize = 64 * 1024 * 1024"

definition MaxApplyEntrySize :: u64 where
  "MaxApplyEntrySize = 64 * 1024 * 1024"

definition InMemGCTimeout :: u64 where
  "InMemGCTimeout = 100"

definition InMemEntrySliceSize :: nat where
  "InMemEntrySliceSize = 512"

definition MinEntrySliceFreeSize :: nat where
  "MinEntrySliceFreeSize = 96"

text \<open>\<open>unsafe.Sizeof(pb.Entry{})\<close>: seven 8-byte words (the \<open>int32\<close> type is padded) and a slice.\<close>

definition sizeof_Entry :: u64 where
  "sizeof_Entry = 7 * 8 + 24"

definition NoNode :: u64 where
  "NoNode = 0"

section \<open>Helper functions\<close>

definition isStateEqual :: "State \<Rightarrow> State \<Rightarrow> bool" where
  "isStateEqual a b \<longleftrightarrow> st_Term a = st_Term b \<and> st_Vote a = st_Vote b \<and> st_Commit a = st_Commit b"

definition IsStateEqual :: "State \<Rightarrow> State \<Rightarrow> bool" where
  "IsStateEqual a b = isStateEqual a b"

definition IsEmptyState :: "State \<Rightarrow> bool" where
  "IsEmptyState st = isStateEqual st zero_State"

definition IsEmptySnapshot :: "Snapshot \<Rightarrow> bool" where
  "IsEmptySnapshot s \<longleftrightarrow> ss_Index s = 0"

definition IsProposal :: "Entry \<Rightarrow> bool" where
  "IsProposal m \<longleftrightarrow>
     e_Type m = ApplicationEntry \<or> e_Type m = EncodedEntry \<or> e_Type m = MetadataEntry"

definition IsConfigChange :: "Entry \<Rightarrow> bool" where
  "IsConfigChange m \<longleftrightarrow> e_Type m = ConfigChangeEntry"

definition IsSessionManaged :: "Entry \<Rightarrow> bool" where
  "IsSessionManaged m =
     (if IsConfigChange m then False
      else if e_ClientID m = NotSessionManagedClientID then False
      else True)"

definition IsEmpty :: "Entry \<Rightarrow> bool" where
  "IsEmpty m =
     (if IsConfigChange m then False
      else if IsSessionManaged m then False
      else length (e_Cmd m) = 0)"

definition IsNoOPSession :: "Entry \<Rightarrow> bool" where
  "IsNoOPSession m \<longleftrightarrow> e_SeriesID m = NoOPSeriesID"

definition IsNewSessionRequest :: "Entry \<Rightarrow> bool" where
  "IsNewSessionRequest m \<longleftrightarrow>
     \<not> IsConfigChange m \<and> length (e_Cmd m) = 0 \<and>
     e_ClientID m \<noteq> NotSessionManagedClientID \<and> e_SeriesID m = SeriesIDForRegister"

definition IsEndOfSessionRequest :: "Entry \<Rightarrow> bool" where
  "IsEndOfSessionRequest m \<longleftrightarrow>
     \<not> IsConfigChange m \<and> length (e_Cmd m) = 0 \<and>
     e_ClientID m \<noteq> NotSessionManagedClientID \<and> e_SeriesID m = SeriesIDForUnregister"

definition IsUpdateEntry :: "Entry \<Rightarrow> bool" where
  "IsUpdateEntry m \<longleftrightarrow>
     \<not> IsConfigChange m \<and> IsSessionManaged m \<and>
     \<not> IsNewSessionRequest m \<and> \<not> IsEndOfSessionRequest m"

definition SizeUpperLimit :: "Entry \<Rightarrow> u64" where
  "SizeUpperLimit m = EntryNonCmdFieldsSize + slice_len (e_Cmd m)"

fun GetEntrySliceSize :: "Entry list \<Rightarrow> u64" where
  "GetEntrySliceSize [] = 0"
| "GetEntrySliceSize (e # es) = SizeUpperLimit e + GetEntrySliceSize es"

fun GetEntrySliceInMemSize :: "Entry list \<Rightarrow> u64" where
  "GetEntrySliceInMemSize [] = 0"
| "GetEntrySliceInMemSize (e # es) = slice_len (e_Cmd e) + sizeof_Entry + GetEntrySliceInMemSize es"

definition CanDrop :: "Message \<Rightarrow> bool" where
  "CanDrop m \<longleftrightarrow>
     m_Type m \<noteq> InstallSnapshot \<and> m_Type m \<noteq> Unreachable \<and> m_Type m \<noteq> SnapshotStatus"

definition EntriesToApply :: "Entry list \<Rightarrow> u64 \<Rightarrow> bool \<Rightarrow> Entry list res" where
  "EntriesToApply entries applied strict =
     (if length entries = 0 then Inr entries
      else
        let lastIndex = e_Index (last entries);
            firstIndex = e_Index (hd entries)
        in
          if lastIndex \<le> applied then
            (if strict then Inl (GoPanic ''got entries older than current state'') else Inr [])
          else if firstIndex > applied + 1 then Inl (GoPanic ''entry hole found'')
          else if applied - firstIndex + 1 < slice_len entries
            then slice_from entries (applied - firstIndex + 1)
          else Inr [])"

lemma GetEntrySliceSize_append [simp]:
  "GetEntrySliceSize (xs @ ys) = GetEntrySliceSize xs + GetEntrySliceSize ys"
  by (induction xs) (auto simp: algebra_simps)

lemma GetEntrySliceInMemSize_append [simp]:
  "GetEntrySliceInMemSize (xs @ ys) = GetEntrySliceInMemSize xs + GetEntrySliceInMemSize ys"
  by (induction xs) (auto simp: algebra_simps)

section \<open>Contiguous entries\<close>

text \<open>
  \<open>contig i es\<close>: the entries \<open>es\<close> carry the indexes \<open>i, i + 1, \<dots>\<close>, the shape of every entry
  slice the log hands out. Indexes are compared as natural numbers, so a contiguous slice never
  wraps around the end of \<open>uint64\<close>.
\<close>

fun contig :: "nat \<Rightarrow> Entry list \<Rightarrow> bool" where
  "contig i [] = True"
| "contig i (e # es) = (unat (e_Index e) = i \<and> contig (Suc i) es)"

lemma contig_iff: "contig i es \<longleftrightarrow> (\<forall>k < length es. unat (e_Index (es ! k)) = i + k)"
  by (induction es arbitrary: i) (auto simp: nth_Cons less_Suc_eq_0_disj split: nat.split)

lemma contig_append:
  "contig i (xs @ ys) \<longleftrightarrow> contig i xs \<and> contig (i + length xs) ys"
  by (induction xs arbitrary: i) auto

lemma contig_take [intro]: "contig i es \<Longrightarrow> contig i (take n es)"
  by (auto simp: contig_iff)

lemma contig_drop [intro]: "contig i es \<Longrightarrow> n \<le> length es \<Longrightarrow> contig (i + n) (drop n es)"
  by (auto simp: contig_iff add.assoc)

lemma contig_nth: "contig i es \<Longrightarrow> k < length es \<Longrightarrow> unat (e_Index (es ! k)) = i + k"
  by (simp add: contig_iff)

lemma contig_last: "contig i es \<Longrightarrow> es \<noteq> [] \<Longrightarrow> unat (e_Index (last es)) = i + length es - 1"
  by (cases es) (auto simp: last_conv_nth contig_iff)

lemma contig_hd: "contig i es \<Longrightarrow> es \<noteq> [] \<Longrightarrow> unat (e_Index (hd es)) = i"
  by (cases es) auto

lemma contig_bound: "contig i es \<Longrightarrow> es \<noteq> [] \<Longrightarrow> i + length es \<le> 18446744073709551616"
  using contig_last [of i es] u64_unat_lt [of "e_Index (last es)"] by (cases es) auto

end
