(* ===== verification/EntryUtils.thy ===== *)
theory EntryUtils
  imports Raftpb
begin

text \<open>
  \<^verbatim>\<open>raft/internal/raft/entryutils.go\<close>: the entry-slice helpers of the raft package and the
  classification of message types. \<open>newEntrySlice\<close> copies a slice, which is the identity on values.
\<close>

definition countConfigChange :: "Entry list \<Rightarrow> nat" where
  "countConfigChange entries = length (filter (\<lambda>e. e_Type e = ConfigChangeEntry) entries)"

definition newEntrySlice :: "Entry list \<Rightarrow> Entry list" where
  "newEntrySlice ents = [] @ ents"

definition checkEntriesToAppend :: "Entry list \<Rightarrow> Entry list \<Rightarrow> unit res" where
  "checkEntriesToAppend ents toAppend =
     (if length ents = 0 \<or> length toAppend = 0 then Inr ()
      else if e_Index (last ents) + 1 \<noteq> e_Index (hd toAppend)
        then Inl (GoPanic ''found a hole'')
      else if e_Term (last ents) > e_Term (hd toAppend)
        then Inl (GoPanic ''term value not expected'')
      else Inr ())"

text \<open>The loop of \<open>limitSize\<close>: \<open>tot\<close> (the source's \<open>total\<close>) is the size of the first \<open>inc\<close> entries.\<close>

fun limitSize_loop :: "u64 \<Rightarrow> u64 \<Rightarrow> nat \<Rightarrow> Entry list \<Rightarrow> nat" where
  "limitSize_loop limit tot inc [] = inc"
| "limitSize_loop limit tot inc (e # rest) =
     (let tot = tot + SizeUpperLimit e
      in if tot > limit then inc else limitSize_loop limit tot (Suc inc) rest)"

definition limitSize :: "Entry list \<Rightarrow> u64 \<Rightarrow> Entry list" where
  "limitSize ents limit =
     (case ents of [] \<Rightarrow> ents
      | e # rest \<Rightarrow> take (limitSize_loop limit (SizeUpperLimit e) 1 rest) ents)"

definition isLocalMessageType :: "MessageType \<Rightarrow> bool" where
  "isLocalMessageType t \<longleftrightarrow>
     t = Election \<or> t = LeaderHeartbeat \<or> t = Unreachable \<or> t = SnapshotStatus \<or>
     t = CheckQuorum \<or> t = LocalTick \<or> t = BatchedReadIndex"

definition isResponseMessageType :: "MessageType \<Rightarrow> bool" where
  "isResponseMessageType t \<longleftrightarrow>
     t = ReplicateResp \<or> t = RequestVoteResp \<or> t = HeartbeatResp \<or> t = ReadIndexResp \<or>
     t = Unreachable \<or> t = SnapshotStatus \<or> t = LeaderTransfer"

section \<open>Properties\<close>

lemma newEntrySlice_id [simp]: "newEntrySlice es = es"
  by (simp add: newEntrySlice_def)

lemma limitSize_loop_bounds:
  "inc \<le> limitSize_loop limit tot inc rest \<and>
   limitSize_loop limit tot inc rest \<le> inc + length rest"
  by (induction limit tot inc rest rule: limitSize_loop.induct) (auto simp: Let_def)

lemma limitSize_loop_fits:
  assumes "limitSize_loop limit tot inc rest = inc + k" and "0 < k"
  shows "tot + GetEntrySliceSize (take k rest) \<le> limit"
  using assms
proof (induction limit tot inc rest arbitrary: k rule: limitSize_loop.induct)
  case (1 limit tot inc)
  then show ?case by simp
next
  case (2 limit tot inc e rest)
  let ?t = "tot + SizeUpperLimit e"
  from 2(2,3) have le: "?t \<le> limit"
    and eq: "limitSize_loop limit ?t (Suc inc) rest = Suc inc + (k - 1)"
    by (auto simp: Let_def split: if_splits)
  show ?case
  proof (cases "k = 1")
    case True
    with le show ?thesis by simp
  next
    case False
    with 2(3) have "0 < k - 1" by simp
    from 2(1) [OF refl _ eq this] le
    have "?t + GetEntrySliceSize (take (k - 1) rest) \<le> limit" by (simp add: not_less)
    with 2(3) show ?thesis by (cases k) (auto simp: algebra_simps)
  qed
qed

lemma limitSize_loop_max:
  assumes "limitSize_loop limit tot inc rest = inc + k" and "k < length rest"
  shows "tot + GetEntrySliceSize (take (Suc k) rest) > limit"
  using assms
proof (induction limit tot inc rest arbitrary: k rule: limitSize_loop.induct)
  case (1 limit tot inc)
  then show ?case by simp
next
  case (2 limit tot inc e rest)
  let ?t = "tot + SizeUpperLimit e"
  show ?case
  proof (cases "?t > limit")
    case True
    with 2(2) have "k = 0" by (simp add: Let_def)
    with True show ?thesis by simp
  next
    case False
    with 2(2) have eq: "limitSize_loop limit ?t (Suc inc) rest = inc + k"
      by (simp add: Let_def)
    with limitSize_loop_bounds [of "Suc inc" limit ?t rest] have "0 < k" by simp
    with eq have "limitSize_loop limit ?t (Suc inc) rest = Suc inc + (k - 1)" by simp
    from 2(1) [OF refl _ this] False 2(3) \<open>0 < k\<close>
    have "?t + GetEntrySliceSize (take k rest) > limit" by simp
    then show ?thesis by (simp add: algebra_simps)
  qed
qed

lemma limitSize_prefix: "\<exists>n. limitSize ents limit = take n ents \<and> n \<le> length ents \<and> (ents \<noteq> [] \<longrightarrow> 0 < n)"
proof (cases ents)
  case Nil
  then show ?thesis by (simp add: limitSize_def)
next
  case (Cons e rest)
  let ?n = "limitSize_loop limit (SizeUpperLimit e) 1 rest"
  have "1 \<le> ?n \<and> ?n \<le> 1 + length rest"
    by (rule limitSize_loop_bounds)
  then show ?thesis
    by (intro exI [of _ ?n]) (auto simp: limitSize_def Cons)
qed

lemma limitSize_Nil [simp]: "limitSize [] limit = []"
  by (simp add: limitSize_def)

lemma limitSize_eq_Nil [simp]: "limitSize ents limit = [] \<longleftrightarrow> ents = []"
  using limitSize_prefix [of ents limit] by auto

lemma contig_limitSize [intro]: "contig i ents \<Longrightarrow> contig i (limitSize ents limit)"
  using limitSize_prefix [of ents limit] by auto

lemma limitSize_take:
  shows "\<exists>n. limitSize ents limit = take n ents \<and> n \<le> length ents \<and>
           (ents = [] \<or> 0 < n) \<and>
           (1 < n \<longrightarrow> GetEntrySliceSize (take n ents) \<le> limit) \<and>
           (0 < n \<and> n < length ents \<longrightarrow> GetEntrySliceSize (take (Suc n) ents) > limit)"
proof (cases ents)
  case Nil
  then show ?thesis by simp
next
  case (Cons e rest)
  let ?n = "limitSize_loop limit (SizeUpperLimit e) 1 rest"
  have b: "1 \<le> ?n" "?n \<le> 1 + length rest"
    using limitSize_loop_bounds [of 1 limit "SizeUpperLimit e" rest] by auto
  then obtain k where k: "?n = 1 + k" by (metis le_add_diff_inverse)
  have "1 < ?n \<longrightarrow> GetEntrySliceSize (take ?n ents) \<le> limit"
    using limitSize_loop_fits [OF k] unfolding Cons k by simp
  moreover have "?n < length ents \<longrightarrow> GetEntrySliceSize (take (Suc ?n) ents) > limit"
    using limitSize_loop_max [OF k] unfolding Cons k by simp
  ultimately show ?thesis
    using b by (intro exI [of _ ?n]) (auto simp: limitSize_def Cons)
qed

text \<open>
  C28: \<open>limitSize\<close> (used to bound replication messages and apply batches) returns a prefix of its
  input that is not empty unless the input is; whenever the prefix has more than one entry, its
  total size is within the limit; and it is the longest such prefix, since one more entry would
  exceed the limit.
\<close>

theorem limitSize_spec:
  shows "\<exists>n. limitSize ents limit = take n ents \<and> n \<le> length ents \<and>
           (ents = [] \<or> 0 < n) \<and>
           (1 < n \<longrightarrow> GetEntrySliceSize (take n ents) \<le> limit) \<and>
           (0 < n \<and> n < length ents \<longrightarrow> GetEntrySliceSize (take (Suc n) ents) > limit)"
  by (rule limitSize_take)

theorem limitSize_spec_witness:
  "\<exists>n. limitSize [zero_Entry, zero_Entry, zero_Entry] 256 = take n [zero_Entry, zero_Entry, zero_Entry] \<and>
     n \<le> 3 \<and> 0 < n \<and>
     (1 < n \<longrightarrow> GetEntrySliceSize (take n [zero_Entry, zero_Entry, zero_Entry]) \<le> 256) \<and>
     limitSize [zero_Entry, zero_Entry, zero_Entry] 256 = [zero_Entry, zero_Entry]"
proof -
  have "limitSize [zero_Entry, zero_Entry, zero_Entry] 256 = [zero_Entry, zero_Entry]"
    by (simp add: limitSize_def SizeUpperLimit_def EntryNonCmdFieldsSize_def Let_def)
  then show ?thesis
    using limitSize_spec [of "[zero_Entry, zero_Entry, zero_Entry]" 256]
    by (metis length_Cons list.distinct(1) list.size(3) numeral_3_eq_3)
qed

end
