(* ===== verification/InMemory.thy ===== *)
theory InMemory
  imports EntryUtils RateLimiter
begin

text \<open>
  \<^verbatim>\<open>raft/internal/raft/inmemory.go\<close>: the in-memory part of the raft log, the entries from
  \<open>markerIndex\<close> on. The rate limiter the source reaches through a pointer shared with the raft
  struct is stored here; it is never nil outside tests. \<open>im_cap\<close> is the capacity of the entry
  slice and \<open>im_grow\<close> the growth policy of \<open>append\<close>, which the Go language leaves open: the
  capacity decides when the slice is copied and when the \<open>shrunk\<close> flag is cleared.

  The invariant \<open>im_wf\<close> says that the entries are contiguous from the marker with non-decreasing
  terms, that the persisted and applied positions lie where the code expects them, and that the
  rate limiter's size is exactly the size of the entries held. Every operation keeps it.
\<close>

record inMemory =
  im_snapshot :: "Snapshot option"
  im_rl :: InMemRateLimiter
  im_entries :: "Entry list"
  im_cap :: nat
  im_savedTo :: u64
  im_markerIndex :: u64
  im_appliedToIndex :: u64
  im_appliedToTerm :: u64
  im_shrunk :: bool
  im_grow :: "nat \<Rightarrow> nat \<Rightarrow> nat"

definition newInMemory :: "u64 \<Rightarrow> InMemRateLimiter \<Rightarrow> (nat \<Rightarrow> nat \<Rightarrow> nat) \<Rightarrow> inMemory" where
  "newInMemory lastIndex rl grow =
     \<lparr>im_snapshot = None, im_rl = rl, im_entries = [], im_cap = 0, im_savedTo = lastIndex,
      im_markerIndex = lastIndex + 1, im_appliedToIndex = 0, im_appliedToTerm = 0,
      im_shrunk = False, im_grow = grow\<rparr>"

definition checkMarkerIndex :: "inMemory \<Rightarrow> inMemory res" where
  "checkMarkerIndex im =
     (if length (im_entries im) > 0 then
        (if e_Index (hd (im_entries im)) \<noteq> im_markerIndex im
         then Inl (GoPanic ''marker index'') else Inr im)
      else Inr im)"

definition im_getEntries :: "inMemory \<Rightarrow> u64 \<Rightarrow> u64 \<Rightarrow> Entry list res" where
  "im_getEntries im low high =
     (let upperBound = im_markerIndex im + slice_len (im_entries im)
      in if low > high \<or> low < im_markerIndex im then Inl (GoPanic ''invalid low value'')
         else if high > upperBound then Inl (GoPanic ''invalid high value'')
         else slice_range (im_entries im) (low - im_markerIndex im) (high - im_markerIndex im))"

definition getSnapshotIndex :: "inMemory \<Rightarrow> u64 option" where
  "getSnapshotIndex im = (case im_snapshot im of Some ss \<Rightarrow> Some (ss_Index ss) | None \<Rightarrow> None)"

definition getLastIndex :: "inMemory \<Rightarrow> u64 option" where
  "getLastIndex im =
     (if length (im_entries im) > 0 then Some (e_Index (last (im_entries im)))
      else getSnapshotIndex im)"

definition im_getTerm :: "inMemory \<Rightarrow> u64 \<Rightarrow> u64 option res" where
  "im_getTerm im index =
     (if index > 0 \<and> index = im_appliedToIndex im then
        (if im_appliedToTerm im = 0 then Inl (GoPanic ''im.appliedToTerm == 0'')
         else Inr (Some (im_appliedToTerm im)))
      else if index < im_markerIndex im then
        (case im_snapshot im of
           Some ss \<Rightarrow> if ss_Index ss = index then Inr (Some (ss_Term ss)) else Inr None
         | None \<Rightarrow> Inr None)
      else
        (case getLastIndex im of
           Some lastIndex \<Rightarrow>
             if index \<le> lastIndex then
               bind_res (slice_index (im_entries im) (index - im_markerIndex im))
                 (\<lambda>e. Inr (Some (e_Term e)))
             else Inr None
         | None \<Rightarrow> Inr None))"

definition im_entriesToSave :: "inMemory \<Rightarrow> Entry list" where
  "im_entriesToSave im =
     (let idx = im_savedTo im + 1
      in if idx - im_markerIndex im > slice_len (im_entries im) then []
         else drop (unat (idx - im_markerIndex im)) (im_entries im))"

definition savedLogTo :: "inMemory \<Rightarrow> u64 \<Rightarrow> u64 \<Rightarrow> inMemory res" where
  "savedLogTo im index trm =
     (if index < im_markerIndex im then Inr im
      else if length (im_entries im) = 0 then Inr im
      else if index > e_Index (last (im_entries im)) then Inr im
      else bind_res (slice_index (im_entries im) (index - im_markerIndex im)) (\<lambda>e.
             if trm \<noteq> e_Term e then Inr im else Inr (im\<lparr>im_savedTo := index\<rparr>)))"

definition savedSnapshotTo :: "inMemory \<Rightarrow> u64 \<Rightarrow> inMemory" where
  "savedSnapshotTo im index =
     (if getSnapshotIndex im = Some index then im\<lparr>im_snapshot := None\<rparr> else im)"

definition im_commitUpdate :: "inMemory \<Rightarrow> UpdateCommit \<Rightarrow> inMemory res" where
  "im_commitUpdate im cu =
     bind_res (if uc_StableLogTo cu > 0 then savedLogTo im (uc_StableLogTo cu) (uc_StableLogTerm cu)
               else Inr im) (\<lambda>im.
       Inr (if uc_StableSnapshotTo cu > 0 then savedSnapshotTo im (uc_StableSnapshotTo cu) else im))"

definition im_rateLimited :: "inMemory \<Rightarrow> bool" where
  "im_rateLimited im = il_Enabled (im_rl im)"

text \<open>\<open>im.entries = im.newEntrySlice(ents)\<close>: a fresh slice of capacity at least \<open>entrySliceSize\<close>.\<close>

definition im_newEntrySlice :: "inMemory \<Rightarrow> Entry list \<Rightarrow> inMemory" where
  "im_newEntrySlice im ents =
     im\<lparr>im_entries := ents, im_cap := max InMemEntrySliceSize (length ents)\<rparr>"

text \<open>\<open>im.entries = append(im.entries, ents...)\<close>.\<close>

definition im_append :: "inMemory \<Rightarrow> Entry list \<Rightarrow> inMemory" where
  "im_append im ents =
     (let es = im_entries im @ ents
      in im\<lparr>im_entries := es,
            im_cap := (if length es \<le> im_cap im then im_cap im
                       else im_grow im (im_cap im) (length es))\<rparr>)"

definition im_resize :: "inMemory \<Rightarrow> inMemory" where
  "im_resize im = im_newEntrySlice (im\<lparr>im_shrunk := False\<rparr>) (im_entries im)"

definition tryResize :: "inMemory \<Rightarrow> inMemory" where
  "tryResize im = (if im_shrunk im then im_resize im else im)"

definition resizeEntrySlice :: "inMemory \<Rightarrow> inMemory" where
  "resizeEntrySlice im =
     (let toResize = int (im_cap im) - int (length (im_entries im)) < int MinEntrySliceFreeSize
      in if im_shrunk im \<and> (length (im_entries im) \<le> 1 \<or> toResize) then im_resize im else im)"

definition appliedLogTo :: "inMemory \<Rightarrow> u64 \<Rightarrow> inMemory res" where
  "appliedLogTo im index =
     (if index < im_markerIndex im then Inr im
      else if length (im_entries im) = 0 then Inr im
      else if index > e_Index (last (im_entries im)) then Inr im
      else bind_res (slice_index (im_entries im) (index - im_markerIndex im)) (\<lambda>lastEntry.
        if e_Index lastEntry \<noteq> index then Inl (GoPanic ''lastEntry.Index != index'')
        else
          let im = im\<lparr>im_appliedToIndex := e_Index lastEntry, im_appliedToTerm := e_Term lastEntry\<rparr>;
              newMarkerIndex = index + 1
          in bind_res (slice_range (im_entries im) 0 (newMarkerIndex - im_markerIndex im)) (\<lambda>applied.
             bind_res (slice_from (im_entries im) (newMarkerIndex - im_markerIndex im)) (\<lambda>rest.
               let im = im\<lparr>im_shrunk := True, im_entries := rest,
                           im_cap := im_cap im - length applied, im_markerIndex := newMarkerIndex\<rparr>;
                   im = resizeEntrySlice im
               in bind_res (checkMarkerIndex im) (\<lambda>im.
                    Inr (if im_rateLimited im
                         then im\<lparr>im_rl := il_Decrease (im_rl im) (GetEntrySliceInMemSize applied)\<rparr>
                         else im))))))"

definition im_merge :: "inMemory \<Rightarrow> Entry list \<Rightarrow> inMemory res" where
  "im_merge im ents =
     (if ents = [] then Inl (GoPanic ''index out of range'')
      else
        let firstNewIndex = e_Index (hd ents);
            im = resizeEntrySlice im
        in bind_res
          (if firstNewIndex = im_markerIndex im + slice_len (im_entries im) then
             bind_res (checkEntriesToAppend (im_entries im) ents) (\<lambda>_.
               let im = im_append im ents
               in Inr (if im_rateLimited im
                       then im\<lparr>im_rl := il_Increase (im_rl im) (GetEntrySliceInMemSize ents)\<rparr>
                       else im))
           else if firstNewIndex \<le> im_markerIndex im then
             let im = im\<lparr>im_markerIndex := firstNewIndex, im_shrunk := False\<rparr>;
                 im = (im_newEntrySlice im ents)\<lparr>im_savedTo := firstNewIndex - 1\<rparr>
             in Inr (if im_rateLimited im
                     then im\<lparr>im_rl := il_Set (im_rl im) (GetEntrySliceInMemSize ents)\<rparr>
                     else im)
           else
             bind_res (im_getEntries im (im_markerIndex im) firstNewIndex) (\<lambda>existing.
             bind_res (checkEntriesToAppend existing ents) (\<lambda>_.
               let im = im\<lparr>im_shrunk := False\<rparr>;
                   im = im_append (im_newEntrySlice im existing) ents;
                   im = im\<lparr>im_savedTo := min (im_savedTo im) (firstNewIndex - 1)\<rparr>
               in Inr (if im_rateLimited im
                       then im\<lparr>im_rl := il_Set (im_rl im)
                              (GetEntrySliceInMemSize ents + GetEntrySliceInMemSize existing)\<rparr>
                       else im))))
          checkMarkerIndex)"

definition im_restore :: "inMemory \<Rightarrow> Snapshot \<Rightarrow> inMemory" where
  "im_restore im ss =
     (let im = im\<lparr>im_snapshot := Some ss, im_markerIndex := ss_Index ss + 1,
                  im_appliedToIndex := ss_Index ss, im_appliedToTerm := ss_Term ss,
                  im_shrunk := False, im_entries := [], im_cap := 0, im_savedTo := ss_Index ss\<rparr>
      in if im_rateLimited im then im\<lparr>im_rl := il_Set (im_rl im) 0\<rparr> else im)"

section \<open>The invariant\<close>

abbreviation u64_limit :: nat where
  "u64_limit \<equiv> 18446744073709551616"

definition terms_ok :: "Entry list \<Rightarrow> bool" where
  "terms_ok es \<longleftrightarrow> sorted (map e_Term es) \<and> (\<forall>e \<in> set es. e_Term e \<noteq> 0)"

definition im_pos :: "inMemory \<Rightarrow> bool" where
  "im_pos im \<longleftrightarrow>
     0 < unat (im_markerIndex im) \<and>
     unat (im_markerIndex im) + length (im_entries im) < u64_limit \<and>
     contig (unat (im_markerIndex im)) (im_entries im) \<and>
     unat (im_markerIndex im) \<le> unat (im_savedTo im) + 1 \<and>
     unat (im_savedTo im) < unat (im_markerIndex im) + length (im_entries im) \<and>
     unat (im_appliedToIndex im) < unat (im_markerIndex im) \<and>
     (\<forall>ss. im_snapshot im = Some ss \<longrightarrow> unat (ss_Index ss) < unat (im_markerIndex im))"

definition im_wf :: "inMemory \<Rightarrow> bool" where
  "im_wf im \<longleftrightarrow>
     im_pos im \<and> terms_ok (im_entries im) \<and>
     (im_appliedToIndex im \<noteq> 0 \<longrightarrow> im_appliedToTerm im \<noteq> 0) \<and>
     (im_rateLimited im \<longrightarrow> il_Get (im_rl im) = GetEntrySliceInMemSize (im_entries im))"

lemma im_wfD:
  assumes "im_wf im"
  shows "im_pos im" "terms_ok (im_entries im)"
    "im_appliedToIndex im \<noteq> 0 \<Longrightarrow> im_appliedToTerm im \<noteq> 0"
    "im_rateLimited im \<Longrightarrow> il_Get (im_rl im) = GetEntrySliceInMemSize (im_entries im)"
    "0 < unat (im_markerIndex im)"
    "unat (im_markerIndex im) + length (im_entries im) < u64_limit"
    "contig (unat (im_markerIndex im)) (im_entries im)"
    "unat (im_markerIndex im) \<le> unat (im_savedTo im) + 1"
    "unat (im_savedTo im) < unat (im_markerIndex im) + length (im_entries im)"
    "unat (im_appliedToIndex im) < unat (im_markerIndex im)"
  using assms by (auto simp: im_wf_def im_pos_def)

lemma terms_ok_append:
  "terms_ok (xs @ ys) \<longleftrightarrow>
     terms_ok xs \<and> terms_ok ys \<and> (xs \<noteq> [] \<longrightarrow> ys \<noteq> [] \<longrightarrow> e_Term (last xs) \<le> e_Term (hd ys))"
proof (cases "xs = [] \<or> ys = []")
  case True
  then show ?thesis by (auto simp: terms_ok_def)
next
  case False
  then obtain xs' x ys' y where xs: "xs = xs' @ [x]" and ys: "ys = y # ys'"
    by (metis neq_Nil_conv rev_exhaust)
  show ?thesis
    by (auto simp: terms_ok_def xs ys sorted_append) (meson order.trans)
qed

lemma terms_ok_take [intro]: "terms_ok es \<Longrightarrow> terms_ok (take n es)"
  by (metis append_take_drop_id terms_ok_append)

lemma terms_ok_drop [intro]: "terms_ok es \<Longrightarrow> terms_ok (drop n es)"
  by (metis append_take_drop_id terms_ok_append)

lemma resizeEntrySlice_frame [simp]:
  "im_snapshot (resizeEntrySlice im) = im_snapshot im"
  "im_rl (resizeEntrySlice im) = im_rl im"
  "im_entries (resizeEntrySlice im) = im_entries im"
  "im_savedTo (resizeEntrySlice im) = im_savedTo im"
  "im_markerIndex (resizeEntrySlice im) = im_markerIndex im"
  "im_appliedToIndex (resizeEntrySlice im) = im_appliedToIndex im"
  "im_appliedToTerm (resizeEntrySlice im) = im_appliedToTerm im"
  by (simp_all add: resizeEntrySlice_def im_resize_def im_newEntrySlice_def Let_def)

lemma tryResize_frame [simp]:
  "im_snapshot (tryResize im) = im_snapshot im"
  "im_rl (tryResize im) = im_rl im"
  "im_entries (tryResize im) = im_entries im"
  "im_savedTo (tryResize im) = im_savedTo im"
  "im_markerIndex (tryResize im) = im_markerIndex im"
  "im_appliedToIndex (tryResize im) = im_appliedToIndex im"
  "im_appliedToTerm (tryResize im) = im_appliedToTerm im"
  "im_snapshot (im_resize im) = im_snapshot im"
  "im_rl (im_resize im) = im_rl im"
  "im_entries (im_resize im) = im_entries im"
  "im_savedTo (im_resize im) = im_savedTo im"
  "im_markerIndex (im_resize im) = im_markerIndex im"
  "im_appliedToIndex (im_resize im) = im_appliedToIndex im"
  "im_appliedToTerm (im_resize im) = im_appliedToTerm im"
  by (simp_all add: tryResize_def im_resize_def im_newEntrySlice_def)

lemma im_wf_cong:
  assumes "im_snapshot im' = im_snapshot im" "im_rl im' = im_rl im" "im_entries im' = im_entries im"
    "im_savedTo im' = im_savedTo im" "im_markerIndex im' = im_markerIndex im"
    "im_appliedToIndex im' = im_appliedToIndex im" "im_appliedToTerm im' = im_appliedToTerm im"
  shows "im_wf im' = im_wf im"
  by (simp add: im_wf_def im_pos_def im_rateLimited_def assms)

lemma im_wf_resize [simp]:
  "im_wf (resizeEntrySlice im) = im_wf im" "im_wf (tryResize im) = im_wf im"
  "im_wf (im_resize im) = im_wf im"
  by (rule im_wf_cong; simp)+

lemma unat_upper:
  "unat m + length es < u64_limit \<Longrightarrow> unat (m + slice_len es :: u64) = unat m + length es"
  by (subst unat_add_u64) (simp_all add: unat_of_nat_u64)

lemma checkEntriesToAppend_ok:
  assumes "xs = [] \<or> ys = [] \<or>
     (Suc (unat (e_Index (last xs))) = unat (e_Index (hd ys)) \<and> e_Term (last xs) \<le> e_Term (hd ys))"
  shows "checkEntriesToAppend xs ys = Inr ()"
proof (cases "xs = [] \<or> ys = []")
  case True
  then show ?thesis by (auto simp: checkEntriesToAppend_def)
next
  case False
  with assms have suc: "Suc (unat (e_Index (last xs))) = unat (e_Index (hd ys))"
    and le: "e_Term (last xs) \<le> e_Term (hd ys)" by auto
  have "unat (e_Index (last xs)) < 18446744073709551615"
    using suc u64_unat_lt [of "e_Index (hd ys)"] by linarith
  then have "unat (e_Index (last xs) + 1) = unat (e_Index (hd ys))"
    by (simp add: suc unat_Suc_u64 u64_neq_max)
  then have "e_Index (last xs) + 1 = e_Index (hd ys)" by (simp only: word_unat_eq_iff)
  with False le show ?thesis by (simp add: checkEntriesToAppend_def)
qed

lemma il_upd_simps [simp]:
  "il_Get (il_Increase r sz) = il_Get r + sz" "il_Get (il_Decrease r sz) = il_Get r - sz"
  "il_Get (il_Set r sz) = sz"
  "il_Enabled (il_Increase r sz) = il_Enabled r" "il_Enabled (il_Decrease r sz) = il_Enabled r"
  "il_Enabled (il_Set r sz) = il_Enabled r"
  by (simp_all add: il_Get_def il_Increase_def il_Decrease_def il_Set_def il_Enabled_def
      rl_Get_def rl_Increase_def rl_Set_def rl_Enabled_def) (simp_all add: rl_Decrease_def)

section \<open>Merging new entries\<close>

text \<open>
  What the callers of \<open>merge\<close> guarantee: the new entries are contiguous with good terms, start at
  or below the first free index and above everything applied, and fit the term of the entry before
  them.
\<close>

definition merge_pre :: "inMemory \<Rightarrow> Entry list \<Rightarrow> bool" where
  "merge_pre im ents \<longleftrightarrow>
     (let f = unat (e_Index (hd ents)); m = unat (im_markerIndex im) in
      ents \<noteq> [] \<and> contig f ents \<and> terms_ok ents \<and> f + length ents < u64_limit \<and>
      0 < f \<and> f \<le> m + length (im_entries im) \<and> unat (im_appliedToIndex im) < f \<and>
      (\<forall>ss. im_snapshot im = Some ss \<longrightarrow> unat (ss_Index ss) < f) \<and>
      (m < f \<longrightarrow> e_Term (im_entries im ! (f - 1 - m)) \<le> e_Term (hd ents)))"

text \<open>The value \<open>merge\<close> leaves: old entries below the first new index, then the new ones.\<close>

definition merged :: "inMemory \<Rightarrow> Entry list \<Rightarrow> inMemory \<Rightarrow> bool" where
  "merged im ents im' \<longleftrightarrow>
     (let f = unat (e_Index (hd ents)); m = unat (im_markerIndex im) in
      im_entries im' = take (f - m) (im_entries im) @ ents \<and>
      im_markerIndex im' = min (im_markerIndex im) (e_Index (hd ents)) \<and>
      im_savedTo im' = min (im_savedTo im) (e_Index (hd ents) - 1) \<and>
      im_snapshot im' = im_snapshot im \<and>
      im_appliedToIndex im' = im_appliedToIndex im \<and>
      im_appliedToTerm im' = im_appliedToTerm im \<and>
      il_Enabled (im_rl im') = il_Enabled (im_rl im) \<and>
      (il_Enabled (im_rl im) \<longrightarrow> il_Get (im_rl im) = GetEntrySliceInMemSize (im_entries im) \<longrightarrow>
         il_Get (im_rl im') = GetEntrySliceInMemSize (im_entries im')))"

lemma unat_min [simp]: "unat (min a b :: u64) = min (unat a) (unat b)"
  by (simp add: min_def word_le_nat_alt)

lemma unat_max [simp]: "unat (max a b :: u64) = max (unat a) (unat b)"
  by (simp add: max_def word_le_nat_alt)

lemma merged_wf:
  assumes wf: "im_wf im" and pre: "merge_pre im ents" and m: "merged im ents im'"
  shows "im_wf im'"
proof -
  define f where "f = unat (e_Index (hd ents))"
  define mk where "mk = unat (im_markerIndex im)"
  note w = im_wfD [OF wf, folded mk_def]
  from pre have p: "ents \<noteq> []" "contig f ents" "terms_ok ents" "f + length ents < u64_limit"
    "0 < f" "f \<le> mk + length (im_entries im)" "unat (im_appliedToIndex im) < f"
    "\<forall>ss. im_snapshot im = Some ss \<longrightarrow> unat (ss_Index ss) < f"
    "mk < f \<Longrightarrow> e_Term (im_entries im ! (f - 1 - mk)) \<le> e_Term (hd ents)"
    by (auto simp: merge_pre_def Let_def f_def mk_def)
  from m have e: "im_entries im' = take (f - mk) (im_entries im) @ ents"
    and mk': "unat (im_markerIndex im') = min mk f"
    and sv: "unat (im_savedTo im') = min (unat (im_savedTo im)) (f - 1)"
    using p(5) by (auto simp: merged_def Let_def f_def mk_def unat_pred_u64 unat_gt_0)
  have cont: "contig (min mk f) (take (f - mk) (im_entries im) @ ents)"
  proof (cases "mk \<le> f")
    case True
    with p(6) have "mk + min (length (im_entries im)) (f - mk) = f" by simp
    with w(7) p(2) True show ?thesis by (auto simp: contig_append min_absorb1)
  qed (use p(2) in \<open>simp add: min_def\<close>)
  have "terms_ok (take (f - mk) (im_entries im) @ ents)"
  proof (cases "mk < f")
    case True
    with p(6) have ne: "take (f - mk) (im_entries im) \<noteq> []" by auto
    from True p(6) have "length (take (f - mk) (im_entries im)) = f - mk" by auto
    with True have "last (take (f - mk) (im_entries im)) = im_entries im ! (f - 1 - mk)"
      unfolding last_conv_nth [OF ne] by simp
    with w(2) p(3) p(9) [OF True] show ?thesis by (auto simp: terms_ok_append)
  next
    case False
    with p(3) show ?thesis by simp
  qed
  moreover have "im_pos im'"
  proof -
    have len: "min mk f + length (im_entries im') = f + length ents"
      unfolding e using p(6) by simp
    have "unat (im_savedTo im') < f + length ents"
      unfolding sv using p(5) by linarith
    moreover have "min mk f \<le> unat (im_savedTo im') + 1"
      unfolding sv using w(8) p(5) by linarith
    moreover have "im_appliedToIndex im' = im_appliedToIndex im" "im_snapshot im' = im_snapshot im"
      using m by (simp_all add: merged_def Let_def)
    moreover have "\<forall>ss. im_snapshot im = Some ss \<longrightarrow> unat (ss_Index ss) < min mk f"
      using p(8) w(1) by (simp add: im_pos_def mk_def)
    moreover have "0 < min mk f" "unat (im_appliedToIndex im) < min mk f"
      using w(5,10) p(5,7) by simp_all
    ultimately show ?thesis
      using p(4) cont unfolding im_pos_def mk' len unfolding e by simp
  qed
  ultimately show ?thesis
    using m w by (auto simp: im_wf_def e merged_def Let_def im_rateLimited_def)
qed

lemma merge_check:
  assumes wf: "im_wf im" and pre: "merge_pre im ents"
  shows "checkEntriesToAppend
     (take (unat (e_Index (hd ents)) - unat (im_markerIndex im)) (im_entries im)) ents = Inr ()"
proof (cases "unat (im_markerIndex im) < unat (e_Index (hd ents))")
  case True
  let ?n = "unat (e_Index (hd ents)) - unat (im_markerIndex im)"
  from pre True have n: "?n \<le> length (im_entries im)" "0 < ?n"
    and t: "e_Term (im_entries im ! (?n - 1)) \<le> e_Term (hd ents)"
    by (auto simp: merge_pre_def Let_def)
  then have l: "last (take ?n (im_entries im)) = im_entries im ! (?n - 1)"
    by (subst last_conv_nth) auto
  have "unat (e_Index (im_entries im ! (?n - 1))) = unat (im_markerIndex im) + (?n - 1)"
    using im_wfD(7) [OF wf] n by (intro contig_nth) auto
  with t True show ?thesis by (intro checkEntriesToAppend_ok) (simp add: l)
qed (simp add: checkEntriesToAppend_def)

lemma im_getEntries_spec:
  assumes wf: "im_wf im" and le: "im_markerIndex im \<le> low" "low \<le> high"
    and hi: "unat high \<le> unat (im_markerIndex im) + length (im_entries im)"
  shows "im_getEntries im low high =
     Inr (take (unat high - unat low) (drop (unat low - unat (im_markerIndex im)) (im_entries im)))"
proof -
  note w = im_wfD [OF wf]
  have up: "unat (im_markerIndex im + slice_len (im_entries im)) =
      unat (im_markerIndex im) + length (im_entries im)" by (rule unat_upper [OF w(6)])
  have "high \<le> im_markerIndex im + slice_len (im_entries im)"
    unfolding word_le_nat_alt up by (rule hi)
  moreover have l: "unat (low - im_markerIndex im) = unat low - unat (im_markerIndex im)"
    "unat (high - im_markerIndex im) = unat high - unat (im_markerIndex im)"
    using le by (simp_all add: unat_sub_u64)
  ultimately show ?thesis
    using le hi
    by (auto simp: im_getEntries_def slice_range_def word_le_nat_alt word_less_nat_alt l up drop_take)
qed

lemma checkMarkerIndex_ok:
  "im_pos im \<Longrightarrow> checkMarkerIndex im = Inr im"
  by (cases "im_entries im") (auto simp: checkMarkerIndex_def im_pos_def word_unat_eq_iff)

lemma im_append_frame [simp]:
  "im_entries (im_append im ents) = im_entries im @ ents"
  "im_snapshot (im_append im ents) = im_snapshot im"
  "im_rl (im_append im ents) = im_rl im"
  "im_savedTo (im_append im ents) = im_savedTo im"
  "im_markerIndex (im_append im ents) = im_markerIndex im"
  "im_appliedToIndex (im_append im ents) = im_appliedToIndex im"
  "im_appliedToTerm (im_append im ents) = im_appliedToTerm im"
  by (simp_all add: im_append_def Let_def)

lemma im_newEntrySlice_frame [simp]:
  "im_entries (im_newEntrySlice im ents) = ents"
  "im_snapshot (im_newEntrySlice im ents) = im_snapshot im"
  "im_rl (im_newEntrySlice im ents) = im_rl im"
  "im_savedTo (im_newEntrySlice im ents) = im_savedTo im"
  "im_markerIndex (im_newEntrySlice im ents) = im_markerIndex im"
  "im_appliedToIndex (im_newEntrySlice im ents) = im_appliedToIndex im"
  "im_appliedToTerm (im_newEntrySlice im ents) = im_appliedToTerm im"
  by (simp_all add: im_newEntrySlice_def)

text \<open>The three branches of \<open>merge\<close>: append, replace everything, truncate and append.\<close>

lemma merge_pre_resize [simp]:
  "merge_pre (resizeEntrySlice im) ents = merge_pre im ents"
  "merged (resizeEntrySlice im) ents im' = merged im ents im'"
  by (simp_all add: merge_pre_def merged_def)

lemma min_word_absorb: "unat a \<le> unat b \<Longrightarrow> min (a::u64) b = a" "unat b \<le> unat a \<Longrightarrow> min a b = b"
  by (auto simp: min_def word_le_nat_alt word_unat_eq_iff)

lemma merged_append:
  assumes wf: "im_wf im" and pre: "merge_pre im ents"
    and f: "e_Index (hd ents) = im_markerIndex im + slice_len (im_entries im)"
    and fld: "im_entries im' = im_entries im @ ents" "im_markerIndex im' = im_markerIndex im"
      "im_savedTo im' = im_savedTo im" "im_snapshot im' = im_snapshot im"
      "im_appliedToIndex im' = im_appliedToIndex im" "im_appliedToTerm im' = im_appliedToTerm im"
      "im_rl im' = (if im_rateLimited im then il_Increase (im_rl im) (GetEntrySliceInMemSize ents)
                    else im_rl im)"
  shows "merged im ents im'"
proof -
  note w = im_wfD [OF wf]
  from w(6) f have nf: "unat (e_Index (hd ents)) = unat (im_markerIndex im) + length (im_entries im)"
    by (simp add: unat_upper)
  with w(5) have "e_Index (hd ents) \<noteq> 0" by (metis add_is_0 less_numeral_extra(3) unat_0)
  then have "unat (e_Index (hd ents) - 1) = unat (im_markerIndex im) + length (im_entries im) - 1"
    by (simp add: unat_pred_u64 nf)
  with w(9) have "min (im_savedTo im) (e_Index (hd ents) - 1) = im_savedTo im"
    by (intro min_word_absorb) linarith
  moreover have "min (im_markerIndex im) (e_Index (hd ents)) = im_markerIndex im"
    by (rule min_word_absorb) (simp add: nf)
  ultimately show ?thesis by (simp add: merged_def Let_def nf fld im_rateLimited_def add.commute)
qed

lemma merged_replace:
  assumes pre: "merge_pre im ents" and wf: "im_wf im"
    and f: "e_Index (hd ents) \<le> im_markerIndex im"
    and fld: "im_entries im' = ents" "im_markerIndex im' = e_Index (hd ents)"
      "im_savedTo im' = e_Index (hd ents) - 1" "im_snapshot im' = im_snapshot im"
      "im_appliedToIndex im' = im_appliedToIndex im" "im_appliedToTerm im' = im_appliedToTerm im"
      "im_rl im' = (if im_rateLimited im then il_Set (im_rl im) (GetEntrySliceInMemSize ents)
                    else im_rl im)"
  shows "merged im ents im'"
proof -
  note w = im_wfD [OF wf]
  have nf: "unat (e_Index (hd ents)) \<le> unat (im_markerIndex im)" using f by (simp add: word_le_nat_alt)
  from pre have "e_Index (hd ents) \<noteq> 0" by (auto simp: merge_pre_def Let_def)
  then have "unat (e_Index (hd ents) - 1) = unat (e_Index (hd ents)) - 1"
    by (simp add: unat_pred_u64)
  with w(8) nf have "min (im_savedTo im) (e_Index (hd ents) - 1) = e_Index (hd ents) - 1"
    by (intro min_word_absorb) linarith
  moreover have "min (im_markerIndex im) (e_Index (hd ents)) = e_Index (hd ents)"
    by (rule min_word_absorb) (rule nf)
  ultimately show ?thesis by (simp add: merged_def Let_def nf fld im_rateLimited_def)
qed

lemma merged_truncate:
  assumes f: "im_markerIndex im < e_Index (hd ents)"
    and fld: "im_entries im' =
        take (unat (e_Index (hd ents)) - unat (im_markerIndex im)) (im_entries im) @ ents"
      "im_markerIndex im' = im_markerIndex im"
      "im_savedTo im' = min (im_savedTo im) (e_Index (hd ents) - 1)" "im_snapshot im' = im_snapshot im"
      "im_appliedToIndex im' = im_appliedToIndex im" "im_appliedToTerm im' = im_appliedToTerm im"
      "im_rl im' = (if im_rateLimited im then il_Set (im_rl im) (GetEntrySliceInMemSize ents +
        GetEntrySliceInMemSize
          (take (unat (e_Index (hd ents)) - unat (im_markerIndex im)) (im_entries im)))
        else im_rl im)"
  shows "merged im ents im'"
  using f by (simp add: merged_def Let_def fld im_rateLimited_def add.commute)

lemma im_merge_append:
  assumes wf: "im_wf im" and pre: "merge_pre im ents"
    and f: "e_Index (hd ents) = im_markerIndex im + slice_len (im_entries im)"
  shows "\<exists>im'. im_merge im ents = bind_res (Inr im') checkMarkerIndex \<and> merged im ents im'"
proof -
  let ?im = "resizeEntrySlice im"
  define im' where "im' = (if im_rateLimited (im_append ?im ents)
    then (im_append ?im ents)\<lparr>im_rl := il_Increase (im_rl (im_append ?im ents)) (GetEntrySliceInMemSize ents)\<rparr>
    else im_append ?im ents)"
  have "unat (e_Index (hd ents)) - unat (im_markerIndex im) = length (im_entries im)"
    using im_wfD(6) [OF wf] f by (simp add: unat_upper)
  with merge_check [OF wf pre] have "checkEntriesToAppend (im_entries ?im) ents = Inr ()" by simp
  moreover have "ents \<noteq> []" using pre by (simp add: merge_pre_def Let_def)
  ultimately have "im_merge im ents = bind_res (Inr im') checkMarkerIndex"
    using f by (simp add: im_merge_def Let_def im'_def [symmetric])
  moreover have "merged im ents im'"
    by (rule merged_append [OF wf pre f]) (simp_all add: im'_def im_rateLimited_def)
  ultimately show ?thesis by blast
qed

lemma im_merge_replace:
  assumes wf: "im_wf im" and pre: "merge_pre im ents"
    and f: "e_Index (hd ents) \<noteq> im_markerIndex im + slice_len (im_entries im)"
      "e_Index (hd ents) \<le> im_markerIndex im"
  shows "\<exists>im'. im_merge im ents = bind_res (Inr im') checkMarkerIndex \<and> merged im ents im'"
proof -
  let ?im = "resizeEntrySlice im"
  let ?im1 = "(im_newEntrySlice (?im\<lparr>im_markerIndex := e_Index (hd ents), im_shrunk := False\<rparr>) ents)
    \<lparr>im_savedTo := e_Index (hd ents) - 1\<rparr>"
  define im' where "im' = (if im_rateLimited ?im1
    then ?im1\<lparr>im_rl := il_Set (im_rl ?im1) (GetEntrySliceInMemSize ents)\<rparr> else ?im1)"
  have "ents \<noteq> []" using pre by (simp add: merge_pre_def Let_def)
  then have "im_merge im ents = bind_res (Inr im') checkMarkerIndex"
    using f unfolding im_merge_def Let_def im'_def [symmetric] by simp
  moreover have "merged im ents im'"
    by (rule merged_replace [OF pre wf f(2)]) (simp_all add: im'_def im_rateLimited_def)
  ultimately show ?thesis by blast
qed

lemma im_merge_truncate:
  assumes wf: "im_wf im" and pre: "merge_pre im ents"
    and f: "e_Index (hd ents) \<noteq> im_markerIndex im + slice_len (im_entries im)"
      "im_markerIndex im < e_Index (hd ents)"
  shows "\<exists>im'. im_merge im ents = bind_res (Inr im') checkMarkerIndex \<and> merged im ents im'"
proof -
  let ?im = "resizeEntrySlice im"
  let ?ex = "take (unat (e_Index (hd ents)) - unat (im_markerIndex im)) (im_entries im)"
  have ex: "im_getEntries ?im (im_markerIndex im) (e_Index (hd ents)) = Inr ?ex"
    using im_getEntries_spec [of ?im "im_markerIndex ?im"] wf f pre
    by (simp add: merge_pre_def Let_def)
  let ?im1 = "(im_append (im_newEntrySlice (?im\<lparr>im_shrunk := False\<rparr>) ?ex) ents)
    \<lparr>im_savedTo := min (im_savedTo im) (e_Index (hd ents) - 1)\<rparr>"
  define im' where "im' = (if im_rateLimited ?im1
    then ?im1\<lparr>im_rl := il_Set (im_rl ?im1) (GetEntrySliceInMemSize ents + GetEntrySliceInMemSize ?ex)\<rparr>
    else ?im1)"
  have "ents \<noteq> []" using pre by (simp add: merge_pre_def Let_def)
  then have "im_merge im ents = bind_res (Inr im') checkMarkerIndex"
    using f ex merge_check [OF wf pre] by (simp add: im_merge_def Let_def im'_def not_le [symmetric])
  moreover have "merged im ents im'"
    by (rule merged_truncate [OF f(2)]) (simp_all add: im'_def im_rateLimited_def)
  ultimately show ?thesis by blast
qed

lemma im_merge_result:
  assumes wf: "im_wf im" and pre: "merge_pre im ents"
  shows "\<exists>im'. im_merge im ents = Inr im' \<and> merged im ents im' \<and> im_wf im'"
proof -
  have "\<exists>im'. im_merge im ents = bind_res (Inr im') checkMarkerIndex \<and> merged im ents im'"
    using im_merge_append [OF wf pre] im_merge_replace [OF wf pre] im_merge_truncate [OF wf pre]
    by (meson not_le)
  then obtain im' where "im_merge im ents = checkMarkerIndex im'" and m: "merged im ents im'"
    by auto
  with merged_wf [OF wf pre m] show ?thesis
    by (auto simp: checkMarkerIndex_ok im_wfD(1))
qed

section \<open>Persisting, applying and restoring\<close>

lemma drop_append_le: "n \<le> length xs \<Longrightarrow> drop n (xs @ ys) = drop n xs @ ys"
  by simp

lemma slice_index_im:
  assumes "im_wf im" "im_markerIndex im \<le> i" "unat i < unat (im_markerIndex im) + length (im_entries im)"
  shows "slice_index (im_entries im) (i - im_markerIndex im) =
     Inr (im_entries im ! (unat i - unat (im_markerIndex im)))"
  using assms by (auto simp: slice_index_def unat_sub_u64 word_le_nat_alt)

lemma last_index_im:
  assumes "im_wf im" "im_entries im \<noteq> []"
  shows "i \<le> e_Index (last (im_entries im)) \<longleftrightarrow>
     unat i < unat (im_markerIndex im) + length (im_entries im)"
  using contig_last [OF im_wfD(7) [OF assms(1)] assms(2)] assms(2)
  by (cases "im_entries im") (auto simp: word_le_nat_alt)

definition im_has :: "inMemory \<Rightarrow> u64 \<Rightarrow> bool" where
  "im_has im i \<longleftrightarrow> im_markerIndex im \<le> i \<and> unat i < unat (im_markerIndex im) + length (im_entries im)"

definition im_nth :: "inMemory \<Rightarrow> u64 \<Rightarrow> Entry" where
  "im_nth im i = im_entries im ! (unat i - unat (im_markerIndex im))"

lemma savedLogTo_eq:
  assumes "im_wf im"
  shows "savedLogTo im index trm =
     Inr (if im_has im index \<and> e_Term (im_nth im index) = trm then im\<lparr>im_savedTo := index\<rparr> else im)"
  using assms last_index_im [OF assms, of index] slice_index_im [OF assms, of index]
  by (auto simp: savedLogTo_def im_has_def im_nth_def not_less not_le word_less_nat_alt word_le_nat_alt)

lemma im_wf_savedTo:
  "im_wf im \<Longrightarrow> im_has im index \<Longrightarrow> im_wf (im\<lparr>im_savedTo := index\<rparr>)"
  by (auto simp: im_wf_def im_pos_def im_has_def im_rateLimited_def word_le_nat_alt)

lemma im_getTerm_has:
  assumes wf: "im_wf im" and "im_has im i"
  shows "im_getTerm im i = Inr (Some (e_Term (im_nth im i)))"
  using assms im_wfD(10) [OF wf] last_index_im [OF wf, of i] slice_index_im [OF wf, of i]
  by (cases "im_entries im") (auto simp: im_getTerm_def im_has_def im_nth_def getLastIndex_def word_le_nat_alt
      word_less_nat_alt not_less)

lemma appliedLogTo_skip:
  assumes "im_wf im" "\<not> im_has im index"
  shows "appliedLogTo im index = Inr im"
  using assms last_index_im [OF assms(1), of index]
  by (auto simp: appliedLogTo_def im_has_def not_less word_less_nat_alt word_le_nat_alt)

definition applied_to :: "inMemory \<Rightarrow> u64 \<Rightarrow> inMemory \<Rightarrow> bool" where
  "applied_to im index im' \<longleftrightarrow>
     im_markerIndex im' = index + 1 \<and>
     im_entries im' = drop (Suc (unat index - unat (im_markerIndex im))) (im_entries im) \<and>
     im_appliedToIndex im' = index \<and> im_appliedToTerm im' = e_Term (im_nth im index) \<and>
     im_savedTo im' = im_savedTo im \<and> im_snapshot im' = im_snapshot im \<and>
     im_rl im' = (if im_rateLimited im
       then il_Decrease (im_rl im) (GetEntrySliceInMemSize
              (take (Suc (unat index - unat (im_markerIndex im))) (im_entries im)))
       else im_rl im)"

lemma applied_to_wf:
  assumes wf: "im_wf im" and has: "im_has im index" and sv: "index \<le> im_savedTo im"
    and app: "applied_to im index im'"
  shows "im_wf im'"
proof -
  note w = im_wfD [OF wf]
  let ?n = "Suc (unat index - unat (im_markerIndex im))"
  have n: "?n \<le> length (im_entries im)" and mk: "unat (im_markerIndex im) + ?n = Suc (unat index)"
    using has by (auto simp: im_has_def word_le_nat_alt)
  with w(6) have lt: "Suc (unat index) < u64_limit" by linarith
  then have suc: "unat (index + 1) = Suc (unat index)" by (simp add: unat_Suc_u64 u64_neq_max)
  have c: "contig (Suc (unat index)) (drop ?n (im_entries im))"
    using contig_drop [OF w(7) n] unfolding mk .
  have len: "Suc (unat index) + length (drop ?n (im_entries im)) =
      unat (im_markerIndex im) + length (im_entries im)"
    using n mk by simp
  have "im_pos im'"
    using app w(1,5,6,9) sv mk c suc len
    unfolding im_pos_def applied_to_def by (auto simp: word_le_nat_alt)
  moreover have "im_nth im index \<in> set (im_entries im)"
    using n by (simp add: im_nth_def)
  moreover have "GetEntrySliceInMemSize (im_entries im) -
      GetEntrySliceInMemSize (take ?n (im_entries im)) = GetEntrySliceInMemSize (drop ?n (im_entries im))"
    using GetEntrySliceInMemSize_append [of "take ?n (im_entries im)" "drop ?n (im_entries im)"]
    by (simp del: drop_Suc take_Suc)
  ultimately show ?thesis
    using app w(2,4) by (auto simp: im_wf_def applied_to_def terms_ok_def im_rateLimited_def
        terms_ok_drop [unfolded terms_ok_def] split: if_splits dest: in_set_dropD)
qed

lemma appliedLogTo_has:
  assumes wf: "im_wf im" and has: "im_has im index"
  shows "\<exists>im'. appliedLogTo im index = Inr im' \<and> applied_to im index im'"
proof -
  note w = im_wfD [OF wf]
  let ?m = "im_markerIndex im" let ?n = "Suc (unat index - unat ?m)"
  have n: "?n \<le> length (im_entries im)" and mk: "unat ?m + ?n = Suc (unat index)"
    using has by (auto simp: im_has_def word_le_nat_alt)
  with w(6) have "Suc (unat index) < u64_limit" by linarith
  then have suc: "unat (index + 1) = Suc (unat index)" by (simp add: unat_Suc_u64 u64_neq_max)
  have le: "?m \<le> index + 1" using has suc by (simp add: im_has_def word_le_nat_alt)
  have sub: "unat (index + 1 - ?m) = ?n" using mk by (simp add: unat_sub_u64 [OF le] suc)
  have idx: "e_Index (im_nth im index) = index"
    using contig_nth [OF w(7), of "unat index - unat ?m"] n mk by (simp add: im_nth_def word_unat_eq_iff)
  have c: "contig (Suc (unat index)) (drop ?n (im_entries im))"
    using contig_drop [OF w(7) n] unfolding mk .
  have chk: "checkMarkerIndex x = Inr x"
    if "im_entries x = drop ?n (im_entries im)" "im_markerIndex x = index + 1" for x
    using contig_hd [OF c] that suc by (auto simp: checkMarkerIndex_def word_unat_eq_iff)
  show ?thesis
    using has wf n slice_index_im [OF wf, of index] last_index_im [OF wf, of index] idx
    by (auto simp: appliedLogTo_def im_has_def im_nth_def slice_range_def slice_from_def sub Let_def
        chk not_less applied_to_def im_rateLimited_def word_le_nat_alt word_less_nat_alt)
qed

lemma im_restore_wf:
  assumes "ss_Index ss \<noteq> - 1" "ss_Term ss \<noteq> 0"
  shows "im_wf (im_restore im ss)"
proof -
  have "unat (ss_Index ss) < 18446744073709551615" "unat (ss_Index ss + 1) = Suc (unat (ss_Index ss))"
    using assms(1) by (simp_all add: u64_neq_max [symmetric] unat_Suc_u64)
  with assms(2) show ?thesis
    by (simp add: im_wf_def im_pos_def im_restore_def Let_def terms_ok_def im_rateLimited_def)
qed

lemma newInMemory_wf:
  assumes "lastIndex \<noteq> - 1" "il_Enabled rl \<Longrightarrow> il_Get rl = 0"
  shows "im_wf (newInMemory lastIndex rl grow)"
proof -
  have "unat lastIndex < 18446744073709551615" "unat (lastIndex + 1) = Suc (unat lastIndex)"
    using assms(1) by (simp_all add: u64_neq_max [symmetric] unat_Suc_u64)
  with assms(2) show ?thesis
    by (simp add: im_wf_def im_pos_def newInMemory_def terms_ok_def im_rateLimited_def)
qed

lemma savedSnapshotTo_wf: "im_wf im \<Longrightarrow> im_wf (savedSnapshotTo im index)"
  by (auto simp: savedSnapshotTo_def im_wf_def im_pos_def im_rateLimited_def)

lemma im_entriesToSave_eq:
  assumes "im_wf im"
  shows "im_entriesToSave im =
     drop (Suc (unat (im_savedTo im)) - unat (im_markerIndex im)) (im_entries im)"
proof -
  note w = im_wfD [OF assms]
  have "unat (im_savedTo im) < 18446744073709551615" using w(6,9) by linarith
  then have s: "unat (im_savedTo im + 1) = Suc (unat (im_savedTo im))"
    by (simp add: unat_Suc_u64 u64_neq_max)
  then have "im_markerIndex im \<le> im_savedTo im + 1" using w(8) by (simp add: word_le_nat_alt)
  then have d: "unat (im_savedTo im + 1 - im_markerIndex im) =
      Suc (unat (im_savedTo im)) - unat (im_markerIndex im)"
    by (simp add: unat_sub_u64 s)
  moreover have "\<not> im_savedTo im + 1 - im_markerIndex im > slice_len (im_entries im)"
    using w(6,9) by (simp add: word_less_nat_alt d unat_of_nat_u64)
  ultimately show ?thesis by (simp add: im_entriesToSave_def)
qed

text \<open>
  The steps the raft code takes on its in-memory log. The conditions are what the callers
  establish: entries are applied only after they are persisted (\<open>entryLog.commitUpdate\<close> saves
  before it applies), and a restored snapshot has a term.
\<close>

inductive im_step :: "inMemory \<Rightarrow> inMemory \<Rightarrow> bool" where
  "merge_pre im ents \<Longrightarrow> im_merge im ents = Inr im' \<Longrightarrow> im_step im im'"
| "savedLogTo im index trm = Inr im' \<Longrightarrow> im_step im im'"
| "im_step im (savedSnapshotTo im index)"
| "index \<le> im_savedTo im \<Longrightarrow> appliedLogTo im index = Inr im' \<Longrightarrow> im_step im im'"
| "ss_Index ss \<noteq> - 1 \<Longrightarrow> ss_Term ss \<noteq> 0 \<Longrightarrow> im_step im (im_restore im ss)"
| "im_step im (tryResize im)"

lemma im_step_wf: "im_step im im' \<Longrightarrow> im_wf im \<Longrightarrow> im_wf im'"
proof (induction rule: im_step.induct)
  case (1 im ents im')
  then show ?case using im_merge_result by force
next
  case (2 im index trm im')
  then show ?case by (auto simp: savedLogTo_eq im_wf_savedTo split: if_splits)
next
  case (4 index im im')
  then show ?case
    using appliedLogTo_has [of im index] appliedLogTo_skip [of im index] applied_to_wf by fastforce
qed (auto simp: savedSnapshotTo_wf im_restore_wf)

text \<open>
  C23: A merge of new entries into a well-formed in-memory log never panics. It keeps the entries
  below the first new index, replaces everything from there by the new entries, moves the marker
  down when the new entries start below it, and pulls the persisted position back so that every
  new entry is still to be saved. The log stays well formed.
\<close>

theorem inMemory_merge_spec:
  assumes "im_wf im" and "merge_pre im ents"
  shows "\<exists>im' old. im_merge im ents = Inr im' \<and> im_wf im' \<and>
     im_entries im' =
       take (unat (e_Index (hd ents)) - unat (im_markerIndex im)) (im_entries im) @ ents \<and>
     im_markerIndex im' = min (im_markerIndex im) (e_Index (hd ents)) \<and>
     im_savedTo im' = min (im_savedTo im) (e_Index (hd ents) - 1) \<and>
     im_entriesToSave im' = old @ ents"
proof -
  obtain im' where r: "im_merge im ents = Inr im'" "merged im ents im'" "im_wf im'"
    using im_merge_result [OF assms] by blast
  let ?f = "unat (e_Index (hd ents))" let ?m = "unat (im_markerIndex im)"
  let ?xs = "take (?f - ?m) (im_entries im)" let ?k = "Suc (unat (im_savedTo im')) - unat (im_markerIndex im')"
  from assms(2) have p: "0 < ?f" "?f \<le> ?m + length (im_entries im)"
    by (simp_all add: merge_pre_def Let_def)
  from p(1) have "unat (e_Index (hd ents) - 1) = ?f - 1" by (simp add: unat_pred_u64 unat_gt_0)
  with r(2) have "unat (im_savedTo im') \<le> ?f - 1" "unat (im_markerIndex im') = min ?m ?f"
    by (simp_all add: merged_def Let_def)
  with p have "?k \<le> length ?xs" unfolding length_take by linarith
  then have "drop ?k (?xs @ ents) = drop ?k ?xs @ ents" by (rule drop_append_le)
  moreover have "im_entries im' = ?xs @ ents" using r(2) by (simp add: merged_def Let_def)
  ultimately have "im_entriesToSave im' = drop ?k ?xs @ ents"
    by (simp only: im_entriesToSave_eq [OF r(3)])
  with r show ?thesis by (auto simp: merged_def Let_def)
qed

definition demo_entry :: "u64 \<Rightarrow> u64 \<Rightarrow> Entry" where
  "demo_entry index trm = zero_Entry\<lparr>e_Index := index, e_Term := trm\<rparr>"

definition demo_inMemory :: inMemory where
  "demo_inMemory = (newInMemory 4 (NewInMemRateLimiter 0) (\<lambda>c n. n))
     \<lparr>im_entries := [demo_entry 5 1, demo_entry 6 1, demo_entry 7 1], im_savedTo := 7\<rparr>"

lemma demo_inMemory_wf: "im_wf demo_inMemory"
  by (simp add: im_wf_def im_pos_def demo_inMemory_def demo_entry_def newInMemory_def terms_ok_def
      im_rateLimited_def il_Enabled_def NewInMemRateLimiter_def NewRateLimiter_def rl_Enabled_def)

theorem inMemory_merge_spec_witness:
  "\<exists>im'. im_merge demo_inMemory [demo_entry 6 2] = Inr im' \<and>
     im_entries im' = [demo_entry 5 1, demo_entry 6 2] \<and> im_savedTo im' = 5"
proof -
  have pre: "merge_pre demo_inMemory [demo_entry 6 2]"
    by (simp add: merge_pre_def demo_inMemory_def demo_entry_def newInMemory_def terms_ok_def)
  have "take (unat (e_Index (hd [demo_entry 6 2])) - unat (im_markerIndex demo_inMemory))
      (im_entries demo_inMemory) @ [demo_entry 6 2] = [demo_entry 5 1, demo_entry 6 2]"
    "min (im_savedTo demo_inMemory) (e_Index (hd [demo_entry 6 2]) - 1) = 5"
    by (simp_all add: demo_inMemory_def demo_entry_def newInMemory_def min_def)
  with inMemory_merge_spec [OF demo_inMemory_wf pre] show ?thesis by metis
qed

text \<open>
  C24: Along every run of the in-memory log (merges, persist and apply acknowledgements, snapshot
  restores, resizes, from a fresh log) the invariant holds: the entries are contiguous from the
  marker with non-decreasing non-zero terms, everything applied is below the marker, the persisted
  position stays inside the log, and the rate limiter counts exactly the bytes held in memory.
\<close>

theorem inMemory_run_invariant:
  assumes "lastIndex \<noteq> - 1" "il_Enabled rl \<Longrightarrow> il_Get rl = 0"
    and "im_step\<^sup>*\<^sup>* (newInMemory lastIndex rl grow) im"
  shows "im_wf im"
  using assms(3) by (induction rule: rtranclp_induct)
    (auto intro: im_step_wf newInMemory_wf [OF assms(1,2)])

theorem inMemory_run_invariant_witness:
  "im_wf (tryResize (newInMemory 4 (NewInMemRateLimiter 100) (\<lambda>c n. n)))"
proof (rule inMemory_run_invariant)
  show "im_step\<^sup>*\<^sup>* (newInMemory 4 (NewInMemRateLimiter 100) (\<lambda>c n. n))
      (tryResize (newInMemory 4 (NewInMemRateLimiter 100) (\<lambda>c n. n)))"
    by (rule r_into_rtranclp) (rule im_step.intros(6))
qed (simp_all add: il_Get_def NewInMemRateLimiter_def NewRateLimiter_def rl_Get_def)

end
