(* ===== verification/EntryLog.thy ===== *)
theory EntryLog
  imports InMemory
begin

text \<open>
  \<^verbatim>\<open>raft/internal/raft/logentry.go\<close>: the entry log of a replica, the in-memory log of
  \<^theory_text>\<open>InMemory\<close> on top of the persisted log. The raft package reads the persisted log through
  the interface \<open>ILogDB\<close>; the read operations it uses are the fields of the record of that name.

  The locale \<open>ilogdb\<close> is the contract of that interface: the persisted log holds the entries of an
  index range, \<open>Term\<close> knows in addition the term just below the range, and \<open>Entries\<close> returns a
  non-empty prefix of what is asked for, within the size limit. Inside it the entry log is shown to
  behave as one sequence of entries: \<open>term\<close> and \<open>getEntries\<close> read that sequence whichever part
  holds the entries, and \<open>tryAppend\<close> changes it only from the first conflict on, which is above the
  committed index.
\<close>

record ILogDB =
  ld_GetRange :: "u64 \<times> u64"
  ld_NodeState :: "State \<times> Membership"
  ld_Term :: "u64 \<Rightarrow> u64 res"
  ld_Entries :: "u64 \<Rightarrow> u64 \<Rightarrow> u64 \<Rightarrow> Entry list res"
  ld_Snapshot :: Snapshot

record entryLog =
  lg_logdb :: ILogDB
  lg_inmem :: inMemory
  lg_committed :: u64
  lg_processed :: u64

definition newEntryLog :: "ILogDB \<Rightarrow> InMemRateLimiter \<Rightarrow> (nat \<Rightarrow> nat \<Rightarrow> nat) \<Rightarrow> entryLog" where
  "newEntryLog logdb rl grow =
     (case ld_GetRange logdb of (firstIndex, lastIndex) \<Rightarrow>
        \<lparr>lg_logdb = logdb, lg_inmem = newInMemory lastIndex rl grow,
         lg_committed = firstIndex - 1, lg_processed = firstIndex - 1\<rparr>)"

definition lg_firstIndex :: "entryLog \<Rightarrow> u64" where
  "lg_firstIndex l =
     (case getSnapshotIndex (lg_inmem l) of
        Some index \<Rightarrow> index + 1
      | None \<Rightarrow> fst (ld_GetRange (lg_logdb l)))"

definition lg_lastIndex :: "entryLog \<Rightarrow> u64" where
  "lg_lastIndex l =
     (case getLastIndex (lg_inmem l) of
        Some index \<Rightarrow> index
      | None \<Rightarrow> snd (ld_GetRange (lg_logdb l)))"

definition termEntryRange :: "entryLog \<Rightarrow> u64 \<times> u64" where
  "termEntryRange l = (lg_firstIndex l - 1, lg_lastIndex l)"

definition entryRange :: "entryLog \<Rightarrow> (u64 \<times> u64) option" where
  "entryRange l =
     (if im_snapshot (lg_inmem l) \<noteq> None \<and> length (im_entries (lg_inmem l)) = 0 then None
      else Some (lg_firstIndex l, lg_lastIndex l))"

definition lg_term :: "entryLog \<Rightarrow> u64 \<Rightarrow> u64 res" where
  "lg_term l index =
     (case termEntryRange l of (frst, lst) \<Rightarrow>
        if index < frst \<or> index > lst then Inr 0
        else bind_res (im_getTerm (lg_inmem l) index) (\<lambda>t.
               case t of Some t \<Rightarrow> Inr t
               | None \<Rightarrow> bind_res (ld_Term (lg_logdb l) index) Inr))"

definition lg_lastTerm :: "entryLog \<Rightarrow> u64 res" where
  "lg_lastTerm l = bind_res (lg_term l (lg_lastIndex l)) Inr"

definition checkBound :: "entryLog \<Rightarrow> u64 \<Rightarrow> u64 \<Rightarrow> unit res" where
  "checkBound l low high =
     (if low > high then Inl (GoPanic ''input low > high'')
      else case entryRange l of
             None \<Rightarrow> Inl ErrCompacted
           | Some (frst, lst) \<Rightarrow>
               if low < frst then Inl ErrCompacted
               else if high > lst + 1 then Inl (GoPanic ''requested range is out of bound'')
               else Inr ())"

definition getEntriesFromInMem :: "entryLog \<Rightarrow> Entry list \<Rightarrow> u64 \<Rightarrow> u64 \<Rightarrow> Entry list res" where
  "getEntriesFromInMem l ents low high =
     (if high \<le> im_markerIndex (lg_inmem l) then Inr ents
      else
        let lowerBound = max low (im_markerIndex (lg_inmem l))
        in bind_res (im_getEntries (lg_inmem l) lowerBound high) (\<lambda>inmem.
             if length inmem > 0 then
               (if length ents > 0 then
                  bind_res (checkEntriesToAppend ents inmem) (\<lambda>_. Inr (ents @ inmem))
                else Inr inmem)
             else Inr ents))"

definition getUncommittedEntries :: "entryLog \<Rightarrow> Entry list res" where
  "getUncommittedEntries l =
     (let lastIndex = im_markerIndex (lg_inmem l) + slice_len (im_entries (lg_inmem l))
      in getEntriesFromInMem l [] (lg_committed l + 1) lastIndex)"

definition getEntriesFromLogDB :: "entryLog \<Rightarrow> u64 \<Rightarrow> u64 \<Rightarrow> u64 \<Rightarrow> (Entry list \<times> bool) res" where
  "getEntriesFromLogDB l low high maxSize =
     (if low \<ge> im_markerIndex (lg_inmem l) then Inr ([], True)
      else
        let upperBound = min high (im_markerIndex (lg_inmem l))
        in bind_res (ld_Entries (lg_logdb l) low upperBound maxSize) (\<lambda>ents.
             if slice_len ents > upperBound - low
             then Inl (GoPanic ''uint64(len(ents)) > upperBound-low'')
             else Inr (ents, slice_len ents = upperBound - low)))"

definition lg_getEntries :: "entryLog \<Rightarrow> u64 \<Rightarrow> u64 \<Rightarrow> u64 \<Rightarrow> Entry list res" where
  "lg_getEntries l low high maxSize =
     bind_res (checkBound l low high) (\<lambda>_.
       if low = high then Inr []
       else bind_res (getEntriesFromLogDB l low high maxSize) (\<lambda>(ents, checkInMem).
              if \<not> checkInMem then Inr ents
              else bind_res (getEntriesFromInMem l ents low high) (\<lambda>ents.
                     Inr (limitSize ents maxSize))))"

definition lg_entries :: "entryLog \<Rightarrow> u64 \<Rightarrow> u64 \<Rightarrow> Entry list res" where
  "lg_entries l start maxSize =
     (if start > lg_lastIndex l then Inr []
      else lg_getEntries l start (lg_lastIndex l + 1) maxSize)"

definition lg_snapshot :: "entryLog \<Rightarrow> Snapshot" where
  "lg_snapshot l =
     (case im_snapshot (lg_inmem l) of Some ss \<Rightarrow> ss | None \<Rightarrow> ld_Snapshot (lg_logdb l))"

definition firstNotAppliedIndex :: "entryLog \<Rightarrow> u64" where
  "firstNotAppliedIndex l = max (lg_processed l + 1) (lg_firstIndex l)"

definition toApplyIndexLimit :: "entryLog \<Rightarrow> u64" where
  "toApplyIndexLimit l = lg_committed l + 1"

definition hasEntriesToApply :: "entryLog \<Rightarrow> bool" where
  "hasEntriesToApply l \<longleftrightarrow> toApplyIndexLimit l > firstNotAppliedIndex l"

definition hasMoreEntriesToApply :: "entryLog \<Rightarrow> u64 \<Rightarrow> bool" where
  "hasMoreEntriesToApply l appliedTo \<longleftrightarrow> lg_committed l > appliedTo"

definition getEntriesToApply :: "entryLog \<Rightarrow> u64 \<Rightarrow> Entry list res" where
  "getEntriesToApply l limit =
     (if hasEntriesToApply l
      then lg_getEntries l (firstNotAppliedIndex l) (toApplyIndexLimit l) limit
      else Inr [])"

definition entriesToApply :: "entryLog \<Rightarrow> Entry list res" where
  "entriesToApply l = getEntriesToApply l MaxApplyEntrySize"

definition getCommittedEntries :: "entryLog \<Rightarrow> u64 \<Rightarrow> u64 \<Rightarrow> u64 \<Rightarrow> Entry list res" where
  "getCommittedEntries l low high maxSize =
     (if low < lg_firstIndex l \<or> low > lg_committed l then Inl ErrCompacted
      else let high = min high (lg_committed l + 1)
           in if low = high then Inr [] else lg_getEntries l low high maxSize)"

definition lg_entriesToSave :: "entryLog \<Rightarrow> Entry list" where
  "lg_entriesToSave l = im_entriesToSave (lg_inmem l)"

definition matchTerm :: "entryLog \<Rightarrow> u64 \<Rightarrow> u64 \<Rightarrow> bool res" where
  "matchTerm l index trm = bind_res (lg_term l index) (\<lambda>lt. Inr (lt = trm))"

fun getConflictIndex :: "entryLog \<Rightarrow> Entry list \<Rightarrow> u64 res" where
  "getConflictIndex l [] = Inr 0"
| "getConflictIndex l (e # entries) =
     bind_res (matchTerm l (e_Index e) (e_Term e)) (\<lambda>match.
       if \<not> match then Inr (e_Index e) else getConflictIndex l entries)"

definition lg_append :: "entryLog \<Rightarrow> Entry list \<Rightarrow> entryLog res" where
  "lg_append l entries =
     (if length entries = 0 then Inr l
      else if e_Index (hd entries) \<le> lg_committed l
        then Inl (GoPanic ''committed entries being changed'')
      else bind_res (im_merge (lg_inmem l) entries) (\<lambda>im. Inr (l\<lparr>lg_inmem := im\<rparr>)))"

definition tryAppend :: "entryLog \<Rightarrow> u64 \<Rightarrow> Entry list \<Rightarrow> (entryLog \<times> bool) res" where
  "tryAppend l index ents =
     bind_res (getConflictIndex l ents) (\<lambda>conflictIndex.
       if conflictIndex \<noteq> 0 then
         (if conflictIndex \<le> lg_committed l
          then Inl (GoPanic ''entry conflicts with committed entry'')
          else bind_res (slice_from ents (conflictIndex - index - 1)) (\<lambda>toAppend.
               bind_res (lg_append l toAppend) (\<lambda>l. Inr (l, True))))
       else Inr (l, False))"

definition commitTo :: "entryLog \<Rightarrow> u64 \<Rightarrow> entryLog res" where
  "commitTo l index =
     (if index \<le> lg_committed l then Inr l
      else if index > lg_lastIndex l then Inl (GoPanic ''invalid commitTo index'')
      else if index < lg_committed l then Inl (GoPanic ''committed value moving backwards'')
      else Inr (l\<lparr>lg_committed := index\<rparr>))"

definition lg_commitUpdate :: "entryLog \<Rightarrow> UpdateCommit \<Rightarrow> entryLog res" where
  "lg_commitUpdate l cu =
     bind_res (im_commitUpdate (lg_inmem l) cu) (\<lambda>im.
       let l = l\<lparr>lg_inmem := im\<rparr>
       in bind_res
            (if uc_Processed cu > 0 then
               (if uc_Processed cu < lg_processed l \<or> uc_Processed cu > lg_committed l
                then Inl (GoPanic ''invalid ApplyReturnedTo'')
                else Inr (l\<lparr>lg_processed := uc_Processed cu\<rparr>))
             else Inr l) (\<lambda>l.
            if uc_LastApplied cu > 0 then
              (if uc_LastApplied cu > lg_committed l then Inl (GoPanic ''invalid last applied, committed'')
               else if uc_LastApplied cu > lg_processed l
                 then Inl (GoPanic ''invalid last applied, processed'')
               else bind_res (appliedLogTo (lg_inmem l) (uc_LastApplied cu)) (\<lambda>im.
                      Inr (l\<lparr>lg_inmem := im\<rparr>)))
            else Inr l))"

definition upToDate :: "entryLog \<Rightarrow> u64 \<Rightarrow> u64 \<Rightarrow> bool res" where
  "upToDate l index trm =
     bind_res (lg_term l (lg_lastIndex l)) (\<lambda>lastTerm.
       Inr (if trm \<ge> lastTerm then (if trm > lastTerm then True else index \<ge> lg_lastIndex l)
            else False))"

definition lg_tryCommit :: "entryLog \<Rightarrow> u64 \<Rightarrow> u64 \<Rightarrow> (entryLog \<times> bool) res" where
  "lg_tryCommit l index trm =
     (if index \<le> lg_committed l then Inr (l, False)
      else bind_res (case lg_term l index of
                       Inl ErrCompacted \<Rightarrow> Inr 0
                     | Inl err \<Rightarrow> Inl err
                     | Inr lterm \<Rightarrow> Inr lterm) (\<lambda>lterm.
             if index > lg_committed l \<and> lterm = trm
             then bind_res (commitTo l index) (\<lambda>l. Inr (l, True))
             else Inr (l, False)))"

definition lg_restore :: "entryLog \<Rightarrow> Snapshot \<Rightarrow> entryLog res" where
  "lg_restore l ss =
     (let l = l\<lparr>lg_inmem := im_restore (lg_inmem l) ss\<rparr>
      in if ss_Index ss < lg_committed l then Inl (GoPanic ''committed value moving backwards'')
         else Inr (l\<lparr>lg_committed := ss_Index ss, lg_processed := ss_Index ss\<rparr>))"

section \<open>The log as one sequence\<close>

text \<open>
  \<open>el_wf trm l\<close> ties the two parts of the log together: without a pending snapshot the in-memory
  part continues the persisted range, with one it starts just above the snapshot. \<open>trm\<close> gives the
  terms of the persisted entries. \<open>el_first\<close> and \<open>el_last\<close> are the bounds of the log,
  \<open>el_ent\<close> and \<open>el_term\<close> its entries and their terms, read from whichever part holds them.
\<close>

definition el_first :: "entryLog \<Rightarrow> nat" where
  "el_first l = (case im_snapshot (lg_inmem l) of
      Some ss \<Rightarrow> Suc (unat (ss_Index ss)) | None \<Rightarrow> unat (fst (ld_GetRange (lg_logdb l))))"

definition el_last :: "entryLog \<Rightarrow> nat" where
  "el_last l = unat (im_markerIndex (lg_inmem l)) + length (im_entries (lg_inmem l)) - 1"

definition el_ent :: "(nat \<Rightarrow> Entry) \<Rightarrow> entryLog \<Rightarrow> nat \<Rightarrow> Entry" where
  "el_ent ent l i =
     (let m = unat (im_markerIndex (lg_inmem l))
      in if m \<le> i then im_entries (lg_inmem l) ! (i - m) else ent i)"

definition el_term :: "(nat \<Rightarrow> u64) \<Rightarrow> entryLog \<Rightarrow> nat \<Rightarrow> u64" where
  "el_term trm l i =
     (let m = unat (im_markerIndex (lg_inmem l))
      in if m \<le> i then e_Term (im_entries (lg_inmem l) ! (i - m))
         else case im_snapshot (lg_inmem l) of Some ss \<Rightarrow> ss_Term ss | None \<Rightarrow> trm i)"

definition el_lookup :: "(nat \<Rightarrow> u64) \<Rightarrow> entryLog \<Rightarrow> nat \<Rightarrow> u64" where
  "el_lookup trm l i = (if el_first l \<le> Suc i \<and> i \<le> el_last l then el_term trm l i else 0)"

definition el_joined :: "(nat \<Rightarrow> u64) \<Rightarrow> entryLog \<Rightarrow> bool" where
  "el_joined trm l \<longleftrightarrow>
     (let im = lg_inmem l; m = unat (im_markerIndex im); (f, la) = ld_GetRange (lg_logdb l) in
      case im_snapshot im of
        Some ss \<Rightarrow> m = Suc (unat (ss_Index ss)) \<and> im_appliedToIndex im = ss_Index ss \<and>
          im_appliedToTerm im = ss_Term ss
      | None \<Rightarrow> unat f \<le> m \<and> m \<le> Suc (unat la) \<and> (im_entries im = [] \<longrightarrow> m = Suc (unat la)) \<and>
          (im_appliedToIndex im \<noteq> 0 \<longrightarrow> unat f \<le> Suc (unat (im_appliedToIndex im)) \<longrightarrow>
             im_appliedToTerm im = trm (unat (im_appliedToIndex im))))"

definition el_wf :: "(nat \<Rightarrow> u64) \<Rightarrow> entryLog \<Rightarrow> bool" where
  "el_wf trm l \<longleftrightarrow>
     im_wf (lg_inmem l) \<and> el_joined trm l \<and>
     (im_entries (lg_inmem l) \<noteq> [] \<longrightarrow>
        el_term trm l (unat (im_markerIndex (lg_inmem l)) - 1) \<le> e_Term (hd (im_entries (lg_inmem l)))) \<and>
     lg_processed l \<le> lg_committed l \<and> im_appliedToIndex (lg_inmem l) \<le> lg_committed l \<and>
     el_first l \<le> Suc (unat (lg_committed l)) \<and> unat (lg_committed l) \<le> el_last l"

lemma el_wfD:
  assumes "el_wf trm l"
  shows "im_wf (lg_inmem l)" "el_joined trm l"
    "im_entries (lg_inmem l) \<noteq> [] \<Longrightarrow>
        el_term trm l (unat (im_markerIndex (lg_inmem l)) - 1) \<le> e_Term (hd (im_entries (lg_inmem l)))"
    "lg_processed l \<le> lg_committed l" "el_first l \<le> Suc (unat (lg_committed l))"
    "unat (lg_committed l) \<le> el_last l" "im_appliedToIndex (lg_inmem l) \<le> lg_committed l"
  using assms by (auto simp: el_wf_def)

lemma el_marker_first: "el_joined trm l \<Longrightarrow> el_first l \<le> unat (im_markerIndex (lg_inmem l))"
  by (auto simp: el_joined_def el_first_def Let_def split: option.splits prod.splits)

lemma unat_lg_lastIndex:
  assumes "el_wf trm l"
  shows "unat (lg_lastIndex l) = el_last l"
proof (cases "im_entries (lg_inmem l)")
  case Nil
  then show ?thesis
    using el_wfD(2) [OF assms]
    by (auto simp: lg_lastIndex_def getLastIndex_def getSnapshotIndex_def el_last_def el_joined_def
        Let_def split: option.splits prod.splits)
next
  case (Cons e es)
  then show ?thesis
    using contig_last [OF im_wfD(7) [OF el_wfD(1) [OF assms]]]
    by (simp add: lg_lastIndex_def getLastIndex_def el_last_def)
qed

lemma el_last_bound: "el_wf trm l \<Longrightarrow> Suc (el_last l) < u64_limit"
  using im_wfD(5,6) [OF el_wfD(1)] by (auto simp: el_last_def)

lemma unat_lg_firstIndex:
  assumes "el_wf trm l"
  shows "unat (lg_firstIndex l) = el_first l"
proof (cases "im_snapshot (lg_inmem l)")
  case None
  then show ?thesis by (simp add: lg_firstIndex_def getSnapshotIndex_def el_first_def)
next
  case (Some ss)
  then have "Suc (unat (ss_Index ss)) < u64_limit"
    using el_wfD(2) [OF assms] im_wfD(6) [OF el_wfD(1) [OF assms]]
    by (simp add: el_joined_def Let_def split: prod.splits)
  then show ?thesis using Some
    by (simp add: lg_firstIndex_def getSnapshotIndex_def el_first_def unat_Suc_u64 u64_neq_max)
qed

text \<open>Reading the in-memory part gives the sequence \<open>el_ent\<close>.\<close>

lemma im_getEntries_ent:
  assumes wf: "el_wf trm l" and le: "im_markerIndex (lg_inmem l) \<le> low" "low \<le> high"
    and hi: "unat high \<le> Suc (el_last l)"
  shows "im_getEntries (lg_inmem l) low high = Inr (map (el_ent ent l) [unat low..<unat high])"
proof -
  let ?im = "lg_inmem l" let ?m = "unat (im_markerIndex ?im)"
  note w = im_wfD [OF el_wfD(1) [OF wf]]
  have hi': "unat high \<le> ?m + length (im_entries ?im)" using hi w(5) by (simp add: el_last_def)
  have "take (unat high - unat low) (drop (unat low - ?m) (im_entries ?im)) =
      map (el_ent ent l) [unat low..<unat high]"
    using le hi' by (intro nth_equalityI) (auto simp: el_ent_def word_le_nat_alt)
  with im_getEntries_spec [OF el_wfD(1) [OF wf] le hi'] show ?thesis by simp
qed

lemma map_upt_split: "a \<le> m \<Longrightarrow> m \<le> b \<Longrightarrow> map g [a..<b] = map g [a..<m] @ map g [m..<b]"
  using upt_add_eq_append [of a m "b - m"] by simp

lemma limitSize_map_upt:
  assumes "a < b"
  shows "\<exists>n. 0 < n \<and> n \<le> b - a \<and> limitSize (map g [a..<b]) sz = map g [a..<a + n] \<and>
    (n = 1 \<or> GetEntrySliceSize (map g [a..<a + n]) \<le> sz)"
proof -
  obtain n where "limitSize (map g [a..<b]) sz = take n (map g [a..<b])" "n \<le> b - a" "0 < n"
    "1 < n \<longrightarrow> GetEntrySliceSize (take n (map g [a..<b])) \<le> sz"
    using limitSize_take [of "map g [a..<b]" sz] assms by auto
  moreover from this have "take n (map g [a..<b]) = map g [a..<a + n]"
    by (simp add: take_map)
  ultimately show ?thesis by (intro exI [of _ n]) auto
qed

lemma checkBound_ok:
  assumes wf: "el_wf trm l" and b: "el_first l \<le> unat low" "low < high" "unat high \<le> Suc (el_last l)"
  shows "checkBound l low high = Inr ()"
proof -
  have "unat (lg_lastIndex l + 1) = Suc (el_last l)"
    using el_last_bound [OF wf] unat_lg_lastIndex [OF wf] by (simp add: unat_Suc_u64 u64_neq_max)
  moreover have "entryRange l = Some (lg_firstIndex l, lg_lastIndex l)"
    using b el_marker_first [OF el_wfD(2) [OF wf]] el_wfD(2) [OF wf]
    by (auto simp: entryRange_def el_first_def el_last_def el_joined_def Let_def word_less_nat_alt
        split: prod.splits)
  ultimately show ?thesis
    using b unat_lg_firstIndex [OF wf] by (auto simp: checkBound_def word_less_nat_alt)
qed

text \<open>Appending above the committed index, with no hole and no decrease of the term.\<close>

definition append_pre :: "(nat \<Rightarrow> u64) \<Rightarrow> entryLog \<Rightarrow> Entry list \<Rightarrow> bool" where
  "append_pre trm l ents \<longleftrightarrow>
     (let f = unat (e_Index (hd ents)) in
      ents \<noteq> [] \<and> contig f ents \<and> terms_ok ents \<and> f + length ents < u64_limit \<and>
      unat (lg_committed l) < f \<and> f \<le> Suc (el_last l) \<and> el_term trm l (f - 1) \<le> e_Term (hd ents))"

lemma append_merge_pre:
  assumes wf: "el_wf trm l" and pre: "append_pre trm l ents"
  shows "merge_pre (lg_inmem l) ents"
proof -
  let ?im = "lg_inmem l" let ?f = "unat (e_Index (hd ents))" let ?m = "unat (im_markerIndex ?im)"
  from pre have p: "ents \<noteq> []" "contig ?f ents" "terms_ok ents" "?f + length ents < u64_limit"
    "unat (lg_committed l) < ?f" "?f \<le> Suc (el_last l)" "el_term trm l (?f - 1) \<le> e_Term (hd ents)"
    by (auto simp: append_pre_def Let_def)
  have "unat (im_appliedToIndex ?im) < ?f"
    using p(5) el_wfD(7) [OF wf] by (simp add: word_le_nat_alt)
  moreover have "\<forall>ss. im_snapshot ?im = Some ss \<longrightarrow> unat (ss_Index ss) < ?f"
    using p(5) el_wfD(5) [OF wf] by (auto simp: el_first_def)
  moreover have "?m < ?f \<longrightarrow> e_Term (im_entries ?im ! (?f - 1 - ?m)) \<le> e_Term (hd ents)"
    using p(7) by (auto simp: el_term_def Let_def split: if_splits)
  moreover have "?f \<le> ?m + length (im_entries ?im)"
    using p(6) im_wfD(5) [OF el_wfD(1) [OF wf]] by (simp add: el_last_def)
  ultimately show ?thesis using p by (simp add: merge_pre_def Let_def)
qed

definition appended :: "entryLog \<Rightarrow> Entry list \<Rightarrow> entryLog \<Rightarrow> bool" where
  "appended l ents l' \<longleftrightarrow>
     (let f = unat (e_Index (hd ents)) in
      el_last l' = f + length ents - 1 \<and> el_first l' = el_first l \<and>
      (\<forall>i ent. el_ent ent l' i = (if i < f then el_ent ent l i else
         if i < f + length ents then ents ! (i - f) else el_ent ent l' i)) \<and>
      (\<forall>i trm. i < f \<longrightarrow> el_term trm l' i = el_term trm l i) \<and>
      (\<forall>i trm. f \<le> i \<longrightarrow> i < f + length ents \<longrightarrow> el_term trm l' i = e_Term (ents ! (i - f))) \<and>
      lg_committed l' = lg_committed l \<and> lg_processed l' = lg_processed l \<and> lg_logdb l' = lg_logdb l)"

lemma merged_appended:
  assumes wf: "el_wf trm l" and pre: "append_pre trm l ents" and m: "merged (lg_inmem l) ents im'"
  shows "appended l ents (l\<lparr>lg_inmem := im'\<rparr>)"
proof -
  let ?im = "lg_inmem l" let ?f = "unat (e_Index (hd ents))" let ?m = "unat (im_markerIndex ?im)"
  have w: "0 < ?m" using im_wfD(5) [OF el_wfD(1) [OF wf]] .
  from pre have p: "ents \<noteq> []" "?f \<le> ?m + length (im_entries ?im)" "0 < ?f"
    using w by (auto simp: append_pre_def Let_def el_last_def)
  from m have e: "im_entries im' = take (?f - ?m) (im_entries ?im) @ ents"
    "unat (im_markerIndex im') = min ?m ?f" "im_snapshot im' = im_snapshot ?im"
    by (simp_all add: merged_def Let_def)
  have len: "length (take (?f - ?m) (im_entries ?im)) = ?f - ?m" using p(2) by simp
  have nth: "im_entries im' ! (i - min ?m ?f) = (if i < ?f then im_entries ?im ! (i - ?m) else ents ! (i - ?f))"
    if "min ?m ?f \<le> i" for i
    using that len unfolding e(1) nth_append by (auto simp: min_def split: if_splits)
  have "min ?m ?f + length (im_entries im') = ?f + length ents"
    unfolding e(1) length_append len by simp
  then have "el_last (l\<lparr>lg_inmem := im'\<rparr>) = ?f + length ents - 1"
    by (simp add: el_last_def e(2))
  moreover have "el_first (l\<lparr>lg_inmem := im'\<rparr>) = el_first l" by (simp add: el_first_def e(3) cong: option.case_cong)
  ultimately show ?thesis
    using nth by (auto simp: appended_def Let_def el_ent_def el_term_def e(2,3))
qed

lemma appended_wf:
  assumes wf: "el_wf trm l" and pre: "append_pre trm l ents" and m: "merged (lg_inmem l) ents im'"
    and im: "im_wf im'"
  shows "el_wf trm (l\<lparr>lg_inmem := im'\<rparr>)"
proof -
  let ?im = "lg_inmem l" let ?f = "unat (e_Index (hd ents))" let ?m = "unat (im_markerIndex ?im)"
  let ?l = "l\<lparr>lg_inmem := im'\<rparr>"
  have app: "appended l ents ?l" by (rule merged_appended [OF wf pre m])
  from pre have p: "ents \<noteq> []" "unat (lg_committed l) < ?f" "el_term trm l (?f - 1) \<le> e_Term (hd ents)"
    "?f \<le> Suc (el_last l)"
    by (auto simp: append_pre_def Let_def)
  from m have e: "im_entries im' = take (?f - ?m) (im_entries ?im) @ ents"
    "unat (im_markerIndex im') = min ?m ?f" "im_snapshot im' = im_snapshot ?im"
    "im_appliedToIndex im' = im_appliedToIndex ?im" "im_appliedToTerm im' = im_appliedToTerm ?im"
    by (simp_all add: merged_def Let_def)
  have j: "el_joined trm ?l"
    using el_wfD(2,5) [OF wf] p(2) unfolding el_joined_def Let_def el_first_def
    by (auto simp: e p(1) min_def split: option.splits prod.splits)
  have "el_term trm ?l (min ?m ?f - 1) \<le> e_Term (hd (im_entries im'))"
  proof (cases "?m < ?f")
    case True
    then have "im_entries ?im \<noteq> []" using p(4) im_wfD(5) [OF el_wfD(1) [OF wf]] by (auto simp: el_last_def)
    then have h: "hd (im_entries im') = hd (im_entries ?im)" "im_entries ?im \<noteq> []"
      using True by (simp_all add: e(1) hd_append)
    have "el_term trm ?l (?m - 1) = el_term trm l (?m - 1)"
      using app True by (simp add: appended_def Let_def)
    with True h el_wfD(3) [OF wf h(2)] show ?thesis by (simp add: min_def)
  next
    case False
    then have "hd (im_entries im') = hd ents" "min ?m ?f = ?f" by (simp_all add: e(1) min_def)
    moreover have "el_term trm ?l (?f - 1) = el_term trm l (?f - 1)"
      using app p(2) by (simp add: appended_def Let_def)
    ultimately show ?thesis using p(3) by simp
  qed
  moreover have "unat (lg_committed l) \<le> el_last ?l" "el_first ?l = el_first l"
    using app p(1,2) by (cases ents; simp add: appended_def Let_def)+
  ultimately show ?thesis
    using im j el_wfD(4,5,7) [OF wf] by (simp add: el_wf_def e)
qed

lemma lg_append_result:
  assumes wf: "el_wf trm l" and pre: "append_pre trm l ents"
  shows "\<exists>l'. lg_append l ents = Inr l' \<and> el_wf trm l' \<and> appended l ents l'"
proof -
  obtain im' where r: "im_merge (lg_inmem l) ents = Inr im'" "merged (lg_inmem l) ents im'" "im_wf im'"
    using im_merge_result [OF el_wfD(1) [OF wf] append_merge_pre [OF wf pre]] by blast
  from pre have "ents \<noteq> []" "\<not> e_Index (hd ents) \<le> lg_committed l"
    by (auto simp: append_pre_def Let_def word_le_nat_alt)
  with r(1) have "lg_append l ents = Inr (l\<lparr>lg_inmem := im'\<rparr>)" by (simp add: lg_append_def)
  with appended_wf [OF wf pre r(2,3)] merged_appended [OF wf pre r(2)] show ?thesis by blast
qed

text \<open>
  What a follower knows when it calls \<open>tryAppend\<close>: the entries follow an entry the log has, whose
  term is not above theirs, and they agree with the committed part of the log.
\<close>

definition tryAppend_pre :: "(nat \<Rightarrow> u64) \<Rightarrow> entryLog \<Rightarrow> u64 \<Rightarrow> Entry list \<Rightarrow> bool" where
  "tryAppend_pre trm l index ents \<longleftrightarrow>
     contig (Suc (unat index)) ents \<and> terms_ok ents \<and> Suc (unat index) + length ents < u64_limit \<and>
     el_first l \<le> Suc (unat index) \<and> unat index \<le> el_last l \<and>
     (ents \<noteq> [] \<longrightarrow> el_term trm l (unat index) \<le> e_Term (hd ents)) \<and>
     (\<forall>e \<in> set ents. e_Index e \<le> lg_committed l \<longrightarrow> el_lookup trm l (unat (e_Index e)) = e_Term e)"

abbreviation agrees :: "(nat \<Rightarrow> u64) \<Rightarrow> entryLog \<Rightarrow> Entry \<Rightarrow> bool" where
  "agrees trm l e \<equiv> el_lookup trm l (unat (e_Index e)) = e_Term e"

lemma takeWhile_nth_sat: "j < length (takeWhile P xs) \<Longrightarrow> P (xs ! j)"
  by (metis nth_mem set_takeWhileD takeWhile_nth)

lemma conflict_append_pre:
  assumes wf: "el_wf trm l" and pre: "tryAppend_pre trm l index ents"
    and k: "k = length (takeWhile (agrees trm l) ents)" "k < length ents"
  shows "append_pre trm l (drop k ents) \<and> unat (e_Index (hd (drop k ents))) = Suc (unat index) + k"
proof -
  from pre have p: "contig (Suc (unat index)) ents" "terms_ok ents"
    "Suc (unat index) + length ents < u64_limit" "unat index \<le> el_last l"
    "ents \<noteq> [] \<longrightarrow> el_term trm l (unat index) \<le> e_Term (hd ents)"
    "\<forall>e \<in> set ents. e_Index e \<le> lg_committed l \<longrightarrow> agrees trm l e"
    by (auto simp: tryAppend_pre_def)
  have hd: "hd (drop k ents) = ents ! k" using k(2) by (simp add: hd_drop_conv_nth)
  have idx: "unat (e_Index (ents ! j)) = Suc (unat index) + j" if "j < length ents" for j
    using contig_nth [OF p(1) that] .
  have "\<not> agrees trm l (ents ! k)"
    using k nth_length_takeWhile by blast
  with p(6) k(2) have "\<not> e_Index (ents ! k) \<le> lg_committed l" using nth_mem by blast
  then have com: "unat (lg_committed l) < Suc (unat index) + k"
    using idx [OF k(2)] by (simp add: word_le_nat_alt)
  have prev: "unat index + k \<le> el_last l \<and> el_term trm l (unat index + k) \<le> e_Term (ents ! k)"
  proof (cases k)
    case 0
    with p(4,5) k(2) show ?thesis by (cases ents) auto
  next
    case (Suc j)
    then have "j < length (takeWhile (agrees trm l) ents)" using k(1) by simp
    then have "agrees trm l (ents ! j)" by (rule takeWhile_nth_sat)
    moreover have "e_Term (ents ! j) \<noteq> 0" "e_Term (ents ! j) \<le> e_Term (ents ! k)"
      using p(2) k(2) Suc by (auto simp: terms_ok_def sorted_iff_nth_mono)
    moreover have "unat (e_Index (ents ! j)) = unat index + k" using idx [of j] Suc k(2) by simp
    ultimately show ?thesis by (auto simp: el_lookup_def split: if_splits)
  qed
  have "contig (Suc (unat index) + k) (drop k ents)" using contig_drop [OF p(1)] k(2) by simp
  then show ?thesis
    using p(2,3) k(2) com prev idx [OF k(2)] by (auto simp: append_pre_def Let_def hd)
qed

text \<open>The interface of the persisted log.\<close>

locale ilogdb =
  fixes to_db :: "'d \<Rightarrow> ILogDB"
    and inv :: "'d \<Rightarrow> bool"
    and ent :: "'d \<Rightarrow> nat \<Rightarrow> Entry"
    and trm :: "'d \<Rightarrow> nat \<Rightarrow> u64"
  assumes range_law: "inv d \<Longrightarrow> ld_GetRange (to_db d) = (f, la) \<Longrightarrow>
      0 < unat f \<and> unat f \<le> Suc (unat la) \<and> Suc (unat la) < u64_limit"
    and ent_law: "inv d \<Longrightarrow> ld_GetRange (to_db d) = (f, la) \<Longrightarrow> unat f \<le> k \<Longrightarrow> k \<le> unat la \<Longrightarrow>
      unat (e_Index (ent d k)) = k \<and> e_Term (ent d k) = trm d k"
    and term_law: "inv d \<Longrightarrow> ld_GetRange (to_db d) = (f, la) \<Longrightarrow>
      unat f \<le> Suc (unat i) \<Longrightarrow> i \<le> la \<Longrightarrow> ld_Term (to_db d) i = Inr (trm d (unat i))"
    and entries_law: "inv d \<Longrightarrow> ld_GetRange (to_db d) = (f, la) \<Longrightarrow>
      f \<le> low \<Longrightarrow> low < high \<Longrightarrow> unat high \<le> Suc (unat la) \<Longrightarrow>
      \<exists>n. 0 < n \<and> n \<le> unat high - unat low \<and>
        ld_Entries (to_db d) low high sz = Inr (map (ent d) [unat low..<unat low + n]) \<and>
        (n = 1 \<or> GetEntrySliceSize (map (ent d) [unat low..<unat low + n]) \<le> sz)"
begin

lemma el_first_pos:
  assumes "inv d" "lg_logdb l = to_db d"
  shows "0 < el_first l"
  using range_law [OF assms(1), of "fst (ld_GetRange (to_db d))" "snd (ld_GetRange (to_db d))"] assms(2)
  by (auto simp: el_first_def split: option.splits)

lemma range_cmp:
  assumes d: "inv d" "lg_logdb l = to_db d" and wf: "el_wf (trm d) l"
  shows "\<not> (i < lg_firstIndex l - 1 \<or> i > lg_lastIndex l) \<longleftrightarrow>
     el_first l \<le> Suc (unat i) \<and> unat i \<le> el_last l"
proof -
  have f: "unat (lg_firstIndex l) = el_first l" by (rule unat_lg_firstIndex [OF wf])
  with el_first_pos [OF d] have "lg_firstIndex l \<noteq> 0" by auto
  then have "unat (lg_firstIndex l - 1) = el_first l - 1" by (simp add: unat_pred_u64 f)
  then show ?thesis by (auto simp: word_less_nat_alt unat_lg_lastIndex [OF wf])
qed

lemma lg_term_outside:
  assumes "inv d" "lg_logdb l = to_db d" "el_wf (trm d) l"
    and "\<not> (el_first l \<le> Suc (unat i) \<and> unat i \<le> el_last l)"
  shows "lg_term l i = Inr 0"
  using range_cmp [OF assms(1-3), of i] assms(4) by (simp add: lg_term_def termEntryRange_def)

lemma getTerm_below:
  assumes d: "inv d" "lg_logdb l = to_db d" and wf: "el_wf (trm d) l"
    and i: "el_first l \<le> Suc (unat i)" "unat i < unat (im_markerIndex (lg_inmem l))"
  shows "im_getTerm (lg_inmem l) i = Inr (Some (el_term (trm d) l (unat i))) \<or>
    im_getTerm (lg_inmem l) i = Inr None \<and> ld_Term (lg_logdb l) i = Inr (el_term (trm d) l (unat i))"
proof (cases "im_snapshot (lg_inmem l)")
  case None
  obtain f la where r: "ld_GetRange (to_db d) = (f, la)" by fastforce
  from None wf d(2) i r have "i \<le> la"
    by (auto simp: el_wf_def el_joined_def Let_def word_le_nat_alt)
  with None i have "ld_Term (lg_logdb l) i = Inr (trm d (unat i))"
    using term_law [OF d(1) r] by (simp add: d(2) r el_first_def)
  with None wf i d(2) im_wfD(3) [OF el_wfD(1) [OF wf]] show ?thesis
    by (auto simp: im_getTerm_def el_term_def Let_def el_wf_def el_joined_def r el_first_def
        word_less_nat_alt unat_gt_0 split: prod.splits)
next
  case (Some ss)
  with wf i have "i = ss_Index ss"
    by (auto simp: el_wf_def el_joined_def Let_def el_first_def word_unat_eq_iff split: prod.splits)
  with Some wf i im_wfD(3) [OF el_wfD(1) [OF wf]] show ?thesis
    by (auto simp: im_getTerm_def el_term_def Let_def el_wf_def el_joined_def
        word_less_nat_alt unat_gt_0 split: prod.splits)
qed

lemma lg_term_inside:
  assumes d: "inv d" "lg_logdb l = to_db d" and wf: "el_wf (trm d) l"
    and i: "el_first l \<le> Suc (unat i)" "unat i \<le> el_last l"
  shows "lg_term l i = Inr (el_term (trm d) l (unat i))"
proof -
  note rng = range_cmp [OF d wf, of i]
  show ?thesis
  proof (cases "unat i < unat (im_markerIndex (lg_inmem l))")
    case True
    with getTerm_below [OF d wf i(1)] rng i show ?thesis
      by (auto simp: lg_term_def termEntryRange_def)
  next
    case False
    with i have "im_has (lg_inmem l) i"
      using im_wfD(5) [OF el_wfD(1) [OF wf]] by (auto simp: im_has_def el_last_def word_le_nat_alt)
    from im_getTerm_has [OF el_wfD(1) [OF wf] this] False rng i show ?thesis
      by (auto simp: lg_term_def termEntryRange_def el_term_def im_nth_def Let_def)
  qed
qed

text \<open>The part of a read that the persisted log serves.\<close>

lemma from_logdb:
  assumes d: "inv d" "lg_logdb l = to_db d" and wf: "el_wf (trm d) l"
    and b: "el_first l \<le> unat low" "low < high" "low < im_markerIndex (lg_inmem l)"
  shows "\<exists>n. 0 < n \<and> n \<le> min (unat high) (unat (im_markerIndex (lg_inmem l))) - unat low \<and>
    getEntriesFromLogDB l low high sz = Inr (map (el_ent (ent d) l) [unat low..<unat low + n],
      n = min (unat high) (unat (im_markerIndex (lg_inmem l))) - unat low) \<and>
    (n = 1 \<or> GetEntrySliceSize (map (el_ent (ent d) l) [unat low..<unat low + n]) \<le> sz)"
proof -
  let ?m = "im_markerIndex (lg_inmem l)" let ?ub = "min high ?m"
  obtain f la where r: "ld_GetRange (to_db d) = (f, la)" by fastforce
  have j: "f \<le> low" "unat ?ub \<le> Suc (unat la)"
    using b(1,3) el_wfD(2) [OF wf] d(2) r
    by (auto simp: el_joined_def Let_def el_first_def word_less_nat_alt word_le_nat_alt split: option.splits)
  have lt: "low < ?ub" using b by simp
  obtain n where n: "0 < n" "n \<le> unat ?ub - unat low"
    "ld_Entries (to_db d) low ?ub sz = Inr (map (ent d) [unat low..<unat low + n])"
    "n = 1 \<or> GetEntrySliceSize (map (ent d) [unat low..<unat low + n]) \<le> sz"
    using entries_law [OF d(1) r j(1) lt j(2), of sz] by (elim exE conjE) (rule that)
  have m: "map (ent d) [unat low..<unat low + n] = map (el_ent (ent d) l) [unat low..<unat low + n]"
    using n(2) by (auto simp: el_ent_def Let_def)
  have sub: "unat (?ub - low) = unat ?ub - unat low" by (rule unat_sub_u64) (rule less_imp_le [OF lt])
  have len: "unat (of_nat n :: u64) = n"
    using n(2) u64_unat_lt [of ?ub] by (intro unat_of_nat_u64) linarith
  have "getEntriesFromLogDB l low high sz =
      Inr (map (el_ent (ent d) l) [unat low..<unat low + n], n = unat ?ub - unat low)"
    using b(3) [folded not_le] n(1-3) unfolding getEntriesFromLogDB_def Let_def d(2) m
    by (auto simp: word_less_nat_alt word_unat_eq_iff sub len simp del: unat_min)
  with n(1,2,4) show ?thesis unfolding m by auto
qed

lemma boundary_check:
  assumes d: "inv d" "lg_logdb l = to_db d" and wf: "el_wf (trm d) l"
    and b: "el_first l \<le> unat low" "unat low < m" "m < h" "h \<le> Suc (el_last l)"
    and m: "m = unat (im_markerIndex (lg_inmem l))"
  shows "checkEntriesToAppend (map (el_ent (ent d) l) [unat low..<m]) (map (el_ent (ent d) l) [m..<h]) = Inr ()"
proof (rule checkEntriesToAppend_ok)
  obtain f la where r: "ld_GetRange (to_db d) = (f, la)" by fastforce
  have j: "im_snapshot (lg_inmem l) = None" "unat f \<le> m - 1" "m - 1 \<le> unat la"
    using b(1,2) el_wfD(2) [OF wf] d(2) r
    by (auto simp: el_joined_def Let_def el_first_def m split: option.splits)
  have lst: "last (map (el_ent (ent d) l) [unat low..<m]) = ent d (m - 1)"
    using b(2) by (simp add: last_map el_ent_def Let_def m)
  have ne: "im_entries (lg_inmem l) \<noteq> []" using b(2-4) by (auto simp: el_last_def m)
  then have hd: "hd (map (el_ent (ent d) l) [m..<h]) = hd (im_entries (lg_inmem l))"
    using b(3) by (simp add: hd_map el_ent_def Let_def m hd_conv_nth)
  note e = ent_law [OF d(1) r j(2,3)]
  have "Suc (unat (e_Index (ent d (m - 1)))) = unat (e_Index (hd (im_entries (lg_inmem l))))"
    using e contig_hd [OF im_wfD(7) [OF el_wfD(1) [OF wf]] ne] b(2) by (simp add: m)
  moreover have "e_Term (ent d (m - 1)) \<le> e_Term (hd (im_entries (lg_inmem l)))"
    using e el_wfD(3) [OF wf ne] j(1) b(2) by (auto simp: el_term_def Let_def m split: if_splits)
  ultimately show "map (el_ent (ent d) l) [unat low..<m] = [] \<or> map (el_ent (ent d) l) [m..<h] = [] \<or>
      Suc (unat (e_Index (last (map (el_ent (ent d) l) [unat low..<m])))) =
        unat (e_Index (hd (map (el_ent (ent d) l) [m..<h]))) \<and>
      e_Term (last (map (el_ent (ent d) l) [unat low..<m])) \<le> e_Term (hd (map (el_ent (ent d) l) [m..<h]))"
    unfolding lst hd by blast
qed

lemma getEntries_low_db:
  assumes d: "inv d" "lg_logdb l = to_db d" and wf: "el_wf (trm d) l"
    and b: "el_first l \<le> unat low" "low < high" "unat high \<le> Suc (el_last l)"
      "low < im_markerIndex (lg_inmem l)"
  shows "\<exists>n. 0 < n \<and> n \<le> unat high - unat low \<and>
    lg_getEntries l low high sz = Inr (map (el_ent (ent d) l) [unat low..<unat low + n]) \<and>
    (n = 1 \<or> GetEntrySliceSize (map (el_ent (ent d) l) [unat low..<unat low + n]) \<le> sz)"
proof -
  let ?m = "unat (im_markerIndex (lg_inmem l))" let ?g = "el_ent (ent d) l"
  have lt: "unat low < ?m" "unat low < unat high" using b(2,4) by (simp_all add: word_less_nat_alt)
  obtain n where n: "0 < n" "n \<le> min (unat high) ?m - unat low"
    "getEntriesFromLogDB l low high sz = Inr (map ?g [unat low..<unat low + n], n = min (unat high) ?m - unat low)"
    "n = 1 \<or> GetEntrySliceSize (map ?g [unat low..<unat low + n]) \<le> sz"
    using from_logdb [OF d wf b(1,2,4), of sz] by (elim exE conjE) (rule that)
  note chk = checkBound_ok [OF wf b(1-3)]
  have lh: "low \<noteq> high" using b(2) by simp
  show ?thesis
  proof (cases "n = min (unat high) ?m - unat low")
    case False
    then have "lg_getEntries l low high sz = Inr (map ?g [unat low..<unat low + n])"
      using chk n(3) lh by (simp add: lg_getEntries_def)
    with n(1,2,4) show ?thesis by (intro exI [of _ n]) auto
  next
    case True
    have "getEntriesFromInMem l (map ?g [unat low..<unat low + n]) low high = Inr (map ?g [unat low..<unat high])"
    proof (cases "high \<le> im_markerIndex (lg_inmem l)")
      case h: True
      with True lt have "unat low + n = unat high" by (simp add: word_le_nat_alt)
      with h show ?thesis by (simp add: getEntriesFromInMem_def)
    next
      case h: False
      then have mh: "?m < unat high" by (simp add: word_le_nat_alt)
      with True lt have k: "unat low + n = ?m" by simp
      have mx: "max low (im_markerIndex (lg_inmem l)) = im_markerIndex (lg_inmem l)"
        using b(4) by (simp add: max_absorb2)
      have "map ?g [unat low..<?m] @ map ?g [?m..<unat high] = map ?g [unat low..<unat high]"
        using lt(1) mh by (intro map_upt_split [symmetric]) simp_all
      then show ?thesis
        using h mh lt boundary_check [OF d wf b(1) lt(1) mh b(3) refl]
          im_getEntries_ent [OF wf order.refl _ b(3), of "ent d"]
        by (simp add: getEntriesFromInMem_def Let_def k mx)
    qed
    then have "lg_getEntries l low high sz = Inr (limitSize (map ?g [unat low..<unat high]) sz)"
      using chk n(3) True lh by (simp add: lg_getEntries_def)
    with limitSize_map_upt [OF lt(2), of ?g sz] show ?thesis by auto
  qed
qed

lemma getEntries_sequence:
  assumes d: "inv d" "lg_logdb l = to_db d" and wf: "el_wf (trm d) l"
    and b: "el_first l \<le> unat low" "low < high" "unat high \<le> Suc (el_last l)"
  shows "\<exists>n. 0 < n \<and> n \<le> unat high - unat low \<and>
    lg_getEntries l low high sz = Inr (map (el_ent (ent d) l) [unat low..<unat low + n]) \<and>
    (n = 1 \<or> GetEntrySliceSize (map (el_ent (ent d) l) [unat low..<unat low + n]) \<le> sz)"
proof (cases "low < im_markerIndex (lg_inmem l)")
  case True
  with getEntries_low_db [OF d wf b] show ?thesis by blast
next
  case False
  then have m: "im_markerIndex (lg_inmem l) \<le> low" by simp
  let ?g = "el_ent (ent d) l"
  have "max low (im_markerIndex (lg_inmem l)) = low" "\<not> high \<le> im_markerIndex (lg_inmem l)" "low \<noteq> high"
    using m b(2) by (auto simp: max_def)
  moreover have "map ?g [unat low..<unat high] \<noteq> []" using b(2) by (simp add: word_less_nat_alt)
  ultimately have "lg_getEntries l low high sz = Inr (limitSize (map ?g [unat low..<unat high]) sz)"
    using m checkBound_ok [OF wf b] im_getEntries_ent [OF wf m _ b(3), of "ent d"] b(2)
    by (simp add: lg_getEntries_def getEntriesFromLogDB_def getEntriesFromInMem_def Let_def)
  with limitSize_map_upt [of "unat low" "unat high" ?g sz] b(2) show ?thesis
    by (auto simp: word_less_nat_alt)
qed

text \<open>\<open>el_lookup\<close>: the term the log reports for an index, 0 outside the log.\<close>

lemma lg_term_lookup:
  assumes "inv d" "lg_logdb l = to_db d" "el_wf (trm d) l"
  shows "lg_term l i = Inr (el_lookup (trm d) l (unat i))"
  using lg_term_inside [OF assms, of i] lg_term_outside [OF assms, of i] by (auto simp: el_lookup_def)

lemma getConflictIndex_first:
  assumes d: "inv d" "lg_logdb l = to_db d" "el_wf (trm d) l"
  shows "getConflictIndex l ents =
    (case dropWhile (\<lambda>e. el_lookup (trm d) l (unat (e_Index e)) = e_Term e) ents of
       [] \<Rightarrow> Inr 0 | e # _ \<Rightarrow> Inr (e_Index e))"
  by (induction ents) (simp_all add: matchTerm_def lg_term_lookup [OF d])

lemma upToDate_lookup:
  assumes d: "inv d" "lg_logdb l = to_db d" and wf: "el_wf (trm d) l"
  shows "upToDate l index t = Inr (el_term (trm d) l (el_last l) < t \<or>
     el_term (trm d) l (el_last l) = t \<and> el_last l \<le> unat index)"
proof -
  have "el_first l \<le> Suc (el_last l)"
    using el_wfD(5,6) [OF wf] by simp
  then have "lg_term l (lg_lastIndex l) = Inr (el_term (trm d) l (el_last l))"
    using lg_term_inside [OF d wf, of "lg_lastIndex l"] unat_lg_lastIndex [OF wf] by simp
  then show ?thesis by (auto simp: upToDate_def word_le_nat_alt word_less_nat_alt word_unat_eq_iff
        unat_lg_lastIndex [OF wf])
qed

lemma tryAppend_result:
  assumes d: "inv d" "lg_logdb l = to_db d" and wf: "el_wf (trm d) l"
    and pre: "tryAppend_pre (trm d) l index ents"
  defines "k \<equiv> length (takeWhile (agrees (trm d) l) ents)"
  shows "if k = length ents then tryAppend l index ents = Inr (l, False)
    else \<exists>l'. tryAppend l index ents = Inr (l', True) \<and> el_wf (trm d) l' \<and> appended l (drop k ents) l'"
proof (cases "k = length ents")
  case True
  then have dw: "dropWhile (agrees (trm d) l) ents = []"
    unfolding k_def by (simp add: dropWhile_eq_drop)
  have "getConflictIndex l ents = Inr 0" unfolding getConflictIndex_first [OF d wf] dw by simp
  with True show ?thesis by (simp add: tryAppend_def)
next
  case False
  then have k: "k < length ents" using length_takeWhile_le [of "agrees (trm d) l" ents] unfolding k_def by linarith
  note app = conflict_append_pre [OF wf pre k_def [THEN meta_eq_to_obj_eq] k]
  have dw: "dropWhile (agrees (trm d) l) ents = drop k ents" by (simp add: k_def dropWhile_eq_drop)
  then obtain es where es: "drop k ents = hd (drop k ents) # es" using k by (cases "drop k ents") auto
  have sub: "unat (e_Index (hd (drop k ents)) - index - 1) = k"
  proof -
    have "e_Index (hd (drop k ents)) = index + 1 + of_nat k"
      using app pre k by (simp add: word_unat_eq_iff tryAppend_pre_def unat_word_ariths unat_of_nat)
    moreover have "k < u64_limit" using pre k by (simp add: tryAppend_pre_def)
    ultimately show ?thesis by (simp add: unat_of_nat_u64)
  qed
  obtain l' where l': "lg_append l (drop k ents) = Inr l'" "el_wf (trm d) l'" "appended l (drop k ents) l'"
    using lg_append_result [OF wf conjunct1 [OF app]] by blast
  have "unat (lg_committed l) < unat (e_Index (hd (drop k ents)))"
    using app by (simp add: append_pre_def Let_def)
  then have "e_Index (hd (drop k ents)) \<noteq> 0" "\<not> e_Index (hd (drop k ents)) \<le> lg_committed l"
    by (auto simp: word_le_nat_alt)
  moreover have "getConflictIndex l ents = Inr (e_Index (hd (drop k ents)))"
    unfolding getConflictIndex_first [OF d wf] dw by (subst es) simp
  ultimately show ?thesis
    using l' k False sub by (auto simp: tryAppend_def slice_from_def)
qed

end

end
