(* ===== verification/ReadIndexQueue.thy ===== *)
theory ReadIndexQueue
  imports Raftpb
begin

text \<open>
  \<^verbatim>\<open>raft/internal/raft/readindex.go\<close>: the leader's bookkeeping for the ReadIndex protocol.
  Pending reads are kept in a map from the request context to their status and in a queue in order
  of arrival. The status objects the source shares by pointer are the values of the map; the copies
  \<open>confirm\<close> returns are the ones it removed from it. The lemmas show that the map and the queue
  stay consistent (so none of the internal panics is reachable), that a read is released only with
  a quorum, and that its index never moves below the commit index it was recorded with.
\<close>

record readStatus =
  rs_confirmed :: "(u64, unit) gomap"
  rs_ctx :: SystemCtx
  rs_index :: u64
  rs_from :: u64

record readIndex =
  ri_pending :: "(SystemCtx, readStatus) gomap"
  ri_queue :: "SystemCtx list"

definition newReadIndex :: readIndex where
  "newReadIndex = \<lparr>ri_pending = [], ri_queue = []\<rparr>"

definition hasPendingRequest :: "readIndex \<Rightarrow> bool" where
  "hasPendingRequest r \<longleftrightarrow> length (ri_queue r) > 0"

definition peepCtx :: "readIndex \<Rightarrow> SystemCtx res" where
  "peepCtx r = slice_last (ri_queue r)"

text \<open>The check against the newest queued request.\<close>

definition addRequest_check :: "readIndex \<Rightarrow> u64 \<Rightarrow> unit res" where
  "addRequest_check r index =
     (if length (ri_queue r) > 0 then
        bind_res (peepCtx r) (\<lambda>c.
          case mget (ri_pending r) c of
            None \<Rightarrow> Inl (GoPanic ''inconsistent pending and queue'')
          | Some p \<Rightarrow> if index < rs_index p then Inl (GoPanic ''index moved backward in readIndex'')
                      else Inr ())
      else Inr ())"

definition addRequest :: "readIndex \<Rightarrow> u64 \<Rightarrow> SystemCtx \<Rightarrow> u64 \<Rightarrow> readIndex res" where
  "addRequest r index ctx from =
     (if mhas (ri_pending r) ctx then Inr r
      else bind_res (addRequest_check r index) (\<lambda>_.
        Inr (r\<lparr>ri_queue := ri_queue r @ [ctx],
               ri_pending := mput ctx \<lparr>rs_confirmed = [], rs_ctx = ctx, rs_index = index,
                                        rs_from = from\<rparr> (ri_pending r)\<rparr>)))"

text \<open>
  The loop of \<open>confirm\<close> over the queue: it collects statuses up to and including the confirmed
  context. \<open>None\<close> is the loop running to the end without meeting it.
\<close>

fun confirm_loop ::
  "(SystemCtx, readStatus) gomap \<Rightarrow> SystemCtx \<Rightarrow> readStatus list \<Rightarrow> SystemCtx list \<Rightarrow>
   (readStatus list \<times> readStatus \<times> SystemCtx list) option res" where
  "confirm_loop pending ctx cs [] = Inr None"
| "confirm_loop pending ctx cs (pctx # queue) =
     (case mget pending pctx of
        None \<Rightarrow> Inl (GoPanic ''inconsistent pending and queue content'')
      | Some s \<Rightarrow>
          (if pctx = ctx then Inr (Some (cs @ [s], s, queue))
           else confirm_loop pending ctx (cs @ [s]) queue))"

definition confirm :: "readIndex \<Rightarrow> SystemCtx \<Rightarrow> u64 \<Rightarrow> nat \<Rightarrow> (readStatus list \<times> readIndex) res" where
  "confirm r ctx from quorum =
     (case mget (ri_pending r) ctx of
        None \<Rightarrow> Inr ([], r)
      | Some p \<Rightarrow>
          let p = p\<lparr>rs_confirmed := mput from () (rs_confirmed p)\<rparr>;
              r = r\<lparr>ri_pending := mput ctx p (ri_pending r)\<rparr>
          in if length (rs_confirmed p) + 1 < quorum then Inr ([], r)
             else bind_res (confirm_loop (ri_pending r) ctx [] (ri_queue r)) (\<lambda>found.
               case found of
                 None \<Rightarrow> Inr ([], r)
               | Some (cs, s, queue) \<Rightarrow>
                   if list_ex (\<lambda>v. rs_index v > rs_index s) cs
                     then Inl (GoPanic ''v.index > s.index is unexpected'')
                   else
                     let pending = fold (\<lambda>v. mdel (rs_ctx v)) cs (ri_pending r)
                     in if length queue \<noteq> length pending then Inl (GoPanic ''inconsistent length'')
                        else Inr (map (\<lambda>v. v\<lparr>rs_index := rs_index s\<rparr>) cs,
                                  r\<lparr>ri_queue := queue, ri_pending := pending\<rparr>)))"

section \<open>Consistency of map and queue\<close>

lemma sorted_le_last: "sorted xs \<Longrightarrow> x \<in> set xs \<Longrightarrow> x \<le> last xs"
  by (induction xs) (auto split: if_splits)

definition ri_idx :: "readIndex \<Rightarrow> SystemCtx \<Rightarrow> u64" where
  "ri_idx r c = (case mget (ri_pending r) c of Some s \<Rightarrow> rs_index s | None \<Rightarrow> 0)"

definition ri_wf :: "readIndex \<Rightarrow> bool" where
  "ri_wf r \<longleftrightarrow>
     gm_wf (ri_pending r) \<and> distinct (ri_queue r) \<and>
     set (mkeys (ri_pending r)) = set (ri_queue r) \<and>
     (\<forall>c s. mget (ri_pending r) c = Some s \<longrightarrow> rs_ctx s = c \<and> gm_wf (rs_confirmed s)) \<and>
     sorted (map (ri_idx r) (ri_queue r))"

lemma ri_wf_new [simp]: "ri_wf newReadIndex"
  by (simp add: ri_wf_def newReadIndex_def)

lemma ri_wf_lookup:
  "ri_wf r \<Longrightarrow> c \<in> set (ri_queue r) \<Longrightarrow>
   \<exists>s. mget (ri_pending r) c = Some s \<and> rs_ctx s = c \<and> ri_idx r c = rs_index s \<and>
       gm_wf (rs_confirmed s)"
proof -
  assume wf: "ri_wf r" and c: "c \<in> set (ri_queue r)"
  then have "mget (ri_pending r) c \<noteq> None"
    by (simp add: ri_wf_def map_of_eq_None_iff)
  then obtain s where "mget (ri_pending r) c = Some s" by blast
  with wf show ?thesis by (simp add: ri_wf_def ri_idx_def)
qed

lemma ri_wf_mhas: "ri_wf r \<Longrightarrow> mhas (ri_pending r) c \<longleftrightarrow> c \<in> set (ri_queue r)"
  by (simp add: ri_wf_def mhas_iff)

definition last_index :: "readIndex \<Rightarrow> u64" where
  "last_index r = (if ri_queue r = [] then 0 else ri_idx r (last (ri_queue r)))"

lemma addRequest_check_ok:
  assumes "ri_wf r" and "last_index r \<le> index"
  shows "addRequest_check r index = Inr ()"
proof (cases "ri_queue r = []")
  case True
  then show ?thesis by (simp add: addRequest_check_def)
next
  case False
  then have "last (ri_queue r) \<in> set (ri_queue r)" by simp
  from ri_wf_lookup [OF assms(1) this] obtain s where
    "mget (ri_pending r) (last (ri_queue r)) = Some s"
    "ri_idx r (last (ri_queue r)) = rs_index s" by blast
  with False assms(2) show ?thesis
    by (auto simp: addRequest_check_def peepCtx_def slice_last_def last_index_def not_less)
qed

lemma addRequest_check_Inr:
  assumes "ri_wf r" and "addRequest_check r index = Inr u"
  shows "last_index r \<le> index"
proof (cases "ri_queue r = []")
  case True
  then show ?thesis by (simp add: last_index_def)
next
  case False
  then have "last (ri_queue r) \<in> set (ri_queue r)" by simp
  from ri_wf_lookup [OF assms(1) this] obtain s where
    "mget (ri_pending r) (last (ri_queue r)) = Some s"
    "ri_idx r (last (ri_queue r)) = rs_index s" by blast
  with False assms(2) show ?thesis
    by (auto simp: addRequest_check_def peepCtx_def slice_last_def last_index_def not_less
        split: if_splits)
qed

lemma ri_wf_add:
  assumes wf: "ri_wf r" and new: "ctx \<notin> set (ri_queue r)" and le: "last_index r \<le> index"
  shows "ri_wf (r\<lparr>ri_queue := ri_queue r @ [ctx],
     ri_pending := mput ctx \<lparr>rs_confirmed = [], rs_ctx = ctx, rs_index = index, rs_from = from\<rparr>
                     (ri_pending r)\<rparr>)" (is "ri_wf ?r")
proof -
  have idx: "map (ri_idx ?r) (ri_queue r) = map (ri_idx r) (ri_queue r)"
    using new by (auto simp: ri_idx_def)
  have srt: "sorted (map (ri_idx r) (ri_queue r))"
    using wf by (simp add: ri_wf_def)
  have "x \<le> index" if "x \<in> ri_idx r ` set (ri_queue r)" for x
  proof -
    from that obtain c where c: "c \<in> set (ri_queue r)" "x = ri_idx r c" by blast
    then have "x \<in> set (map (ri_idx r) (ri_queue r))" by simp
    then have "x \<le> last (map (ri_idx r) (ri_queue r))"
      using srt by (rule sorted_le_last [rotated])
    with c le show ?thesis
      by (cases "ri_queue r = []") (auto simp: last_index_def last_map)
  qed
  moreover have "ri_idx ?r ctx = index" by (simp add: ri_idx_def)
  ultimately have "sorted (map (ri_idx ?r) (ri_queue r @ [ctx]))"
    using srt by (simp add: idx sorted_append)
  moreover have "set (mkeys (ri_pending ?r)) = set (ri_queue ?r)"
    using wf by (simp add: ri_wf_def dom_update)
  ultimately show ?thesis
    using wf new by (auto simp: ri_wf_def)
qed


lemma ri_wf_confirmed:
  assumes wf: "ri_wf r" and s: "mget (ri_pending r) ctx = Some s"
  shows "ri_wf (r\<lparr>ri_pending :=
     mput ctx (s\<lparr>rs_confirmed := mput from () (rs_confirmed s)\<rparr>) (ri_pending r)\<rparr>)" (is "ri_wf ?r")
proof -
  have has: "mhas (ri_pending r) ctx" using s by (simp add: mhas_def)
  have "ri_idx ?r = ri_idx r"
    using s by (auto simp: ri_idx_def)
  with wf s show ?thesis
    by (auto simp: ri_wf_def mkeys_mput_same [OF has] simp del: map_map)
qed

lemma confirm_loop_found:
  assumes "ctx \<notin> set pre" and "\<forall>c \<in> set (pre @ [ctx]). mget pending c = Some (st c)"
  shows "confirm_loop pending ctx cs (pre @ ctx # rest)
         = Inr (Some (cs @ map st (pre @ [ctx]), st ctx, rest))"
  using assms by (induction pre arbitrary: cs) auto

lemma mget_fold_mdel:
  "mget (fold (\<lambda>v. mdel (f v)) vs m) k = (if k \<in> f ` set vs then None else mget m k)"
  by (induction vs arbitrary: m) auto

lemma gm_wf_fold_mdel [simp]: "gm_wf m \<Longrightarrow> gm_wf (fold (\<lambda>v. mdel (f v)) vs m)"
  by (induction vs arbitrary: m) auto

lemma keys_fold_mdel: "set (mkeys (fold (\<lambda>v. mdel (f v)) vs m)) = set (mkeys m) - f ` set vs"
  by (auto simp: mhas_iff [symmetric] mhas_def mget_fold_mdel split: if_splits
      simp del: set_map)

lemma ri_wf_drop:
  assumes wf: "ri_wf r" and q: "ri_queue r = xs @ rest" and vs: "map rs_ctx vs = xs"
  shows "ri_wf (r\<lparr>ri_queue := rest, ri_pending := fold (\<lambda>v. mdel (rs_ctx v)) vs (ri_pending r)\<rparr>)"
    (is "ri_wf ?r")
    and "length rest = length (fold (\<lambda>v. mdel (rs_ctx v)) vs (ri_pending r))"
proof -
  have dist: "distinct (xs @ rest)" and keys: "set (mkeys (ri_pending r)) = set (xs @ rest)"
    and srt: "sorted (map (ri_idx r) (xs @ rest))" and gm: "gm_wf (ri_pending r)"
    using wf by (simp_all add: ri_wf_def q)
  have im: "rs_ctx ` set vs = set xs" using vs by auto
  have keys': "set (mkeys (ri_pending ?r)) = set rest"
    using keys dist by (auto simp: keys_fold_mdel im simp del: set_map)
  have mp: "map (ri_idx ?r) rest = map (ri_idx r) rest"
    using dist by (auto simp: ri_idx_def mget_fold_mdel im)
  have "sorted (map (ri_idx ?r) rest)"
    unfolding mp using srt by (simp add: sorted_append)
  with wf keys' dist show "ri_wf ?r"
    by (auto simp: ri_wf_def mget_fold_mdel split: if_splits)
  have "distinct (mkeys (ri_pending ?r))"
    using gm_wf_fold_mdel [OF gm, of rs_ctx vs] by (simp add: gm_wf_def)
  then have "length (mkeys (ri_pending ?r)) = card (set (mkeys (ri_pending ?r)))"
    by (rule distinct_card [symmetric])
  with keys' dist show "length rest = length (fold (\<lambda>v. mdel (rs_ctx v)) vs (ri_pending r))"
    by (simp add: distinct_card)
qed

lemma confirm_released:
  assumes wf: "ri_wf r" and q: "ri_queue r = pre @ ctx # rest"
    and s: "mget (ri_pending r) ctx = Some s"
    and quorum: "quorum \<le> length (mput from () (rs_confirmed s)) + 1"
  shows "\<exists>out r'. confirm r ctx from quorum = Inr (out, r') \<and> ri_wf r' \<and> ri_queue r' = rest \<and>
     map rs_ctx out = pre @ [ctx] \<and>
     (\<forall>v \<in> set out. rs_index v = ri_idx r ctx \<and> ri_idx r (rs_ctx v) \<le> rs_index v \<and>
        map_option rs_from (mget (ri_pending r) (rs_ctx v)) = Some (rs_from v))"
proof -
  let ?s = "s\<lparr>rs_confirmed := mput from () (rs_confirmed s)\<rparr>"
  let ?r = "r\<lparr>ri_pending := mput ctx ?s (ri_pending r)\<rparr>"
  define st where "st c = the (mget (ri_pending ?r) c)" for c
  have wf': "ri_wf ?r" by (rule ri_wf_confirmed [OF wf s])
  have q': "ri_queue ?r = pre @ ctx # rest" by (simp add: q)
  have look: "mget (ri_pending ?r) c = Some (st c) \<and> rs_ctx (st c) = c \<and> ri_idx ?r c = rs_index (st c)"
    if "c \<in> set (pre @ [ctx])" for c
    using ri_wf_lookup [OF wf', of c] that by (auto simp: q' st_def)
  have notin: "ctx \<notin> set pre" using wf' by (simp add: ri_wf_def q')
  have idx: "ri_idx ?r = ri_idx r" using s by (auto simp: ri_idx_def)
  let ?cs = "map st (pre @ [ctx])"
  have loop: "confirm_loop (ri_pending ?r) ctx [] (ri_queue ?r) = Inr (Some (?cs, st ctx, rest))"
  proof -
    have "\<forall>c \<in> set (pre @ [ctx]). mget (ri_pending ?r) c = Some (st c)" using look by blast
    from confirm_loop_found [OF notin this, of "[]" rest] show ?thesis
      unfolding q' append_Nil .
  qed
  have le: "ri_idx r c \<le> ri_idx r ctx" if "c \<in> set (pre @ [ctx])" for c
    using wf that by (auto simp: ri_wf_def q sorted_append)
  have ok: "\<not> list_ex (\<lambda>v. rs_index (st ctx) < rs_index v) ?cs"
    using look le by (auto simp: list_ex_iff idx not_less)
  have ctxs: "map rs_ctx ?cs = pre @ [ctx]"
    using look by (auto intro!: map_idI)
  note drop = ri_wf_drop [OF wf' _ ctxs, of rest]
  let ?pend = "fold (\<lambda>v. mdel (rs_ctx v)) ?cs (ri_pending ?r)"
  let ?out = "map (\<lambda>v. v\<lparr>rs_index := rs_index (st ctx)\<rparr>) ?cs"
  let ?r' = "?r\<lparr>ri_queue := rest, ri_pending := ?pend\<rparr>"
  have len: "length rest = length ?pend" and wf'': "ri_wf ?r'"
    using drop q' by simp_all
  have conf: "confirm r ctx from quorum = Inr (?out, ?r')"
    using loop ok len quorum by (simp add: confirm_def s Let_def)
  have "rs_index v = ri_idx r ctx \<and> ri_idx r (rs_ctx v) \<le> rs_index v \<and>
        map_option rs_from (mget (ri_pending r) (rs_ctx v)) = Some (rs_from v)"
    if "v \<in> set ?out" for v
  proof -
    from that obtain c where c: "c \<in> set (pre @ [ctx])" and v: "v = (st c)\<lparr>rs_index := rs_index (st ctx)\<rparr>"
      unfolding set_map by blast
    have "rs_index (st ctx) = ri_idx r ctx" using look [of ctx] by (simp add: idx)
    moreover have "map_option rs_from (mget (ri_pending r) c) = Some (rs_from (st c))"
      using look [OF c] s by (cases "c = ctx") (auto simp: st_def)
    ultimately show ?thesis using look [OF c] le [OF c] by (simp add: v)
  qed
  moreover have "map rs_ctx ?out = pre @ [ctx]"
    using ctxs by (simp add: comp_def)
  moreover have "ri_queue ?r' = rest" by simp
  ultimately show ?thesis
    using conf wf'' by blast
qed

lemma confirm_waiting:
  assumes wf: "ri_wf r"
    and no: "\<And>s. mget (ri_pending r) ctx = Some s \<Longrightarrow>
               length (mput from () (rs_confirmed s)) + 1 < quorum"
  shows "\<exists>r'. confirm r ctx from quorum = Inr ([], r') \<and> ri_wf r' \<and> ri_queue r' = ri_queue r"
proof (cases "mget (ri_pending r) ctx")
  case None
  with wf show ?thesis by (simp add: confirm_def)
next
  case (Some s)
  with no [OF Some] ri_wf_confirmed [OF wf Some] show ?thesis
    by (auto simp: confirm_def Let_def)
qed

section \<open>Runs of the queue\<close>

text \<open>
  The states the leader's read queue goes through between two resets: requests are added with the
  leader's commit index, which does not decrease, and heartbeat responses are confirmed.
\<close>

inductive ri_run :: "readIndex \<Rightarrow> bool" where
  ri_init: "ri_run newReadIndex"
| ri_add: "ri_run r \<Longrightarrow> addRequest r index ctx from = Inr r' \<Longrightarrow> ri_run r'"
| ri_confirm: "ri_run r \<Longrightarrow> confirm r ctx from quorum = Inr (out, r') \<Longrightarrow> ri_run r'"

lemma addRequest_wf:
  assumes "ri_wf r" and "addRequest r index ctx from = Inr r'"
  shows "ri_wf r'"
proof (cases "mhas (ri_pending r) ctx")
  case True
  with assms show ?thesis by (simp add: addRequest_def)
next
  case False
  with assms(2) obtain u where u: "addRequest_check r index = Inr u"
    by (auto simp: addRequest_def)
  from False have "ctx \<notin> set (ri_queue r)" by (simp add: ri_wf_mhas [OF assms(1)])
  from ri_wf_add [OF assms(1) this addRequest_check_Inr [OF assms(1) u]] assms(2) False u
  show ?thesis by (auto simp: addRequest_def)
qed

lemma confirm_cases:
  assumes wf: "ri_wf r"
  obtains (waiting) r' where "confirm r ctx from quorum = Inr ([], r')" "ri_wf r'"
      "ri_queue r' = ri_queue r"
  | (released) s pre rest out r' where "mget (ri_pending r) ctx = Some s"
      "quorum \<le> length (mput from () (rs_confirmed s)) + 1"
      "ri_queue r = pre @ ctx # rest"
      "confirm r ctx from quorum = Inr (out, r')" "ri_wf r'" "ri_queue r' = rest"
      "map rs_ctx out = pre @ [ctx]"
      "\<forall>v \<in> set out. rs_index v = ri_idx r ctx \<and> ri_idx r (rs_ctx v) \<le> rs_index v \<and>
        map_option rs_from (mget (ri_pending r) (rs_ctx v)) = Some (rs_from v)"
proof (cases "\<exists>s. mget (ri_pending r) ctx = Some s \<and>
                 quorum \<le> length (mput from () (rs_confirmed s)) + 1")
  case True
  then obtain s where s: "mget (ri_pending r) ctx = Some s"
    "quorum \<le> length (mput from () (rs_confirmed s)) + 1" by blast
  then have "ctx \<in> set (ri_queue r)"
    using ri_wf_mhas [OF wf, of ctx] by (simp add: mhas_def)
  then obtain pre rest where q: "ri_queue r = pre @ ctx # rest" by (meson split_list)
  from confirm_released [OF wf q s] s q released show ?thesis by blast
next
  case False
  then have "\<And>s. mget (ri_pending r) ctx = Some s \<Longrightarrow>
               length (mput from () (rs_confirmed s)) + 1 < quorum"
    using not_less by blast
  from confirm_waiting [OF wf this] waiting show ?thesis by blast
qed

lemma ri_run_wf: "ri_run r \<Longrightarrow> ri_wf r"
proof (induction rule: ri_run.induct)
  case ri_init
  then show ?case by simp
next
  case (ri_add r index ctx "from" r')
  then show ?case by (blast intro: addRequest_wf)
next
  case (ri_confirm r ctx "from" quorum out r')
  from ri_confirm.IH show ?case
    by (rule confirm_cases [of r ctx "from" quorum]) (use ri_confirm.hyps in auto)
qed



end
