(* ===== verification/Config.thy ===== *)
theory Config
  imports Raftpb
begin

text \<open>
  The replica configuration of \<^verbatim>\<open>raft/config/config.go\<close> and its validation, which \<open>newRaft\<close> runs
  first. The compression types are 32-bit integers in the source, so a configuration can hold a
  value that is neither \<open>NoCompression\<close> (0) nor \<open>Snappy\<close> (1). The warning about an election timeout
  that is not a magnitude above the heartbeat interval is logging and left out.
\<close>

record Config =
  cf_ReplicaID :: u64
  cf_ShardID :: u64
  cf_CheckQuorum :: bool
  cf_PreVote :: bool
  cf_ElectionRTT :: u64
  cf_HeartbeatRTT :: u64
  cf_SnapshotEntries :: u64
  cf_CompactionOverhead :: u64
  cf_OrderedConfigChange :: bool
  cf_MaxInMemLogSize :: u64
  cf_SnapshotCompressionType :: "32 word"
  cf_EntryCompressionType :: "32 word"
  cf_DisableAutoCompactions :: bool
  cf_IsNonVoting :: bool
  cf_IsWitness :: bool
  cf_WaitReady :: bool

definition known_compression :: "32 word \<Rightarrow> bool" where
  "known_compression t \<longleftrightarrow> t = 1 \<or> t = 0"

definition Validate :: "Config \<Rightarrow> unit res" where
  "Validate c =
     (if cf_ReplicaID c = 0 then Inl (ErrOther ''invalid ReplicaID, it must be >= 1'')
      else if cf_HeartbeatRTT c = 0 then Inl (ErrOther ''HeartbeatRTT must be > 0'')
      else if cf_ElectionRTT c = 0 then Inl (ErrOther ''ElectionRTT must be > 0'')
      else if cf_ElectionRTT c \<le> 2 * cf_HeartbeatRTT c then Inl (ErrOther ''invalid election rtt'')
      else if cf_MaxInMemLogSize c > 0 \<and> cf_MaxInMemLogSize c < EntryNonCmdFieldsSize + 1
        then Inl (ErrOther ''MaxInMemLogSize is too small'')
      else if \<not> known_compression (cf_SnapshotCompressionType c)
        then Inl (ErrOther ''unknown compression type'')
      else if \<not> known_compression (cf_EntryCompressionType c)
        then Inl (ErrOther ''unknown compression type'')
      else if cf_IsWitness c \<and> cf_SnapshotEntries c > 0
        then Inl (ErrOther ''witness node can not take snapshot'')
      else if cf_IsWitness c \<and> cf_IsNonVoting c
        then Inl (ErrOther ''witness node can not be a non-voting node'')
      else Inr ())"

lemma Validate_ok:
  "Validate c = Inr () \<Longrightarrow>
     cf_ReplicaID c \<noteq> 0 \<and> cf_HeartbeatRTT c \<noteq> 0 \<and> cf_ElectionRTT c \<noteq> 0 \<and>
     cf_ElectionRTT c > 2 * cf_HeartbeatRTT c \<and> \<not> (cf_IsWitness c \<and> cf_IsNonVoting c)"
  by (auto simp: Validate_def split: if_splits)

end
