(* ===== verification/Raft.thy ===== *)
theory Raft
  imports EntryLog ReadIndexQueue Remote Config
begin

text \<open>
  The raft state of \<^verbatim>\<open>raft/internal/raft/raft.go\<close> and the operations its message handlers are built
  from: sending and broadcasting, appending and committing, role transitions, elections and
  membership changes. The handlers themselves and \<open>Handle\<close> are in \<open>RaftHandlers\<close>.

  The state is one record. A \<open>*remote\<close> is a position (\<open>rloc\<close> and replica id) in one of the three
  progress maps, since the code mutates remotes through pointers obtained from these maps. The rate
  limiter shared by \<open>raft\<close> and \<open>inMemory\<close> is stored once, in \<open>im_rl\<close>. An event listener is the list
  of the events it received, \<open>None\<close> for a nil listener. The test hook
  \<open>hasNotAppliedConfigChange\<close> is the value it returns, \<open>None\<close> for nil. \<open>r_rt\<close> is the oracle of
  the Go runtime: it decides the order of a \<open>range\<close> over a map wherever that order is observable
  (the order of sent messages) and the random election timeouts. Loops over a map whose effect does
  not depend on the order run over the association list. Log messages are left out.
\<close>

declare zero_defs [simp del]

section \<open>State\<close>

datatype NodeState = Follower | Candidate | PreVoteCandidate | Leader | NonVoting | Witness

record LeaderInfo =
  li_ShardID :: u64
  li_ReplicaID :: u64
  li_Term :: u64
  li_LeaderID :: u64

record CampaignInfo =
  ci_ShardID :: u64
  ci_ReplicaID :: u64
  ci_PreVote :: bool
  ci_Term :: u64

record SnapshotInfo =
  si_ShardID :: u64
  si_ReplicaID :: u64
  si_From :: u64
  si_Index :: u64
  si_Term :: u64

record ReplicationInfo =
  pi_ShardID :: u64
  pi_ReplicaID :: u64
  pi_From :: u64
  pi_Index :: u64
  pi_Term :: u64

record ProposalInfo =
  oi_Entries :: "Entry list"
  oi_ShardID :: u64
  oi_ReplicaID :: u64

record ReadIndexInfo =
  xi_ShardID :: u64
  xi_ReplicaID :: u64

datatype RaftEvent =
    LeaderUpdated LeaderInfo
  | CampaignLaunched CampaignInfo
  | CampaignSkipped CampaignInfo
  | SnapshotRejected SnapshotInfo
  | ReplicationRejected ReplicationInfo
  | ProposalDropped ProposalInfo
  | ReadIndexDropped ReadIndexInfo

record raft =
  r_events :: "RaftEvent list option"
  r_hasNotAppliedConfigChange :: "bool option"
  r_votes :: "(u64, bool) gomap"
  r_log :: entryLog
  r_remotes :: "(u64, remote) gomap"
  r_nonVotings :: "(u64, remote) gomap"
  r_witnesses :: "(u64, remote) gomap"
  r_logQueryResult :: "LogQueryResult option"
  r_leaderUpdate :: "LeaderUpdate option"
  r_readIndex :: readIndex
  r_matched :: "u64 list"
  r_msgs :: "Message list"
  r_droppedReadIndexes :: "SystemCtx list"
  r_droppedEntries :: "Entry list"
  r_readyToRead :: "ReadyToRead list"
  r_prevLeader :: LeaderInfo
  r_state :: NodeState
  r_leaderTransferTarget :: u64
  r_leaderID :: u64
  r_shardID :: u64
  r_replicaID :: u64
  r_term :: u64
  r_applied :: u64
  r_vote :: u64
  r_tickCount :: u64
  r_electionTick :: u64
  r_heartbeatTick :: u64
  r_heartbeatTimeout :: u64
  r_electionTimeout :: u64
  r_randomizedElectionTimeout :: u64
  r_snapshotting :: bool
  r_checkQuorum :: bool
  r_quiesce :: bool
  r_isLeaderTransferTarget :: bool
  r_pendingConfigChange :: bool
  r_preVote :: bool
  r_rt :: go_rt

definition NoLeader :: u64 where
  "NoLeader = 0"

definition setApplied :: "raft \<Rightarrow> u64 \<Rightarrow> raft" where
  "setApplied r applied = r\<lparr>r_applied := applied\<rparr>"

definition getApplied :: "raft \<Rightarrow> u64" where
  "getApplied r = r_applied r"

definition emit :: "RaftEvent \<Rightarrow> raft \<Rightarrow> raft" where
  "emit e r = r\<lparr>r_events := map_option (\<lambda>es. es @ [e]) (r_events r)\<rparr>"

text \<open>An error is handled by the caller, a panic is not.\<close>

definition on_error :: "'a res \<Rightarrow> (go_error \<Rightarrow> 'b res) \<Rightarrow> ('a \<Rightarrow> 'b res) \<Rightarrow> 'b res" where
  "on_error m f g = (case m of
      Inl (GoPanic s) \<Rightarrow> Inl (GoPanic s) | Inl err \<Rightarrow> f err | Inr x \<Rightarrow> g x)"

definition r_rl :: "raft \<Rightarrow> InMemRateLimiter" where
  "r_rl r = im_rl (lg_inmem (r_log r))"

definition set_rl :: "InMemRateLimiter \<Rightarrow> raft \<Rightarrow> raft" where
  "set_rl rl r = r\<lparr>r_log := (r_log r)\<lparr>lg_inmem := (lg_inmem (r_log r))\<lparr>im_rl := rl\<rparr>\<rparr>\<rparr>"

definition range_r :: "raft \<Rightarrow> (u64, 'v) gomap \<Rightarrow> u64 list \<times> raft" where
  "range_r r m = (case range_keys (r_rt r) m of (ks, rt) \<Rightarrow> (ks, r\<lparr>r_rt := rt\<rparr>))"

datatype rloc = InRemotes | InNonVotings | InWitnesses

definition rmap :: "raft \<Rightarrow> rloc \<Rightarrow> (u64, remote) gomap" where
  "rmap r loc = (case loc of
      InRemotes \<Rightarrow> r_remotes r | InNonVotings \<Rightarrow> r_nonVotings r | InWitnesses \<Rightarrow> r_witnesses r)"

definition rp_deref :: "raft \<Rightarrow> rloc \<Rightarrow> u64 \<Rightarrow> remote res" where
  "rp_deref r loc nid = (case mget (rmap r loc) nid of
      Some rp \<Rightarrow> Inr rp | None \<Rightarrow> Inl (GoPanic ''nil pointer dereference''))"

definition rp_set :: "rloc \<Rightarrow> u64 \<Rightarrow> remote \<Rightarrow> raft \<Rightarrow> raft" where
  "rp_set loc nid rp r = (case loc of
      InRemotes \<Rightarrow> r\<lparr>r_remotes := mput nid rp (r_remotes r)\<rparr>
    | InNonVotings \<Rightarrow> r\<lparr>r_nonVotings := mput nid rp (r_nonVotings r)\<rparr>
    | InWitnesses \<Rightarrow> r\<lparr>r_witnesses := mput nid rp (r_witnesses r)\<rparr>)"

definition find_remote :: "raft \<Rightarrow> u64 \<Rightarrow> rloc option" where
  "find_remote r nid =
     (if mhas (r_remotes r) nid then Some InRemotes
      else if mhas (r_nonVotings r) nid then Some InNonVotings
      else if mhas (r_witnesses r) nid then Some InWitnesses
      else None)"

section \<open>Roles and members\<close>

definition isCandidate :: "raft \<Rightarrow> bool" where
  "isCandidate r \<longleftrightarrow> r_state r = Candidate"

definition isLeader :: "raft \<Rightarrow> bool" where
  "isLeader r \<longleftrightarrow> r_state r = Leader"

definition isNonVoting :: "raft \<Rightarrow> bool" where
  "isNonVoting r \<longleftrightarrow> r_state r = NonVoting"

definition isWitness :: "raft \<Rightarrow> bool" where
  "isWitness r \<longleftrightarrow> r_state r = Witness"

definition mustBeLeader :: "raft \<Rightarrow> unit res" where
  "mustBeLeader r = (if \<not> isLeader r then Inl (GoPanic ''is not leader'') else Inr ())"

definition setLeaderID :: "raft \<Rightarrow> u64 \<Rightarrow> raft" where
  "setLeaderID r leaderID =
     (let r = r\<lparr>r_leaderID := leaderID,
                r_leaderUpdate := Some \<lparr>lu_LeaderID = leaderID, lu_Term = r_term r\<rparr>\<rparr>
      in if r_events r \<noteq> None \<and>
            (r_term r = 0 \<and> leaderID = NoLeader \<or>
             leaderID \<noteq> li_LeaderID (r_prevLeader r) \<or> r_term r \<noteq> li_Term (r_prevLeader r))
         then
           let info = \<lparr>li_ShardID = r_shardID r, li_ReplicaID = r_replicaID r, li_Term = r_term r,
                       li_LeaderID = leaderID\<rparr>
           in emit (LeaderUpdated info) (r\<lparr>r_prevLeader := info\<rparr>)
         else r)"

definition leaderTransfering :: "raft \<Rightarrow> bool" where
  "leaderTransfering r \<longleftrightarrow> r_leaderTransferTarget r \<noteq> NoNode \<and> isLeader r"

definition abortLeaderTransfer :: "raft \<Rightarrow> raft" where
  "abortLeaderTransfer r = r\<lparr>r_leaderTransferTarget := NoNode\<rparr>"

definition numVotingMembers :: "raft \<Rightarrow> nat" where
  "numVotingMembers r = length (r_remotes r) + length (r_witnesses r)"

definition resetMatchValueArray :: "raft \<Rightarrow> raft" where
  "resetMatchValueArray r = r\<lparr>r_matched := replicate (numVotingMembers r) 0\<rparr>"

definition quorum :: "raft \<Rightarrow> nat" where
  "quorum r = numVotingMembers r div 2 + 1"

definition isSingleNodeQuorum :: "raft \<Rightarrow> bool" where
  "isSingleNodeQuorum r \<longleftrightarrow> quorum r = 1"

definition votingMembers :: "raft \<Rightarrow> (u64, remote) gomap" where
  "votingMembers r = maps_copy (maps_copy [] (r_remotes r)) (r_witnesses r)"

text \<open>
  The map of voting members holds the pointers of both maps, a witness entry replacing a remote with
  the same id; \<open>voting_loc\<close> is where the pointer of \<open>nid\<close> comes from.
\<close>

definition voting_loc :: "raft \<Rightarrow> u64 \<Rightarrow> rloc" where
  "voting_loc r nid = (if mhas (r_witnesses r) nid then InWitnesses else InRemotes)"

definition leaderHasQuorum :: "raft \<Rightarrow> bool \<times> raft" where
  "leaderHasQuorum r =
     (let (c, r') = fold (\<lambda>(nid, member) (c, r).
            if nid = r_replicaID r \<or> isActive member
            then (Suc c, rp_set (voting_loc r nid) nid (setNotActive member) r)
            else (c, r)) (votingMembers r) (0, r)
      in (c \<ge> quorum r', r'))"

definition nodes :: "raft \<Rightarrow> u64 list \<times> raft" where
  "nodes r =
     (let (rs, r) = range_r r (r_remotes r);
          (nvs, r) = range_r r (r_nonVotings r);
          (ws, r) = range_r r (r_witnesses r)
      in (rs @ nvs @ ws, r))"

definition nodesSorted :: "raft \<Rightarrow> u64 list \<times> raft" where
  "nodesSorted r = (let (ns, r) = nodes r in (sort ns, r))"

definition raftState :: "raft \<Rightarrow> State" where
  "raftState r = \<lparr>st_Term = r_term r, st_Vote = r_vote r, st_Commit = lg_committed (r_log r)\<rparr>"

definition loadState :: "raft \<Rightarrow> State \<Rightarrow> raft res" where
  "loadState r st =
     (if st_Commit st < lg_committed (r_log r) \<or> st_Commit st > lg_lastIndex (r_log r)
      then Inl (GoPanic ''got out of range state'')
      else Inr (r\<lparr>r_log := (r_log r)\<lparr>lg_committed := st_Commit st\<rparr>,
                  r_term := st_Term st, r_vote := st_Vote st\<rparr>))"

definition restore :: "raft \<Rightarrow> Snapshot \<Rightarrow> (bool \<times> raft) res" where
  "restore r ss =
     (if ss_Index ss \<le> lg_committed (r_log r) then Inr (False, r)
      else if \<not> isNonVoting r \<and> r_replicaID r \<in> set (mkeys (mb_NonVotings (ss_Membership ss)))
        then Inl (GoPanic ''converting to nonVoting'')
      else if \<not> isWitness r \<and> r_replicaID r \<in> set (mkeys (mb_Witnesses (ss_Membership ss)))
        then Inl (GoPanic ''converting to witness'')
      else bind_res (matchTerm (r_log r) (ss_Index ss) (ss_Term ss)) (\<lambda>match.
        if match
        then bind_res (commitTo (r_log r) (ss_Index ss)) (\<lambda>l. Inr (False, r\<lparr>r_log := l\<rparr>))
        else bind_res (lg_restore (r_log r) ss) (\<lambda>l. Inr (True, r\<lparr>r_log := l\<rparr>))))"

definition selfRemoved :: "raft \<Rightarrow> bool" where
  "selfRemoved r =
     (if isNonVoting r then \<not> mhas (r_nonVotings r) (r_replicaID r)
      else if isWitness r then \<not> mhas (r_witnesses r) (r_replicaID r)
      else \<not> mhas (r_remotes r) (r_replicaID r))"

definition deleteRemote :: "raft \<Rightarrow> u64 \<Rightarrow> raft" where
  "deleteRemote r replicaID = r\<lparr>r_remotes := mdel replicaID (r_remotes r)\<rparr>"

definition deleteNonVoting :: "raft \<Rightarrow> u64 \<Rightarrow> raft" where
  "deleteNonVoting r replicaID = r\<lparr>r_nonVotings := mdel replicaID (r_nonVotings r)\<rparr>"

definition deleteWitness :: "raft \<Rightarrow> u64 \<Rightarrow> raft" where
  "deleteWitness r replicaID = r\<lparr>r_witnesses := mdel replicaID (r_witnesses r)\<rparr>"

definition setRemote :: "raft \<Rightarrow> u64 \<Rightarrow> u64 \<Rightarrow> u64 \<Rightarrow> raft" where
  "setRemote r replicaID match nxt =
     r\<lparr>r_remotes := mput replicaID (new_remote match nxt) (r_remotes r)\<rparr>"

definition setNonVoting :: "raft \<Rightarrow> u64 \<Rightarrow> u64 \<Rightarrow> u64 \<Rightarrow> raft" where
  "setNonVoting r replicaID match nxt =
     r\<lparr>r_nonVotings := mput replicaID (new_remote match nxt) (r_nonVotings r)\<rparr>"

definition setWitness :: "raft \<Rightarrow> u64 \<Rightarrow> u64 \<Rightarrow> u64 \<Rightarrow> raft" where
  "setWitness r replicaID match nxt =
     r\<lparr>r_witnesses := mput replicaID (new_remote match nxt) (r_witnesses r)\<rparr>"

definition setPendingConfigChange :: "raft \<Rightarrow> raft" where
  "setPendingConfigChange r = r\<lparr>r_pendingConfigChange := True\<rparr>"

definition hasPendingConfigChange :: "raft \<Rightarrow> bool" where
  "hasPendingConfigChange r = r_pendingConfigChange r"

definition clearPendingConfigChange :: "raft \<Rightarrow> raft" where
  "clearPendingConfigChange r = r\<lparr>r_pendingConfigChange := False\<rparr>"

section \<open>Timers\<close>

definition timeForElection :: "raft \<Rightarrow> bool" where
  "timeForElection r \<longleftrightarrow> r_electionTick r \<ge> r_randomizedElectionTimeout r"

definition timeForHeartbeat :: "raft \<Rightarrow> bool" where
  "timeForHeartbeat r \<longleftrightarrow> r_heartbeatTick r \<ge> r_heartbeatTimeout r"

definition timeForCheckQuorum :: "raft \<Rightarrow> bool" where
  "timeForCheckQuorum r \<longleftrightarrow> r_electionTick r \<ge> r_electionTimeout r"

definition timeToAbortLeaderTransfer :: "raft \<Rightarrow> bool" where
  "timeToAbortLeaderTransfer r \<longleftrightarrow> leaderTransfering r \<and> r_electionTick r \<ge> r_electionTimeout r"

text \<open>The remainder by a zero timeout is a division by zero, which panics.\<close>

definition timeForRateLimitCheck :: "raft \<Rightarrow> bool res" where
  "timeForRateLimitCheck r =
     (if r_electionTimeout r = 0 then Inl (GoPanic ''integer divide by zero'')
      else Inr (r_tickCount r mod r_electionTimeout r = 0))"

definition timeForInMemGC :: "raft \<Rightarrow> bool" where
  "timeForInMemGC r \<longleftrightarrow> r_tickCount r mod InMemGCTimeout = 0"

definition quiescedTick :: "raft \<Rightarrow> raft" where
  "quiescedTick r =
     (let r = (if \<not> r_quiesce r
               then r\<lparr>r_quiesce := True, r_log := (r_log r)\<lparr>lg_inmem := im_resize (lg_inmem (r_log r))\<rparr>\<rparr>
               else r)
      in r\<lparr>r_electionTick := r_electionTick r + 1\<rparr>)"

definition setRandomizedElectionTimeout :: "raft \<Rightarrow> raft res" where
  "setRandomizedElectionTimeout r =
     (if r_electionTimeout r = 0 then Inl (GoPanic ''integer divide by zero'')
      else case rand_uint64 (r_rt r) of (x, rt) \<Rightarrow>
        let randTime = x mod r_electionTimeout r
        in Inr (r\<lparr>r_rt := rt, r_randomizedElectionTimeout := r_electionTimeout r + randTime\<rparr>))"

section \<open>Message classes\<close>

definition isPreVoteMessage :: "MessageType \<Rightarrow> bool" where
  "isPreVoteMessage t \<longleftrightarrow> t = RequestPreVote \<or> t = RequestPreVoteResp"

definition isRequestVoteMessage :: "MessageType \<Rightarrow> bool" where
  "isRequestVoteMessage t \<longleftrightarrow> t = RequestVote \<or> t = RequestPreVote"

definition isRequestMessage :: "MessageType \<Rightarrow> bool" where
  "isRequestMessage t \<longleftrightarrow> t = Propose \<or> t = ReadIndex \<or> t = LeaderTransfer"

definition isLeaderMessage :: "MessageType \<Rightarrow> bool" where
  "isLeaderMessage t \<longleftrightarrow>
     t = Replicate \<or> t = InstallSnapshot \<or> t = Heartbeat \<or> t = TimeoutNow \<or> t = ReadIndexResp"

definition isPreVoteMessageWithExpectedHigherTerm :: "Message \<Rightarrow> bool" where
  "isPreVoteMessageWithExpectedHigherTerm m \<longleftrightarrow>
     m_Type m = RequestPreVote \<or> m_Type m = RequestPreVoteResp \<and> \<not> m_Reject m"

section \<open>Sending\<close>

definition finalizeMessageTerm :: "raft \<Rightarrow> Message \<Rightarrow> Message res" where
  "finalizeMessageTerm r m =
     (if m_Term m = 0 \<and> m_Type m = RequestVote then Inl (GoPanic ''sending RequestVote with 0 term'')
      else if m_Term m > 0 \<and> \<not> isRequestVoteMessage (m_Type m) \<and> m_Type m \<noteq> RequestPreVoteResp
        then Inl (GoPanic ''term unexpectedly set for message type'')
      else if \<not> isRequestMessage (m_Type m) \<and> \<not> isRequestVoteMessage (m_Type m) \<and>
              m_Type m \<noteq> RequestPreVoteResp
        then Inr (m\<lparr>m_Term := r_term r\<rparr>)
      else Inr m)"

definition send :: "raft \<Rightarrow> Message \<Rightarrow> raft res" where
  "send r m =
     bind_res (finalizeMessageTerm r (m\<lparr>m_From := r_replicaID r\<rparr>)) (\<lambda>m.
       Inr (r\<lparr>r_msgs := r_msgs r @ [m]\<rparr>))"

definition sendRateLimitMessage :: "raft \<Rightarrow> raft res" where
  "sendRateLimitMessage r =
     (if isLeader r then Inl (GoPanic ''leader node called sendRateLimitMessage'')
      else if r_leaderID r = NoLeader then Inr r
      else if \<not> il_Enabled (r_rl r) then Inr r
      else
        let (limited, rl) = il_RateLimited (r_rl r); r = set_rl rl r
        in bind_res
             (if limited then
                bind_res (getUncommittedEntries (r_log r)) (\<lambda>ents.
                  let inmemSz = il_Get (r_rl r); notCommitedSz = GetEntrySliceSize ents
                  in Inr (max (inmemSz - notCommitedSz) 0))
              else Inr 0) (\<lambda>mv.
           send r ((zero_Message RateLimit)\<lparr>m_To := r_leaderID r, m_Hint := mv\<rparr>)))"

definition makeWitnessSnapshot :: "Snapshot \<Rightarrow> Snapshot" where
  "makeWitnessSnapshot ss =
     ss\<lparr>ss_Filepath := [], ss_FileSize := 0, ss_Files := [], ss_Witness := True, ss_Dummy := False\<rparr>"

definition makeInstallSnapshotMessage :: "raft \<Rightarrow> u64 \<Rightarrow> (u64 \<times> Message) res" where
  "makeInstallSnapshotMessage r to =
     (let ss = lg_snapshot (r_log r)
      in if IsEmptySnapshot ss then Inl (GoPanic ''got an empty snapshot'')
         else
           let ss = (if mhas (r_witnesses r) to then makeWitnessSnapshot ss else ss)
           in Inr (ss_Index ss, (zero_Message InstallSnapshot)\<lparr>m_To := to, m_Snapshot := ss\<rparr>))"

definition makeMetadataEntries :: "Entry list \<Rightarrow> Entry list" where
  "makeMetadataEntries entries =
     map (\<lambda>ent. if e_Type ent \<noteq> ConfigChangeEntry
                then zero_Entry\<lparr>e_Type := MetadataEntry, e_Index := e_Index ent, e_Term := e_Term ent\<rparr>
                else ent) entries"

definition makeReplicateMessage :: "raft \<Rightarrow> u64 \<Rightarrow> u64 \<Rightarrow> u64 \<Rightarrow> Message res" where
  "makeReplicateMessage r to nxt maxSize =
     bind_res (lg_term (r_log r) (nxt - 1)) (\<lambda>trm.
     bind_res (lg_entries (r_log r) nxt maxSize) (\<lambda>entries.
       if length entries > 0 \<and> e_Index (last entries) \<noteq> nxt - 1 + slice_len entries
       then Inl (GoPanic ''expected last index in Replicate'')
       else
         let entries = (if mhas (r_witnesses r) to then makeMetadataEntries entries else entries)
         in Inr ((zero_Message Replicate)\<lparr>m_To := to, m_LogIndex := nxt - 1, m_LogTerm := trm,
                    m_Entries := entries, m_Commit := lg_committed (r_log r)\<rparr>)))"

definition sendReplicateMessage :: "raft \<Rightarrow> u64 \<Rightarrow> raft res" where
  "sendReplicateMessage r to =
     (case find_remote r to of
        None \<Rightarrow> Inl (GoPanic ''failed to get the remote instance'')
      | Some loc \<Rightarrow>
          bind_res (rp_deref r loc to) (\<lambda>rp.
            if isPaused rp then Inr r
            else on_error (makeReplicateMessage r to (rm_next rp) MaxEntrySize)
              (\<lambda>err.
                 if \<not> isActive rp then Inr r
                 else bind_res (makeInstallSnapshotMessage r to) (\<lambda>(index, m).
                        send (rp_set loc to (becomeSnapshot rp index) r) m))
              (\<lambda>m.
                 if length (m_Entries m) > 0 then
                   bind_res (progress rp (e_Index (last (m_Entries m)))) (\<lambda>rp.
                     send (rp_set loc to rp r) m)
                 else send r m)))"

definition broadcastReplicateMessage :: "raft \<Rightarrow> raft res" where
  "broadcastReplicateMessage r =
     bind_res (mustBeLeader r) (\<lambda>_.
       if r_replicaID r \<in> set (mkeys (r_nonVotings r))
       then Inl (GoPanic ''nonVoting is broadcasting Replicate msg'')
       else
         let (ns, r) = nodes r
         in foldM (\<lambda>nid r. if nid \<noteq> r_replicaID r then sendReplicateMessage r nid else Inr r) ns r)"

definition sendHeartbeatMessage :: "raft \<Rightarrow> u64 \<Rightarrow> SystemCtx \<Rightarrow> u64 \<Rightarrow> raft res" where
  "sendHeartbeatMessage r to hint match =
     (let commit = min match (lg_committed (r_log r))
      in send r ((zero_Message Heartbeat)\<lparr>m_To := to, m_Commit := commit, m_Hint := ctx_Low hint,
                    m_HintHigh := ctx_High hint\<rparr>))"

definition broadcastHeartbeatMessageWithHint :: "raft \<Rightarrow> SystemCtx \<Rightarrow> raft res" where
  "broadcastHeartbeatMessageWithHint r ctx =
     (let vm = votingMembers r; (ks, r) = range_r r vm
      in bind_res (foldM (\<lambda>nid r.
             if nid \<noteq> r_replicaID r then
               (case mget vm nid of
                  Some rm \<Rightarrow> sendHeartbeatMessage r nid ctx (rm_match rm)
                | None \<Rightarrow> Inr r)
             else Inr r) ks r) (\<lambda>r.
           if ctx = zero_SystemCtx then
             let (ks, r) = range_r r (r_nonVotings r)
             in foldM (\<lambda>nid r.
                  (case mget (r_nonVotings r) nid of
                     Some rm \<Rightarrow> sendHeartbeatMessage r nid zero_SystemCtx (rm_match rm)
                   | None \<Rightarrow> Inr r)) ks r
           else Inr r))"

definition broadcastHeartbeatMessage :: "raft \<Rightarrow> raft res" where
  "broadcastHeartbeatMessage r =
     bind_res (mustBeLeader r) (\<lambda>_.
       if hasPendingRequest (r_readIndex r)
       then bind_res (peepCtx (r_readIndex r)) (\<lambda>ctx. broadcastHeartbeatMessageWithHint r ctx)
       else broadcastHeartbeatMessageWithHint r zero_SystemCtx)"

definition sendTimeoutNowMessage :: "raft \<Rightarrow> u64 \<Rightarrow> raft res" where
  "sendTimeoutNowMessage r replicaID = send r ((zero_Message TimeoutNow)\<lparr>m_To := replicaID\<rparr>)"

section \<open>Append and commit\<close>

definition swap_if_greater :: "nat \<Rightarrow> nat \<Rightarrow> u64 list \<Rightarrow> u64 list" where
  "swap_if_greater i j xs = (if xs ! i > xs ! j then xs[i := xs ! j, j := xs ! i] else xs)"

definition sortMatchValues :: "u64 list \<Rightarrow> u64 list" where
  "sortMatchValues matched =
     (if length matched = 3
      then swap_if_greater 0 1 (swap_if_greater 1 2 (swap_if_greater 0 1 matched))
      else if length matched = 1 then matched
      else sort matched)"

text \<open>
  The two loops overwrite the first \<open>numVotingMembers\<close> elements of \<open>matched\<close>, which has exactly
  that length, so the array holds the match values of all voting members.
\<close>

definition tryCommit :: "raft \<Rightarrow> (bool \<times> raft) res" where
  "tryCommit r =
     bind_res (mustBeLeader r) (\<lambda>_.
       let r = r\<lparr>r_matched := sortMatchValues (map (rm_match \<circ> snd) (r_remotes r) @
                                               map (rm_match \<circ> snd) (r_witnesses r))\<rparr>
       in if numVotingMembers r < quorum r then Inl (GoPanic ''index out of range'')
          else
            let q = r_matched r ! (numVotingMembers r - quorum r)
            in bind_res (lg_tryCommit (r_log r) q (r_term r)) (\<lambda>(l, ok). Inr (ok, r\<lparr>r_log := l\<rparr>)))"

definition stamp_entries :: "u64 \<Rightarrow> u64 \<Rightarrow> Entry list \<Rightarrow> Entry list" where
  "stamp_entries trm lastIndex entries =
     map (\<lambda>(i, e). e\<lparr>e_Term := trm, e_Index := lastIndex + 1 + of_nat i\<rparr>)
       (zip [0..<length entries] entries)"

definition appendEntries :: "raft \<Rightarrow> Entry list \<Rightarrow> raft res" where
  "appendEntries r entries =
     (let entries = stamp_entries (r_term r) (lg_lastIndex (r_log r)) entries
      in bind_res (lg_append (r_log r) entries) (\<lambda>l.
           let r = r\<lparr>r_log := l\<rparr>
           in bind_res (rp_deref r InRemotes (r_replicaID r)) (\<lambda>rp.
                let r = rp_set InRemotes (r_replicaID r) (snd (tryUpdate rp (lg_lastIndex (r_log r)))) r
                in if isSingleNodeQuorum r
                   then bind_res (tryCommit r) (\<lambda>(ok, r). Inr r)
                   else Inr r)))"

section \<open>Role transitions\<close>

definition reset_remote_map :: "raft \<Rightarrow> (u64, remote) gomap \<Rightarrow> (u64, remote) gomap" where
  "reset_remote_map r m =
     mmap (\<lambda>nid _. let rp = new_remote 0 (lg_lastIndex (r_log r) + 1)
                  in if nid = r_replicaID r then rp\<lparr>rm_match := lg_lastIndex (r_log r)\<rparr> else rp) m"

definition resetRemotes :: "raft \<Rightarrow> raft" where
  "resetRemotes r = r\<lparr>r_remotes := reset_remote_map r (r_remotes r)\<rparr>"

definition resetNonVotings :: "raft \<Rightarrow> raft" where
  "resetNonVotings r = r\<lparr>r_nonVotings := reset_remote_map r (r_nonVotings r)\<rparr>"

definition resetWitnesses :: "raft \<Rightarrow> raft" where
  "resetWitnesses r = r\<lparr>r_witnesses := reset_remote_map r (r_witnesses r)\<rparr>"

definition reset :: "raft \<Rightarrow> u64 \<Rightarrow> bool \<Rightarrow> raft res" where
  "reset r trm resetElectionTimeout =
     (let r = (if r_term r \<noteq> trm then r\<lparr>r_term := trm, r_vote := NoLeader\<rparr> else r);
          r = (if il_Enabled (r_rl r) then set_rl (il_Reset (r_rl r)) r else r)
      in bind_res (if resetElectionTimeout
                   then setRandomizedElectionTimeout (r\<lparr>r_electionTick := 0\<rparr>) else Inr r) (\<lambda>r.
           let r = r\<lparr>r_votes := [], r_heartbeatTick := 0, r_readIndex := newReadIndex\<rparr>;
               r = abortLeaderTransfer (clearPendingConfigChange r)
           in Inr (resetMatchValueArray (resetWitnesses (resetNonVotings (resetRemotes r))))))"

definition toFollowerState :: "raft \<Rightarrow> u64 \<Rightarrow> u64 \<Rightarrow> bool \<Rightarrow> raft res" where
  "toFollowerState r trm leaderID resetElectionTimeout =
     (if isWitness r then Inl (GoPanic ''transitioning to follower from witness state'')
      else bind_res (reset (r\<lparr>r_state := Follower\<rparr>) trm resetElectionTimeout) (\<lambda>r.
             Inr (setLeaderID r leaderID)))"

definition becomeNonVoting :: "raft \<Rightarrow> u64 \<Rightarrow> u64 \<Rightarrow> raft res" where
  "becomeNonVoting r trm leaderID =
     (if \<not> isNonVoting r then Inl (GoPanic ''transitioning to nonVoting state from other states'')
      else if isWitness r then Inl (GoPanic ''transitioning to nonVoting from witness state'')
      else bind_res (reset r trm True) (\<lambda>r. Inr (setLeaderID r leaderID)))"

definition becomeWitness :: "raft \<Rightarrow> u64 \<Rightarrow> u64 \<Rightarrow> raft res" where
  "becomeWitness r trm leaderID =
     (if \<not> isWitness r then Inl (GoPanic ''transitioning to witness state from non-witness'')
      else bind_res (reset r trm True) (\<lambda>r. Inr (setLeaderID r leaderID)))"

definition becomeFollower :: "raft \<Rightarrow> u64 \<Rightarrow> u64 \<Rightarrow> raft res" where
  "becomeFollower r trm leaderID = toFollowerState r trm leaderID True"

definition becomeFollowerKE :: "raft \<Rightarrow> u64 \<Rightarrow> u64 \<Rightarrow> raft res" where
  "becomeFollowerKE r trm leaderID = toFollowerState r trm leaderID False"

definition becomePreVoteCandidate :: "raft \<Rightarrow> raft res" where
  "becomePreVoteCandidate r =
     (if \<not> r_preVote r then Inl (GoPanic ''becomePreVoteCandidate called when preVote not enabled'')
      else if isLeader r then Inl (GoPanic ''transitioning to candidate state from leader'')
      else if isNonVoting r then Inl (GoPanic ''nonVoting is becoming candidate'')
      else if isWitness r then Inl (GoPanic ''witness is becoming candidate'')
      else
        let r = r\<lparr>r_state := PreVoteCandidate\<rparr>
        in bind_res (reset r (r_term r) True) (\<lambda>r. Inr (setLeaderID r NoLeader)))"

definition becomeCandidate :: "raft \<Rightarrow> raft res" where
  "becomeCandidate r =
     (if isLeader r then Inl (GoPanic ''transitioning to candidate state from leader'')
      else if isNonVoting r then Inl (GoPanic ''nonVoting is becoming candidate'')
      else if isWitness r then Inl (GoPanic ''witness is becoming candidate'')
      else
        let r = r\<lparr>r_state := Candidate\<rparr>
        in bind_res (reset r (r_term r + 1) True) (\<lambda>r.
             let r = setLeaderID r NoLeader in Inr (r\<lparr>r_vote := r_replicaID r\<rparr>)))"

text \<open>
  \<open>getPendingConfigChangeCount\<close> reads the uncommitted entries page by page in an unbounded loop. The
  model gives it as many iterations as the log has indexes; \<open>getPendingConfigChangeCount_total\<close> in
  \<open>LogStack\<close> shows that this is enough for every well-formed log.
\<close>

fun pendingConfigChange_loop :: "nat \<Rightarrow> entryLog \<Rightarrow> u64 \<Rightarrow> nat \<Rightarrow> nat res" where
  "pendingConfigChange_loop 0 l idx cnt = Inl (GoPanic ''loop does not end'')"
| "pendingConfigChange_loop (Suc fuel) l idx cnt =
     (case lg_entries l idx MaxApplyEntrySize of
        Inl err \<Rightarrow> Inl (GoPanic ''failed to get entries'')
      | Inr ents \<Rightarrow>
          if length ents = 0 then Inr cnt
          else pendingConfigChange_loop fuel l (e_Index (last ents) + 1)
                 (cnt + countConfigChange ents))"

definition getPendingConfigChangeCount :: "raft \<Rightarrow> nat res" where
  "getPendingConfigChangeCount r =
     pendingConfigChange_loop (unat (lg_lastIndex (r_log r)) + 2) (r_log r)
       (lg_committed (r_log r) + 1) 0"

definition preLeaderPromotionHandleConfigChange :: "raft \<Rightarrow> raft res" where
  "preLeaderPromotionHandleConfigChange r =
     bind_res (getPendingConfigChangeCount r) (\<lambda>n.
       if n > 1 then Inl (GoPanic ''multiple uncommitted config change entries'')
       else if n = 1 then Inr (setPendingConfigChange r)
       else Inr r)"

definition becomeLeader :: "raft \<Rightarrow> raft res" where
  "becomeLeader r =
     (if \<not> isLeader r \<and> \<not> isCandidate r then Inl (GoPanic ''transitioning to leader state'')
      else
        let r = r\<lparr>r_state := Leader\<rparr>
        in bind_res (reset r (r_term r) True) (\<lambda>r.
           let r = setLeaderID r (r_replicaID r)
           in bind_res (preLeaderPromotionHandleConfigChange r) (\<lambda>r.
                appendEntries r [zero_Entry\<lparr>e_Type := ApplicationEntry, e_Cmd := []\<rparr>])))"

section \<open>Elections\<close>

definition handleVoteResp :: "raft \<Rightarrow> u64 \<Rightarrow> bool \<Rightarrow> nat \<times> raft" where
  "handleVoteResp r from rejected =
     (let r = (if \<not> mhas (r_votes r) from then r\<lparr>r_votes := mput from (\<not> rejected) (r_votes r)\<rparr> else r)
      in (length (filter snd (r_votes r)), r))"

definition campaign :: "raft \<Rightarrow> raft res" where
  "campaign r =
     bind_res (becomeCandidate r) (\<lambda>r.
       let trm = r_term r;
           r = emit (CampaignLaunched \<lparr>ci_ShardID = r_shardID r, ci_ReplicaID = r_replicaID r,
                       ci_PreVote = False, ci_Term = trm\<rparr>) r;
           (_, r) = handleVoteResp r (r_replicaID r) False
       in if isSingleNodeQuorum r then becomeLeader r
          else
            let hint = (if r_isLeaderTransferTarget r then r_replicaID r else 0);
                r = (if r_isLeaderTransferTarget r then r\<lparr>r_isLeaderTransferTarget := False\<rparr> else r);
                index = lg_lastIndex (r_log r)
            in bind_res (lg_lastTerm (r_log r)) (\<lambda>lastTerm.
                 let (ks, r) = range_r r (votingMembers r)
                 in foldM (\<lambda>k r.
                      if k = r_replicaID r then Inr r
                      else send r ((zero_Message RequestVote)\<lparr>m_Term := trm, m_To := k,
                             m_LogIndex := index, m_LogTerm := lastTerm, m_Hint := hint\<rparr>)) ks r))"

definition preVoteCampaign :: "raft \<Rightarrow> raft res" where
  "preVoteCampaign r =
     bind_res (becomePreVoteCandidate r) (\<lambda>r.
       let (_, r) = handleVoteResp r (r_replicaID r) False
       in if isSingleNodeQuorum r then campaign r
          else
            let index = lg_lastIndex (r_log r)
            in bind_res (lg_lastTerm (r_log r)) (\<lambda>lastTerm.
                 let (ks, r) = range_r r (votingMembers r)
                 in foldM (\<lambda>k r.
                      if k = r_replicaID r then Inr r
                      else send r ((zero_Message RequestPreVote)\<lparr>m_Term := r_term r + 1, m_To := k,
                             m_LogIndex := index, m_LogTerm := lastTerm\<rparr>)) ks r))"

section \<open>Membership changes\<close>

definition addNode :: "raft \<Rightarrow> u64 \<Rightarrow> raft res" where
  "addNode r replicaID =
     (let r = clearPendingConfigChange r
      in if replicaID = r_replicaID r \<and> isWitness r then Inl (GoPanic ''is witness'')
         else if mhas (r_remotes r) replicaID then Inr r
         else case mget (r_nonVotings r) replicaID of
             Some rp \<Rightarrow>
               let r = deleteNonVoting r replicaID;
                   r = r\<lparr>r_remotes := mput replicaID rp (r_remotes r)\<rparr>
               in if replicaID = r_replicaID r then becomeFollower r (r_term r) (r_leaderID r) else Inr r
           | None \<Rightarrow>
               if mhas (r_witnesses r) replicaID
               then Inl (GoPanic ''could not promote witness to full member'')
               else Inr (setRemote r replicaID 0 (lg_lastIndex (r_log r) + 1)))"

definition addNonVoting :: "raft \<Rightarrow> u64 \<Rightarrow> raft res" where
  "addNonVoting r replicaID =
     (let r = clearPendingConfigChange r
      in if replicaID = r_replicaID r \<and> \<not> isNonVoting r then Inl (GoPanic ''is not a nonVoting'')
         else if mhas (r_nonVotings r) replicaID then Inr r
         else Inr (setNonVoting r replicaID 0 (lg_lastIndex (r_log r) + 1)))"

definition addWitness :: "raft \<Rightarrow> u64 \<Rightarrow> raft res" where
  "addWitness r replicaID =
     (let r = clearPendingConfigChange r
      in if replicaID = r_replicaID r \<and> \<not> isWitness r then Inl (GoPanic ''is not witness'')
         else if mhas (r_witnesses r) replicaID then Inr r
         else Inr (setWitness r replicaID 0 (lg_lastIndex (r_log r) + 1)))"

definition removeNode :: "raft \<Rightarrow> u64 \<Rightarrow> raft res" where
  "removeNode r replicaID =
     (let r = deleteWitness (deleteNonVoting (deleteRemote r replicaID) replicaID) replicaID;
          r = clearPendingConfigChange r
      in bind_res (if r_replicaID r = replicaID \<and> isLeader r
                   then becomeFollower r (r_term r) NoLeader else Inr r) (\<lambda>r.
           let r = (if leaderTransfering r \<and> r_leaderTransferTarget r = replicaID
                    then abortLeaderTransfer r else r)
           in if isLeader r \<and> numVotingMembers r > 0 then
                bind_res (tryCommit r) (\<lambda>(ok, r). if ok then broadcastReplicateMessage r else Inr r)
              else Inr r))"

definition restored_match :: "raft \<Rightarrow> u64 \<Rightarrow> u64" where
  "restored_match r nid = (if nid = r_replicaID r then lg_lastIndex (r_log r) + 1 - 1 else 0)"

definition restoreRemotes :: "raft \<Rightarrow> Snapshot \<Rightarrow> raft res" where
  "restoreRemotes r ss =
     (let (ids, r) = range_r (r\<lparr>r_remotes := []\<rparr>) (mb_Addresses (ss_Membership ss))
      in bind_res (foldM (\<lambda>nid r.
             bind_res (if nid = r_replicaID r \<and> isNonVoting r
                       then becomeFollower r (r_term r) (r_leaderID r) else Inr r) (\<lambda>r.
               if mhas (r_witnesses r) nid
               then Inl (GoPanic ''Assumed witness could not promote to full member'')
               else Inr (setRemote r nid (restored_match r nid) (lg_lastIndex (r_log r) + 1)))) ids r) (\<lambda>r.
         bind_res (if selfRemoved r \<and> isLeader r then becomeFollower r (r_term r) NoLeader else Inr r) (\<lambda>r.
           let r = fold (\<lambda>nid r. setNonVoting r nid (restored_match r nid) (lg_lastIndex (r_log r) + 1))
                     (mkeys (mb_NonVotings (ss_Membership ss))) (r\<lparr>r_nonVotings := []\<rparr>);
               r = fold (\<lambda>nid r. setWitness r nid (restored_match r nid) (lg_lastIndex (r_log r) + 1))
                     (mkeys (mb_Witnesses (ss_Membership ss))) (r\<lparr>r_witnesses := []\<rparr>)
           in Inr (resetMatchValueArray r))))"

end
