(* ===== verification/RaftHandlers.thy ===== *)
theory RaftHandlers
  imports Raft
begin

text \<open>
  The message handlers of \<^verbatim>\<open>raft/internal/raft/raft.go\<close>, the handler table, \<open>Handle\<close>, the logical
  clock (\<open>tick\<close>) and \<open>newRaft\<close>.

  \<open>Handle\<close> and \<open>tick\<close> call each other in the source. The recursion is shallow: \<open>tick\<close> only passes
  \<open>Election\<close>, \<open>CheckQuorum\<close>, \<open>LeaderHeartbeat\<close> and \<open>SnapshotStatus\<close> messages to \<open>Handle\<close>, and the
  handlers that call \<open>tick\<close> are those of \<open>LocalTick\<close> and \<open>TimeoutNow\<close>. The model ties the knot in two
  steps: \<open>HandleW tk\<close> is \<open>Handle\<close> with the clock \<open>tk\<close> as an argument, \<open>Handle0\<close> is \<open>Handle\<close> as
  called from within \<open>tick\<close>, \<open>tick\<close> is defined over it, and \<open>Handle = HandleW tick\<close>.
  \<open>Handle0_is_Handle\<close> shows that on the messages \<open>tick\<close> passes the two agree.
\<close>

section \<open>Dropped requests\<close>

definition reportDroppedConfigChange :: "raft \<Rightarrow> Entry \<Rightarrow> raft" where
  "reportDroppedConfigChange r e = r\<lparr>r_droppedEntries := r_droppedEntries r @ [e]\<rparr>"

definition reportDroppedProposal :: "raft \<Rightarrow> Message \<Rightarrow> raft" where
  "reportDroppedProposal r m =
     emit (ProposalDropped \<lparr>oi_Entries = m_Entries m, oi_ShardID = r_shardID r,
             oi_ReplicaID = r_replicaID r\<rparr>)
       (r\<lparr>r_droppedEntries := r_droppedEntries r @ newEntrySlice (m_Entries m)\<rparr>)"

definition message_ctx :: "Message \<Rightarrow> SystemCtx" where
  "message_ctx m = \<lparr>ctx_Low = m_Hint m, ctx_High = m_HintHigh m\<rparr>"

definition reportDroppedReadIndex :: "raft \<Rightarrow> Message \<Rightarrow> raft" where
  "reportDroppedReadIndex r m =
     emit (ReadIndexDropped \<lparr>xi_ShardID = r_shardID r, xi_ReplicaID = r_replicaID r\<rparr>)
       (r\<lparr>r_droppedReadIndexes := r_droppedReadIndexes r @ [message_ctx m]\<rparr>)"

definition clearReadyToRead :: "raft \<Rightarrow> raft" where
  "clearReadyToRead r = r\<lparr>r_readyToRead := []\<rparr>"

definition addReadyToRead :: "raft \<Rightarrow> u64 \<Rightarrow> SystemCtx \<Rightarrow> raft" where
  "addReadyToRead r index ctx =
     r\<lparr>r_readyToRead := r_readyToRead r @ [\<lparr>rtr_Index = index, rtr_SystemCtx = ctx\<rparr>]\<rparr>"

section \<open>Messages from the leader\<close>

definition handleHeartbeatMessage :: "raft \<Rightarrow> Message \<Rightarrow> raft res" where
  "handleHeartbeatMessage r m =
     bind_res (commitTo (r_log r) (m_Commit m)) (\<lambda>l.
       send (r\<lparr>r_log := l\<rparr>) ((zero_Message HeartbeatResp)\<lparr>m_To := m_From m, m_Hint := m_Hint m,
         m_HintHigh := m_HintHigh m\<rparr>))"

definition handleInstallSnapshotMessage :: "raft \<Rightarrow> Message \<Rightarrow> raft res" where
  "handleInstallSnapshotMessage r m =
     (let resp = (zero_Message ReplicateResp)\<lparr>m_To := m_From m\<rparr>
      in bind_res (restore r (m_Snapshot m)) (\<lambda>(ok, r).
           if ok then send r (resp\<lparr>m_LogIndex := lg_lastIndex (r_log r)\<rparr>)
           else
             send (emit (SnapshotRejected \<lparr>si_ShardID = r_shardID r, si_ReplicaID = r_replicaID r,
                           si_From = m_From m, si_Index = ss_Index (m_Snapshot m),
                           si_Term = ss_Term (m_Snapshot m)\<rparr>) r)
               (resp\<lparr>m_LogIndex := lg_committed (r_log r)\<rparr>)))"

definition handleReplicateMessage :: "raft \<Rightarrow> Message \<Rightarrow> raft res" where
  "handleReplicateMessage r m =
     (let resp = (zero_Message ReplicateResp)\<lparr>m_To := m_From m\<rparr>
      in if m_LogIndex m < lg_committed (r_log r)
         then send r (resp\<lparr>m_LogIndex := lg_committed (r_log r)\<rparr>)
         else bind_res (matchTerm (r_log r) (m_LogIndex m) (m_LogTerm m)) (\<lambda>ok.
           if ok then
             bind_res (tryAppend (r_log r) (m_LogIndex m) (m_Entries m)) (\<lambda>(l, _).
               let lastIdx = m_LogIndex m + slice_len (m_Entries m)
               in bind_res (commitTo l (min lastIdx (m_Commit m))) (\<lambda>l.
                    send (r\<lparr>r_log := l\<rparr>) (resp\<lparr>m_LogIndex := lastIdx\<rparr>)))
           else
             send (emit (ReplicationRejected \<lparr>pi_ShardID = r_shardID r, pi_ReplicaID = r_replicaID r,
                           pi_From = m_From m, pi_Index = m_LogIndex m, pi_Term = m_LogTerm m\<rparr>) r)
               (resp\<lparr>m_Reject := True, m_LogIndex := m_LogIndex m,
                     m_Hint := lg_lastIndex (r_log r)\<rparr>)))"

section \<open>Message terms\<close>

definition dropRequestVoteFromHighTermNode :: "raft \<Rightarrow> Message \<Rightarrow> bool res" where
  "dropRequestVoteFromHighTermNode r m =
     (if \<not> isRequestVoteMessage (m_Type m) \<or> \<not> r_checkQuorum r \<or> m_Term m \<le> r_term r then Inr False
      else if m_Hint m = m_From m then Inr False
      else if isLeader r \<and> \<not> r_quiesce r \<and> r_electionTick r \<ge> r_electionTimeout r
        then Inl (GoPanic ''r.electionTick >= r.electionTimeout on leader'')
      else if r_leaderID r \<noteq> NoLeader \<and> r_electionTick r < r_electionTimeout r then Inr True
      else Inr False)"

definition onHigherTerm :: "raft \<Rightarrow> Message \<Rightarrow> raft res" where
  "onHigherTerm r m =
     (if \<not> isPreVoteMessageWithExpectedHigherTerm m then
        let leaderID = (if isLeaderMessage (m_Type m) then m_From m else NoLeader)
        in if isNonVoting r then becomeNonVoting r (m_Term m) leaderID
           else if isWitness r then becomeWitness r (m_Term m) leaderID
           else if m_Type m = RequestVote then becomeFollowerKE r (m_Term m) leaderID
           else becomeFollower r (m_Term m) leaderID
      else Inr r)"

definition onMessageTermNotMatched :: "raft \<Rightarrow> Message \<Rightarrow> (bool \<times> raft) res" where
  "onMessageTermNotMatched r m =
     (if m_Term m = 0 \<or> m_Term m = r_term r then Inr (False, r)
      else bind_res (dropRequestVoteFromHighTermNode r m) (\<lambda>drp.
        if drp then Inr (True, r)
        else if m_Term m > r_term r then bind_res (onHigherTerm r m) (\<lambda>r. Inr (False, r))
        else if m_Term m < r_term r then
          bind_res (if m_Type m = RequestPreVote \<or>
                       isLeaderMessage (m_Type m) \<and> (r_checkQuorum r \<or> r_preVote r)
                    then send r ((zero_Message NoOP)\<lparr>m_To := m_From m\<rparr>) else Inr r) (\<lambda>r.
            Inr (True, r))
        else Inr (False, r)))"

definition inconsistentRaftConfig :: "raft \<Rightarrow> Message \<Rightarrow> bool" where
  "inconsistentRaftConfig r m \<longleftrightarrow> \<not> r_preVote r \<and> isPreVoteMessage (m_Type m)"

definition doubleCheckTermMatched :: "raft \<Rightarrow> u64 \<Rightarrow> unit res" where
  "doubleCheckTermMatched r msgTerm =
     (if msgTerm \<noteq> 0 \<and> r_term r \<noteq> msgTerm then Inl (GoPanic ''mismatched term found'') else Inr ())"

section \<open>Handlers for nodes in any state\<close>

definition hasConfigChangeToApply :: "raft \<Rightarrow> bool" where
  "hasConfigChangeToApply r =
     (case r_hasNotAppliedConfigChange r of
        Some b \<Rightarrow> b
      | None \<Rightarrow> lg_committed (r_log r) > getApplied r)"

definition canGrantVote :: "raft \<Rightarrow> Message \<Rightarrow> bool" where
  "canGrantVote r m \<longleftrightarrow> r_vote r = NoNode \<or> r_vote r = m_From m \<or> m_Term m > r_term r"

definition handleNodeElection :: "raft \<Rightarrow> Message \<Rightarrow> raft res" where
  "handleNodeElection r m =
     (if \<not> isLeader r then
        (if hasConfigChangeToApply r then
           Inr (emit (CampaignSkipped \<lparr>ci_ShardID = r_shardID r, ci_ReplicaID = r_replicaID r,
                        ci_PreVote = False, ci_Term = r_term r\<rparr>) r)
         else if r_preVote r \<and> \<not> r_isLeaderTransferTarget r then preVoteCampaign r
         else campaign r)
      else Inr r)"

definition handleNodeRequestPreVote :: "raft \<Rightarrow> Message \<Rightarrow> raft res" where
  "handleNodeRequestPreVote r m =
     (let resp = (zero_Message RequestPreVoteResp)\<lparr>m_To := m_From m\<rparr>
      in bind_res (upToDate (r_log r) (m_LogIndex m) (m_LogTerm m)) (\<lambda>isUpToDate.
           if m_Term m < r_term r then Inl (GoPanic ''m.term < r.term'')
           else if m_Term m > r_term r \<and> isUpToDate then send r (resp\<lparr>m_Term := m_Term m\<rparr>)
           else send r (resp\<lparr>m_Term := r_term r, m_Reject := True\<rparr>)))"

definition handleNodeRequestVote :: "raft \<Rightarrow> Message \<Rightarrow> raft res" where
  "handleNodeRequestVote r m =
     (let resp = (zero_Message RequestVoteResp)\<lparr>m_To := m_From m\<rparr>;
          canGrant = canGrantVote r m
      in bind_res (upToDate (r_log r) (m_LogIndex m) (m_LogTerm m)) (\<lambda>isUpToDate.
           if canGrant \<and> isUpToDate then send (r\<lparr>r_electionTick := 0, r_vote := m_From m\<rparr>) resp
           else send r (resp\<lparr>m_Reject := True\<rparr>)))"

text \<open>\<open>(pb.ConfigChangeType)(m.HintHigh)\<close> keeps the low 32 bits.\<close>

definition handleNodeConfigChange :: "raft \<Rightarrow> Message \<Rightarrow> raft res" where
  "handleNodeConfigChange r m =
     (if m_Reject m then Inr (clearPendingConfigChange r)
      else
        let cctype = (ucast (m_HintHigh m) :: 32 word); nodeid = m_Hint m
        in if cctype = 0 then addNode r nodeid
           else if cctype = 1 then removeNode r nodeid
           else if cctype = 2 then addNonVoting r nodeid
           else if cctype = 3 then addWitness r nodeid
           else Inl (GoPanic ''unexpected config change type''))"

definition handleLogQuery :: "raft \<Rightarrow> Message \<Rightarrow> raft res" where
  "handleLogQuery r m =
     (if r_logQueryResult r = None then
        let result = (\<lambda>err entries. \<lparr>lq_FirstIndex = lg_firstIndex (r_log r),
              lq_LastIndex = lg_committed (r_log r) + 1, lq_Error = err, lq_Entries = entries\<rparr>)
        in on_error (getCommittedEntries (r_log r) (m_From m) (m_To m) (m_Hint m))
             (\<lambda>err. Inr (r\<lparr>r_logQueryResult := Some (result (Some err) [])\<rparr>))
             (\<lambda>entries. Inr (r\<lparr>r_logQueryResult := Some (result None entries)\<rparr>))
      else Inl (GoPanic ''log query result is not nil''))"

definition handleLocalTick :: "(raft \<Rightarrow> raft res) \<Rightarrow> raft \<Rightarrow> Message \<Rightarrow> raft res" where
  "handleLocalTick tk r m = (if m_Reject m then Inr (quiescedTick r) else tk r)"

definition handleRestoreRemote :: "raft \<Rightarrow> Message \<Rightarrow> raft res" where
  "handleRestoreRemote r m = restoreRemotes r (m_Snapshot m)"

section \<open>Handlers of the leader\<close>

definition handleLeaderHeartbeat :: "raft \<Rightarrow> Message \<Rightarrow> raft res" where
  "handleLeaderHeartbeat r m = broadcastHeartbeatMessage r"

definition handleLeaderCheckQuorum :: "raft \<Rightarrow> Message \<Rightarrow> raft res" where
  "handleLeaderCheckQuorum r m =
     bind_res (mustBeLeader r) (\<lambda>_.
       let (ok, r) = leaderHasQuorum r
       in if \<not> ok then becomeFollower r (r_term r) NoLeader else Inr r)"

fun propose_entries :: "raft \<Rightarrow> Entry list \<Rightarrow> raft \<times> Entry list" where
  "propose_entries r [] = (r, [])"
| "propose_entries r (e # es) =
     (if e_Type e = ConfigChangeEntry then
        let (r, e) = (if hasPendingConfigChange r
                      then (reportDroppedConfigChange r e, zero_Entry\<lparr>e_Type := ApplicationEntry\<rparr>)
                      else (r, e));
            (r, es) = propose_entries (setPendingConfigChange r) es
        in (r, e # es)
      else let (r, es) = propose_entries r es in (r, e # es))"

definition handleLeaderPropose :: "raft \<Rightarrow> Message \<Rightarrow> raft res" where
  "handleLeaderPropose r m =
     bind_res (mustBeLeader r) (\<lambda>_.
       if leaderTransfering r then Inr (reportDroppedProposal r m)
       else
         let (r, entries) = propose_entries r (m_Entries m)
         in bind_res (appendEntries r entries) broadcastReplicateMessage)"

definition hasCommittedEntryAtCurrentTerm :: "raft \<Rightarrow> bool res" where
  "hasCommittedEntryAtCurrentTerm r =
     (if r_term r = 0 then Inl (GoPanic ''not suppose to reach here'')
      else case lg_term (r_log r) (lg_committed (r_log r)) of
          Inl ErrCompacted \<Rightarrow> Inr (0 = r_term r)
        | Inl err \<Rightarrow> Inl (GoPanic ''failed to get term'')
        | Inr lastCommittedTerm \<Rightarrow> Inr (lastCommittedTerm = r_term r))"

definition handleLeaderReadIndex :: "raft \<Rightarrow> Message \<Rightarrow> raft res" where
  "handleLeaderReadIndex r m =
     bind_res (mustBeLeader r) (\<lambda>_.
       let ctx = message_ctx m
       in if mhas (r_witnesses r) (m_From m) then Inr r
          else if \<not> isSingleNodeQuorum r then
            bind_res (hasCommittedEntryAtCurrentTerm r) (\<lambda>ready.
              if \<not> ready then Inr (reportDroppedReadIndex r m)
              else bind_res (addRequest (r_readIndex r) (lg_committed (r_log r)) ctx (m_From m)) (\<lambda>ri.
                     broadcastHeartbeatMessageWithHint (r\<lparr>r_readIndex := ri\<rparr>) ctx))
          else
            let r = addReadyToRead r (lg_committed (r_log r)) ctx
            in if m_From m \<noteq> r_replicaID r \<and> mhas (r_nonVotings r) (m_From m)
               then send r ((zero_Message ReadIndexResp)\<lparr>m_To := m_From m,
                      m_LogIndex := lg_committed (r_log r), m_Hint := m_Hint m,
                      m_HintHigh := m_HintHigh m, m_Commit := m_Commit m\<rparr>)
               else Inr r)"

definition enterRetryState :: "raft \<Rightarrow> rloc \<Rightarrow> u64 \<Rightarrow> raft res" where
  "enterRetryState r loc nid =
     bind_res (rp_deref r loc nid) (\<lambda>rp.
       Inr (if rm_state rp = remoteReplicate then rp_set loc nid (becomeRetry rp) r else r))"

definition handleLeaderReplicateResp :: "raft \<Rightarrow> Message \<Rightarrow> rloc \<Rightarrow> raft res" where
  "handleLeaderReplicateResp r m loc =
     bind_res (mustBeLeader r) (\<lambda>_.
     bind_res (rp_deref r loc (m_From m)) (\<lambda>rp.
       let rp = setActive rp
       in if \<not> m_Reject m then
            let paused = isPaused rp; (updated, rp) = tryUpdate rp (m_LogIndex m)
            in if updated then
                 bind_res (tryCommit (rp_set loc (m_From m) (respondedTo rp) r)) (\<lambda>(ok, r).
                 bind_res (if ok then broadcastReplicateMessage r
                           else if paused then sendReplicateMessage r (m_From m)
                           else Inr r) (\<lambda>r.
                 bind_res (rp_deref r loc (m_From m)) (\<lambda>rp.
                   if leaderTransfering r \<and> m_From m = r_leaderTransferTarget r \<and>
                      lg_lastIndex (r_log r) = rm_match rp
                   then sendTimeoutNowMessage r (r_leaderTransferTarget r)
                   else Inr r)))
               else Inr (rp_set loc (m_From m) rp r)
          else
            let (decreased, rp) = decreaseTo rp (m_LogIndex m) (m_Hint m);
                r = rp_set loc (m_From m) rp r
            in if decreased then
                 bind_res (enterRetryState r loc (m_From m)) (\<lambda>r. sendReplicateMessage r (m_From m))
               else Inr r))"

definition handleReadIndexLeaderConfirmation :: "raft \<Rightarrow> Message \<Rightarrow> raft res" where
  "handleReadIndexLeaderConfirmation r m =
     bind_res (confirm (r_readIndex r) (message_ctx m) (m_From m) (quorum r)) (\<lambda>(ris, ri).
       foldM (\<lambda>s r.
           if rs_from s = NoNode \<or> rs_from s = r_replicaID r
           then Inr (addReadyToRead r (rs_index s) (rs_ctx s))
           else send r ((zero_Message ReadIndexResp)\<lparr>m_To := rs_from s, m_LogIndex := rs_index s,
                  m_Hint := ctx_Low (rs_ctx s), m_HintHigh := ctx_High (rs_ctx s)\<rparr>))
         ris (r\<lparr>r_readIndex := ri\<rparr>))"

definition handleLeaderHeartbeatResp :: "raft \<Rightarrow> Message \<Rightarrow> rloc \<Rightarrow> raft res" where
  "handleLeaderHeartbeatResp r m loc =
     bind_res (mustBeLeader r) (\<lambda>_.
     bind_res (rp_deref r loc (m_From m)) (\<lambda>rp.
       let rp = waitToRetry (setActive rp); r = rp_set loc (m_From m) rp r
       in bind_res (if rm_match rp < lg_lastIndex (r_log r) then sendReplicateMessage r (m_From m)
                    else Inr r) (\<lambda>r.
            if m_Hint m \<noteq> 0 then handleReadIndexLeaderConfirmation r m else Inr r)))"

definition handleLeaderTransfer :: "raft \<Rightarrow> Message \<Rightarrow> raft res" where
  "handleLeaderTransfer r m =
     bind_res (mustBeLeader r) (\<lambda>_.
       let target = m_Hint m
       in if target = NoNode then Inl (GoPanic ''leader transfer target not set'')
          else if leaderTransfering r then Inr r
          else if r_replicaID r = target then Inr r
          else case mget (r_remotes r) target of
              None \<Rightarrow> Inr r
            | Some rp \<Rightarrow>
                let r = r\<lparr>r_leaderTransferTarget := target, r_electionTick := 0\<rparr>
                in if rm_match rp = lg_lastIndex (r_log r) then sendTimeoutNowMessage r target
                   else Inr r)"

definition handleLeaderSnapshotStatus :: "raft \<Rightarrow> Message \<Rightarrow> rloc \<Rightarrow> raft res" where
  "handleLeaderSnapshotStatus r m loc =
     bind_res (rp_deref r loc (m_From m)) (\<lambda>rp.
       if rm_state rp \<noteq> remoteSnapshot then Inr r
       else if m_Hint m = 0 then
         let rp = (if m_Reject m then clearPendingSnapshot rp else rp)
         in Inr (rp_set loc (m_From m) (becomeWait rp) r)
       else bind_res (setSnapshotAck rp (m_Hint m) (m_Reject m)) (\<lambda>rp.
              Inr ((rp_set loc (m_From m) rp r)\<lparr>r_snapshotting := True\<rparr>)))"

definition handleLeaderUnreachable :: "raft \<Rightarrow> Message \<Rightarrow> rloc \<Rightarrow> raft res" where
  "handleLeaderUnreachable r m loc = enterRetryState r loc (m_From m)"

definition handleLeaderRateLimit :: "raft \<Rightarrow> Message \<Rightarrow> raft res" where
  "handleLeaderRateLimit r m =
     (if il_Enabled (r_rl r) then Inr (set_rl (SetFollowerState (r_rl r) (m_From m) (m_Hint m)) r)
      else Inr r)"

section \<open>Handlers of followers, non-voting members and witnesses\<close>

definition handleFollowerPropose :: "raft \<Rightarrow> Message \<Rightarrow> raft res" where
  "handleFollowerPropose r m =
     (if r_leaderID r = NoLeader then Inr (reportDroppedProposal r m)
      else send r (m\<lparr>m_To := r_leaderID r, m_Entries := newEntrySlice (m_Entries m)\<rparr>))"

definition leaderIsAvailable :: "raft \<Rightarrow> raft" where
  "leaderIsAvailable r = r\<lparr>r_electionTick := 0\<rparr>"

definition handleFollowerReplicate :: "raft \<Rightarrow> Message \<Rightarrow> raft res" where
  "handleFollowerReplicate r m =
     handleReplicateMessage (setLeaderID (leaderIsAvailable r) (m_From m)) m"

definition handleFollowerHeartbeat :: "raft \<Rightarrow> Message \<Rightarrow> raft res" where
  "handleFollowerHeartbeat r m =
     handleHeartbeatMessage (setLeaderID (leaderIsAvailable r) (m_From m)) m"

definition handleFollowerReadIndex :: "raft \<Rightarrow> Message \<Rightarrow> raft res" where
  "handleFollowerReadIndex r m =
     (if r_leaderID r = NoLeader then Inr (reportDroppedReadIndex r m)
      else send r (m\<lparr>m_To := r_leaderID r\<rparr>))"

definition handleFollowerLeaderTransfer :: "raft \<Rightarrow> Message \<Rightarrow> raft res" where
  "handleFollowerLeaderTransfer r m =
     (if r_leaderID r = NoLeader then Inr r else send r (m\<lparr>m_To := r_leaderID r\<rparr>))"

definition handleFollowerReadIndexResp :: "raft \<Rightarrow> Message \<Rightarrow> raft res" where
  "handleFollowerReadIndexResp r m =
     Inr (addReadyToRead (setLeaderID (leaderIsAvailable r) (m_From m)) (m_LogIndex m) (message_ctx m))"

definition handleFollowerInstallSnapshot :: "raft \<Rightarrow> Message \<Rightarrow> raft res" where
  "handleFollowerInstallSnapshot r m =
     handleInstallSnapshotMessage (setLeaderID (leaderIsAvailable r) (m_From m)) m"

definition handleFollowerTimeoutNow :: "(raft \<Rightarrow> raft res) \<Rightarrow> raft \<Rightarrow> Message \<Rightarrow> raft res" where
  "handleFollowerTimeoutNow tk r m =
     bind_res (tk (r\<lparr>r_electionTick := r_randomizedElectionTimeout r,
                     r_isLeaderTransferTarget := True\<rparr>)) (\<lambda>r.
       Inr (if r_isLeaderTransferTarget r then r\<lparr>r_isLeaderTransferTarget := False\<rparr> else r))"

definition handleNonVotingReplicate :: "raft \<Rightarrow> Message \<Rightarrow> raft res" where
  "handleNonVotingReplicate r m = handleFollowerReplicate r m"

definition handleNonVotingHeartbeat :: "raft \<Rightarrow> Message \<Rightarrow> raft res" where
  "handleNonVotingHeartbeat r m = handleFollowerHeartbeat r m"

definition handleNonVotingSnapshot :: "raft \<Rightarrow> Message \<Rightarrow> raft res" where
  "handleNonVotingSnapshot r m = handleFollowerInstallSnapshot r m"

definition handleNonVotingPropose :: "raft \<Rightarrow> Message \<Rightarrow> raft res" where
  "handleNonVotingPropose r m = handleFollowerPropose r m"

definition handleNonVotingReadIndex :: "raft \<Rightarrow> Message \<Rightarrow> raft res" where
  "handleNonVotingReadIndex r m = handleFollowerReadIndex r m"

definition handleNonVotingReadIndexResp :: "raft \<Rightarrow> Message \<Rightarrow> raft res" where
  "handleNonVotingReadIndexResp r m = handleFollowerReadIndexResp r m"

definition handleWitnessReplicate :: "raft \<Rightarrow> Message \<Rightarrow> raft res" where
  "handleWitnessReplicate r m = handleFollowerReplicate r m"

definition handleWitnessHeartbeat :: "raft \<Rightarrow> Message \<Rightarrow> raft res" where
  "handleWitnessHeartbeat r m = handleFollowerHeartbeat r m"

definition handleWitnessSnapshot :: "raft \<Rightarrow> Message \<Rightarrow> raft res" where
  "handleWitnessSnapshot r m = handleFollowerInstallSnapshot r m"

section \<open>Handlers of candidates\<close>

definition handleCandidatePropose :: "raft \<Rightarrow> Message \<Rightarrow> raft res" where
  "handleCandidatePropose r m = Inr (reportDroppedProposal r m)"

definition handleCandidateReadIndex :: "raft \<Rightarrow> Message \<Rightarrow> raft res" where
  "handleCandidateReadIndex r m =
     (let r = reportDroppedReadIndex r m
      in Inr (r\<lparr>r_droppedReadIndexes := r_droppedReadIndexes r @ [message_ctx m]\<rparr>))"

definition handleCandidateReplicate :: "raft \<Rightarrow> Message \<Rightarrow> raft res" where
  "handleCandidateReplicate r m =
     bind_res (becomeFollower r (r_term r) (m_From m)) (\<lambda>r. handleReplicateMessage r m)"

definition handleCandidateInstallSnapshot :: "raft \<Rightarrow> Message \<Rightarrow> raft res" where
  "handleCandidateInstallSnapshot r m =
     bind_res (becomeFollower r (r_term r) (m_From m)) (\<lambda>r. handleInstallSnapshotMessage r m)"

definition handleCandidateHeartbeat :: "raft \<Rightarrow> Message \<Rightarrow> raft res" where
  "handleCandidateHeartbeat r m =
     bind_res (becomeFollower r (r_term r) (m_From m)) (\<lambda>r. handleHeartbeatMessage r m)"

definition handleCandidateRequestVoteResp :: "raft \<Rightarrow> Message \<Rightarrow> raft res" where
  "handleCandidateRequestVoteResp r m =
     (if mhas (r_nonVotings r) (m_From m) then Inr r
      else
        let (cnt, r) = handleVoteResp r (m_From m) (m_Reject m)
        in if cnt = quorum r then bind_res (becomeLeader r) broadcastReplicateMessage
           else if length (r_votes r) - cnt = quorum r then becomeFollower r (r_term r) NoLeader
           else Inr r)"

definition handlePreVoteCandidateRequestPreVoteResp :: "raft \<Rightarrow> Message \<Rightarrow> raft res" where
  "handlePreVoteCandidateRequestPreVoteResp r m =
     (if mhas (r_nonVotings r) (m_From m) then Inr r
      else
        let (cnt, r) = handleVoteResp r (m_From m) (m_Reject m)
        in if cnt = quorum r then campaign r
           else if length (r_votes r) - cnt = quorum r then becomeFollower r (r_term r) NoLeader
           else Inr r)"

section \<open>The handler table\<close>

definition lw :: "(raft \<Rightarrow> Message \<Rightarrow> rloc \<Rightarrow> raft res) \<Rightarrow> raft \<Rightarrow> Message \<Rightarrow> raft res" where
  "lw f r m = (case find_remote r (m_From m) of Some loc \<Rightarrow> f r m loc | None \<Rightarrow> Inr r)"

type_synonym handlerFunc = "raft \<Rightarrow> Message \<Rightarrow> raft res"

definition candidate_handlers :: "(raft \<Rightarrow> raft res) \<Rightarrow> MessageType \<Rightarrow> handlerFunc option" where
  "candidate_handlers tk t = map_of
     [(Heartbeat, handleCandidateHeartbeat),
      (Propose, handleCandidatePropose),
      (ReadIndex, handleCandidateReadIndex),
      (Replicate, handleCandidateReplicate),
      (InstallSnapshot, handleCandidateInstallSnapshot),
      (RequestVoteResp, handleCandidateRequestVoteResp),
      (Election, handleNodeElection),
      (RequestVote, handleNodeRequestVote),
      (RequestPreVote, handleNodeRequestPreVote),
      (ConfigChangeEvent, handleNodeConfigChange),
      (LocalTick, handleLocalTick tk),
      (SnapshotReceived, handleRestoreRemote),
      (LogQuery, handleLogQuery)] t"

definition preVoteCandidate_handlers :: "(raft \<Rightarrow> raft res) \<Rightarrow> MessageType \<Rightarrow> handlerFunc option" where
  "preVoteCandidate_handlers tk t = map_of
     [(Heartbeat, handleCandidateHeartbeat),
      (Propose, handleCandidatePropose),
      (ReadIndex, handleCandidateReadIndex),
      (Replicate, handleCandidateReplicate),
      (InstallSnapshot, handleCandidateInstallSnapshot),
      (RequestPreVoteResp, handlePreVoteCandidateRequestPreVoteResp),
      (Election, handleNodeElection),
      (RequestVote, handleNodeRequestVote),
      (RequestPreVote, handleNodeRequestPreVote),
      (ConfigChangeEvent, handleNodeConfigChange),
      (LocalTick, handleLocalTick tk),
      (SnapshotReceived, handleRestoreRemote),
      (LogQuery, handleLogQuery)] t"

definition follower_handlers :: "(raft \<Rightarrow> raft res) \<Rightarrow> MessageType \<Rightarrow> handlerFunc option" where
  "follower_handlers tk t = map_of
     [(Propose, handleFollowerPropose),
      (Replicate, handleFollowerReplicate),
      (Heartbeat, handleFollowerHeartbeat),
      (ReadIndex, handleFollowerReadIndex),
      (LeaderTransfer, handleFollowerLeaderTransfer),
      (ReadIndexResp, handleFollowerReadIndexResp),
      (InstallSnapshot, handleFollowerInstallSnapshot),
      (Election, handleNodeElection),
      (RequestVote, handleNodeRequestVote),
      (RequestPreVote, handleNodeRequestPreVote),
      (TimeoutNow, handleFollowerTimeoutNow tk),
      (ConfigChangeEvent, handleNodeConfigChange),
      (LocalTick, handleLocalTick tk),
      (SnapshotReceived, handleRestoreRemote),
      (LogQuery, handleLogQuery)] t"

definition leader_handlers :: "(raft \<Rightarrow> raft res) \<Rightarrow> MessageType \<Rightarrow> handlerFunc option" where
  "leader_handlers tk t = map_of
     [(LeaderHeartbeat, handleLeaderHeartbeat),
      (CheckQuorum, handleLeaderCheckQuorum),
      (Propose, handleLeaderPropose),
      (ReadIndex, handleLeaderReadIndex),
      (ReplicateResp, lw handleLeaderReplicateResp),
      (HeartbeatResp, lw handleLeaderHeartbeatResp),
      (SnapshotStatus, lw handleLeaderSnapshotStatus),
      (Unreachable, lw handleLeaderUnreachable),
      (LeaderTransfer, handleLeaderTransfer),
      (Election, handleNodeElection),
      (RequestVote, handleNodeRequestVote),
      (RequestPreVote, handleNodeRequestPreVote),
      (ConfigChangeEvent, handleNodeConfigChange),
      (LocalTick, handleLocalTick tk),
      (SnapshotReceived, handleRestoreRemote),
      (RateLimit, handleLeaderRateLimit),
      (LogQuery, handleLogQuery)] t"

definition nonVoting_handlers :: "(raft \<Rightarrow> raft res) \<Rightarrow> MessageType \<Rightarrow> handlerFunc option" where
  "nonVoting_handlers tk t = map_of
     [(Heartbeat, handleNonVotingHeartbeat),
      (Replicate, handleNonVotingReplicate),
      (InstallSnapshot, handleNonVotingSnapshot),
      (RequestVote, handleNodeRequestVote),
      (RequestPreVote, handleNodeRequestPreVote),
      (Propose, handleNonVotingPropose),
      (ReadIndex, handleNonVotingReadIndex),
      (ReadIndexResp, handleNonVotingReadIndexResp),
      (ConfigChangeEvent, handleNodeConfigChange),
      (LocalTick, handleLocalTick tk),
      (SnapshotReceived, handleRestoreRemote),
      (LogQuery, handleLogQuery)] t"

definition witness_handlers :: "(raft \<Rightarrow> raft res) \<Rightarrow> MessageType \<Rightarrow> handlerFunc option" where
  "witness_handlers tk t = map_of
     [(Heartbeat, handleWitnessHeartbeat),
      (Replicate, handleWitnessReplicate),
      (InstallSnapshot, handleWitnessSnapshot),
      (RequestVote, handleNodeRequestVote),
      (RequestPreVote, handleNodeRequestPreVote),
      (ConfigChangeEvent, handleNodeConfigChange),
      (LocalTick, handleLocalTick tk),
      (SnapshotReceived, handleRestoreRemote)] t"

definition handlers :: "(raft \<Rightarrow> raft res) \<Rightarrow> NodeState \<Rightarrow> MessageType \<Rightarrow> handlerFunc option" where
  "handlers tk st t = (case st of
      Follower \<Rightarrow> follower_handlers tk t
    | Candidate \<Rightarrow> candidate_handlers tk t
    | PreVoteCandidate \<Rightarrow> preVoteCandidate_handlers tk t
    | Leader \<Rightarrow> leader_handlers tk t
    | NonVoting \<Rightarrow> nonVoting_handlers tk t
    | Witness \<Rightarrow> witness_handlers tk t)"

definition handlerMap_checks :: "(NodeState \<times> MessageType) list" where
  "handlerMap_checks =
     [(Leader, Heartbeat), (Leader, Replicate), (Leader, InstallSnapshot), (Leader, ReadIndexResp),
      (Leader, RequestPreVoteResp),
      (Follower, ReplicateResp), (Follower, HeartbeatResp), (Follower, SnapshotStatus),
      (Follower, Unreachable), (Follower, RequestPreVoteResp),
      (Candidate, ReplicateResp), (Candidate, HeartbeatResp), (Candidate, SnapshotStatus),
      (Candidate, Unreachable), (Candidate, RequestPreVoteResp),
      (PreVoteCandidate, ReplicateResp), (PreVoteCandidate, HeartbeatResp),
      (PreVoteCandidate, SnapshotStatus), (PreVoteCandidate, Unreachable),
      (NonVoting, Election), (NonVoting, RequestVoteResp), (NonVoting, ReplicateResp),
      (NonVoting, HeartbeatResp), (NonVoting, RequestPreVoteResp),
      (Witness, Election), (Witness, Propose), (Witness, ReadIndex), (Witness, ReadIndexResp),
      (Witness, RequestVoteResp), (Witness, ReplicateResp), (Witness, HeartbeatResp),
      (Witness, RequestPreVoteResp), (Witness, LogQuery)]"

definition checkHandlerMap :: "(NodeState \<Rightarrow> MessageType \<Rightarrow> handlerFunc option) \<Rightarrow> unit res" where
  "checkHandlerMap tbl =
     foldM (\<lambda>(st, t) _. case tbl st t of
         Some f \<Rightarrow> Inl (GoPanic ''unexpected msg handler'') | None \<Rightarrow> Inr ()) handlerMap_checks ()"

section \<open>Handle and tick\<close>

definition defaultHandle :: "(raft \<Rightarrow> raft res) \<Rightarrow> raft \<Rightarrow> Message \<Rightarrow> raft res" where
  "defaultHandle tk r m =
     (case handlers tk (r_state r) (m_Type m) of Some f \<Rightarrow> f r m | None \<Rightarrow> Inr r)"

definition HandleW :: "(raft \<Rightarrow> raft res) \<Rightarrow> raft \<Rightarrow> Message \<Rightarrow> raft res" where
  "HandleW tk r m =
     (if inconsistentRaftConfig r m
      then Inl (GoPanic ''received preVote message when preVote is not enabled'')
      else bind_res (onMessageTermNotMatched r m) (\<lambda>(ignored, r).
        if \<not> ignored then
          bind_res (if \<not> isPreVoteMessage (m_Type m) then doubleCheckTermMatched r (m_Term m)
                    else Inr ()) (\<lambda>_.
            defaultHandle tk r m)
        else Inr r))"

definition Handle0 :: "raft \<Rightarrow> Message \<Rightarrow> raft res" where
  "Handle0 = HandleW (\<lambda>r. Inl (GoPanic ''tick called from tick''))"

definition nonLeaderTick :: "raft \<Rightarrow> raft res" where
  "nonLeaderTick r =
     (if isLeader r then Inl (GoPanic ''noleader tick called on leader node'')
      else
        let r = r\<lparr>r_electionTick := r_electionTick r + 1\<rparr>
        in bind_res (timeForRateLimitCheck r) (\<lambda>b.
           bind_res (if b \<and> il_Enabled (r_rl r)
                     then sendRateLimitMessage (set_rl (il_Tick (r_rl r)) r) else Inr r) (\<lambda>r.
             if isNonVoting r \<or> isWitness r then Inr r
             else if \<not> selfRemoved r \<and> timeForElection r
               then Handle0 (r\<lparr>r_electionTick := 0\<rparr>)
                      ((zero_Message Election)\<lparr>m_From := r_replicaID r\<rparr>)
             else Inr r)))"

text \<open>One pass of \<open>check\<close> in \<open>checkPendingSnapshotAck\<close> over one of the three maps.\<close>

definition check_acks :: "rloc \<Rightarrow> raft \<Rightarrow> raft res" where
  "check_acks loc r =
     (let (ks, r) = range_r r (rmap r loc)
      in foldM (\<lambda>from r.
           bind_res (rp_deref r loc from) (\<lambda>rp.
             if rm_state rp = remoteSnapshot then
               let (due, ack) = snapshotAck_tick (rm_delayed rp);
                   r = rp_set loc from (rp\<lparr>rm_delayed := ack\<rparr>) r
               in if due then
                    bind_res (Handle0 r ((zero_Message SnapshotStatus)\<lparr>m_From := from,
                                m_Reject := sa_rejected ack, m_Hint := 0\<rparr>)) (\<lambda>r.
                    bind_res (rp_deref r loc from) (\<lambda>rp.
                      Inr (rp_set loc from (clearSnapshotAck rp) r)))
                  else Inr (r\<lparr>r_snapshotting := True\<rparr>)
             else Inr r)) ks r)"

definition checkPendingSnapshotAck :: "raft \<Rightarrow> raft res" where
  "checkPendingSnapshotAck r =
     (if isLeader r \<and> r_snapshotting r then
        bind_res (check_acks InRemotes (r\<lparr>r_snapshotting := False\<rparr>)) (\<lambda>r.
        bind_res (check_acks InNonVotings r) (\<lambda>r.
          check_acks InWitnesses r))
      else Inr r)"

definition leaderTick :: "raft \<Rightarrow> raft res" where
  "leaderTick r =
     bind_res (mustBeLeader r) (\<lambda>_.
       let r = r\<lparr>r_electionTick := r_electionTick r + 1\<rparr>
       in bind_res (timeForRateLimitCheck r) (\<lambda>b.
            let r = (if b \<and> il_Enabled (r_rl r) then set_rl (il_Tick (r_rl r)) r else r);
                abort = timeToAbortLeaderTransfer r
            in bind_res (if timeForCheckQuorum r then
                           let r = r\<lparr>r_electionTick := 0\<rparr>
                           in if r_checkQuorum r
                              then Handle0 r ((zero_Message CheckQuorum)\<lparr>m_From := r_replicaID r\<rparr>)
                              else Inr r
                         else Inr r) (\<lambda>r.
                 let r = (if abort then abortLeaderTransfer r else r);
                     r = r\<lparr>r_heartbeatTick := r_heartbeatTick r + 1\<rparr>
                 in bind_res (if timeForHeartbeat r
                              then Handle0 (r\<lparr>r_heartbeatTick := 0\<rparr>)
                                     ((zero_Message LeaderHeartbeat)\<lparr>m_From := r_replicaID r\<rparr>)
                              else Inr r) checkPendingSnapshotAck)))"

definition tick :: "raft \<Rightarrow> raft res" where
  "tick r =
     (let r = r\<lparr>r_quiesce := False, r_tickCount := r_tickCount r + 1\<rparr>;
          r = (if timeForInMemGC r
               then r\<lparr>r_log := (r_log r)\<lparr>lg_inmem := tryResize (lg_inmem (r_log r))\<rparr>\<rparr> else r)
      in if isLeader r then leaderTick r else nonLeaderTick r)"

definition Handle :: "raft \<Rightarrow> Message \<Rightarrow> raft res" where
  "Handle = HandleW tick"

section \<open>Creating the raft state\<close>

definition new_remotes :: "(u64, string) gomap \<Rightarrow> (u64, remote) gomap" where
  "new_remotes addrs = mmap (\<lambda>_ _. new_remote 0 1) addrs"

definition zero_LeaderInfo :: LeaderInfo where
  "zero_LeaderInfo = \<lparr>li_ShardID = 0, li_ReplicaID = 0, li_Term = 0, li_LeaderID = 0\<rparr>"

definition init_raft ::
  "Config \<Rightarrow> ILogDB \<Rightarrow> (nat \<Rightarrow> nat \<Rightarrow> nat) \<Rightarrow> go_rt \<Rightarrow> raft" where
  "init_raft c logdb grow rt =
     (let members = snd (ld_NodeState logdb)
      in \<lparr>r_events = None, r_hasNotAppliedConfigChange = None, r_votes = [],
          r_log = newEntryLog logdb (NewInMemRateLimiter (cf_MaxInMemLogSize c)) grow,
          r_remotes = new_remotes (mb_Addresses members),
          r_nonVotings = new_remotes (mb_NonVotings members),
          r_witnesses = new_remotes (mb_Witnesses members),
          r_logQueryResult = None, r_leaderUpdate = None, r_readIndex = newReadIndex,
          r_matched = [], r_msgs = [], r_droppedReadIndexes = [], r_droppedEntries = [],
          r_readyToRead = [], r_prevLeader = zero_LeaderInfo, r_state = Follower,
          r_leaderTransferTarget = 0, r_leaderID = NoLeader, r_shardID = cf_ShardID c,
          r_replicaID = cf_ReplicaID c, r_term = 0, r_applied = 0, r_vote = 0, r_tickCount = 0,
          r_electionTick = 0, r_heartbeatTick = 0, r_heartbeatTimeout = cf_HeartbeatRTT c,
          r_electionTimeout = cf_ElectionRTT c, r_randomizedElectionTimeout = 0,
          r_snapshotting = False, r_checkQuorum = cf_CheckQuorum c, r_quiesce = False,
          r_isLeaderTransferTarget = False, r_pendingConfigChange = False,
          r_preVote = cf_PreVote c, r_rt = rt\<rparr>)"

definition newRaft ::
  "Config \<Rightarrow> ILogDB \<Rightarrow> (nat \<Rightarrow> nat \<Rightarrow> nat) \<Rightarrow> go_rt \<Rightarrow> raft res" where
  "newRaft c logdb grow rt =
     (case Validate c of
        Inl err \<Rightarrow> Inl (GoPanic ''invalid config'')
      | Inr _ \<Rightarrow>
          let st = fst (ld_NodeState logdb);
              r = resetMatchValueArray (init_raft c logdb grow rt)
          in bind_res (if \<not> IsEmptyState st then loadState r st else Inr r) (\<lambda>r.
             bind_res (if cf_IsNonVoting c then becomeNonVoting (r\<lparr>r_state := NonVoting\<rparr>) (r_term r) NoLeader
                       else if cf_IsWitness c then becomeWitness (r\<lparr>r_state := Witness\<rparr>) (r_term r) NoLeader
                       else becomeFollower r (r_term r) NoLeader) (\<lambda>r.
             bind_res (checkHandlerMap (handlers tick)) (\<lambda>_. Inr r))))"

end
