(* ===== verification/LogReader.thy ===== *)
theory LogReader
  imports EntryLog
begin

text \<open>
  \<^verbatim>\<open>raft/logreader/logreader.go\<close>: the view of the persisted log that implements \<open>ILogDB\<close>.
  It keeps the range of persisted entries (a marker with its term and a length) and reads the
  entries from the log database through \<open>IterateEntries\<close>, the field \<open>lr_logdb\<close>.

  The reference counting of snapshot files (\<open>Ref\<close>, \<open>Unref\<close>, \<open>Load\<close>) is not modelled; \<open>Unref\<close> can
  fail, so its outcome is an argument of the operations that call it.

  The locale \<open>raft_logdb\<close> is the contract of \<open>IterateEntries\<close>. Under it a log reader whose range
  is backed by the database satisfies the contract \<open>ilogdb\<close> of the entry log.
\<close>

type_synonym iterator =
  "Entry list \<Rightarrow> u64 \<Rightarrow> u64 \<Rightarrow> u64 \<Rightarrow> u64 \<Rightarrow> u64 \<Rightarrow> u64 \<Rightarrow> (Entry list \<times> u64) res"

record LogReader =
  lr_logdb :: iterator
  lr_snapshot :: Snapshot
  lr_state :: State
  lr_markerIndex :: u64
  lr_shardID :: u64
  lr_replicaID :: u64
  lr_markerTerm :: u64
  lr_length :: u64

definition maxEntrySliceSize :: u64 where
  "maxEntrySliceSize = 4 * 1024 * 1024"

definition NewLogReader :: "u64 \<Rightarrow> u64 \<Rightarrow> iterator \<Rightarrow> LogReader" where
  "NewLogReader shardID replicaID logdb =
     \<lparr>lr_logdb = logdb, lr_snapshot = zero_Snapshot, lr_state = zero_State, lr_markerIndex = 0,
      lr_shardID = shardID, lr_replicaID = replicaID, lr_markerTerm = 0, lr_length = 1\<rparr>"

definition lr_NodeState :: "LogReader \<Rightarrow> State \<times> Membership" where
  "lr_NodeState lr = (lr_state lr, ss_Membership (lr_snapshot lr))"

definition lr_firstIndex :: "LogReader \<Rightarrow> u64" where
  "lr_firstIndex lr = lr_markerIndex lr + 1"

definition lr_lastIndex :: "LogReader \<Rightarrow> u64" where
  "lr_lastIndex lr = lr_markerIndex lr + lr_length lr - 1"

definition lr_GetRange :: "LogReader \<Rightarrow> u64 \<times> u64" where
  "lr_GetRange lr = (lr_firstIndex lr, lr_lastIndex lr)"

definition entriesLocked :: "LogReader \<Rightarrow> u64 \<Rightarrow> u64 \<Rightarrow> u64 \<Rightarrow> (Entry list \<times> u64) res" where
  "entriesLocked lr low high maxSize =
     (if low > high then Inl (ErrOther ''high < low'')
      else if low \<le> lr_markerIndex lr then Inl ErrCompacted
      else if high > lr_lastIndex lr + 1 then Inl ErrUnavailable
      else
        let maxEntries = maxEntrySliceSize div sizeof_Entry;
            high = (if high - low > maxEntries then low + maxEntries else high)
        in bind_res (lr_logdb lr [] 0 (lr_shardID lr) (lr_replicaID lr) low high maxSize)
             (\<lambda>(ents, size).
               if slice_len ents = high - low \<or> size > maxSize then Inr (ents, size)
               else if length ents > 0 then
                 (if e_Index (hd ents) > low then Inl ErrCompacted
                  else let expected = e_Index (last ents) + 1
                       in if lr_lastIndex lr \<le> expected then Inl ErrUnavailable
                          else Inl (ErrOther ''gap found''))
               else Inl ErrUnavailable))"

definition lr_Entries :: "LogReader \<Rightarrow> u64 \<Rightarrow> u64 \<Rightarrow> u64 \<Rightarrow> Entry list res" where
  "lr_Entries lr low high maxSize =
     bind_res (entriesLocked lr low high maxSize) (\<lambda>(ents, size).
       if maxSize > 0 \<and> size > maxSize \<and> length ents > 1 then Inr (take (length ents - 1) ents)
       else if maxSize = 0 \<and> size > maxSize \<and> length ents > 1 then Inr (take 1 ents)
       else Inr ents)"

definition lr_Term :: "LogReader \<Rightarrow> u64 \<Rightarrow> u64 res" where
  "lr_Term lr index =
     (if index = lr_markerIndex lr then Inr (lr_markerTerm lr)
      else bind_res (entriesLocked lr index (index + 1) 0) (\<lambda>(ents, _).
             if length ents = 0 then Inr 0 else Inr (e_Term (hd ents))))"

definition setSnapshot :: "(Snapshot \<Rightarrow> unit res) \<Rightarrow> LogReader \<Rightarrow> Snapshot \<Rightarrow> LogReader res" where
  "setSnapshot unref lr snapshot =
     (if ss_Index (lr_snapshot lr) \<ge> ss_Index snapshot then Inl ErrSnapshotOutOfDate
      else bind_res (if \<not> IsEmptySnapshot (lr_snapshot lr) then unref (lr_snapshot lr) else Inr ()) (\<lambda>_.
             Inr (lr\<lparr>lr_snapshot := snapshot\<rparr>)))"

definition lr_ApplySnapshot :: "(Snapshot \<Rightarrow> unit res) \<Rightarrow> LogReader \<Rightarrow> Snapshot \<Rightarrow> LogReader res" where
  "lr_ApplySnapshot unref lr snapshot =
     bind_res (setSnapshot unref lr snapshot) (\<lambda>lr.
       Inr (lr\<lparr>lr_markerIndex := ss_Index snapshot, lr_markerTerm := ss_Term snapshot, lr_length := 1\<rparr>))"

definition lr_CreateSnapshot :: "(Snapshot \<Rightarrow> unit res) \<Rightarrow> LogReader \<Rightarrow> Snapshot \<Rightarrow> LogReader res" where
  "lr_CreateSnapshot unref lr snapshot = setSnapshot unref lr snapshot"

definition lr_SetRange :: "LogReader \<Rightarrow> u64 \<Rightarrow> u64 \<Rightarrow> LogReader res" where
  "lr_SetRange lr firstIndex len =
     (if len = 0 then Inr lr
      else
        let frst = lr_firstIndex lr;
            lst = firstIndex + len - 1
        in if lst < frst then Inr lr
           else
             let (firstIndex, len) =
                   (if frst > firstIndex then (frst, len - (frst - firstIndex))
                    else (firstIndex, len));
                 offset = firstIndex - lr_markerIndex lr
             in if lr_length lr > offset then Inr (lr\<lparr>lr_length := offset + len\<rparr>)
                else if lr_length lr = offset then Inr (lr\<lparr>lr_length := lr_length lr + len\<rparr>)
                else Inl (GoPanic ''gap in log entries''))"

definition lr_Append :: "LogReader \<Rightarrow> Entry list \<Rightarrow> LogReader res" where
  "lr_Append lr entries =
     (if length entries = 0 then Inr lr
      else if e_Index (hd entries) + slice_len entries - 1 \<noteq> e_Index (last entries)
        then Inl (GoPanic ''gap in entries'')
      else lr_SetRange lr (e_Index (hd entries)) (slice_len entries))"

definition lr_SetState :: "LogReader \<Rightarrow> State \<Rightarrow> LogReader" where
  "lr_SetState lr s = lr\<lparr>lr_state := s\<rparr>"

definition lr_Compact :: "LogReader \<Rightarrow> u64 \<Rightarrow> LogReader res" where
  "lr_Compact lr index =
     (if index < lr_markerIndex lr then Inl ErrCompacted
      else if index > lr_lastIndex lr then Inl ErrUnavailable
      else bind_res (lr_Term lr index) (\<lambda>trm.
             Inr (lr\<lparr>lr_length := lr_length lr - (index - lr_markerIndex lr),
                     lr_markerIndex := index, lr_markerTerm := trm\<rparr>)))"

text \<open>A log reader as the raft package sees it.\<close>

definition lr_ILogDB :: "LogReader \<Rightarrow> ILogDB" where
  "lr_ILogDB lr =
     \<lparr>ld_GetRange = lr_GetRange lr, ld_NodeState = lr_NodeState lr, ld_Term = lr_Term lr,
      ld_Entries = lr_Entries lr, ld_Snapshot = lr_snapshot lr\<rparr>"

section \<open>The range\<close>

definition lr_wf :: "LogReader \<Rightarrow> bool" where
  "lr_wf lr \<longleftrightarrow> 0 < unat (lr_length lr) \<and> unat (lr_markerIndex lr) + unat (lr_length lr) < u64_limit"

definition lr_last :: "LogReader \<Rightarrow> nat" where
  "lr_last lr = unat (lr_markerIndex lr) + unat (lr_length lr) - 1"

lemma unat_lr_range:
  assumes "lr_wf lr"
  shows "unat (lr_firstIndex lr) = Suc (unat (lr_markerIndex lr))"
    "unat (lr_lastIndex lr) = lr_last lr" "unat (lr_lastIndex lr + 1) = Suc (lr_last lr)"
    "unat (lr_markerIndex lr) \<le> lr_last lr" "Suc (lr_last lr) < u64_limit"
proof -
  have b: "0 < unat (lr_length lr)" "unat (lr_markerIndex lr) + unat (lr_length lr) < u64_limit"
    using assms by (auto simp: lr_wf_def)
  have s: "unat (lr_markerIndex lr + lr_length lr) = unat (lr_markerIndex lr) + unat (lr_length lr)"
    using b(2) by (rule unat_add_u64)
  then have "lr_markerIndex lr + lr_length lr \<noteq> 0" using b(1) by (metis add_is_0 less_irrefl unat_0)
  then show l: "unat (lr_lastIndex lr) = lr_last lr"
    unfolding lr_lastIndex_def lr_last_def by (simp add: unat_pred_u64 s)
  show "unat (lr_firstIndex lr) = Suc (unat (lr_markerIndex lr))"
    unfolding lr_firstIndex_def using b by (intro unat_Suc_u64) (simp add: u64_neq_max)
  show "Suc (lr_last lr) < u64_limit" using b by (simp add: lr_last_def)
  then show "unat (lr_lastIndex lr + 1) = Suc (lr_last lr)"
    using l by (simp add: unat_Suc_u64 u64_neq_max)
  show "unat (lr_markerIndex lr) \<le> lr_last lr" using b(1) by (simp add: lr_last_def)
qed

section \<open>Reading through the log database\<close>

text \<open>
  The entries a log reader stands for, when the database logs \<open>lg\<close> for its node: \<open>lr_backed\<close> says
  that every entry of its range is logged.
\<close>

definition lr_backed :: "(nat \<Rightarrow> Entry option) \<Rightarrow> LogReader \<Rightarrow> bool" where
  "lr_backed lg lr \<longleftrightarrow>
     lr_wf lr \<and> (\<forall>i. unat (lr_markerIndex lr) < i \<longrightarrow> i \<le> lr_last lr \<longrightarrow> lg i \<noteq> None)"

definition lr_ent :: "(nat \<Rightarrow> Entry option) \<Rightarrow> nat \<Rightarrow> Entry" where
  "lr_ent lg i = the (lg i)"

definition lr_trm :: "(nat \<Rightarrow> Entry option) \<Rightarrow> LogReader \<Rightarrow> nat \<Rightarrow> u64" where
  "lr_trm lg lr i = (if i = unat (lr_markerIndex lr) then lr_markerTerm lr else e_Term (lr_ent lg i))"

lemma lr_logdb_range [simp]:
  "lr_lastIndex (lr\<lparr>lr_logdb := it\<rparr>) = lr_lastIndex lr"
  "lr_firstIndex (lr\<lparr>lr_logdb := it\<rparr>) = lr_firstIndex lr"
  by (simp_all add: lr_lastIndex_def lr_firstIndex_def)

text \<open>
  The contract of \<open>IterateEntries\<close>: asked for a range of entries it holds, the database returns the
  first of them, in order, and stops early only when the size limit is exceeded, with the entry that
  exceeds it as the last one returned. A limit of 0 means no limit.
\<close>

locale raft_logdb =
  fixes iter :: "'db \<Rightarrow> iterator"
    and db_ok :: "'db \<Rightarrow> bool"
    and logged :: "'db \<Rightarrow> u64 \<Rightarrow> u64 \<Rightarrow> nat \<Rightarrow> Entry option"
  assumes logged_index: "db_ok db \<Longrightarrow> logged db sid rid i = Some e \<Longrightarrow> unat (e_Index e) = i"
    and iter_law: "db_ok db \<Longrightarrow> low < high \<Longrightarrow>
      \<forall>i. unat low \<le> i \<longrightarrow> i < unat high \<longrightarrow> logged db sid rid i \<noteq> None \<Longrightarrow>
      \<exists>n. 0 < n \<and> n \<le> unat high - unat low \<and>
        iter db [] 0 sid rid low high sz =
          Inr (map (lr_ent (logged db sid rid)) [unat low..<unat low + n],
               GetEntrySliceSize (map (lr_ent (logged db sid rid)) [unat low..<unat low + n])) \<and>
        (n < unat high - unat low \<longrightarrow>
           sz \<noteq> 0 \<and> GetEntrySliceSize (map (lr_ent (logged db sid rid)) [unat low..<unat low + n]) > sz) \<and>
        (1 < n \<longrightarrow> sz \<noteq> 0 \<longrightarrow>
           GetEntrySliceSize (map (lr_ent (logged db sid rid)) [unat low..<unat low + n]) > sz \<longrightarrow>
           GetEntrySliceSize (map (lr_ent (logged db sid rid)) [unat low..<unat low + (n - 1)]) \<le> sz)"
begin

text \<open>The number of entries one read is capped at.\<close>

lemma max_entries: "unat (maxEntrySliceSize div sizeof_Entry) = 52428"
  by (simp add: maxEntrySliceSize_def sizeof_Entry_def)

lemma entriesLocked_read:
  fixes lr db
  defines "lg \<equiv> logged db (lr_shardID lr) (lr_replicaID lr)"
  assumes ok: "db_ok db" "lr_backed lg lr" and b: "lr_markerIndex lr < low" "low < high" "unat high \<le> Suc (lr_last lr)"
  shows "\<exists>n. 0 < n \<and> n \<le> unat high - unat low \<and>
    entriesLocked (lr\<lparr>lr_logdb := iter db\<rparr>) low high sz =
      Inr (map (lr_ent lg) [unat low..<unat low + n],
           GetEntrySliceSize (map (lr_ent lg) [unat low..<unat low + n])) \<and>
    (1 < n \<longrightarrow> sz \<noteq> 0 \<longrightarrow> GetEntrySliceSize (map (lr_ent lg) [unat low..<unat low + n]) > sz \<longrightarrow>
      GetEntrySliceSize (map (lr_ent lg) [unat low..<unat low + (n - 1)]) \<le> sz)"
proof -
  define h where "h = (if high - low > maxEntrySliceSize div sizeof_Entry
    then low + maxEntrySliceSize div sizeof_Entry else high)"
  have wf: "lr_wf lr" using ok by (simp add: lr_backed_def)
  have sub: "unat (high - low) = unat high - unat low" using b(2) by (simp add: unat_sub_u64)
  have "unat low + 52428 < u64_limit" if "high - low > maxEntrySliceSize div sizeof_Entry"
    using that u64_unat_lt [of high] by (simp add: word_less_nat_alt max_entries sub)
  then have h: "low < h" "unat h \<le> unat high"
    using b(2) unfolding h_def
    by (auto simp: word_less_nat_alt max_entries sub unat_add_u64)
  have lg: "\<forall>i. unat low \<le> i \<longrightarrow> i < unat h \<longrightarrow> lg i \<noteq> None"
    using ok b h(2) by (auto simp: lr_backed_def word_less_nat_alt)
  obtain n where n: "0 < n" "n \<le> unat h - unat low"
    "iter db [] 0 (lr_shardID lr) (lr_replicaID lr) low h sz =
       Inr (map (lr_ent lg) [unat low..<unat low + n],
         GetEntrySliceSize (map (lr_ent lg) [unat low..<unat low + n]))"
    "n < unat h - unat low \<longrightarrow> sz \<noteq> 0 \<and> GetEntrySliceSize (map (lr_ent lg) [unat low..<unat low + n]) > sz"
    "1 < n \<longrightarrow> sz \<noteq> 0 \<longrightarrow> GetEntrySliceSize (map (lr_ent lg) [unat low..<unat low + n]) > sz \<longrightarrow>
      GetEntrySliceSize (map (lr_ent lg) [unat low..<unat low + (n - 1)]) \<le> sz"
    using iter_law [OF ok(1) h(1) lg [unfolded lg_def], of sz, folded lg_def]
    by (elim exE conjE) (rule that)
  have g: "\<not> high > lr_lastIndex lr + 1" "\<not> low > high" "\<not> low \<le> lr_markerIndex lr"
    using b unat_lr_range(3) [OF wf] by (simp_all add: word_less_nat_alt word_le_nat_alt)
  have "(of_nat n :: u64) = h - low" if "\<not> n < unat h - unat low"
    using that n(2) h(1) u64_unat_lt [of h]
    by (simp add: word_unat_eq_iff unat_sub_u64 unat_of_nat_u64 less_imp_diff_less)
  with n(4) have "slice_len (map (lr_ent lg) [unat low..<unat low + n]) = h - low \<or>
      GetEntrySliceSize (map (lr_ent lg) [unat low..<unat low + n]) > sz" by auto
  then have "entriesLocked (lr\<lparr>lr_logdb := iter db\<rparr>) low high sz =
      Inr (map (lr_ent lg) [unat low..<unat low + n],
         GetEntrySliceSize (map (lr_ent lg) [unat low..<unat low + n]))"
    using g n(3) unfolding entriesLocked_def Let_def h_def [symmetric] by simp
  with n(1,2,5) h(2) show ?thesis by (intro exI [of _ n]) auto
qed

lemma lr_Term_read:
  fixes lr db
  defines "lg \<equiv> logged db (lr_shardID lr) (lr_replicaID lr)"
  assumes ok: "db_ok db" "lr_backed lg lr" and i: "unat (lr_markerIndex lr) \<le> unat i" "unat i \<le> lr_last lr"
  shows "lr_Term (lr\<lparr>lr_logdb := iter db\<rparr>) i = Inr (lr_trm lg lr (unat i))"
proof (cases "i = lr_markerIndex lr")
  case True
  then show ?thesis by (simp add: lr_Term_def lr_trm_def)
next
  case False
  with i(1) have lt: "lr_markerIndex lr < i"
    by (auto simp: word_less_nat_alt word_unat_eq_iff)
  have s: "unat (i + 1) = Suc (unat i)"
    using i(2) unat_lr_range(5) [of lr] ok(2) by (auto simp: lr_backed_def unat_Suc_u64 u64_neq_max)
  then have "i < i + 1" "unat (i + 1) \<le> Suc (lr_last lr)" using i(2) by (simp_all add: word_less_nat_alt)
  from entriesLocked_read [OF ok(1) ok(2) [unfolded lg_def] lt this, of 0, folded lg_def]
  obtain sz where "entriesLocked (lr\<lparr>lr_logdb := iter db\<rparr>) i (i + 1) 0 = Inr ([lr_ent lg (unat i)], sz)"
    by (auto simp: s le_Suc_eq)
  with False i(1) show ?thesis by (auto simp: lr_Term_def lr_trm_def word_unat_eq_iff)
qed

lemma lr_Entries_read:
  fixes lr db
  defines "lg \<equiv> logged db (lr_shardID lr) (lr_replicaID lr)"
  assumes ok: "db_ok db" "lr_backed lg lr"
    and b: "lr_markerIndex lr < low" "low < high" "unat high \<le> Suc (lr_last lr)"
  shows "\<exists>n. 0 < n \<and> n \<le> unat high - unat low \<and>
    lr_Entries (lr\<lparr>lr_logdb := iter db\<rparr>) low high sz = Inr (map (lr_ent lg) [unat low..<unat low + n]) \<and>
    (n = 1 \<or> GetEntrySliceSize (map (lr_ent lg) [unat low..<unat low + n]) \<le> sz)"
proof -
  let ?g = "lr_ent lg" let ?a = "unat low"
  obtain n where n: "0 < n" "n \<le> unat high - ?a"
    "entriesLocked (lr\<lparr>lr_logdb := iter db\<rparr>) low high sz =
      Inr (map ?g [?a..<?a + n], GetEntrySliceSize (map ?g [?a..<?a + n]))"
    "1 < n \<longrightarrow> sz \<noteq> 0 \<longrightarrow> GetEntrySliceSize (map ?g [?a..<?a + n]) > sz \<longrightarrow>
      GetEntrySliceSize (map ?g [?a..<?a + (n - 1)]) \<le> sz"
    using entriesLocked_read [OF ok(1) ok(2) [unfolded lg_def] b, of sz, folded lg_def]
    by (elim exE conjE) (rule that)
  have tk: "take k (map ?g [?a..<?a + n]) = map ?g [?a..<?a + k]" if "k \<le> n" for k
    using that by (simp add: take_map)
  let ?over = "GetEntrySliceSize (map ?g [?a..<?a + n]) > sz \<and> 1 < n"
  define k where "k = (if ?over then if sz = 0 then 1 else n - 1 else n)"
  have "lr_Entries (lr\<lparr>lr_logdb := iter db\<rparr>) low high sz = Inr (map ?g [?a..<?a + k])"
    using n(1) tk [of 1] tk [of "n - 1"] unfolding lr_Entries_def n(3) k_def
    by (auto simp: word_neq_0_conv)
  moreover have "k = 1 \<or> GetEntrySliceSize (map ?g [?a..<?a + k]) \<le> sz"
    using n(1,4) unfolding k_def by (auto simp: not_less)
  moreover have "0 < k" "k \<le> n" using n(1) by (auto simp: k_def)
  ultimately show ?thesis using n(2) by (intro exI [of _ k]) auto
qed

end

sublocale raft_logdb \<subseteq> lrdb: ilogdb "\<lambda>(lr, db). lr_ILogDB (lr\<lparr>lr_logdb := iter db\<rparr>)"
  "\<lambda>(lr, db). db_ok db \<and> lr_backed (logged db (lr_shardID lr) (lr_replicaID lr)) lr"
  "\<lambda>(lr, db). lr_ent (logged db (lr_shardID lr) (lr_replicaID lr))"
  "\<lambda>(lr, db). lr_trm (logged db (lr_shardID lr) (lr_replicaID lr)) lr"
  apply (unfold_locales; clarsimp simp: lr_ILogDB_def lr_GetRange_def)
  subgoal for lr db
    using unat_lr_range [of lr] by (auto simp: lr_backed_def)
  subgoal for lr db k
    using unat_lr_range [of lr] logged_index by (auto simp: lr_backed_def lr_ent_def lr_trm_def)
  subgoal for lr db i
    using unat_lr_range [of lr] by (intro lr_Term_read) (auto simp: lr_backed_def word_le_nat_alt)
  subgoal for lr db low high sz
    using unat_lr_range [of lr] lr_Entries_read [of db lr low high sz]
    by (auto simp: lr_backed_def word_le_nat_alt word_less_nat_alt)
  done

end
