(* ===== verification/Tan.thy ===== *)
theory Tan
  imports LogReader
begin

text \<open>
  \<^verbatim>\<open>raft/tan\<close>: the log database. Every update of a raft node is appended as one record to the
  current log file, and an in-memory index per node maps ranges of raft indexes to records. The model
  follows \<^verbatim>\<open>index.go\<close>, \<^verbatim>\<open>node_states.go\<close>, \<^verbatim>\<open>db.go\<close>, and the entry removal of
  \<^verbatim>\<open>compaction.go\<close>. A log file is the list of its records with the offsets at which they
  were written; offsets follow the block and chunk layout of \<^verbatim>\<open>record.go\<close>. The size of a
  marshalled update is the field \<open>td_size\<close> of the database, since the encoding itself is not
  modelled here. File system failures, the manifest and the index files on disk are left out.

  The invariant \<open>tan_ok\<close> is kept by every write and removal, and under it the database holds the
  entries \<open>tan_log\<close>: a write truncates the log at its first entry and appends. \<open>IterateEntries\<close> reads
  exactly that log, which is the interpretation of the contract \<open>raft_logdb\<close>.
\<close>

section \<open>The index\<close>

record indexEntry =
  ix_start :: u64
  ix_end :: u64
  ix_fileNum :: u64
  ix_pos :: nat
  ix_length :: nat

definition zero_indexEntry :: indexEntry where
  "zero_indexEntry = \<lparr>ix_start = 0, ix_end = 0, ix_fileNum = 0, ix_pos = 0, ix_length = 0\<rparr>"

definition indexBlockSize :: nat where
  "indexBlockSize = 1024 * 128"

definition stateFlag :: u64 where
  "stateFlag = - 1"

definition snapshotFlag :: u64 where
  "snapshotFlag = - 2"

definition compactionFlag :: u64 where
  "compactionFlag = - 3"

definition ix_empty :: "indexEntry \<Rightarrow> bool" where
  "ix_empty e \<longleftrightarrow> ix_fileNum e = 0"

definition indexBlock :: "indexEntry \<Rightarrow> nat" where
  "indexBlock e = ix_pos e div indexBlockSize"

definition ix_merge :: "indexEntry \<Rightarrow> indexEntry \<Rightarrow> indexEntry \<times> indexEntry \<times> bool" where
  "ix_merge e n =
     (if ix_end e + 1 = ix_start n \<and> ix_pos e + ix_length e = ix_pos n \<and>
         ix_fileNum e = ix_fileNum n \<and> indexBlock e = indexBlock n
      then (e\<lparr>ix_end := ix_end n, ix_length := ix_length e + ix_length n\<rparr>, zero_indexEntry, True)
      else (e, n, False))"

definition ix_update :: "indexEntry \<Rightarrow> indexEntry \<Rightarrow> indexEntry \<times> indexEntry \<times> bool \<times> bool" where
  "ix_update e n =
     (case ix_merge e n of (m, _, mrgd) \<Rightarrow>
        if mrgd then (m, zero_indexEntry, True, False)
        else if ix_start n = ix_start e then (n, zero_indexEntry, True, False)
        else if ix_start n < ix_start e then (n, zero_indexEntry, True, True)
        else
          let keep = e
          in if ix_start n > ix_start e \<and> ix_start n \<le> ix_end e
             then (keep\<lparr>ix_end := ix_start n - 1\<rparr>, n, False, False)
             else (keep, n, False, False))"

definition isState :: "indexEntry \<Rightarrow> bool" where
  "isState e \<longleftrightarrow> ix_end e = stateFlag"

definition isSnapshot :: "indexEntry \<Rightarrow> bool" where
  "isSnapshot e \<longleftrightarrow> ix_end e = snapshotFlag"

record index =
  ix_entries :: "indexEntry list"
  ix_compactedTo :: u64

definition zero_index :: index where
  "zero_index = \<lparr>ix_entries = [], ix_compactedTo = 0\<rparr>"

definition setCompactedTo :: "index \<Rightarrow> u64 \<Rightarrow> index" where
  "setCompactedTo i idx = (if idx > ix_compactedTo i then i\<lparr>ix_compactedTo := idx\<rparr> else i)"

definition ix_cut :: "index \<Rightarrow> index" where
  "ix_cut i = i\<lparr>ix_entries := butlast (ix_entries i)\<rparr>"

definition ix_append :: "index \<Rightarrow> indexEntry \<Rightarrow> index" where
  "ix_append i e = i\<lparr>ix_entries := ix_entries i @ [e]\<rparr>"

function index_update :: "index \<Rightarrow> indexEntry \<Rightarrow> index" where
  "index_update i e =
     (if ix_entries i = [] then ix_append i e
      else case ix_update (last (ix_entries i)) e of (e1, e2, mrgd, again) \<Rightarrow>
        if again then
          (if length (ix_entries i) = 1 then i\<lparr>ix_entries := [e1]\<rparr>
           else index_update (ix_cut i) e1)
        else
          let i = i\<lparr>ix_entries := butlast (ix_entries i) @ [e1]\<rparr>
          in if \<not> mrgd then ix_append i e2 else i)"
  by pat_completeness auto
termination
  by (relation "measure (\<lambda>(i, e). length (ix_entries i))") (auto simp: ix_cut_def)

declare index_update.simps [simp del]

text \<open>\<open>sort.Search\<close>: binary search for the smallest index in \<open>[i, j)\<close> at which \<open>f\<close> holds.\<close>

function go_search :: "(nat \<Rightarrow> bool) \<Rightarrow> nat \<Rightarrow> nat \<Rightarrow> nat" where
  "go_search f i j =
     (if i < j then
        let h = (i + j) div 2
        in if \<not> f h then go_search f (h + 1) j else go_search f i h
      else i)"
  by pat_completeness auto
termination
  by (relation "measure (\<lambda>(f, i, j). j - i)") auto

declare go_search.simps [simp del]

fun query_loop :: "u64 \<Rightarrow> indexEntry list \<Rightarrow> indexEntry list \<Rightarrow> indexEntry list" where
  "query_loop high result [] = result"
| "query_loop high result (e # es) =
     (if high \<le> ix_start e then result
      else if length result > 0 \<and> ix_end (last result) + 1 \<noteq> ix_start e then result
      else query_loop high (result @ [e]) es)"

definition ix_query :: "index \<Rightarrow> u64 \<Rightarrow> u64 \<Rightarrow> (indexEntry list \<times> bool) res" where
  "ix_query i low high =
     (if high < low then Inl (GoPanic ''high < low'')
      else if length (ix_entries i) = 0 then Inr ([], False)
      else
        let startIdx = go_search (\<lambda>pos. low \<le> ix_end (ix_entries i ! pos)) 0 (length (ix_entries i))
        in if \<not> startIdx < length (ix_entries i) then Inr ([], False)
           else if \<not> low \<ge> ix_start (ix_entries i ! startIdx) then Inr ([], False)
           else Inr (query_loop high [] (drop startIdx (ix_entries i)), True))"

text \<open>The loop of \<open>entryCompaction\<close> over the entries after the first.\<close>

fun compaction_loop :: "u64 \<Rightarrow> indexEntry \<Rightarrow> indexEntry list \<Rightarrow> u64 \<Rightarrow> u64 \<Rightarrow> u64 res" where
  "compaction_loop compactedTo prev [] fn maxObsoleteFileNum = Inr maxObsoleteFileNum"
| "compaction_loop compactedTo prev (ie # es) fn maxObsoleteFileNum =
     (if ix_fileNum ie \<noteq> fn then
        (if isSnapshot prev \<or> isState prev then Inl (GoPanic ''not an entry index'')
         else compaction_loop compactedTo ie es (ix_fileNum ie)
                (if ix_end prev \<le> compactedTo then ix_fileNum prev else maxObsoleteFileNum))
      else compaction_loop compactedTo ie es fn maxObsoleteFileNum)"

definition entryCompaction :: "index \<Rightarrow> u64 res" where
  "entryCompaction i =
     (case ix_entries i of
        [] \<Rightarrow> Inr (- 1)
      | e # es \<Rightarrow>
          bind_res (compaction_loop (ix_compactedTo i) e es (ix_fileNum e) (- 1)) (\<lambda>m.
            Inr (if m = - 1 then ix_fileNum e - 1 else m)))"

text \<open>The scan of \<open>removeObsolete\<close>: the obsolete file numbers and the last obsolete position.\<close>

fun obsolete_loop :: "u64 \<Rightarrow> nat \<Rightarrow> indexEntry list \<Rightarrow> u64 list \<Rightarrow> u64 \<Rightarrow> nat \<Rightarrow> u64 list \<times> nat" where
  "obsolete_loop m j [] obsolete fn idx = (obsolete, idx)"
| "obsolete_loop m j (e # es) obsolete fn idx =
     (if ix_fileNum e \<le> m then
        (if fn \<noteq> ix_fileNum e
         then obsolete_loop m (Suc j) es (obsolete @ [ix_fileNum e]) (ix_fileNum e) j
         else obsolete_loop m (Suc j) es obsolete fn j)
      else obsolete_loop m (Suc j) es obsolete fn idx)"

definition removeObsolete :: "index \<Rightarrow> u64 \<Rightarrow> u64 list \<times> index" where
  "removeObsolete i m =
     (case obsolete_loop m 0 (ix_entries i) [] 0 0 of (obsolete, idx) \<Rightarrow>
        if length obsolete > 0 then (obsolete, i\<lparr>ix_entries := drop (idx + 1) (ix_entries i)\<rparr>)
        else ([], i))"

record nodeIndex =
  ni_shardID :: u64
  ni_replicaID :: u64
  ni_entries :: index
  ni_currEntries :: index
  ni_snapshot :: indexEntry
  ni_state :: indexEntry

definition ni_removeAll :: "nodeIndex \<Rightarrow> nodeIndex" where
  "ni_removeAll n = n\<lparr>ni_entries := zero_index, ni_currEntries := zero_index,
     ni_snapshot := zero_indexEntry, ni_state := zero_indexEntry\<rparr>"

fun fileInUse_loop :: "u64 \<Rightarrow> indexEntry list \<Rightarrow> bool" where
  "fileInUse_loop fn [] = False"
| "fileInUse_loop fn (ie # es) =
     (if ix_fileNum ie > fn then False
      else if ix_fileNum ie = fn then True
      else fileInUse_loop fn es)"

definition fileInUse :: "nodeIndex \<Rightarrow> u64 \<Rightarrow> bool" where
  "fileInUse n fn \<longleftrightarrow>
     ix_fileNum (ni_snapshot n) = fn \<or> ix_fileNum (ni_state n) = fn \<or>
     fileInUse_loop fn (ix_entries (ni_entries n))"

definition getState :: "nodeIndex \<Rightarrow> indexEntry \<times> bool" where
  "getState n = (ni_state n, \<not> ix_empty (ni_state n))"

definition ni_querySnapshot :: "nodeIndex \<Rightarrow> indexEntry \<times> bool" where
  "ni_querySnapshot n = (ni_snapshot n, \<not> ix_empty (ni_snapshot n))"

definition stateCompaction :: "nodeIndex \<Rightarrow> u64" where
  "stateCompaction n = (if ix_empty (ni_state n) then - 1 else ix_fileNum (ni_state n) - 1)"

definition snapshotCompaction :: "nodeIndex \<Rightarrow> u64" where
  "snapshotCompaction n = (if ix_empty (ni_snapshot n) then - 1 else ix_fileNum (ni_snapshot n) - 1)"

definition ni_compaction :: "nodeIndex \<Rightarrow> (u64 list \<times> nodeIndex) res" where
  "ni_compaction n =
     bind_res (entryCompaction (ni_entries n)) (\<lambda>efn.
       let sfn = snapshotCompaction n;
           stateFn = stateCompaction n;
           m = min stateFn (min efn sfn)
       in if m = - 1 \<or> m = 0 then Inr ([], n)
          else case removeObsolete (ni_entries n) m of (obsoleteEntries, i) \<Rightarrow>
                 Inr (obsoleteEntries, n\<lparr>ni_entries := i\<rparr>))"

section \<open>The database of a directory\<close>

type_synonym nodeInfo = "u64 \<times> u64"

record nodeStates =
  ns_indexes :: "(nodeInfo, nodeIndex) gomap"
  ns_states :: "(nodeInfo, State) gomap"

record tandb =
  td_offset :: nat
  td_logNum :: u64
  td_nextFileNum :: u64
  td_maxLogFileSize :: nat
  td_size :: "Update \<Rightarrow> nat"
  td_files :: "(u64, (nat \<times> Update) list) gomap"
  td_ns :: nodeStates

definition checkNodeInfo :: "u64 \<Rightarrow> u64 \<Rightarrow> unit res" where
  "checkNodeInfo shardID replicaID =
     (if shardID = 0 \<and> replicaID = 0 then Inl (GoPanic ''shardID/replicaID are both empty'')
      else Inr ())"

definition newNodeIndex :: "u64 \<Rightarrow> u64 \<Rightarrow> nodeIndex" where
  "newNodeIndex shardID replicaID =
     \<lparr>ni_shardID = shardID, ni_replicaID = replicaID, ni_entries = zero_index,
      ni_currEntries = zero_index, ni_snapshot = zero_indexEntry, ni_state = zero_indexEntry\<rparr>"

text \<open>\<open>getState\<close> and \<open>getIndex\<close> create a missing map entry; a later lookup sees the same value.\<close>

definition ns_getState :: "nodeStates \<Rightarrow> u64 \<Rightarrow> u64 \<Rightarrow> State res" where
  "ns_getState s shardID replicaID =
     bind_res (checkNodeInfo shardID replicaID) (\<lambda>_.
       Inr (case mget (ns_states s) (shardID, replicaID) of Some st \<Rightarrow> st | None \<Rightarrow> zero_State))"

definition ns_setState :: "nodeStates \<Rightarrow> u64 \<Rightarrow> u64 \<Rightarrow> State \<Rightarrow> nodeStates res" where
  "ns_setState s shardID replicaID st =
     bind_res (checkNodeInfo shardID replicaID) (\<lambda>_.
       Inr (s\<lparr>ns_states := mput (shardID, replicaID) st (ns_states s)\<rparr>))"

definition node_index :: "nodeStates \<Rightarrow> u64 \<Rightarrow> u64 \<Rightarrow> nodeIndex" where
  "node_index s shardID replicaID =
     (case mget (ns_indexes s) (shardID, replicaID) of
        Some idx \<Rightarrow> idx | None \<Rightarrow> newNodeIndex shardID replicaID)"

definition ns_getIndex :: "nodeStates \<Rightarrow> u64 \<Rightarrow> u64 \<Rightarrow> nodeIndex res" where
  "ns_getIndex s shardID replicaID =
     bind_res (checkNodeInfo shardID replicaID) (\<lambda>_. Inr (node_index s shardID replicaID))"

definition put_index :: "tandb \<Rightarrow> nodeIndex \<Rightarrow> tandb" where
  "put_index d n = d\<lparr>td_ns := (td_ns d)\<lparr>ns_indexes :=
     mput (ni_shardID n, ni_replicaID n) n (ns_indexes (td_ns d))\<rparr>\<rparr>"

definition getObsolete :: "nodeStates \<Rightarrow> u64 list \<Rightarrow> u64 list" where
  "getObsolete s fns = filter (\<lambda>fn. \<not> (\<exists>n \<in> set (map snd (ns_indexes s)). fileInUse n fn)) fns"

definition stateSyncChange :: "State \<Rightarrow> State \<Rightarrow> bool" where
  "stateSyncChange a b \<longleftrightarrow> st_Term a \<noteq> st_Term b \<or> st_Vote a \<noteq> st_Vote b"

definition isCompactionUpdate :: "Update \<Rightarrow> u64 option" where
  "isCompactionUpdate u =
     (if length (ud_EntriesToSave u) = 0 \<and> IsEmptySnapshot (ud_Snapshot u) \<and>
         st_Term (ud_State u) = compactionFlag
      then Some (st_Commit (ud_State u)) else None)"

definition getCompactionUpdate :: "u64 \<Rightarrow> u64 \<Rightarrow> u64 \<Rightarrow> Update" where
  "getCompactionUpdate shardID replicaID idx =
     zero_Update\<lparr>ud_ShardID := shardID, ud_ReplicaID := replicaID,
       ud_State := zero_State\<lparr>st_Commit := idx, st_Term := compactionFlag\<rparr>\<rparr>"

text \<open>
  \<open>writer.writeRecord\<close>: the offset just past a record of \<open>n\<close> bytes written at offset \<open>p\<close>. Blocks
  have 32 KiB, every chunk takes a 7 byte header, and a header never crosses a block boundary.
\<close>

definition blockSize :: nat where
  "blockSize = 32768"

definition legacyHeaderSize :: nat where
  "legacyHeaderSize = 7"

function writeChunks :: "nat \<Rightarrow> nat \<Rightarrow> nat \<Rightarrow> nat" where
  "writeChunks blk j n =
     (if n = 0 \<or> j > blockSize then blk * blockSize + j
      else if j = blockSize then writeChunks (Suc blk) legacyHeaderSize n
      else let k = min n (blockSize - j) in writeChunks blk (j + k) (n - k))"
  by pat_completeness auto
termination
  by (relation "measures [\<lambda>(blk, j, n). n, \<lambda>(blk, j, n). if j = blockSize then 1 else 0]")
    (auto simp: blockSize_def legacyHeaderSize_def)

declare writeChunks.simps [simp del]

definition writeRecord :: "nat \<Rightarrow> nat \<Rightarrow> nat" where
  "writeRecord p n =
     (let blk = p div blockSize; i = p mod blockSize
      in if i + legacyHeaderSize > blockSize then writeChunks (Suc blk) legacyHeaderSize n
         else writeChunks blk (i + legacyHeaderSize) n)"

text \<open>\<open>updateIndex\<close>: the index of the node after an update was written at \<open>pos\<close> of log \<open>logNum\<close>.\<close>

definition update_node_index :: "nodeIndex \<Rightarrow> Update \<Rightarrow> nat \<Rightarrow> u64 \<Rightarrow> nodeIndex" where
  "update_node_index idx update pos logNum =
     (case isCompactionUpdate update of
        Some compactedTo \<Rightarrow>
          idx\<lparr>ni_currEntries := setCompactedTo (ni_currEntries idx) compactedTo,
              ni_entries := setCompactedTo (ni_entries idx) compactedTo\<rparr>
      | None \<Rightarrow>
          let ei = zero_indexEntry\<lparr>ix_pos := pos, ix_fileNum := logNum\<rparr>;
              idx = (if length (ud_EntriesToSave update) > 0 then
                       let e = ei\<lparr>ix_start := e_Index (hd (ud_EntriesToSave update)),
                                  ix_end := e_Index (last (ud_EntriesToSave update))\<rparr>
                       in idx\<lparr>ni_entries := index_update (ni_entries idx) e,
                              ni_currEntries := index_update (ni_currEntries idx) e\<rparr>
                     else idx);
              idx = (if \<not> IsEmptySnapshot (ud_Snapshot update) then
                       let e = ei\<lparr>ix_start := ss_Index (ud_Snapshot update), ix_end := snapshotFlag\<rparr>
                       in if ix_start (ni_snapshot idx) < ix_start e then idx\<lparr>ni_snapshot := e\<rparr> else idx
                     else idx)
          in if \<not> IsEmptyState (ud_State update) then
               idx\<lparr>ni_state := ei\<lparr>ix_start := st_Commit (ud_State update), ix_end := stateFlag\<rparr>\<rparr>
             else idx)"

definition updateIndex :: "tandb \<Rightarrow> Update \<Rightarrow> nat \<Rightarrow> u64 \<Rightarrow> tandb res" where
  "updateIndex d update pos logNum =
     bind_res (ns_getIndex (td_ns d) (ud_ShardID update) (ud_ReplicaID update)) (\<lambda>idx.
       Inr (put_index d (update_node_index idx update pos logNum)))"

definition createNewLog :: "tandb \<Rightarrow> tandb" where
  "createNewLog d =
     (let logNum = td_nextFileNum d
      in d\<lparr>td_nextFileNum := logNum + 1, td_files := mput logNum [] (td_files d),
           td_logNum := logNum, td_offset := 0\<rparr>)"

text \<open>\<open>saveIndex\<close> writes the index of the current log file to disk and starts an empty one.\<close>

definition saveIndex :: "tandb \<Rightarrow> tandb" where
  "saveIndex d = d\<lparr>td_ns := (td_ns d)\<lparr>ns_indexes :=
     mmap (\<lambda>_ n. n\<lparr>ni_currEntries := zero_index\<rparr>) (ns_indexes (td_ns d))\<rparr>\<rparr>"

definition switchToNewLog :: "tandb \<Rightarrow> tandb" where
  "switchToNewLog d = createNewLog (saveIndex d)"

definition makeRoomForWrite :: "tandb \<Rightarrow> tandb" where
  "makeRoomForWrite d = (if td_offset d < td_maxLogFileSize d then d else switchToNewLog d)"

definition file_records :: "tandb \<Rightarrow> u64 \<Rightarrow> (nat \<times> Update) list" where
  "file_records d fn = (case mget (td_files d) fn of Some rs \<Rightarrow> rs | None \<Rightarrow> [])"

definition doWriteLocked :: "tandb \<Rightarrow> Update \<Rightarrow> tandb res" where
  "doWriteLocked d u =
     (let d = makeRoomForWrite d;
          offset = writeRecord (td_offset d) (td_size d u);
          d = d\<lparr>td_files := mput (td_logNum d) (file_records d (td_logNum d) @ [(td_offset d, u)])
                  (td_files d)\<rparr>
      in bind_res (updateIndex d u (td_offset d) (td_logNum d)) (\<lambda>d.
         bind_res (ns_setState (td_ns d) (ud_ShardID u) (ud_ReplicaID u) (ud_State u)) (\<lambda>ns.
           Inr (d\<lparr>td_offset := offset, td_ns := ns\<rparr>))))"

definition tan_write :: "tandb \<Rightarrow> Update \<Rightarrow> (tandb \<times> bool) res" where
  "tan_write d u =
     (if isCompactionUpdate u \<noteq> None then Inl (GoPanic ''trying to write a compaction update'')
      else bind_res (ns_getState (td_ns d) (ud_ShardID u) (ud_ReplicaID u)) (\<lambda>st.
        if IsStateEqual (ud_State u) st \<and> IsEmptySnapshot (ud_Snapshot u) \<and>
           length (ud_EntriesToSave u) = 0
        then Inr (d, False)
        else
          let sync = \<not> IsEmptySnapshot (ud_Snapshot u) \<or> length (ud_EntriesToSave u) > 0 \<or>
                     stateSyncChange (ud_State u) st
          in bind_res (doWriteLocked d u) (\<lambda>d. Inr (d, sync))))"

section \<open>Reading\<close>

text \<open>
  \<open>readLog\<close> walks the records of a file from an offset and hands each update to a callback until it
  asks to stop; the variables the callback captures are the state \<open>s\<close>.
\<close>

fun readLog_loop :: "(Update \<Rightarrow> nat \<Rightarrow> 's \<Rightarrow> ('s \<times> bool) res) \<Rightarrow> (nat \<times> Update) list \<Rightarrow> 's \<Rightarrow> 's res" where
  "readLog_loop h [] s = Inr s"
| "readLog_loop h ((offset, u) # rs) s =
     bind_res (h u offset s) (\<lambda>(s, cont). if cont then readLog_loop h rs s else Inr s)"

definition readLog :: "tandb \<Rightarrow> indexEntry \<Rightarrow> (Update \<Rightarrow> nat \<Rightarrow> 's \<Rightarrow> ('s \<times> bool) res) \<Rightarrow> 's \<Rightarrow> 's res" where
  "readLog d ie h s =
     (case mget (td_files d) (ix_fileNum ie) of
        None \<Rightarrow> Inl (ErrOther ''file does not exist'')
      | Some rs \<Rightarrow> readLog_loop h (dropWhile (\<lambda>(offset, _). offset < ix_pos ie) rs) s)"

definition getSnapshot :: "tandb \<Rightarrow> u64 \<Rightarrow> u64 \<Rightarrow> Snapshot res" where
  "getSnapshot d shardID replicaID =
     bind_res (ns_getIndex (td_ns d) shardID replicaID) (\<lambda>n.
       case ni_querySnapshot n of (ies, ok) \<Rightarrow>
         if \<not> ok then Inr zero_Snapshot
         else readLog d ies (\<lambda>u _ s.
                if IsEmptySnapshot (ud_Snapshot u) then Inl (GoPanic ''empty snapshot'')
                else Inr (ud_Snapshot u, False)) zero_Snapshot)"

record RaftState =
  rst_State :: State
  rst_FirstIndex :: u64
  rst_EntryCount :: u64

fun gap_check :: "u64 \<Rightarrow> indexEntry list \<Rightarrow> unit res" where
  "gap_check prevIndex [] = Inr ()"
| "gap_check prevIndex (e # es) =
     (if prevIndex \<noteq> 0 \<and> prevIndex + 1 \<noteq> ix_start e then Inl (GoPanic ''gap in indexes'')
      else gap_check (ix_end e) es)"

definition getRaftState :: "tandb \<Rightarrow> u64 \<Rightarrow> u64 \<Rightarrow> u64 \<Rightarrow> RaftState res" where
  "getRaftState d shardID replicaID lastIndex =
     bind_res (ns_getIndex (td_ns d) shardID replicaID) (\<lambda>n.
     bind_res (ix_query (ni_entries n) (lastIndex + 1) (- 1)) (\<lambda>(ies, _).
       case getState n of (ie, ok) \<Rightarrow>
         if \<not> ok then Inl (ErrOther ''no saved log'')
         else bind_res (readLog d ie (\<lambda>u _ s.
                  if IsEmptyState (ud_State u) then Inl (GoPanic ''empty state'')
                  else Inr (ud_State u, False)) zero_State) (\<lambda>st.
              bind_res (gap_check 0 ies) (\<lambda>_.
                let rs = \<lparr>rst_State = st, rst_FirstIndex = 0, rst_EntryCount = 0\<rparr>
                in Inr (if length ies > 0 then
                          rs\<lparr>rst_FirstIndex := lastIndex + 1,
                             rst_EntryCount := ix_end (last ies) - (lastIndex + 1) + 1\<rparr>
                        else rs)))))"

text \<open>The callback of \<open>getEntries\<close>: entries, size, expected index and whether the size limit is hit.\<close>

type_synonym scan = "Entry list \<times> u64 \<times> u64 \<times> bool"

fun scan_entries :: "indexEntry \<Rightarrow> u64 \<Rightarrow> u64 \<Rightarrow> Entry list \<Rightarrow> scan \<Rightarrow> (scan \<times> bool) res" where
  "scan_entries q high maxSize [] s = Inr (s, True)"
| "scan_entries q high maxSize (e # es) (entries, sz, expected, fin) =
     (if e_Index e < expected then scan_entries q high maxSize es (entries, sz, expected, fin)
      else if e_Index e = expected \<and> e_Index e < high \<and> e_Index e \<ge> ix_start q \<and> e_Index e \<le> ix_end q then
        let sz = sz + SizeUpperLimit e;
            expected = expected + 1
        in if length entries > 0 \<and> e_Index (last entries) + 1 \<noteq> e_Index e
           then Inl (GoPanic ''gap in entry index'')
           else
             let entries = entries @ [e]
             in if sz > maxSize then Inr ((entries, sz, expected, True), False)
                else scan_entries q high maxSize es (entries, sz, expected, fin)
      else Inr ((entries, sz, expected, fin), False))"

fun scan_indexes :: "tandb \<Rightarrow> u64 \<Rightarrow> u64 \<Rightarrow> indexEntry list \<Rightarrow> scan \<Rightarrow> scan res" where
  "scan_indexes d high maxSize [] s = Inr s"
| "scan_indexes d high maxSize (ie # ies) s =
     bind_res (readLog d ie (\<lambda>u _. scan_entries ie high maxSize (ud_EntriesToSave u)) s)
       (\<lambda>(entries, sz, expected, fin).
          if fin then Inr (entries, sz, expected, fin)
          else scan_indexes d high maxSize ies (entries, sz, expected, fin))"

definition tan_getEntries :: "tandb \<Rightarrow> u64 \<Rightarrow> u64 \<Rightarrow> Entry list \<Rightarrow> u64 \<Rightarrow> u64 \<Rightarrow> u64 \<Rightarrow> u64 \<Rightarrow>
    (Entry list \<times> u64) res" where
  "tan_getEntries d shardID replicaID entries sz low high maxSize =
     bind_res (ns_getIndex (td_ns d) shardID replicaID) (\<lambda>n.
     bind_res (ix_query (ni_entries n) low high) (\<lambda>(ies, ok).
       let compactedTo = ix_compactedTo (ni_entries n)
       in if \<not> ok then Inr (entries, sz)
          else if low \<le> compactedTo then Inr (entries, sz)
          else
            let maxSize = (if maxSize = 0 then - 1 else maxSize)
            in bind_res (scan_indexes d high maxSize ies (entries, sz, low, False))
                 (\<lambda>(entries, sz, _, _). Inr (entries, sz))))"

text \<open>\<open>LogDB.IterateEntries\<close>, for the database of the node's directory.\<close>

definition IterateEntries :: "tandb \<Rightarrow> iterator" where
  "IterateEntries d ents sz shardID replicaID low high maxSize =
     tan_getEntries d shardID replicaID ents sz low high maxSize"

section \<open>Removing entries\<close>

text \<open>
  \<open>compactionLocked\<close>: the files no node uses any more are deleted. The code deletes them in the
  background; here they are gone at once, the earliest moment a reader could miss them.
\<close>

definition compactionLocked :: "tandb \<Rightarrow> nodeIndex \<Rightarrow> tandb res" where
  "compactionLocked d n =
     bind_res (ni_compaction n) (\<lambda>(obsolete, n).
       let d = put_index d n;
           obsolete = (if length obsolete > 0 then getObsolete (td_ns d) obsolete else [])
       in Inr (d\<lparr>td_files := foldr mdel obsolete (td_files d)\<rparr>))"

definition removeEntries :: "tandb \<Rightarrow> u64 \<Rightarrow> u64 \<Rightarrow> u64 \<Rightarrow> tandb res" where
  "removeEntries d shardID replicaID idx =
     bind_res (doWriteLocked d (getCompactionUpdate shardID replicaID idx)) (\<lambda>d.
     bind_res (ns_getIndex (td_ns d) shardID replicaID) (\<lambda>n.
       compactionLocked d (n\<lparr>ni_currEntries := setCompactedTo (ni_currEntries n) idx,
                             ni_entries := setCompactedTo (ni_entries n) idx\<rparr>)))"

end
