(* ===== verification/TanSpec.thy ===== *)
theory TanSpec
  imports Tan
begin

text \<open>
  Correctness of the log database \<^theory_text>\<open>Tan\<close>: the invariant of the index and the log files, the
  refinement of writes and removals to operations on a plain sequence of logged entries, and the
  interpretation of the contract \<open>raft_logdb\<close>, through which the entry log of a replica is shown to
  read the logged entries over the log reader and the database.
\<close>

section \<open>Binary search and record offsets\<close>

lemma go_search_spec:
  assumes "i \<le> j" and "\<And>a b. a \<le> b \<Longrightarrow> b < j \<Longrightarrow> f a \<Longrightarrow> f b"
  shows "i \<le> go_search f i j \<and> go_search f i j \<le> j \<and>
    (\<forall>k. i \<le> k \<longrightarrow> k < go_search f i j \<longrightarrow> \<not> f k) \<and> (go_search f i j < j \<longrightarrow> f (go_search f i j))"
  using assms
proof (induction f i j rule: go_search.induct)
  case (1 f i j)
  show ?case
  proof (cases "i < j")
    case True
    let ?h = "(i + j) div 2"
    have h: "i \<le> ?h" "?h < j" using True by auto
    show ?thesis
    proof (cases "f ?h")
      case False
      have low: "\<not> f k" if "k \<le> ?h" for k using False "1.prems"(2) [of k ?h] that h(2) by blast
      let ?G = "go_search f (?h + 1) j"
      have "?h + 1 \<le> ?G \<and> ?G \<le> j \<and> (\<forall>k. ?h + 1 \<le> k \<longrightarrow> k < ?G \<longrightarrow> \<not> f k) \<and> (?G < j \<longrightarrow> f ?G)"
        by (rule "1.IH"(1) [OF True refl False]) (use h(2) "1.prems"(2) in auto)
      moreover from this low have "\<not> f k" if "k < ?G" for k
        using that by (cases "k \<le> ?h") auto
      moreover have "go_search f i j = ?G"
        using True False by (subst go_search.simps) (simp add: Let_def)
      ultimately show ?thesis using h by simp
    next
      case True': True
      let ?G = "go_search f i ?h"
      have "i \<le> ?G \<and> ?G \<le> ?h \<and> (\<forall>k. i \<le> k \<longrightarrow> k < ?G \<longrightarrow> \<not> f k) \<and> (?G < ?h \<longrightarrow> f ?G)"
        by (rule "1.IH"(2) [OF True refl]) (use h True' "1.prems"(2) in auto)
      moreover from this True' have "f ?G" by (cases "?G < ?h") auto
      moreover have "go_search f i j = ?G"
        using True True' by (subst go_search.simps) (simp add: Let_def)
      ultimately show ?thesis using h by simp
    qed
  next
    case False
    with "1.prems"(1) show ?thesis by (simp add: go_search.simps)
  qed
qed

lemma writeChunks_ge: "blk * blockSize + j \<le> writeChunks blk j n"
proof (induction blk j n rule: writeChunks.induct)
  case (1 blk j n)
  show ?case
  proof (cases "n = 0 \<or> j > blockSize")
    case True
    then show ?thesis by (subst writeChunks.simps) auto
  next
    case False
    then show ?thesis
      using 1 by (subst writeChunks.simps) (auto simp: Let_def)
  qed
qed

lemma writeRecord_gt: "p < writeRecord p n"
proof -
  let ?blk = "p div blockSize" let ?i = "p mod blockSize"
  have p: "?blk * blockSize + ?i = p" "?i < blockSize" by (auto simp: blockSize_def)
  show ?thesis
  proof (cases "?i + legacyHeaderSize > blockSize")
    case True
    have "p < Suc ?blk * blockSize" unfolding mult_Suc using p by linarith
    with True writeChunks_ge [of "Suc ?blk" legacyHeaderSize n] show ?thesis
      by (simp add: writeRecord_def Let_def)
  next
    case False
    with writeChunks_ge [of ?blk "?i + legacyHeaderSize" n] p show ?thesis
      by (simp add: writeRecord_def Let_def legacyHeaderSize_def)
  qed
qed

section \<open>Scanning the records of a range\<close>

text \<open>
  The state of a scan that started at index \<open>low\<close>: it holds the logged entries from \<open>low\<close> up to the
  expected index with their size, which exceeds the limit exactly when the scan is finished, and then
  only because of the last entry.
\<close>

definition scan_ok :: "(nat \<Rightarrow> Entry) \<Rightarrow> nat \<Rightarrow> u64 \<Rightarrow> scan \<Rightarrow> bool" where
  "scan_ok E low mx s = (case s of (es, sz, x, fin) \<Rightarrow>
     low \<le> unat x \<and> es = map E [low..<unat x] \<and> sz = GetEntrySliceSize es \<and>
     (\<forall>i. low \<le> i \<longrightarrow> i < unat x \<longrightarrow> unat (e_Index (E i)) = i) \<and>
     (\<not> fin \<longrightarrow> es = [] \<or> sz \<le> mx) \<and>
     (fin \<longrightarrow> es \<noteq> [] \<and> sz > mx \<and> (length es > 1 \<longrightarrow> GetEntrySliceSize (butlast es) \<le> mx)))"

lemma scan_ok_step:
  assumes ok: "scan_ok E low mx (es, sz, x, False)"
    and e: "unat (e_Index (E (unat x))) = unat x" "Suc (unat x) < u64_limit"
  shows "scan_ok E low mx (es @ [E (unat x)], sz + SizeUpperLimit (E (unat x)), x + 1,
      sz + SizeUpperLimit (E (unat x)) > mx)"
    and "es = [] \<or> e_Index (last es) + 1 = e_Index (E (unat x))"
proof -
  have s: "unat (x + 1) = Suc (unat x)" using e(2) by (simp add: unat_Suc_u64 u64_neq_max)
  from ok have o: "low \<le> unat x" "es = map E [low..<unat x]" "sz = GetEntrySliceSize es"
    "\<forall>i. low \<le> i \<longrightarrow> i < unat x \<longrightarrow> unat (e_Index (E i)) = i" "es = [] \<or> sz \<le> mx"
    by (auto simp: scan_ok_def)
  have "es @ [E (unat x)] = map E [low..<unat (x + 1)]" using o(1,2) by (simp add: s)
  then show "scan_ok E low mx (es @ [E (unat x)], sz + SizeUpperLimit (E (unat x)), x + 1,
      sz + SizeUpperLimit (E (unat x)) > mx)"
    using o e(1) by (auto simp: scan_ok_def s less_Suc_eq)
  show "es = [] \<or> e_Index (last es) + 1 = e_Index (E (unat x))"
  proof (cases "es = []")
    case False
    then have lt: "low < unat x" using o(2) by auto
    then have l: "last es = E (unat x - 1)" using o(2) by (simp add: last_map)
    have i: "unat (e_Index (E (unat x - 1))) = unat x - 1" using o(4) lt by auto
    have "unat (e_Index (last es) + 1) = unat (e_Index (E (unat x)))"
      using l i e lt by (subst unat_Suc_u64) (auto simp: u64_neq_max)
    then show ?thesis by (simp add: word_unat_eq_iff)
  qed simp
qed

definition scan_to :: "(nat \<Rightarrow> Entry) \<Rightarrow> nat \<Rightarrow> u64 \<Rightarrow> nat \<Rightarrow> (scan \<times> bool) res \<Rightarrow> bool" where
  "scan_to E low mx y r = (case r of Inl _ \<Rightarrow> False | Inr ((es, sz, x, fin), c) \<Rightarrow>
     scan_ok E low mx (es, sz, x, fin) \<and> (fin \<longrightarrow> \<not> c) \<and> unat x \<le> y \<and> (\<not> fin \<longrightarrow> unat x = y))"

lemma scan_entries_ok:
  assumes "\<forall>i. k \<le> i \<longrightarrow> i < m \<longrightarrow> unat (e_Index (Eu i)) = i" "m < u64_limit"
    and "\<forall>i. k \<le> i \<longrightarrow> i < m \<longrightarrow> i \<le> unat (ix_end q) \<longrightarrow> unat (ix_start q) \<le> i \<longrightarrow> Eu i = E i"
    and "scan_ok E low mx (es, sz, x, False)" and "k \<le> unat x" "unat (ix_start q) \<le> unat x"
  shows "scan_to E low mx (max (unat x) (min m (min (unat high) (Suc (unat (ix_end q))))))
    (scan_entries q high mx (map Eu [k..<m]) (es, sz, x, False))"
  using assms
proof (induction "m - k" arbitrary: k es sz x)
  case 0
  then show ?case by (simp add: scan_to_def max_def)
next
  case (Suc n)
  then have km: "k < m" "n = m - Suc k" by auto
  then have u: "map Eu [k..<m] = Eu k # map Eu [Suc k..<m]" by (simp add: upt_conv_Cons)
  have ik: "unat (e_Index (Eu k)) = k" using Suc.prems(1) km by simp
  have idx: "\<forall>i. Suc k \<le> i \<longrightarrow> i < m \<longrightarrow> unat (e_Index (Eu i)) = i"
    and agr: "\<forall>i. Suc k \<le> i \<longrightarrow> i < m \<longrightarrow> i \<le> unat (ix_end q) \<longrightarrow> unat (ix_start q) \<le> i \<longrightarrow> Eu i = E i"
    using Suc.prems(1,3) by auto
  show ?case
  proof (cases "k < unat x")
    case True
    then have "e_Index (Eu k) < x" by (simp add: word_less_nat_alt ik)
    with Suc.hyps(1) [OF km(2) idx Suc.prems(2) agr Suc.prems(4)] True Suc.prems(6)
    show ?thesis by (simp add: u)
  next
    case False
    with Suc.prems(5) have kx: "k = unat x" by simp
    have ne: "\<not> e_Index (Eu k) < x" "e_Index (Eu k) = x" "e_Index (Eu k) \<ge> ix_start q"
      using Suc.prems(6) ik kx by (auto simp: word_less_nat_alt word_le_nat_alt word_unat_eq_iff)
    show ?thesis
    proof (cases "x < high \<and> x \<le> ix_end q")
      case stop: False
      then have "unat x = max (unat x) (min m (min (unat high) (Suc (unat (ix_end q)))))"
        using km(1) kx by (auto simp: word_less_nat_alt word_le_nat_alt)
      with stop ne Suc.prems(4) show ?thesis by (auto simp: u scan_to_def)
    next
      case take: True
      have E: "Eu k = E (unat x)"
        using Suc.prems(3,6) km(1) kx take by (auto simp: word_le_nat_alt)
      have lim: "Suc (unat x) < u64_limit" using km(1) kx Suc.prems(2) by simp
      have s: "unat (x + 1) = Suc (unat x)" using lim by (simp add: unat_Suc_u64 u64_neq_max)
      have ix: "unat (e_Index (Eu k)) = unat x" using ik kx by simp
      note st = scan_ok_step [OF Suc.prems(4) _ lim, folded E, OF ix]
      have step: "scan_entries q high mx (map Eu [k..<m]) (es, sz, x, False) =
          (if sz + SizeUpperLimit (Eu k) > mx
           then Inr ((es @ [Eu k], sz + SizeUpperLimit (Eu k), x + 1, True), False)
           else scan_entries q high mx (map Eu [Suc k..<m])
                  (es @ [Eu k], sz + SizeUpperLimit (Eu k), x + 1, False))"
        using ne take unfolding u by (cases "es = []") (use st(2) in \<open>simp_all add: Let_def\<close>)
      show ?thesis
      proof (cases "sz + SizeUpperLimit (Eu k) > mx")
        case True
        moreover have "unat (x + 1) \<le> max (unat x) (min m (min (unat high) (Suc (unat (ix_end q)))))"
          using take km(1) kx by (simp add: s word_less_nat_alt word_le_nat_alt)
        ultimately show ?thesis using st(1) unfolding step by (simp add: scan_to_def)
      next
        case cont: False
        have "scan_to E low mx (max (unat (x + 1)) (min m (min (unat high) (Suc (unat (ix_end q))))))
            (scan_entries q high mx (map Eu [Suc k..<m])
              (es @ [Eu k], sz + SizeUpperLimit (Eu k), x + 1, False))"
          by (rule Suc.hyps(1) [OF km(2) idx Suc.prems(2) agr])
            (use st(1) cont Suc.prems(6) kx in \<open>simp_all add: s\<close>)
        moreover have "max (unat (x + 1)) (min m (min (unat high) (Suc (unat (ix_end q))))) =
            max (unat x) (min m (min (unat high) (Suc (unat (ix_end q)))))"
          using take km(1) kx by (simp add: s word_less_nat_alt word_le_nat_alt)
        ultimately show ?thesis using cont unfolding step by simp
      qed
    qed
  qed
qed

lemma scan_entries_noop:
  assumes "unat high \<le> unat x \<or> unat (ix_end q) < unat x"
  shows "\<exists>c. scan_entries q high mx es (ents, sz, x, fin) = Inr ((ents, sz, x, fin), c)"
  using assms by (induction es) (auto simp: word_less_nat_alt word_le_nat_alt Let_def)

section \<open>The invariant\<close>

definition rec_at :: "tandb \<Rightarrow> u64 \<Rightarrow> nat \<Rightarrow> Update option" where
  "rec_at d fn pos = (case mget (td_files d) fn of None \<Rightarrow> None | Some rs \<Rightarrow> map_of rs pos)"

text \<open>An index entry points to a record that starts at its first index and reaches its last one.\<close>

definition ie_ok :: "tandb \<Rightarrow> indexEntry \<Rightarrow> bool" where
  "ie_ok d ie \<longleftrightarrow>
     ix_fileNum ie \<noteq> 0 \<and> ix_length ie = 0 \<and> ix_start ie \<le> ix_end ie \<and>
     (case rec_at d (ix_fileNum ie) (ix_pos ie) of
        None \<Rightarrow> False
      | Some u \<Rightarrow>
          contig (unat (ix_start ie)) (ud_EntriesToSave u) \<and>
          unat (ix_end ie) < unat (ix_start ie) + length (ud_EntriesToSave u) \<and>
          unat (ix_start ie) + length (ud_EntriesToSave u) < u64_limit - 2)"

definition ie_entry :: "tandb \<Rightarrow> indexEntry \<Rightarrow> nat \<Rightarrow> Entry" where
  "ie_entry d ie i =
     (case rec_at d (ix_fileNum ie) (ix_pos ie) of
        None \<Rightarrow> zero_Entry | Some u \<Rightarrow> ud_EntriesToSave u ! (i - unat (ix_start ie)))"

definition files_ok :: "tandb \<Rightarrow> bool" where
  "files_ok d \<longleftrightarrow>
     (\<forall>fn rs. mget (td_files d) fn = Some rs \<longrightarrow> sorted_wrt (<) (map fst rs)) \<and>
     (\<forall>fn. mhas (td_files d) fn \<longrightarrow> fn \<le> td_logNum d) \<and>
     (\<forall>rs. mget (td_files d) (td_logNum d) = Some rs \<longrightarrow> (\<forall>p \<in> fst ` set rs. p < td_offset d)) \<and>
     td_logNum d \<noteq> 0 \<and> td_nextFileNum d = td_logNum d + 1"

lemma dropWhile_at:
  assumes "sorted_wrt (<) (map fst rs)" "map_of rs p = Some u"
  shows "\<exists>rest. dropWhile (\<lambda>(offset :: nat, _). offset < p) rs = (p, u) # rest"
  using assms
proof (induction rs)
  case (Cons r rs)
  obtain o' v where r: "r = (o', v)" by fastforce
  show ?case
  proof (cases "o' = p")
    case True
    with Cons r show ?thesis by auto
  next
    case False
    with Cons.prems r have "p \<in> fst ` set rs" by (auto dest: map_of_SomeD intro: rev_image_eqI)
    with Cons.prems(1) r have "o' < p" by auto
    with Cons False r show ?thesis by auto
  qed
qed simp

lemma readLog_loop_noop:
  assumes "unat high \<le> unat x \<or> unat (ix_end q) < unat x"
  shows "readLog_loop (\<lambda>u _. scan_entries q high mx (ud_EntriesToSave u)) rs (es, sz, x, fin) =
    Inr (es, sz, x, fin)"
proof (induction rs)
  case (Cons r rs)
  obtain o' u where "r = (o', u)" by fastforce
  moreover obtain c where "scan_entries q high mx (ud_EntriesToSave u) (es, sz, x, fin) = Inr ((es, sz, x, fin), c)"
    using scan_entries_noop [OF assms] by blast
  ultimately show ?case using Cons by (cases c) (simp_all del: bind_res_eq_Inr)
qed simp

lemma readLog_ie:
  assumes ok: "ie_ok d ie" "files_ok d"
    and agr: "\<forall>i. unat (ix_start ie) \<le> i \<longrightarrow> i \<le> unat (ix_end ie) \<longrightarrow> E i = ie_entry d ie i"
    and s: "scan_ok E low mx (es, sz, x, False)"
    and x: "unat (ix_start ie) \<le> unat x"
  shows "\<exists>es' sz' x' fin.
    readLog d ie (\<lambda>u _. scan_entries ie high mx (ud_EntriesToSave u)) (es, sz, x, False) = Inr (es', sz', x', fin) \<and>
    scan_ok E low mx (es', sz', x', fin) \<and>
    unat x' \<le> max (unat x) (min (unat high) (Suc (unat (ix_end ie)))) \<and>
    (\<not> fin \<longrightarrow> unat x' = max (unat x) (min (unat high) (Suc (unat (ix_end ie)))))"
proof -
  let ?a = "unat (ix_start ie)"
  obtain rs u where rs: "mget (td_files d) (ix_fileNum ie) = Some rs" "map_of rs (ix_pos ie) = Some u"
    and u: "contig ?a (ud_EntriesToSave u)" "unat (ix_end ie) < ?a + length (ud_EntriesToSave u)"
      "?a + length (ud_EntriesToSave u) < u64_limit"
    using ok(1) by (auto simp: ie_ok_def rec_at_def split: option.splits)
  obtain rest where rest: "dropWhile (\<lambda>(offset, _). offset < ix_pos ie) rs = (ix_pos ie, u) # rest"
    using dropWhile_at [OF _ rs(2)] ok(2) rs(1) by (auto simp: files_ok_def)
  let ?m = "?a + length (ud_EntriesToSave u)" let ?Eu = "\<lambda>i. ud_EntriesToSave u ! (i - ?a)"
  have es: "ud_EntriesToSave u = map ?Eu [?a..<?m]" by (auto intro: nth_equalityI)
  have "scan_to E low mx (max (unat x) (min ?m (min (unat high) (Suc (unat (ix_end ie))))))
      (scan_entries ie high mx (map ?Eu [?a..<?m]) (es, sz, x, False))"
  proof (rule scan_entries_ok [OF _ u(3) _ s x x])
    show "\<forall>i. ?a \<le> i \<longrightarrow> i < ?m \<longrightarrow> unat (e_Index (?Eu i)) = i"
      using u(1) by (auto simp: contig_iff)
    show "\<forall>i. ?a \<le> i \<longrightarrow> i < ?m \<longrightarrow> i \<le> unat (ix_end ie) \<longrightarrow> ?a \<le> i \<longrightarrow> ?Eu i = E i"
      using agr rs by (auto simp: ie_entry_def rec_at_def)
  qed
  moreover have "min ?m (min (unat high) (Suc (unat (ix_end ie)))) = min (unat high) (Suc (unat (ix_end ie)))"
    using u(2) by simp
  ultimately obtain es' sz' x' fin c where r:
    "scan_entries ie high mx (ud_EntriesToSave u) (es, sz, x, False) = Inr ((es', sz', x', fin), c)"
    "scan_ok E low mx (es', sz', x', fin)" "fin \<longrightarrow> \<not> c"
    "unat x' \<le> max (unat x) (min (unat high) (Suc (unat (ix_end ie))))"
    "\<not> fin \<longrightarrow> unat x' = max (unat x) (min (unat high) (Suc (unat (ix_end ie))))"
    unfolding es [symmetric] scan_to_def by (auto split: sum.splits prod.splits)
  have "readLog d ie (\<lambda>u _. scan_entries ie high mx (ud_EntriesToSave u)) (es, sz, x, False) =
      (if c then readLog_loop (\<lambda>u _. scan_entries ie high mx (ud_EntriesToSave u)) rest (es', sz', x', fin)
       else Inr (es', sz', x', fin))"
    by (simp add: readLog_def rs(1) rest r(1))
  also have "\<dots> = Inr (es', sz', x', fin)"
    using r(3,5) by (auto intro!: readLog_loop_noop)
  finally show ?thesis using r(2,4,5) by blast
qed

section \<open>Querying the index\<close>

abbreviation ie_next :: "indexEntry \<Rightarrow> indexEntry \<Rightarrow> bool" where
  "ie_next a b \<equiv> ix_end a + 1 = ix_start b"

definition ix_sorted :: "indexEntry list \<Rightarrow> bool" where
  "ix_sorted es \<longleftrightarrow>
     sorted_wrt (\<lambda>a b. unat (ix_end a) < unat (ix_start b)) es \<and>
     (\<forall>e \<in> set es. unat (ix_start e) \<le> unat (ix_end e) \<and> Suc (unat (ix_end e)) < u64_limit)"

definition covered :: "indexEntry list \<Rightarrow> nat \<Rightarrow> bool" where
  "covered es i \<longleftrightarrow> (\<exists>e \<in> set es. unat (ix_start e) \<le> i \<and> i \<le> unat (ix_end e))"

lemma ix_sorted_append:
  "ix_sorted (xs @ ys) \<longleftrightarrow> ix_sorted xs \<and> ix_sorted ys \<and>
     (\<forall>a \<in> set xs. \<forall>b \<in> set ys. unat (ix_end a) < unat (ix_start b))"
  by (auto simp: ix_sorted_def sorted_wrt_append)

lemma ix_sorted_ends:
  assumes "ix_sorted es" "a \<le> b" "b < length es"
  shows "unat (ix_end (es ! a)) \<le> unat (ix_end (es ! b))"
proof (cases "a = b")
  case False
  then have "unat (ix_end (es ! a)) < unat (ix_start (es ! b))"
    using assms by (auto simp: ix_sorted_def sorted_wrt_iff_nth_less)
  moreover have "unat (ix_start (es ! b)) \<le> unat (ix_end (es ! b))"
    using assms by (simp add: ix_sorted_def)
  ultimately show ?thesis by simp
qed simp

lemma query_loop_spec:
  "\<exists>pre post. es = pre @ post \<and> query_loop high acc es = acc @ pre \<and>
     (\<forall>e \<in> set pre. ix_start e < high) \<and>
     (successively ie_next acc \<longrightarrow> successively ie_next (acc @ pre)) \<and>
     (post = [] \<or> high \<le> ix_start (hd post) \<or> acc @ pre \<noteq> [] \<and> \<not> ie_next (last (acc @ pre)) (hd post))"
proof (induction es arbitrary: acc)
  case Nil
  then show ?case by (intro exI [of _ "[]"]) simp
next
  case (Cons e es)
  show ?case
  proof (cases "high \<le> ix_start e \<or> acc \<noteq> [] \<and> \<not> ie_next (last acc) e")
    case True
    then have "e # es = [] @ (e # es) \<and> query_loop high acc (e # es) = acc @ [] \<and>
        (e # es = [] \<or> high \<le> ix_start (hd (e # es)) \<or>
          acc @ [] \<noteq> [] \<and> \<not> ie_next (last (acc @ [])) (hd (e # es)))" by auto
    then show ?thesis by (metis append_Nil2 empty_iff list.set(1))
  next
    case False
    obtain pre post where p: "es = pre @ post" "query_loop high (acc @ [e]) es = (acc @ [e]) @ pre"
      "\<forall>e \<in> set pre. ix_start e < high"
      "successively ie_next (acc @ [e]) \<longrightarrow> successively ie_next ((acc @ [e]) @ pre)"
      "post = [] \<or> high \<le> ix_start (hd post) \<or>
        (acc @ [e]) @ pre \<noteq> [] \<and> \<not> ie_next (last ((acc @ [e]) @ pre)) (hd post)"
      using Cons.IH [of "acc @ [e]"] by blast
    have "successively ie_next acc \<longrightarrow> successively ie_next (acc @ [e])"
      using False by (auto simp: successively_append_iff)
    with p(4) have "successively ie_next acc \<longrightarrow> successively ie_next (acc @ e # pre)" by simp
    moreover have "query_loop high acc (e # es) = acc @ e # pre" using p(2) False by simp
    moreover have "e # es = (e # pre) @ post" "\<forall>e \<in> set (e # pre). ix_start e < high"
      using p(1,3) False by auto
    moreover have "post = [] \<or> high \<le> ix_start (hd post) \<or>
        acc @ e # pre \<noteq> [] \<and> \<not> ie_next (last (acc @ e # pre)) (hd post)"
      using p(5) by simp
    ultimately show ?thesis by blast
  qed
qed

lemma query_reaches:
  assumes srt: "ix_sorted es" and all: "es = xs @ pre @ pst" and ne: "pre \<noteq> []"
    and stop: "pst = [] \<or> high \<le> ix_start (hd pst) \<or> pre \<noteq> [] \<and> \<not> ie_next (last pre) (hd pst)"
    and cov: "\<forall>k. unat low \<le> k \<longrightarrow> k < unat high \<longrightarrow> covered es k"
    and low: "unat (ix_start (hd pre)) \<le> unat low" "unat low \<le> unat (ix_end (hd pre))"
  shows "unat high \<le> Suc (unat (ix_end (last pre)))"
proof (rule ccontr)
  let ?j = "Suc (unat (ix_end (last pre)))"
  assume "\<not> ?thesis"
  then have j: "?j < unat high" by simp
  have srt': "ix_sorted xs" "ix_sorted pre" "ix_sorted pst"
    and cross: "\<forall>a \<in> set xs. \<forall>b \<in> set (pre @ pst). unat (ix_end a) < unat (ix_start b)"
      "\<forall>a \<in> set pre. \<forall>b \<in> set pst. unat (ix_end a) < unat (ix_start b)"
    using srt unfolding all ix_sorted_append by auto
  have ends: "unat (ix_end e) \<le> unat (ix_end (last pre))" if "e \<in> set pre" for e
    using that ix_sorted_ends [OF srt'(2), of _ "length pre - 1"] ne
    by (auto simp: in_set_conv_nth last_conv_nth)
  have "unat low \<le> ?j" using low(2) ends [of "hd pre"] ne by simp
  with cov j obtain e where e: "e \<in> set es" "unat (ix_start e) \<le> ?j" "?j \<le> unat (ix_end e)"
    by (auto simp: covered_def)
  have "e \<notin> set xs"
  proof
    assume "e \<in> set xs"
    then have "unat (ix_end e) < unat (ix_start (hd pre))" using cross(1) ne by simp
    with e(3) low(1) \<open>unat low \<le> ?j\<close> show False by simp
  qed
  moreover have "e \<notin> set pre" using e(3) ends by fastforce
  ultimately have ep: "e \<in> set pst" using e(1) all by simp
  then obtain p ps where pst: "pst = p # ps" by (cases pst) auto
  have pe: "unat (ix_start p) \<le> unat (ix_start e)"
    using ep srt'(3) by (force simp: pst ix_sorted_def)
  have "unat (ix_end (last pre)) < unat (ix_start p)" using cross(2) ne pst by simp
  then have "unat (ix_start p) = ?j" using pe e(2) by simp
  then have "ie_next (last pre) p"
    by (simp add: word_unat_eq_iff unat_Suc_u64 u64_neq_max)
      (use u64_unat_lt [of "ix_start p"] in \<open>simp add: unat_Suc_u64 u64_neq_max\<close>)
  with stop pst have "high \<le> ix_start p" by simp
  with pe e(2) j show False by (simp add: word_le_nat_alt)
qed

lemma ix_query_covers:
  assumes srt: "ix_sorted (ix_entries i)" and lh: "low < high"
    and cov: "\<forall>k. unat low \<le> k \<longrightarrow> k < unat high \<longrightarrow> covered (ix_entries i) k"
  shows "\<exists>ies. ix_query i low high = Inr (ies, True) \<and> ies \<noteq> [] \<and> set ies \<subseteq> set (ix_entries i) \<and>
    successively ie_next ies \<and> (\<forall>e \<in> set ies. unat (ix_start e) < unat high) \<and>
    unat (ix_start (hd ies)) \<le> unat low \<and> unat low \<le> unat (ix_end (hd ies)) \<and>
    unat high \<le> Suc (unat (ix_end (last ies)))"
proof -
  let ?es = "ix_entries i" let ?f = "\<lambda>pos. low \<le> ix_end (?es ! pos)"
  define r where "r = go_search ?f 0 (length ?es)"
  have mono: "?f b" if "a \<le> b" "b < length ?es" "?f a" for a b
    using ix_sorted_ends [OF srt that(1,2)] that(3) unfolding word_le_nat_alt by linarith
  have r: "r \<le> length ?es" "\<forall>k. k < r \<longrightarrow> \<not> ?f k" "r < length ?es \<longrightarrow> ?f r"
    using go_search_spec [of 0 "length ?es" ?f, OF _ mono] unfolding r_def by auto
  obtain k where k: "k < length ?es" "unat (ix_start (?es ! k)) \<le> unat low" "unat low \<le> unat (ix_end (?es ! k))"
    using cov [rule_format, of "unat low"] lh
    unfolding covered_def word_less_nat_alt by (auto simp: in_set_conv_nth)
  have rk: "r = k"
  proof (rule ccontr)
    assume "r \<noteq> k"
    moreover have "\<not> k < r" using r(2) k(3) by (auto simp: word_le_nat_alt)
    ultimately have lt: "r < k" by simp
    then have "unat (ix_end (?es ! r)) < unat (ix_start (?es ! k))"
      using srt k(1) by (auto simp: ix_sorted_def sorted_wrt_iff_nth_less)
    moreover have "unat low \<le> unat (ix_end (?es ! r))" using r(3) lt k(1) by (simp add: word_le_nat_alt)
    ultimately show False using k(2) by simp
  qed
  obtain pre post where p: "drop k ?es = pre @ post" "query_loop high [] (drop k ?es) = pre"
    "\<forall>e \<in> set pre. ix_start e < high" "successively ie_next pre"
    "post = [] \<or> high \<le> ix_start (hd post) \<or> pre \<noteq> [] \<and> \<not> ie_next (last pre) (hd post)"
    using query_loop_spec [of "drop k ?es" high "[]", unfolded append_Nil]
    by (elim exE conjE) (rule that, simp_all)
  have dk: "drop k ?es = ?es ! k # drop (Suc k) ?es" using k(1) by (simp add: Cons_nth_drop_Suc)
  have ne: "pre \<noteq> []"
  proof
    assume "pre = []"
    with p(1,5) dk have "high \<le> ix_start (?es ! k)" by (cases post) auto
    with k(2) lh show False by (simp add: word_le_nat_alt word_less_nat_alt)
  qed
  then have hd: "hd pre = ?es ! k" using p(1) dk by (cases pre) auto
  have q: "ix_query i low high = Inr (pre, True)"
    using k lh p(2) rk [unfolded r_def] by (auto simp: ix_query_def Let_def word_le_nat_alt word_less_nat_alt)
  have all: "?es = take k ?es @ pre @ post" using p(1) by (metis append_take_drop_id)
  have "unat high \<le> Suc (unat (ix_end (last pre)))"
    by (rule query_reaches [OF srt all ne p(5) cov]) (use k(2,3) hd in auto)
  moreover have "set pre \<subseteq> set ?es" using all by (metis Un_upper1 Un_upper2 order.trans set_append)
  ultimately show ?thesis using q ne p(3,4) hd k(2,3) by (auto simp: word_less_nat_alt)
qed

section \<open>The logged entries\<close>

definition node_ok :: "tandb \<Rightarrow> nodeIndex \<Rightarrow> bool" where
  "node_ok d n \<longleftrightarrow>
     ix_sorted (ix_entries (ni_entries n)) \<and>
     (\<forall>ie \<in> set (ix_entries (ni_entries n)). ie_ok d ie) \<and>
     sorted (map ix_fileNum (ix_entries (ni_entries n)))"

definition tan_ok :: "tandb \<Rightarrow> bool" where
  "tan_ok d \<longleftrightarrow>
     files_ok d \<and>
     (\<forall>sid rid. node_ok d (node_index (td_ns d) sid rid) \<and>
        ni_shardID (node_index (td_ns d) sid rid) = sid \<and>
        ni_replicaID (node_index (td_ns d) sid rid) = rid) \<and>
     ix_entries (ni_entries (node_index (td_ns d) 0 0)) = []"

definition tan_log :: "tandb \<Rightarrow> u64 \<Rightarrow> u64 \<Rightarrow> nat \<Rightarrow> Entry option" where
  "tan_log d sid rid i =
     (let ix = ni_entries (node_index (td_ns d) sid rid)
      in if i \<le> unat (ix_compactedTo ix) then None
         else map_option (\<lambda>ie. ie_entry d ie i)
                (find (\<lambda>ie. unat (ix_start ie) \<le> i \<and> i \<le> unat (ix_end ie)) (ix_entries ix)))"

lemma tan_okD:
  assumes "tan_ok d"
  shows "files_ok d" "node_ok d (node_index (td_ns d) sid rid)"
    "ni_shardID (node_index (td_ns d) sid rid) = sid" "ni_replicaID (node_index (td_ns d) sid rid) = rid"
    "ix_entries (ni_entries (node_index (td_ns d) 0 0)) = []"
  using assms by (auto simp: tan_ok_def)

lemma ie_entry_index:
  assumes "ie_ok d ie" "unat (ix_start ie) \<le> i" "i \<le> unat (ix_end ie)"
  shows "unat (e_Index (ie_entry d ie i)) = i"
  using assms by (auto simp: ie_ok_def ie_entry_def contig_iff split: option.splits)

lemma find_unique:
  assumes "ix_sorted es" "ie \<in> set es" "unat (ix_start ie) \<le> i" "i \<le> unat (ix_end ie)"
  shows "find (\<lambda>ie. unat (ix_start ie) \<le> i \<and> i \<le> unat (ix_end ie)) es = Some ie"
  using assms
proof (induction es)
  case (Cons e es)
  show ?case
  proof (cases "e = ie")
    case False
    then have "ie \<in> set es" "unat (ix_end e) < unat (ix_start ie)"
      using Cons.prems(1,2) by (auto simp: ix_sorted_def)
    moreover from this have "\<not> (unat (ix_start e) \<le> i \<and> i \<le> unat (ix_end e))"
      using Cons.prems(3) by simp
    ultimately show ?thesis using Cons by (auto simp: ix_sorted_def)
  qed (use Cons.prems in simp)
qed simp

lemma tan_log_Some:
  assumes "node_ok d (node_index (td_ns d) sid rid)"
  shows "tan_log d sid rid i = Some e \<longleftrightarrow>
    unat (ix_compactedTo (ni_entries (node_index (td_ns d) sid rid))) < i \<and>
    (\<exists>ie \<in> set (ix_entries (ni_entries (node_index (td_ns d) sid rid))).
       unat (ix_start ie) \<le> i \<and> i \<le> unat (ix_end ie) \<and> e = ie_entry d ie i)"
  (is "?l = ?r")
proof
  assume ?l
  then show ?r by (auto simp: tan_log_def Let_def find_Some_iff split: if_splits)
next
  assume r: ?r
  then obtain ie where ie: "ie \<in> set (ix_entries (ni_entries (node_index (td_ns d) sid rid)))"
    "unat (ix_start ie) \<le> i" "i \<le> unat (ix_end ie)" "e = ie_entry d ie i" by blast
  have "ix_sorted (ix_entries (ni_entries (node_index (td_ns d) sid rid)))"
    using assms by (simp add: node_ok_def)
  from find_unique [OF this ie(1-3)] ie(4) r show ?l by (simp add: tan_log_def Let_def)
qed

lemma scan_indexes_ok:
  assumes fs: "files_ok d"
    and "\<forall>ie \<in> set ies. ie_ok d ie" "\<forall>ie \<in> set ies. unat (ix_start ie) < unat high"
    and "\<forall>ie \<in> set ies. \<forall>i. unat (ix_start ie) \<le> i \<longrightarrow> i \<le> unat (ix_end ie) \<longrightarrow> E i = ie_entry d ie i"
    and "successively ie_next ies" "ies \<noteq> []" "unat high \<le> Suc (unat (ix_end (last ies)))"
    and "scan_ok E low mx (es, sz, x, False)" "unat (ix_start (hd ies)) \<le> unat x"
      "unat x \<le> Suc (unat (ix_end (hd ies)))" "unat x \<le> unat high"
  shows "\<exists>es' sz' x' fin. scan_indexes d high mx ies (es, sz, x, False) = Inr (es', sz', x', fin) \<and>
    scan_ok E low mx (es', sz', x', fin) \<and> unat x' \<le> unat high \<and> (\<not> fin \<longrightarrow> x' = high)"
  using assms(2-)
proof (induction ies arbitrary: es sz x)
  case (Cons ie ies)
  have "\<exists>es' sz' x' fin.
    readLog d ie (\<lambda>u _. scan_entries ie high mx (ud_EntriesToSave u)) (es, sz, x, False) = Inr (es', sz', x', fin) \<and>
    scan_ok E low mx (es', sz', x', fin) \<and>
    unat x' \<le> max (unat x) (min (unat high) (Suc (unat (ix_end ie)))) \<and>
    (\<not> fin \<longrightarrow> unat x' = max (unat x) (min (unat high) (Suc (unat (ix_end ie)))))"
    by (rule readLog_ie [OF _ fs]) (use Cons.prems in auto)
  then obtain es' sz' x' fin where r:
    "readLog d ie (\<lambda>u _. scan_entries ie high mx (ud_EntriesToSave u)) (es, sz, x, False) = Inr (es', sz', x', fin)"
    "scan_ok E low mx (es', sz', x', fin)"
    "unat x' \<le> max (unat x) (min (unat high) (Suc (unat (ix_end ie))))"
    "\<not> fin \<longrightarrow> unat x' = max (unat x) (min (unat high) (Suc (unat (ix_end ie))))"
    by (elim exE conjE) (rule that)
  show ?case
  proof (cases "fin \<or> ies = []")
    case True
    then have "scan_indexes d high mx (ie # ies) (es, sz, x, False) = Inr (es', sz', x', fin)"
      using r(1) by (auto simp del: bind_res_eq_Inr)
    moreover have "unat x' \<le> unat high" using r(3) Cons.prems(10) by simp
    moreover have "\<not> fin \<longrightarrow> x' = high"
      using True r(4) Cons.prems(6,9,10) by (auto simp: word_unat_eq_iff)
    ultimately show ?thesis using r(2) by blast
  next
    case False
    then obtain ie2 rest where ies: "ies = ie2 # rest" by (cases ies) auto
    have nx: "unat (ix_start ie2) = Suc (unat (ix_end ie))"
    proof -
      have "ie_ok d ie" "ix_end ie + 1 = ix_start ie2" using Cons.prems(1,4) ies by auto
      then show ?thesis
        by (auto simp: ie_ok_def unat_Suc_u64 u64_neq_max dest!: sym [of _ "ix_start ie2"] split: option.splits)
    qed
    have x': "unat x' = unat (ix_start ie2)"
      using r(4) False Cons.prems(2,9) nx ies by auto
    have "unat (ix_start ie2) \<le> unat (ix_end ie2)"
      using Cons.prems(1) ies by (auto simp: ie_ok_def word_le_nat_alt)
    with Cons.IH [of es' sz' x'] Cons.prems r(2) x' False ies
    have "\<exists>es'' sz'' x'' fin'. scan_indexes d high mx ies (es', sz', x', False) = Inr (es'', sz'', x'', fin') \<and>
        scan_ok E low mx (es'', sz'', x'', fin') \<and> unat x'' \<le> unat high \<and> (\<not> fin' \<longrightarrow> x'' = high)"
      by (auto simp: less_imp_le)
    moreover have "scan_indexes d high mx (ie # ies) (es, sz, x, False) = scan_indexes d high mx ies (es', sz', x', False)"
      using r(1) False by (simp del: bind_res_eq_Inr)
    ultimately show ?thesis by simp
  qed
qed simp

lemma tan_log_covered:
  assumes ok: "tan_ok d" and lg: "tan_log d sid rid i \<noteq> None"
  shows "covered (ix_entries (ni_entries (node_index (td_ns d) sid rid))) i"
    "unat (ix_compactedTo (ni_entries (node_index (td_ns d) sid rid))) < i"
    "\<not> (sid = 0 \<and> rid = 0)"
proof -
  obtain e where e: "tan_log d sid rid i = Some e" using lg by blast
  note r = e [unfolded tan_log_Some [OF tan_okD(2) [OF ok]]]
  from r show "covered (ix_entries (ni_entries (node_index (td_ns d) sid rid))) i"
    by (auto simp: covered_def)
  from r show "unat (ix_compactedTo (ni_entries (node_index (td_ns d) sid rid))) < i" by blast
  from r tan_okD(5) [OF ok] show "\<not> (sid = 0 \<and> rid = 0)" by auto
qed

lemma IterateEntries_law:
  assumes ok: "tan_ok d" and lh: "low < high"
    and lg: "\<forall>i. unat low \<le> i \<longrightarrow> i < unat high \<longrightarrow> tan_log d sid rid i \<noteq> None"
  defines "E \<equiv> lr_ent (tan_log d sid rid)"
  shows "\<exists>n. 0 < n \<and> n \<le> unat high - unat low \<and>
    IterateEntries d [] 0 sid rid low high sz =
      Inr (map E [unat low..<unat low + n], GetEntrySliceSize (map E [unat low..<unat low + n])) \<and>
    (n < unat high - unat low \<longrightarrow> sz \<noteq> 0 \<and> GetEntrySliceSize (map E [unat low..<unat low + n]) > sz) \<and>
    (1 < n \<longrightarrow> sz \<noteq> 0 \<longrightarrow> GetEntrySliceSize (map E [unat low..<unat low + n]) > sz \<longrightarrow>
       GetEntrySliceSize (map E [unat low..<unat low + (n - 1)]) \<le> sz)"
proof -
  let ?n = "node_index (td_ns d) sid rid" let ?es = "ix_entries (ni_entries ?n)"
  have nok: "node_ok d ?n" by (rule tan_okD(2) [OF ok])
  have cov: "\<forall>k. unat low \<le> k \<longrightarrow> k < unat high \<longrightarrow> covered ?es k" using lg tan_log_covered(1) [OF ok] by blast
  have low: "tan_log d sid rid (unat low) \<noteq> None" using lg lh by (simp add: word_less_nat_alt)
  have srt: "ix_sorted ?es" using nok by (simp add: node_ok_def)
  obtain ies where q: "ix_query (ni_entries ?n) low high = Inr (ies, True)" "ies \<noteq> []" "set ies \<subseteq> set ?es"
    "successively ie_next ies" "\<forall>e \<in> set ies. unat (ix_start e) < unat high"
    "unat (ix_start (hd ies)) \<le> unat low" "unat low \<le> unat (ix_end (hd ies))"
    "unat high \<le> Suc (unat (ix_end (last ies)))"
    using ix_query_covers [OF srt lh cov] by (elim exE conjE) (rule that)
  define mx where "mx = (if sz = 0 then - 1 else sz)"
  have cmp: "ix_compactedTo (ni_entries ?n) < low"
    using tan_log_covered(2) [OF ok low] by (simp add: word_less_nat_alt)
  have oks: "\<forall>ie \<in> set ies. ie_ok d ie" using nok q(3) by (auto simp: node_ok_def)
  define F where "F i = ie_entry d (the (find (\<lambda>ie. unat (ix_start ie) \<le> i \<and> i \<le> unat (ix_end ie)) ?es)) i" for i
  have agr: "\<forall>ie \<in> set ies. \<forall>i. unat (ix_start ie) \<le> i \<longrightarrow> i \<le> unat (ix_end ie) \<longrightarrow> F i = ie_entry d ie i"
    using find_unique [OF srt] q(3) by (auto simp: F_def)
  have EF: "E i = F i" if "unat low \<le> i" "i < unat high" for i
  proof -
    have "tan_log d sid rid i \<noteq> None" using lg that by blast
    then show ?thesis by (auto simp: E_def lr_ent_def F_def tan_log_def Let_def split: if_splits)
  qed
  have "scan_ok F (unat low) mx ([], 0, low, False)" by (simp add: scan_ok_def)
  from scan_indexes_ok [OF tan_okD(1) [OF ok] oks q(5) agr q(4,2,8) this q(6)] q(7) lh
  obtain es sz' x fin where r: "scan_indexes d high mx ies ([], 0, low, False) = Inr (es, sz', x, fin)"
    "scan_ok F (unat low) mx (es, sz', x, fin)" "unat x \<le> unat high" "\<not> fin \<longrightarrow> x = high"
    by (auto simp: word_less_nat_alt less_imp_le)
  have o: "unat low \<le> unat x" "es = map F [unat low..<unat x]" "sz' = GetEntrySliceSize es"
    "fin \<longrightarrow> es \<noteq> [] \<and> sz' > mx \<and> (length es > 1 \<longrightarrow> GetEntrySliceSize (butlast es) \<le> mx)"
    "\<not> fin \<longrightarrow> es = [] \<or> sz' \<le> mx"
    using r(2) by (auto simp: scan_ok_def)
  define k where "k = unat x - unat low"
  have es: "es = map E [unat low..<unat low + k]" using o(1,2) r(3) EF by (simp add: k_def)
  have bl: "butlast es = map E [unat low..<unat low + (k - 1)]"
    by (cases k) (simp_all add: es)
  have len: "length es = k" by (simp add: es)
  have kle: "k \<le> unat high - unat low" using r(3) by (simp add: k_def)
  have fz: "fin \<longrightarrow> sz \<noteq> 0"
    using o(4) by (auto simp: mx_def word_order.not_eq_extremum)
  have kpos: "0 < k" using o(4) r(4) lh len by (auto simp: word_less_nat_alt k_def)
  have "IterateEntries d [] 0 sid rid low high sz = Inr (es, sz')"
  proof -
    have "checkNodeInfo sid rid = Inr ()"
      using tan_log_covered(3) [OF ok low] by (simp add: checkNodeInfo_def)
    moreover have "\<not> low \<le> ix_compactedTo (ni_entries ?n)" using cmp by simp
    ultimately show ?thesis
      using q(1) r(1) unfolding IterateEntries_def tan_getEntries_def ns_getIndex_def Let_def mx_def [symmetric]
      by (simp del: bind_res_eq_Inr)
  qed
  moreover have "k < unat high - unat low \<longrightarrow> sz \<noteq> 0 \<and> sz' > sz"
    using r(4) o(4) fz by (auto simp: mx_def k_def)
  moreover have "1 < k \<longrightarrow> sz \<noteq> 0 \<longrightarrow> sz' > sz \<longrightarrow> GetEntrySliceSize (butlast es) \<le> sz"
    using o(4,5) len by (auto simp: mx_def)
  ultimately show ?thesis
    using kpos kle unfolding o(3) bl unfolding es by blast
qed

interpretation wal: raft_logdb IterateEntries tan_ok tan_log
proof
  fix d :: tandb and sid rid i e
  assume "tan_ok d" "tan_log d sid rid i = Some e"
  then show "unat (e_Index e) = i"
    using tan_okD(2) [of d sid rid] ie_entry_index
    by (auto simp: tan_log_Some node_ok_def)
qed (rule IterateEntries_law)

end
