(* ===== verification/TanWrite.thy ===== *)
theory TanWrite
  imports TanSpec
begin

text \<open>
  Writes to the log database refine appends to the logged entries: a write truncates the log of its
  node at its first entry and appends its entries, whatever log file they land in, and leaves every
  other node alone. The state of a node is the last one written. Removing entries up to an index
  hides exactly those entries, and the files it deletes are not used by any entry, snapshot or state
  that is still reachable.
\<close>

section \<open>The index after an update\<close>

definition ix_trunc :: "u64 \<Rightarrow> indexEntry list \<Rightarrow> indexEntry list" where
  "ix_trunc s es =
     map (\<lambda>a. if s \<le> ix_end a then a\<lparr>ix_end := s - 1\<rparr> else a) (filter (\<lambda>a. ix_start a < s) es)"

lemma ix_trunc_snoc:
  "ix_trunc s (es @ [l]) =
     ix_trunc s es @ (if ix_start l < s then [if s \<le> ix_end l then l\<lparr>ix_end := s - 1\<rparr> else l] else [])"
  by (simp add: ix_trunc_def)

lemma ix_trunc_below:
  assumes "\<forall>a \<in> set es. unat (ix_start a) \<le> unat (ix_end a) \<and> unat (ix_end a) < unat s"
  shows "ix_trunc s es = es"
  using assms by (induction es) (auto simp: ix_trunc_def word_less_nat_alt word_le_nat_alt)

lemma index_update_entries:
  assumes "ix_sorted (ix_entries i)"
    and "\<forall>a \<in> set (ix_entries i). \<not> (ix_fileNum a = ix_fileNum e \<and> ix_pos a + ix_length a = ix_pos e)"
  shows "ix_entries (index_update i e) = ix_trunc (ix_start e) (ix_entries i) @ [e] \<and>
    ix_compactedTo (index_update i e) = ix_compactedTo i"
  using assms
proof (induction i e rule: index_update.induct)
  case (1 i e)
  show ?case
  proof (cases "ix_entries i = []")
    case True
    then have "index_update i e = ix_append i e" by (subst index_update.simps) simp
    with True show ?thesis by (simp add: ix_append_def ix_trunc_def)
  next
    case False
    then obtain es l where es: "ix_entries i = es @ [l]" by (metis rev_exhaust)
    have srt: "ix_sorted es" "\<forall>a \<in> set es. unat (ix_start a) \<le> unat (ix_end a) \<and> unat (ix_end a) < unat (ix_start l)"
      using 1(2) by (auto simp: es ix_sorted_def sorted_wrt_append)
    have nm: "ix_merge l e = (l, e, False)" using 1(3) by (auto simp: es ix_merge_def)
    consider "ix_start e = ix_start l" | "ix_start e < ix_start l" | "ix_start l < ix_start e"
      by fastforce
    then show ?thesis
    proof cases
      case eq: 1
      have "index_update i e = i\<lparr>ix_entries := es @ [e]\<rparr>"
        by (subst index_update.simps) (simp add: es ix_update_def nm eq)
      moreover have "ix_trunc (ix_start e) es = es" using srt(2) eq by (intro ix_trunc_below) simp
      ultimately show ?thesis by (simp add: es ix_trunc_snoc eq)
    next
      case lt: 2
      then have upd: "ix_update l e = (e, zero_indexEntry, True, True)" by (simp add: ix_update_def nm)
      show ?thesis
      proof (cases "es = []")
        case True
        then have "index_update i e = i\<lparr>ix_entries := [e]\<rparr>"
          by (subst index_update.simps) (simp add: es upd)
        then show ?thesis using lt by (simp add: es True ix_trunc_def not_less)
      next
        case ne: False
        have c: "ix_entries (ix_cut i) = es" "ix_compactedTo (ix_cut i) = ix_compactedTo i"
          by (simp_all add: ix_cut_def es)
        have "index_update i e = index_update (ix_cut i) e"
          by (subst index_update.simps) (use ne in \<open>simp add: es upd\<close>)
        moreover have "ix_entries (index_update (ix_cut i) e) = ix_trunc (ix_start e) es @ [e] \<and>
            ix_compactedTo (index_update (ix_cut i) e) = ix_compactedTo i"
          using 1(1) [of e "(zero_indexEntry, True, True)" zero_indexEntry "(True, True)" True True]
            False upd ne srt(1) 1(3) c by (simp add: es)
        ultimately show ?thesis using lt by (simp add: es ix_trunc_snoc not_less)
      qed
    next
      case gt: 3
      have tr: "ix_trunc (ix_start e) es = es"
        using srt(2) gt by (intro ix_trunc_below) (auto simp: word_less_nat_alt)
      have "index_update i e = i\<lparr>ix_entries :=
          es @ [if ix_start e \<le> ix_end l then l\<lparr>ix_end := ix_start e - 1\<rparr> else l, e]\<rparr>"
        using gt by (subst index_update.simps)
          (auto simp: es ix_update_def nm ix_append_def Let_def)
      then show ?thesis using gt by (simp add: es ix_trunc_snoc tr)
    qed
  qed
qed

lemma ix_trunc_sorted:
  assumes "ix_sorted es" "s \<noteq> 0"
  shows "ix_sorted (ix_trunc s es)" "\<forall>a \<in> set (ix_trunc s es). unat (ix_end a) < unat s"
proof -
  let ?g = "\<lambda>a. if s \<le> ix_end a then a\<lparr>ix_end := s - 1\<rparr> else a"
  have p: "unat (s - 1) = unat s - 1" "0 < unat s" using assms(2) by (simp_all add: unat_pred_u64 unat_gt_0)
  have g: "ix_start (?g a) = ix_start a" "unat (ix_end (?g a)) \<le> unat (ix_end a)" "unat (ix_end (?g a)) < unat s"
    for a
    using p by (auto simp: word_le_nat_alt)
  have w: "sorted_wrt (\<lambda>a b. unat (ix_end a) < unat (ix_start b)) (filter (\<lambda>a. ix_start a < s) es)"
    using assms(1) by (simp add: ix_sorted_def sorted_wrt_filter)
  have "sorted_wrt (\<lambda>a b. unat (ix_end (?g a)) < unat (ix_start (?g b))) (filter (\<lambda>a. ix_start a < s) es)"
    by (rule sorted_wrt_mono_rel [OF _ w]) (metis g(1,2) le_less_trans)
  then have "sorted_wrt (\<lambda>a b. unat (ix_end a) < unat (ix_start b)) (ix_trunc s es)"
    unfolding ix_trunc_def sorted_wrt_map .
  moreover have "\<forall>e \<in> set (ix_trunc s es). unat (ix_start e) \<le> unat (ix_end e) \<and> Suc (unat (ix_end e)) < u64_limit"
    using assms(1) p u64_unat_lt [of s]
    by (auto simp: ix_trunc_def ix_sorted_def word_less_nat_alt word_le_nat_alt)
  ultimately show "ix_sorted (ix_trunc s es)" unfolding ix_sorted_def by blast
  show "\<forall>a \<in> set (ix_trunc s es). unat (ix_end a) < unat s"
    using p by (auto simp: ix_trunc_def word_le_nat_alt)
qed

lemma ix_trunc_mem:
  assumes "a \<in> set (ix_trunc s es)"
  obtains b where "b \<in> set es" "ix_start b < s" "a = b \<or> s \<le> ix_end b \<and> a = b\<lparr>ix_end := s - 1\<rparr>"
  using assms by (auto simp: ix_trunc_def split: if_splits)

lemma map_fileNum_trunc: "map ix_fileNum (ix_trunc s es) = map ix_fileNum (filter (\<lambda>a. ix_start a < s) es)"
  by (induction es) (auto simp: ix_trunc_def)

section \<open>Growing files\<close>

definition extends :: "tandb \<Rightarrow> tandb \<Rightarrow> bool" where
  "extends d d' \<longleftrightarrow> (\<forall>fn p u. rec_at d fn p = Some u \<longrightarrow> rec_at d' fn p = Some u)"

lemma ie_ok_extends: "extends d d' \<Longrightarrow> ie_ok d ie \<Longrightarrow> ie_ok d' ie"
  by (auto simp: extends_def ie_ok_def split: option.splits)

lemma ie_entry_extends: "extends d d' \<Longrightarrow> ie_ok d ie \<Longrightarrow> ie_entry d' ie i = ie_entry d ie i"
  by (auto simp: extends_def ie_ok_def ie_entry_def split: option.splits)

definition same_nodes :: "tandb \<Rightarrow> tandb \<Rightarrow> bool" where
  "same_nodes d d' \<longleftrightarrow> (\<forall>sid rid.
     (let n = node_index (td_ns d) sid rid; n' = node_index (td_ns d') sid rid in
      ni_entries n' = ni_entries n \<and> ni_shardID n' = ni_shardID n \<and> ni_replicaID n' = ni_replicaID n \<and>
      ni_state n' = ni_state n \<and> ni_snapshot n' = ni_snapshot n))"

lemma tan_ok_grow:
  assumes ok: "tan_ok d" and "files_ok d'" and ext: "extends d d'" and same: "same_nodes d d'"
  shows "tan_ok d'" "tan_log d' sid rid i = tan_log d sid rid i"
proof -
  have n: "node_ok d' (node_index (td_ns d') sid rid)" for sid rid
    using tan_okD(2) [OF ok, of sid rid] same ie_ok_extends [OF ext]
    by (auto simp: node_ok_def same_nodes_def Let_def)
  with assms show "tan_ok d'" by (auto simp: tan_ok_def same_nodes_def Let_def)
  have "tan_log d' sid rid i = Some e \<longleftrightarrow> tan_log d sid rid i = Some e" for e
    unfolding tan_log_Some [OF n] tan_log_Some [OF tan_okD(2) [OF ok]]
    using same tan_okD(2) [OF ok, of sid rid] ie_entry_extends [OF ext]
    by (auto simp: same_nodes_def Let_def node_ok_def)
  then show "tan_log d' sid rid i = tan_log d sid rid i" by (metis option.exhaust)
qed

lemma node_index_saveIndex:
  "node_index (td_ns (saveIndex d)) sid rid = (node_index (td_ns d) sid rid)\<lparr>ni_currEntries := zero_index\<rparr>"
  by (auto simp: node_index_def saveIndex_def newNodeIndex_def split: option.splits)

lemma makeRoomForWrite_ok:
  assumes ok: "tan_ok d" and nw: "td_nextFileNum d \<noteq> 0"
  defines "d1 \<equiv> makeRoomForWrite d"
  shows "tan_ok d1" "tan_log d1 sid rid i = tan_log d sid rid i" "same_nodes d d1" "extends d d1"
    "ns_states (td_ns d1) = ns_states (td_ns d)" "td_size d1 = td_size d"
proof -
  have fs: "files_ok d" by (rule tan_okD(1) [OF ok])
  have nl: "\<not> mhas (td_files d) (td_nextFileNum d)" "td_logNum d < td_nextFileNum d"
    using fs nw by (auto simp: files_ok_def word_less_nat_alt word_le_nat_alt unat_Suc_u64
        add_eq_0_iff2 dest!: spec [of _ "td_nextFileNum d"])
  have "files_ok d1"
    using fs nl nw unfolding d1_def makeRoomForWrite_def switchToNewLog_def createNewLog_def Let_def
    by (auto simp: files_ok_def saveIndex_def mget_mput intro: less_imp_le order.trans split: if_splits)
  moreover show ext: "extends d d1"
    using nl(1) unfolding d1_def makeRoomForWrite_def switchToNewLog_def createNewLog_def Let_def
    by (auto simp: extends_def rec_at_def saveIndex_def mhas_def split: option.splits if_splits)
  moreover show same: "same_nodes d d1"
    using node_index_saveIndex [of d]
    unfolding d1_def makeRoomForWrite_def switchToNewLog_def createNewLog_def Let_def same_nodes_def by simp
  ultimately show "tan_ok d1" "tan_log d1 sid rid i = tan_log d sid rid i" using tan_ok_grow [OF ok] by auto
  show "ns_states (td_ns d1) = ns_states (td_ns d)" "td_size d1 = td_size d"
    unfolding d1_def makeRoomForWrite_def switchToNewLog_def createNewLog_def Let_def
    by (auto simp: saveIndex_def)
qed

section \<open>Writing a record\<close>

text \<open>The database after the record of \<open>u\<close> is in the file, and after the whole write.\<close>

definition with_record :: "tandb \<Rightarrow> Update \<Rightarrow> tandb" where
  "with_record d u =
     d\<lparr>td_files := mput (td_logNum d) (file_records d (td_logNum d) @ [(td_offset d, u)]) (td_files d),
       td_offset := writeRecord (td_offset d) (td_size d u)\<rparr>"

definition written :: "tandb \<Rightarrow> Update \<Rightarrow> tandb" where
  "written d u =
     (let idx = update_node_index (node_index (td_ns d) (ud_ShardID u) (ud_ReplicaID u)) u
                  (td_offset d) (td_logNum d)
      in (with_record d u)\<lparr>td_ns :=
           \<lparr>ns_indexes = mput (ni_shardID idx, ni_replicaID idx) idx (ns_indexes (td_ns d)),
            ns_states = mput (ud_ShardID u, ud_ReplicaID u) (ud_State u) (ns_states (td_ns d))\<rparr>\<rparr>)"

lemma doWriteLocked_written:
  assumes "\<not> (ud_ShardID u = 0 \<and> ud_ReplicaID u = 0)"
  shows "doWriteLocked d u = Inr (written (makeRoomForWrite d) u)"
proof -
  have "checkNodeInfo (ud_ShardID u) (ud_ReplicaID u) = Inr ()"
    using assms by (simp add: checkNodeInfo_def)
  then show ?thesis
    by (simp add: doWriteLocked_def updateIndex_def ns_getIndex_def ns_setState_def Let_def written_def
        with_record_def put_index_def)
qed

lemma with_record_ok:
  assumes fs: "files_ok d"
  shows "files_ok (with_record d u)" "extends d (with_record d u)"
    "rec_at (with_record d u) (td_logNum d) (td_offset d) = Some u"
proof -
  let ?rs = "file_records d (td_logNum d)"
  have rs: "sorted_wrt (<) (map fst ?rs)" "\<forall>p \<in> fst ` set ?rs. p < td_offset d"
    using fs by (cases "mget (td_files d) (td_logNum d)"; force simp: files_ok_def file_records_def)+
  then have "sorted_wrt (<) (map fst (?rs @ [(td_offset d, u)]))"
    by (auto simp: sorted_wrt_append)
  moreover have "\<forall>p \<in> fst ` set (?rs @ [(td_offset d, u)]). p < writeRecord (td_offset d) (td_size d u)"
    using rs(2) writeRecord_gt [of "td_offset d" "td_size d u"] by (auto intro: less_trans)
  ultimately show "files_ok (with_record d u)"
    using fs by (auto simp: files_ok_def with_record_def)
  have nn: "map_of ?rs (td_offset d) = None" using rs(2) by (auto simp: map_of_eq_None_iff)
  then show "rec_at (with_record d u) (td_logNum d) (td_offset d) = Some u"
    by (simp add: rec_at_def with_record_def map_add_def)
  show "extends d (with_record d u)"
    by (auto simp: extends_def rec_at_def with_record_def file_records_def map_add_def split: option.splits)
qed

lemma update_node_index_ids [simp]:
  "ni_shardID (update_node_index n u pos ln) = ni_shardID n"
  "ni_replicaID (update_node_index n u pos ln) = ni_replicaID n"
  by (auto simp: update_node_index_def Let_def split: option.splits)

lemma node_index_written:
  assumes "tan_ok d"
  shows "node_index (td_ns (written d u)) sid rid =
    (if sid = ud_ShardID u \<and> rid = ud_ReplicaID u
     then update_node_index (node_index (td_ns d) sid rid) u (td_offset d) (td_logNum d)
     else node_index (td_ns d) sid rid)"
  using tan_okD(3,4) [OF assms, of "ud_ShardID u" "ud_ReplicaID u"]
  by (auto simp: written_def Let_def node_index_def)

text \<open>The index entry of the entries of an update, and the index of entries after it.\<close>

definition entry_index :: "Update \<Rightarrow> nat \<Rightarrow> u64 \<Rightarrow> indexEntry" where
  "entry_index u pos ln =
     \<lparr>ix_start = e_Index (hd (ud_EntriesToSave u)), ix_end = e_Index (last (ud_EntriesToSave u)),
      ix_fileNum = ln, ix_pos = pos, ix_length = 0\<rparr>"

lemma update_node_index_entries:
  "ni_entries (update_node_index n u pos ln) =
    (case isCompactionUpdate u of
       Some c \<Rightarrow> setCompactedTo (ni_entries n) c
     | None \<Rightarrow> if ud_EntriesToSave u = [] then ni_entries n
               else index_update (ni_entries n) (entry_index u pos ln))"
  by (auto simp: update_node_index_def Let_def entry_index_def zero_indexEntry_def split: option.splits)

definition upd_ok :: "Update \<Rightarrow> bool" where
  "upd_ok u \<longleftrightarrow> ud_EntriesToSave u \<noteq> [] \<longrightarrow>
     (let f = unat (e_Index (hd (ud_EntriesToSave u))) in
      0 < f \<and> contig f (ud_EntriesToSave u) \<and> f + length (ud_EntriesToSave u) < u64_limit - 2)"

lemma record_position:
  assumes "files_ok d" "ie_ok d a" "ix_fileNum a = td_logNum d"
  shows "ix_pos a + ix_length a < td_offset d"
proof -
  obtain rs u where "mget (td_files d) (td_logNum d) = Some rs" "map_of rs (ix_pos a) = Some u"
    using assms(2,3) by (auto simp: ie_ok_def rec_at_def split: option.splits)
  then have "ix_pos a \<in> fst ` set rs" by (auto dest: map_of_SomeD intro: rev_image_eqI)
  with assms \<open>mget (td_files d) (td_logNum d) = Some rs\<close> show ?thesis
    by (auto simp: files_ok_def ie_ok_def)
qed

lemma record_file: "files_ok d \<Longrightarrow> ie_ok d a \<Longrightarrow> ix_fileNum a \<le> td_logNum d"
  by (auto simp: ie_ok_def rec_at_def files_ok_def mhas_def split: option.splits)

lemma entry_index_ok:
  assumes fs: "files_ok d" and u: "upd_ok u" "ud_EntriesToSave u \<noteq> []"
    and e: "e = entry_index u (td_offset d) (td_logNum d)"
  shows "ie_ok (with_record d u) e" "unat (ix_start e) \<le> unat (ix_end e)" "Suc (unat (ix_end e)) < u64_limit"
    "ix_start e \<noteq> 0"
    "unat (ix_end e) = unat (ix_start e) + length (ud_EntriesToSave u) - 1"
proof -
  let ?es = "ud_EntriesToSave u" let ?f = "unat (e_Index (hd ?es))"
  have c: "0 < ?f" "contig ?f ?es" "?f + length ?es < u64_limit - 2" using u by (auto simp: upd_ok_def Let_def)
  have l: "unat (e_Index (last ?es)) = ?f + length ?es - 1" using contig_last [OF c(2) u(2)] .
  have len: "0 < length ?es" using u(2) by simp
  have b: "unat (e_Index (last ?es)) < ?f + length ?es" "?f \<le> unat (e_Index (last ?es))"
    "Suc (unat (e_Index (last ?es))) < u64_limit"
    using l len c(3) by linarith+
  have nz: "e_Index (hd ?es) \<noteq> 0" using c(1) by auto
  show "ie_ok (with_record d u) e"
    using b with_record_ok(3) [OF fs, of u] fs c(2,3)
    by (simp add: ie_ok_def e entry_index_def files_ok_def word_le_nat_alt)
  show "unat (ix_start e) \<le> unat (ix_end e)" "Suc (unat (ix_end e)) < u64_limit"
    "unat (ix_end e) = unat (ix_start e) + length ?es - 1" "ix_start e \<noteq> 0"
    using b l nz unfolding e entry_index_def by simp_all
qed

lemma entries_after_write:
  assumes fs: "files_ok d" and n: "node_ok d n" and u: "upd_ok u" "ud_EntriesToSave u \<noteq> []"
    and e: "e = entry_index u (td_offset d) (td_logNum d)"
  defines "n' \<equiv> n\<lparr>ni_entries := index_update (ni_entries n) e\<rparr>"
  shows "node_ok (with_record d u) n'"
    "ix_entries (ni_entries n') = ix_trunc (ix_start e) (ix_entries (ni_entries n)) @ [e]"
    "ix_compactedTo (ni_entries n') = ix_compactedTo (ni_entries n)"
proof -
  let ?es = "ix_entries (ni_entries n)"
  have srt: "ix_sorted ?es" and oks: "\<forall>a \<in> set ?es. ie_ok d a" and fn: "sorted (map ix_fileNum ?es)"
    using n by (auto simp: node_ok_def)
  note eo = entry_index_ok [OF fs u e]
  have "\<forall>a \<in> set ?es. \<not> (ix_fileNum a = ix_fileNum e \<and> ix_pos a + ix_length a = ix_pos e)"
    using oks record_position [OF fs] by (fastforce simp: e entry_index_def)
  from index_update_entries [OF srt this]
  show es': "ix_entries (ni_entries n') = ix_trunc (ix_start e) ?es @ [e]"
    and "ix_compactedTo (ni_entries n') = ix_compactedTo (ni_entries n)" by (simp_all add: n'_def)
  note t = ix_trunc_sorted [OF srt eo(4)]
  have "ix_sorted (ix_trunc (ix_start e) ?es @ [e])"
    using t eo(2,3) unfolding ix_sorted_append by (auto simp: ix_sorted_def)
  moreover have "ie_ok (with_record d u) a" if a: "a \<in> set (ix_trunc (ix_start e) ?es)" for a
  proof -
    obtain b where b: "b \<in> set ?es" "ix_start b < ix_start e"
      "a = b \<or> ix_start e \<le> ix_end b \<and> a = b\<lparr>ix_end := ix_start e - 1\<rparr>"
      by (rule ix_trunc_mem [OF a])
    have bo: "ie_ok (with_record d u) b"
      using oks b(1) ie_ok_extends [OF with_record_ok(2) [OF fs]] by blast
    have "unat (ix_start e - 1) = unat (ix_start e) - 1" using eo(4) by (rule unat_pred_u64)
    with bo b(2,3) show ?thesis
      by (auto simp: ie_ok_def word_le_nat_alt word_less_nat_alt split: option.splits)
  qed
  moreover have "sorted (map ix_fileNum (ix_trunc (ix_start e) ?es @ [e]))"
    using fn oks record_file [OF fs] unfolding map_append map_fileNum_trunc
    by (auto simp: sorted_append sorted_filter e entry_index_def)
  ultimately show "node_ok (with_record d u) n'" using eo(1) unfolding node_ok_def es' by auto
qed

definition log_write :: "nat \<Rightarrow> (nat \<Rightarrow> Entry option) \<Rightarrow> Entry list \<Rightarrow> nat \<Rightarrow> Entry option" where
  "log_write c lg ents i =
     (if i \<le> c then None else if ents = [] then lg i
      else let f = unat (e_Index (hd ents))
           in if i < f then lg i else if i < f + length ents then Some (ents ! (i - f)) else None)"

end
