(* ===== verification/TanLog.thy ===== *)
theory TanLog
  imports TanWrite
begin

text \<open>
  The log database refines an abstract log per replica: a write truncates the log at its first entry
  and appends (\<open>log_write\<close>), a removal hides a prefix, and reading through \<open>IterateEntries\<close> returns
  exactly the abstract log. Removal also deletes log files; the theorem about it shows that no entry
  above the removed prefix is lost, of this replica or of any other one in the same database.
\<close>

section \<open>Writes\<close>

lemma rec_at_files: "td_files d' = td_files d \<Longrightarrow> rec_at d' = rec_at d"
  by (simp add: rec_at_def fun_eq_iff)

lemma ie_ok_files:
  assumes "td_files d' = td_files d"
  shows "ie_ok d' = ie_ok d"
  by (simp add: ie_ok_def fun_eq_iff rec_at_files [OF assms])

lemma node_ok_cong:
  assumes "td_files d' = td_files d" and "ni_entries n' = ni_entries n"
  shows "node_ok d' n' = node_ok d n"
  by (simp add: node_ok_def ie_ok_files [OF assms(1)] assms(2))

lemma node_ok_extends: "extends d d' \<Longrightarrow> node_ok d n \<Longrightarrow> node_ok d' n"
  by (auto simp: node_ok_def intro: ie_ok_extends)

lemma written_files [simp]:
  "td_files (written d u) = td_files (with_record d u)"
  "td_logNum (written d u) = td_logNum (with_record d u)"
  "td_nextFileNum (written d u) = td_nextFileNum (with_record d u)"
  "td_offset (written d u) = td_offset (with_record d u)"
  by (simp_all add: written_def Let_def)

lemma files_ok_written: "files_ok (written d u) = files_ok (with_record d u)"
  by (simp add: files_ok_def)

text \<open>The index of a node after writing an update that is not a compaction record.\<close>

lemma node_written:
  assumes ok: "tan_ok d" and u: "upd_ok u" "isCompactionUpdate u = None"
  shows "node_ok (written d u) (node_index (td_ns (written d u)) sid rid)"
proof -
  let ?n = "node_index (td_ns d) sid rid"
  have n: "node_ok d ?n" and fs: "files_ok d" using tan_okD [OF ok] by auto
  have keep: "node_ok (with_record d u) ?n" by (rule node_ok_extends [OF with_record_ok(2) [OF fs] n])
  show ?thesis
  proof (cases "sid = ud_ShardID u \<and> rid = ud_ReplicaID u")
    case True
    let ?n' = "update_node_index ?n u (td_offset d) (td_logNum d)"
    have "node_ok (with_record d u) ?n'"
    proof (cases "ud_EntriesToSave u = []")
      case True
      then have "ni_entries ?n' = ni_entries ?n" by (simp add: update_node_index_entries u(2))
      with keep show ?thesis using node_ok_cong [of "with_record d u" "with_record d u" ?n' ?n] by simp
    next
      case False
      from entries_after_write(1) [OF fs n u(1) this refl] show ?thesis
        using False by (simp add: node_ok_def update_node_index_entries u(2))
    qed
    then show ?thesis
      using True node_ok_cong [of "written d u" "with_record d u"] by (simp add: node_index_written [OF ok])
  next
    case False
    then show ?thesis
      using keep node_ok_cong [of "written d u" "with_record d u"] by (auto simp: node_index_written [OF ok])
  qed
qed

lemma tan_ok_written:
  assumes ok: "tan_ok d" and u: "upd_ok u" "isCompactionUpdate u = None"
    and nz: "\<not> (ud_ShardID u = 0 \<and> ud_ReplicaID u = 0)"
  shows "tan_ok (written d u)"
  using node_written [OF ok u] with_record_ok(1) [OF tan_okD(1) [OF ok]] tan_okD(3-5) [OF ok] nz
  unfolding tan_ok_def by (auto simp: files_ok_written node_index_written [OF ok])

lemma ie_entry_end [simp]: "ie_entry d (b\<lparr>ix_end := v\<rparr>) i = ie_entry d b i"
  by (simp add: ie_entry_def cong: option.case_cong)

lemma trunc_lookup:
  assumes "\<forall>a \<in> set es. ie_ok d a" "s \<noteq> 0" "i < unat s"
  shows "(\<exists>a \<in> set (ix_trunc s es). unat (ix_start a) \<le> i \<and> i \<le> unat (ix_end a) \<and> x = ie_entry d a i) \<longleftrightarrow>
    (\<exists>a \<in> set es. unat (ix_start a) \<le> i \<and> i \<le> unat (ix_end a) \<and> x = ie_entry d a i)"
  (is "?l \<longleftrightarrow> ?r")
proof
  have p: "unat (s - 1) = unat s - 1" using assms(2) by (rule unat_pred_u64)
  {
    assume ?l
    then obtain a where a: "a \<in> set (ix_trunc s es)" "unat (ix_start a) \<le> i" "i \<le> unat (ix_end a)"
      "x = ie_entry d a i" by blast
    from a(1) obtain b where b: "b \<in> set es" "a = b \<or> s \<le> ix_end b \<and> a = b\<lparr>ix_end := s - 1\<rparr>"
      by (rule ix_trunc_mem)
    with a p assms(3) show ?r
      by (intro bexI [of _ b]) (auto simp: word_le_nat_alt)
  next
    assume ?r
    then obtain b where b: "b \<in> set es" "unat (ix_start b) \<le> i" "i \<le> unat (ix_end b)" "x = ie_entry d b i"
      by blast
    let ?a = "if s \<le> ix_end b then b\<lparr>ix_end := s - 1\<rparr> else b"
    have "?a \<in> set (ix_trunc s es)"
      using b(1,2) assms(3) by (auto simp: ix_trunc_def word_less_nat_alt)
    with b p assms(3) show ?l
      by (intro bexI [of _ ?a]) auto
  }
qed

lemma tan_log_written:
  assumes ok: "tan_ok d" and u: "upd_ok u" "isCompactionUpdate u = None"
  shows "tan_log (written d u) sid rid i =
    (if sid = ud_ShardID u \<and> rid = ud_ReplicaID u
     then log_write (unat (ix_compactedTo (ni_entries (node_index (td_ns d) sid rid))))
            (tan_log d sid rid) (ud_EntriesToSave u) i
     else tan_log d sid rid i)"
proof -
  let ?n = "node_index (td_ns d) sid rid" and ?d' = "written d u"
  let ?n' = "node_index (td_ns ?d') sid rid"
  have n: "node_ok d ?n" and fs: "files_ok d" using tan_okD [OF ok] by auto
  have n': "node_ok ?d' ?n'" by (rule node_written [OF ok u])
  have ext: "extends d ?d'"
    using with_record_ok(2) [OF fs, of u] by (simp add: extends_def rec_at_files [of ?d' "with_record d u"])
  have oks: "\<forall>a \<in> set (ix_entries (ni_entries ?n)). ie_ok d a" using n by (simp add: node_ok_def)
  have ent: "ie_entry ?d' a j = ie_entry d a j" if "a \<in> set (ix_entries (ni_entries ?n))" for a j
    using ie_entry_extends [OF ext] oks that by blast
  show ?thesis
  proof (cases "sid = ud_ShardID u \<and> rid = ud_ReplicaID u \<and> ud_EntriesToSave u \<noteq> []")
    case False
    then have "ni_entries ?n' = ni_entries ?n"
      by (auto simp: node_index_written [OF ok] update_node_index_entries u(2))
    then have "tan_log ?d' sid rid i = Some e \<longleftrightarrow> tan_log d sid rid i = Some e" for e
      unfolding tan_log_Some [OF n] tan_log_Some [OF n'] using ent by auto
    then have eq: "tan_log ?d' sid rid i = tan_log d sid rid i" by (metis option.exhaust)
    have "tan_log d sid rid i = None" if "i \<le> unat (ix_compactedTo (ni_entries ?n))"
      using that by (simp add: tan_log_def Let_def)
    with eq False show ?thesis by (auto simp: log_write_def)
  next
    case True
    let ?es = "ud_EntriesToSave u" and ?f = "unat (e_Index (hd (ud_EntriesToSave u)))"
    let ?e = "entry_index u (td_offset d) (td_logNum d)"
    have ne: "?es \<noteq> []" using True by simp
    note eo = entry_index_ok [OF fs u(1) ne refl]
    have st: "ix_start ?e = e_Index (hd ?es)" by (simp add: entry_index_def)
    have nu: "?n' = update_node_index ?n u (td_offset d) (td_logNum d)"
      using True by (simp add: node_index_written [OF ok])
    note ea = entries_after_write [OF fs n u(1) ne refl]
    have es': "ix_entries (ni_entries ?n') = ix_trunc (ix_start ?e) (ix_entries (ni_entries ?n)) @ [?e]"
      "ix_compactedTo (ni_entries ?n') = ix_compactedTo (ni_entries ?n)"
      using ea(2,3) ne by (simp_all add: nu update_node_index_entries u(2))
    have rec: "ie_entry ?d' ?e j = ?es ! (j - ?f)" for j
      using with_record_ok(3) [OF fs, of u]
      by (simp add: ie_entry_def entry_index_def rec_at_files [of ?d' "with_record d u"])
    have tr: "\<forall>a \<in> set (ix_trunc (ix_start ?e) (ix_entries (ni_entries ?n))). unat (ix_end a) < ?f"
      using ix_trunc_sorted(2) [OF conjunct1 [OF n [unfolded node_ok_def]] eo(4)] unfolding st .
    have oks': "\<forall>a \<in> set (ix_entries (ni_entries ?n)). ie_ok ?d' a" using oks ie_ok_extends [OF ext] by blast
    have "tan_log ?d' sid rid i = Some x \<longleftrightarrow>
        log_write (unat (ix_compactedTo (ni_entries ?n))) (tan_log d sid rid) ?es i = Some x" for x
    proof (cases "i < ?f")
      case lt: True
      have "(\<exists>a \<in> set (ix_entries (ni_entries ?n')). unat (ix_start a) \<le> i \<and> i \<le> unat (ix_end a) \<and> x = ie_entry ?d' a i) \<longleftrightarrow>
          (\<exists>a \<in> set (ix_entries (ni_entries ?n)). unat (ix_start a) \<le> i \<and> i \<le> unat (ix_end a) \<and> x = ie_entry d a i)"
        using trunc_lookup [OF oks' eo(4), of i x] lt ent unfolding es'(1) by (auto simp: st)
      then show ?thesis
        unfolding tan_log_Some [OF n'] es'(2) using lt ne
        by (auto simp: log_write_def Let_def tan_log_Some [OF n])
    next
      case ge: False
      have "(\<exists>a \<in> set (ix_entries (ni_entries ?n')). unat (ix_start a) \<le> i \<and> i \<le> unat (ix_end a) \<and> x = ie_entry ?d' a i) \<longleftrightarrow>
          ?f \<le> i \<and> i \<le> unat (ix_end ?e) \<and> x = ie_entry ?d' ?e i"
        using tr ge unfolding es'(1) st by (auto simp: st)
      moreover have "i \<le> unat (ix_end ?e) \<longleftrightarrow> i < ?f + length ?es"
        using ne unfolding eo(5) st by (cases ?es) auto
      ultimately have "(\<exists>a \<in> set (ix_entries (ni_entries ?n')). unat (ix_start a) \<le> i \<and> i \<le> unat (ix_end a) \<and> x = ie_entry ?d' a i) \<longleftrightarrow>
          i < ?f + length ?es \<and> x = ?es ! (i - ?f)"
        using ge by (simp add: rec)
      then show ?thesis
        unfolding tan_log_Some [OF n'] es'(2) using ge ne by (auto simp: log_write_def Let_def)
    qed
    then have "tan_log ?d' sid rid i = log_write (unat (ix_compactedTo (ni_entries ?n))) (tan_log d sid rid) ?es i"
      by (metis option.exhaust)
    with True show ?thesis by simp
  qed
qed


lemma written_state: "mget (ns_states (td_ns (written d u))) (ud_ShardID u, ud_ReplicaID u) = Some (ud_State u)"
  by (simp add: written_def Let_def)

lemma doWriteLocked_log:
  assumes ok: "tan_ok d" and nw: "td_nextFileNum d \<noteq> 0" and u: "upd_ok u" "isCompactionUpdate u = None"
    and nz: "\<not> (ud_ShardID u = 0 \<and> ud_ReplicaID u = 0)"
  defines "d' \<equiv> written (makeRoomForWrite d) u"
  shows "tan_ok d'"
    "tan_log d' sid rid i =
      (if sid = ud_ShardID u \<and> rid = ud_ReplicaID u
       then log_write (unat (ix_compactedTo (ni_entries (node_index (td_ns d) sid rid))))
              (tan_log d sid rid) (ud_EntriesToSave u) i
       else tan_log d sid rid i)"
proof -
  note m = makeRoomForWrite_ok [OF ok nw]
  show "tan_ok d'" unfolding d'_def by (rule tan_ok_written [OF m(1) u nz])
  have c: "ni_entries (node_index (td_ns (makeRoomForWrite d)) sid rid) = ni_entries (node_index (td_ns d) sid rid)"
    using m(3) by (simp add: same_nodes_def Let_def)
  have lg: "tan_log (makeRoomForWrite d) sid rid = tan_log d sid rid" using m(2) by blast
  show "tan_log d' sid rid i =
      (if sid = ud_ShardID u \<and> rid = ud_ReplicaID u
       then log_write (unat (ix_compactedTo (ni_entries (node_index (td_ns d) sid rid))))
              (tan_log d sid rid) (ud_EntriesToSave u) i
       else tan_log d sid rid i)"
    unfolding d'_def tan_log_written [OF m(1) u] c lg ..
qed

lemma log_write_empty:
  assumes "tan_ok d"
  shows "log_write (unat (ix_compactedTo (ni_entries (node_index (td_ns d) sid rid)))) (tan_log d sid rid) [] i =
    tan_log d sid rid i"
  by (simp add: log_write_def tan_log_def Let_def)


section \<open>Removals\<close>

lemma compaction_loop_spec:
  assumes "ix_sorted (prev # es)" "sorted (map ix_fileNum (prev # es))"
    "\<forall>a \<in> set (prev # es). \<not> isSnapshot a \<and> \<not> isState a"
  shows "\<exists>m. compaction_loop c prev es (ix_fileNum prev) m0 = Inr m \<and>
    (m = m0 \<or> (\<exists>p \<in> set (prev # es). m = ix_fileNum p \<and> ix_end p \<le> c \<and>
       (\<forall>a \<in> set (prev # es). ix_fileNum a \<le> m \<longrightarrow> ix_end a \<le> ix_end p)))"
  using assms
proof (induction es arbitrary: prev m0)
  case (Cons ie es)
  have srt: "ix_sorted (ie # es)" "sorted (map ix_fileNum (ie # es))" "\<forall>a \<in> set (ie # es). \<not> isSnapshot a \<and> \<not> isState a"
    using Cons.prems by (auto simp: ix_sorted_def)
  have le: "ix_fileNum prev \<le> ix_fileNum a" "ix_end prev \<le> ix_end a" if "a \<in> set (ie # es)" for a
  proof -
    show "ix_fileNum prev \<le> ix_fileNum a" using Cons.prems(2) that by auto
    have "unat (ix_end prev) < unat (ix_start a)" "unat (ix_start a) \<le> unat (ix_end a)"
      using Cons.prems(1) that by (auto simp: ix_sorted_def)
    then show "ix_end prev \<le> ix_end a" by (simp add: word_le_nat_alt)
  qed
  note IH = Cons.IH [OF srt]
  have lift: "\<exists>p \<in> set (prev # ie # es). m = ix_fileNum p \<and> ix_end p \<le> c \<and>
       (\<forall>a \<in> set (prev # ie # es). ix_fileNum a \<le> m \<longrightarrow> ix_end a \<le> ix_end p)"
    if ex: "\<exists>p \<in> set (ie # es). m = ix_fileNum p \<and> ix_end p \<le> c \<and>
       (\<forall>a \<in> set (ie # es). ix_fileNum a \<le> m \<longrightarrow> ix_end a \<le> ix_end p)" for m
  proof -
    obtain p where p: "p \<in> set (ie # es)" "m = ix_fileNum p" "ix_end p \<le> c"
      "\<forall>a \<in> set (ie # es). ix_fileNum a \<le> m \<longrightarrow> ix_end a \<le> ix_end p" using ex by blast
    then have "\<forall>a \<in> set (prev # ie # es). ix_fileNum a \<le> m \<longrightarrow> ix_end a \<le> ix_end p"
      using le(2) [OF p(1)] by (auto simp del: list.set_intros)
    with p show ?thesis by auto
  qed
  show ?case
  proof (cases "ix_fileNum ie = ix_fileNum prev")
    case True
    then have "compaction_loop c prev (ie # es) (ix_fileNum prev) m0 = compaction_loop c ie es (ix_fileNum ie) m0"
      by simp
    with IH [of m0] lift show ?thesis by metis
  next
    case False
    let ?m1 = "if ix_end prev \<le> c then ix_fileNum prev else m0"
    have gt: "\<not> ix_fileNum a \<le> ix_fileNum prev" if "a \<in> set (ie # es)" for a
      using srt(2) le(1) [of ie] False that by (auto dest: order.trans)
    obtain m where m: "compaction_loop c ie es (ix_fileNum ie) ?m1 = Inr m"
      "m = ?m1 \<or> (\<exists>p \<in> set (ie # es). m = ix_fileNum p \<and> ix_end p \<le> c \<and>
         (\<forall>a \<in> set (ie # es). ix_fileNum a \<le> m \<longrightarrow> ix_end a \<le> ix_end p))" using IH [of ?m1] by blast
    have "compaction_loop c prev (ie # es) (ix_fileNum prev) m0 = Inr m"
      using m(1) False Cons.prems(3) by auto
    moreover have "\<exists>p \<in> set (prev # ie # es). ix_fileNum prev = ix_fileNum p \<and> ix_end p \<le> c \<and>
       (\<forall>a \<in> set (prev # ie # es). ix_fileNum a \<le> ix_fileNum prev \<longrightarrow> ix_end a \<le> ix_end p)" if "ix_end prev \<le> c"
      using gt that by (intro bexI [of _ prev]) auto
    ultimately show ?thesis using m(2) lift [of m] by (metis (no_types, lifting))
  qed
qed simp

lemma entryCompaction_spec:
  assumes "ix_sorted (ix_entries i)" "sorted (map ix_fileNum (ix_entries i))"
    "\<forall>a \<in> set (ix_entries i). \<not> isSnapshot a \<and> \<not> isState a \<and> ix_fileNum a \<noteq> 0"
  shows "\<exists>m. entryCompaction i = Inr m \<and>
    (\<forall>a \<in> set (ix_entries i). ix_fileNum a \<le> m \<longrightarrow> ix_end a \<le> ix_compactedTo i)"
proof (cases "ix_entries i")
  case (Cons e es)
  have a: "ix_sorted (e # es)" "sorted (map ix_fileNum (e # es))" "\<forall>a \<in> set (e # es). \<not> isSnapshot a \<and> \<not> isState a"
    using assms unfolding Cons by blast+
  obtain m where m: "compaction_loop (ix_compactedTo i) e es (ix_fileNum e) (- 1) = Inr m"
    "m = - 1 \<or> (\<exists>p \<in> set (e # es). m = ix_fileNum p \<and> ix_end p \<le> ix_compactedTo i \<and>
       (\<forall>a \<in> set (e # es). ix_fileNum a \<le> m \<longrightarrow> ix_end a \<le> ix_end p))"
    using compaction_loop_spec [OF a, of "ix_compactedTo i" "- 1"] by (elim exE conjE) (rule that)
  have le: "ix_end a \<le> ix_compactedTo i" if "m \<noteq> - 1" "a \<in> set (e # es)" "ix_fileNum a \<le> m" for a
    using m(2) that by (meson order.trans)
  have "\<not> ix_fileNum a \<le> ix_fileNum e - 1" if "a \<in> set (e # es)" for a
  proof -
    have "unat (ix_fileNum e) \<le> unat (ix_fileNum a)" "ix_fileNum e \<noteq> 0" "0 < unat (ix_fileNum e)"
      using assms(2,3) that unfolding Cons by (auto simp: word_le_nat_alt unat_gt_0)
    then show ?thesis by (simp add: word_le_nat_alt unat_pred_u64)
  qed
  with m(1) le show ?thesis by (cases "m = - 1") (auto simp: entryCompaction_def Cons)
qed (simp add: entryCompaction_def)

lemma obsolete_loop_spec:
  assumes "sorted (map ix_fileNum es)"
  shows "snd (obsolete_loop m j es obsolete fn idx) =
    (let k = length (takeWhile (\<lambda>a. ix_fileNum a \<le> m) es) in if k = 0 then idx else j + k - 1)"
    "takeWhile (\<lambda>a. ix_fileNum a \<le> m) es = [] \<Longrightarrow> fst (obsolete_loop m j es obsolete fn idx) = obsolete"
proof -
  have none: "obsolete_loop m j es obsolete fn idx = (obsolete, idx)" if "\<forall>a \<in> set es. \<not> ix_fileNum a \<le> m" for j es obsolete fn idx
    using that by (induction es arbitrary: j) auto
  have hd: "\<forall>a \<in> set es. \<not> ix_fileNum a \<le> m" if "takeWhile (\<lambda>a. ix_fileNum a \<le> m) es = []" "sorted (map ix_fileNum es)" for es
    using that by (cases es) (auto dest: order.trans split: if_splits)
  show "snd (obsolete_loop m j es obsolete fn idx) =
    (let k = length (takeWhile (\<lambda>a. ix_fileNum a \<le> m) es) in if k = 0 then idx else j + k - 1)"
    using assms
  proof (induction es arbitrary: j obsolete fn idx)
    case (Cons e es)
    show ?case
    proof (cases "ix_fileNum e \<le> m")
      case True
      with Cons show ?thesis by (auto simp: Let_def)
    next
      case False
      then have "\<forall>a \<in> set (e # es). \<not> ix_fileNum a \<le> m" using Cons.prems by (intro hd) auto
      from none [OF this] False show ?thesis by simp
    qed
  qed simp
  show "takeWhile (\<lambda>a. ix_fileNum a \<le> m) es = [] \<Longrightarrow> fst (obsolete_loop m j es obsolete fn idx) = obsolete"
    using none [OF hd [OF _ assms]] by simp
qed

lemma removeObsolete_entries:
  assumes "sorted (map ix_fileNum (ix_entries i))"
  shows "\<exists>obsolete es. removeObsolete i m = (obsolete, i\<lparr>ix_entries := es\<rparr>) \<and>
    (es = ix_entries i \<or> es = dropWhile (\<lambda>a. ix_fileNum a \<le> m) (ix_entries i))"
proof -
  let ?es = "ix_entries i" let ?r = "obsolete_loop m 0 ?es [] 0 0"
  let ?k = "length (takeWhile (\<lambda>a. ix_fileNum a \<le> m) ?es)"
  note o' = obsolete_loop_spec [OF assms, of m 0 "[]" 0 0]
  show ?thesis
  proof (cases "fst ?r = []")
    case True
    then have "removeObsolete i m = ([], i\<lparr>ix_entries := ?es\<rparr>)" by (simp add: removeObsolete_def case_prod_unfold)
    then show ?thesis by blast
  next
    case False
    then have "?k \<noteq> 0" using o'(2) by auto
    then have "snd ?r + 1 = ?k" using o'(1) by (simp add: Let_def)
    with False have "removeObsolete i m = (fst ?r, i\<lparr>ix_entries := dropWhile (\<lambda>a. ix_fileNum a \<le> m) ?es\<rparr>)"
      by (simp add: removeObsolete_def dropWhile_eq_drop case_prod_unfold)
    then show ?thesis by blast
  qed
qed

lemma fileInUse_loop_sorted:
  assumes "sorted (map ix_fileNum es)"
  shows "fileInUse_loop fn es \<longleftrightarrow> fn \<in> ix_fileNum ` set es"
  using assms by (induction es) (auto dest: order.strict_trans2)

lemma mget_foldr_mdel: "mget (foldr mdel ks m) k = (if k \<in> set ks then None else mget m k)"
  by (induction ks) auto

lemma node_in_indexes:
  "ix_entries (ni_entries (node_index s sid rid)) = [] \<or> node_index s sid rid \<in> set (map snd (ns_indexes s))"
  by (auto simp: node_index_def newNodeIndex_def zero_index_def
      intro: rev_image_eqI split: option.splits dest: map_of_SomeD)

lemma ie_ok_not_flag: "ie_ok d a \<Longrightarrow> \<not> isSnapshot a \<and> \<not> isState a \<and> ix_fileNum a \<noteq> 0"
proof -
  assume a: "ie_ok d a"
  have m1: "unat (- 1 :: u64) = u64_limit - 1" by (simp add: unsigned_minus_1_eq_mask mask_eq_exp_minus_1)
  have "unat ((- 1 :: u64) - 1) = unat (- 1 :: u64) - 1" by (rule unat_pred_u64) simp
  then have "unat (- 2 :: u64) = u64_limit - 2" by (simp add: m1)
  with m1 have "unat (- 1 :: u64) = u64_limit - 1" "unat (- 2 :: u64) = u64_limit - 2" by simp_all
  moreover have "unat (ix_end a) < u64_limit - 2" "ix_fileNum a \<noteq> 0"
    using a by (auto simp: ie_ok_def split: option.splits)
  ultimately show ?thesis
    by (auto simp: isSnapshot_def isState_def snapshotFlag_def stateFlag_def)
qed

lemma ni_compaction_entries:
  assumes n: "node_ok d n"
  shows "\<exists>obsolete es. ni_compaction n = Inr (obsolete, n\<lparr>ni_entries := (ni_entries n)\<lparr>ix_entries := es\<rparr>\<rparr>) \<and>
    (\<exists>pre. ix_entries (ni_entries n) = pre @ es \<and> (\<forall>a \<in> set pre. ix_end a \<le> ix_compactedTo (ni_entries n)))"
proof -
  let ?i = "ni_entries n"
  have a: "ix_sorted (ix_entries ?i)" "sorted (map ix_fileNum (ix_entries ?i))"
    "\<forall>a \<in> set (ix_entries ?i). \<not> isSnapshot a \<and> \<not> isState a \<and> ix_fileNum a \<noteq> 0"
    using n ie_ok_not_flag unfolding node_ok_def by blast+
  obtain e where e: "entryCompaction ?i = Inr e"
    "\<forall>a \<in> set (ix_entries ?i). ix_fileNum a \<le> e \<longrightarrow> ix_end a \<le> ix_compactedTo ?i"
    using entryCompaction_spec [OF a] by blast
  define m where "m = min (stateCompaction n) (min e (snapshotCompaction n))"
  show ?thesis
  proof (cases "m = - 1 \<or> m = 0")
    case True
    then have "ni_compaction n = Inr ([], n\<lparr>ni_entries := ?i\<lparr>ix_entries := ix_entries ?i\<rparr>\<rparr>)"
      by (simp add: ni_compaction_def e(1) Let_def flip: m_def)
    then show ?thesis by (metis append_Nil empty_iff list.set(1))
  next
    case False
    obtain obsolete es where r: "removeObsolete ?i m = (obsolete, ?i\<lparr>ix_entries := es\<rparr>)"
      "es = ix_entries ?i \<or> es = dropWhile (\<lambda>a. ix_fileNum a \<le> m) (ix_entries ?i)"
      using removeObsolete_entries [OF a(2), of m] by blast
    have le: "ix_end a \<le> ix_compactedTo ?i" if "a \<in> set (takeWhile (\<lambda>a. ix_fileNum a \<le> m) (ix_entries ?i))" for a
    proof -
      have "ix_fileNum a \<le> e" "a \<in> set (ix_entries ?i)"
        using set_takeWhileD [OF that] by (auto simp: m_def)
      with e(2) show ?thesis by blast
    qed
    have "\<exists>pre. ix_entries ?i = pre @ es \<and> (\<forall>a \<in> set pre. ix_end a \<le> ix_compactedTo ?i)"
      using r(2) le by (metis append_Nil empty_iff list.set(1) takeWhile_dropWhile_id)
    moreover have "ni_compaction n = Inr (obsolete, n\<lparr>ni_entries := ?i\<lparr>ix_entries := es\<rparr>\<rparr>)"
      using False by (simp add: ni_compaction_def e(1) Let_def r(1) flip: m_def)
    ultimately show ?thesis by blast
  qed
qed

text \<open>
  Compacting the index of one node: the entries it drops were already hidden, and the files deleted
  hold no entry that any node still refers to.
\<close>

definition compacts :: "tandb \<Rightarrow> nodeIndex \<Rightarrow> indexEntry list \<Rightarrow> u64 list \<Rightarrow> tandb" where
  "compacts d n es ks = (put_index d (n\<lparr>ni_entries := (ni_entries n)\<lparr>ix_entries := es\<rparr>\<rparr>))\<lparr>td_files := foldr mdel ks (td_files d)\<rparr>"

lemma node_index_put:
  "node_index (td_ns (put_index d n)) sid rid =
    (if sid = ni_shardID n \<and> rid = ni_replicaID n then n else node_index (td_ns d) sid rid)"
  by (auto simp: put_index_def node_index_def)

lemma node_ok_rec:
  assumes "node_ok d n"
    and "\<And>a. a \<in> set (ix_entries (ni_entries n)) \<Longrightarrow> rec_at d' (ix_fileNum a) = rec_at d (ix_fileNum a)"
  shows "node_ok d' n"
proof -
  have "ie_ok d' a" if "a \<in> set (ix_entries (ni_entries n))" for a
    using assms(1) assms(2) [OF that] that by (simp add: node_ok_def ie_ok_def)
  with assms(1) show ?thesis by (simp add: node_ok_def)
qed

lemma compactionLocked_ok:
  assumes ok: "tan_ok d" and nz: "\<not> (sid = 0 \<and> rid = 0)"
    and n: "ni_shardID n = sid" "ni_replicaID n = rid" "node_ok d n"
  shows "\<exists>d'. compactionLocked d n = Inr d' \<and> tan_ok d' \<and>
    (\<forall>s r i. tan_log d' s r i = tan_log (put_index d n) s r i)"
proof -
  obtain obs es pre where c: "ni_compaction n = Inr (obs, n\<lparr>ni_entries := (ni_entries n)\<lparr>ix_entries := es\<rparr>\<rparr>)"
    "ix_entries (ni_entries n) = pre @ es" "\<forall>a \<in> set pre. ix_end a \<le> ix_compactedTo (ni_entries n)"
    using ni_compaction_entries [OF n(3)] by blast
  let ?n = "n\<lparr>ni_entries := (ni_entries n)\<lparr>ix_entries := es\<rparr>\<rparr>"
  let ?p = "put_index d ?n"
  define ks where "ks = (if length obs > 0 then getObsolete (td_ns ?p) obs else [])"
  let ?d' = "compacts d n es ks"
  have d': "compactionLocked d n = Inr ?d'"
    by (simp add: compactionLocked_def c(1) compacts_def ks_def put_index_def Let_def)
  have files: "td_files ?p = td_files d" by (simp add: put_index_def)
  have ix: "node_index (td_ns ?d') s r = (if s = sid \<and> r = rid then ?n else node_index (td_ns d) s r)" for s r
    using node_index_put [of d ?n s r] n(1,2) by (simp add: compacts_def)
  have nsub: "node_ok d ?n"
    using n(3) unfolding node_ok_def c(2) by (auto simp: ix_sorted_append sorted_append)
  have n0: "node_ok d (node_index (td_ns ?d') s r)" for s r
    using nsub tan_okD(2) [OF ok] by (simp add: ix)
  have live: "ix_fileNum a \<notin> set ks" if "a \<in> set (ix_entries (ni_entries (node_index (td_ns ?d') s r)))" for a s r
  proof -
    have "fileInUse (node_index (td_ns ?d') s r) (ix_fileNum a)"
      using that n0 [of s r] by (auto simp: fileInUse_def fileInUse_loop_sorted node_ok_def)
    moreover have "node_index (td_ns ?p) s r \<in> set (map snd (ns_indexes (td_ns ?p)))"
      using node_in_indexes [of "td_ns ?p" s r] that by (auto simp: compacts_def)
    moreover have "td_ns ?d' = td_ns ?p" by (simp add: compacts_def)
    ultimately have "\<exists>k \<in> set (map snd (ns_indexes (td_ns ?p))). fileInUse k (ix_fileNum a)" by metis
    then show ?thesis unfolding ks_def getObsolete_def by (simp del: set_map)
  qed
  have rec: "rec_at ?d' (ix_fileNum a) = rec_at d (ix_fileNum a)" if "ix_fileNum a \<notin> set ks" for a
    using that by (simp add: rec_at_def compacts_def mget_foldr_mdel fun_eq_iff)
  have nok: "node_ok ?d' (node_index (td_ns ?d') s r)" for s r
    by (rule node_ok_rec [OF n0]) (rule rec [OF live])
  have "files_ok ?d'"
    using tan_okD(1) [OF ok] by (auto simp: files_ok_def compacts_def put_index_def mget_foldr_mdel mhas_def)
  then have ok': "tan_ok ?d'"
    using nok ix n(1,2) tan_okD(3-5) [OF ok] nz by (auto simp: tan_ok_def)
  have pn: "node_index (td_ns (put_index d n)) s r = (if s = sid \<and> r = rid then n else node_index (td_ns d) s r)" for s r
    using n(1,2) by (simp add: node_index_put)
  have fp: "rec_at (put_index d n) = rec_at d" by (rule rec_at_files) (simp add: put_index_def)
  have pok: "node_ok (put_index d n) (node_index (td_ns (put_index d n)) s r)" for s r
    by (rule node_ok_rec [of d]) (use n(3) tan_okD(2) [OF ok] in \<open>simp_all add: pn fp\<close>)
  have "tan_log ?d' s r i = Some e \<longleftrightarrow> tan_log (put_index d n) s r i = Some e" for s r i e
  proof -
    have ent: "ie_entry ?d' a i = ie_entry d a i" if "a \<in> set (ix_entries (ni_entries (node_index (td_ns ?d') s r)))" for a
      using rec [OF live [OF that]] by (simp add: ie_entry_def)
    have ent2: "ie_entry (put_index d n) a i = ie_entry d a i" for a by (simp add: ie_entry_def fp)
    show ?thesis
      unfolding tan_log_Some [OF nok] tan_log_Some [OF pok] ent2
      using ent c(3) by (auto simp: ix pn c(2) word_le_nat_alt)
  qed
  then have "tan_log ?d' s r i = tan_log (put_index d n) s r i" for s r i by (metis option.exhaust)
  with d' ok' show ?thesis by blast
qed

lemma node_ok_entries:
  "ix_entries (ni_entries n') = ix_entries (ni_entries n) \<Longrightarrow> node_ok d n' = node_ok d n"
  by (simp add: node_ok_def)

lemma setCompactedTo_simps [simp]:
  "ix_entries (setCompactedTo x c) = ix_entries x"
  "unat (ix_compactedTo (setCompactedTo x c)) = max (unat (ix_compactedTo x)) (unat c)"
  by (auto simp: setCompactedTo_def word_less_nat_alt)

lemma isCompactionUpdate_get: "isCompactionUpdate (getCompactionUpdate sid rid idx) = Some idx"
  by (simp add: isCompactionUpdate_def getCompactionUpdate_def zero_Update_def zero_Snapshot_def
      IsEmptySnapshot_def zero_State_def)

lemma getCompactionUpdate_ids:
  "ud_ShardID (getCompactionUpdate sid rid idx) = sid" "ud_ReplicaID (getCompactionUpdate sid rid idx) = rid"
  by (simp_all add: getCompactionUpdate_def)

lemma written_compaction:
  fixes idx :: u64
  assumes ok: "tan_ok d" and nz: "\<not> (sid = 0 \<and> rid = 0)"
  defines "d' \<equiv> written d (getCompactionUpdate sid rid idx)"
  shows "tan_ok d'" "extends d d'"
    "ix_entries (ni_entries (node_index (td_ns d') s r)) = ix_entries (ni_entries (node_index (td_ns d) s r))"
    "unat (ix_compactedTo (ni_entries (node_index (td_ns d') s r))) =
      (if s = sid \<and> r = rid then max (unat (ix_compactedTo (ni_entries (node_index (td_ns d) s r)))) (unat idx)
       else unat (ix_compactedTo (ni_entries (node_index (td_ns d) s r))))"
proof -
  let ?u = "getCompactionUpdate sid rid idx"
  have fs: "files_ok d" by (rule tan_okD(1) [OF ok])
  show ext: "extends d d'"
    using with_record_ok(2) [OF fs, of ?u] unfolding d'_def
    by (simp add: extends_def rec_at_files [of "written d ?u" "with_record d ?u"])
  have ni: "node_index (td_ns d') s r =
      (if s = sid \<and> r = rid then update_node_index (node_index (td_ns d) s r) ?u (td_offset d) (td_logNum d)
       else node_index (td_ns d) s r)" for s r
    unfolding d'_def node_index_written [OF ok] by (simp add: getCompactionUpdate_ids)
  have es: "ix_entries (ni_entries (node_index (td_ns d') s r)) = ix_entries (ni_entries (node_index (td_ns d) s r))" for s r
    by (simp add: ni update_node_index_entries isCompactionUpdate_get)
  show "ix_entries (ni_entries (node_index (td_ns d') s r)) = ix_entries (ni_entries (node_index (td_ns d) s r))"
    by (rule es)
  show "unat (ix_compactedTo (ni_entries (node_index (td_ns d') s r))) =
      (if s = sid \<and> r = rid then max (unat (ix_compactedTo (ni_entries (node_index (td_ns d) s r)))) (unat idx)
       else unat (ix_compactedTo (ni_entries (node_index (td_ns d) s r))))"
    by (simp add: ni update_node_index_entries isCompactionUpdate_get)
  have nok: "node_ok d' (node_index (td_ns d') s r)" for s r
    using node_ok_extends [OF ext tan_okD(2) [OF ok, of s r]] node_ok_entries [OF es] by blast
  moreover have "files_ok d'" unfolding d'_def files_ok_written by (rule with_record_ok(1) [OF fs])
  ultimately show "tan_ok d'"
    using tan_okD(3-5) [OF ok] es [of 0 0] unfolding tan_ok_def by (auto simp: ni)
qed

text \<open>
  C11: Removing the entries of a replica up to an index never fails and hides exactly those entries: the
  log of the replica above the index and the log of every other replica read the same afterwards, although
  whole log files may have been deleted.
\<close>
theorem removeEntries_refines:
  assumes ok: "tan_ok d" and nw: "td_nextFileNum d \<noteq> 0" and nz: "\<not> (sid = 0 \<and> rid = 0)"
  shows "\<exists>d'. removeEntries d sid rid idx = Inr d' \<and> tan_ok d' \<and>
    (\<forall>s r i. tan_log d' s r i = (if s = sid \<and> r = rid \<and> i \<le> unat idx then None else tan_log d s r i))"
proof -
  let ?m = "makeRoomForWrite d" let ?u = "getCompactionUpdate sid rid idx"
  let ?w = "written ?m ?u"
  note m = makeRoomForWrite_ok [OF ok nw]
  note w = written_compaction [OF m(1) nz, of idx]
  let ?n0 = "node_index (td_ns ?w) sid rid"
  define n where "n = ?n0\<lparr>ni_currEntries := setCompactedTo (ni_currEntries ?n0) idx,
    ni_entries := setCompactedTo (ni_entries ?n0) idx\<rparr>"
  have ids: "ni_shardID n = sid" "ni_replicaID n = rid" using tan_okD(3,4) [OF w(1)] by (simp_all add: n_def)
  have ne: "ix_entries (ni_entries n) = ix_entries (ni_entries ?n0)"
    "unat (ix_compactedTo (ni_entries n)) = max (unat (ix_compactedTo (ni_entries ?n0))) (unat idx)"
    by (simp_all add: n_def)
  have nok: "node_ok ?w n"
    using tan_okD(2) [OF w(1), of sid rid] node_ok_entries [of n ?n0] by (simp add: n_def)
  obtain d' where d': "compactionLocked ?w n = Inr d'" "tan_ok d'"
    "\<forall>s r i. tan_log d' s r i = tan_log (put_index ?w n) s r i"
    using compactionLocked_ok [OF w(1) nz ids nok] by blast
  have "removeEntries d sid rid idx = Inr d'"
    using nz d'(1) by (simp add: removeEntries_def doWriteLocked_written getCompactionUpdate_ids ns_getIndex_def
        checkNodeInfo_def n_def)
  moreover have "tan_log (put_index ?w n) s r i = (if s = sid \<and> r = rid \<and> i \<le> unat idx then None else tan_log d s r i)" for s r i
  proof -
    have same: "ni_entries (node_index (td_ns ?m) s r) = ni_entries (node_index (td_ns d) s r)" for s r
      using m(3) by (simp add: same_nodes_def Let_def)
    have pe: "ix_entries (ni_entries (node_index (td_ns (put_index ?w n)) s r)) = ix_entries (ni_entries (node_index (td_ns d) s r))"
      "unat (ix_compactedTo (ni_entries (node_index (td_ns (put_index ?w n)) s r))) =
        (if s = sid \<and> r = rid then max (unat (ix_compactedTo (ni_entries (node_index (td_ns d) s r)))) (unat idx)
         else unat (ix_compactedTo (ni_entries (node_index (td_ns d) s r))))"
      unfolding node_index_put ids using w(3,4) [of s r] w(3,4) [of sid rid] ne by (simp_all add: same)
    have ent: "ie_entry (put_index ?w n) a i = ie_entry d a i"
      if "a \<in> set (ix_entries (ni_entries (node_index (td_ns d) s r)))" for a
    proof -
      have a: "ie_ok d a" "ie_ok ?m a"
        using tan_okD(2) [OF ok, of s r] tan_okD(2) [OF m(1), of s r] that same by (auto simp: node_ok_def)
      have "ie_entry ?w a i = ie_entry d a i"
        using ie_entry_extends [OF w(2) a(2)] ie_entry_extends [OF m(4) a(1)] by simp
      then show ?thesis
        using rec_at_files [of "put_index ?w n" ?w] by (simp add: ie_entry_def put_index_def)
    qed
    let ?es = "ix_entries (ni_entries (node_index (td_ns d) s r))"
    have "map_option (\<lambda>ie. ie_entry (put_index ?w n) ie i) (find (\<lambda>ie. unat (ix_start ie) \<le> i \<and> i \<le> unat (ix_end ie)) ?es) =
        map_option (\<lambda>ie. ie_entry d ie i) (find (\<lambda>ie. unat (ix_start ie) \<le> i \<and> i \<le> unat (ix_end ie)) ?es)"
      by (rule option.map_cong0 [OF ent]) (auto simp: find_Some_iff)
    then show ?thesis
      unfolding tan_log_def Let_def pe by (simp add: le_max_iff_disj)
  qed
  ultimately show ?thesis using d'(2,3) by metis
qed

section \<open>A concrete database\<close>

definition new_tandb :: "(Update \<Rightarrow> nat) \<Rightarrow> nat \<Rightarrow> tandb" where
  "new_tandb sz mx =
     \<lparr>td_offset = 0, td_logNum = 1, td_nextFileNum = 2, td_maxLogFileSize = mx, td_size = sz,
      td_files = [(1, [])], td_ns = \<lparr>ns_indexes = [], ns_states = []\<rparr>\<rparr>"

lemma tan_ok_new: "tan_ok (new_tandb sz mx)"
  by (auto simp: tan_ok_def new_tandb_def files_ok_def node_ok_def node_index_def newNodeIndex_def
      zero_index_def ix_sorted_def mhas_def split: if_splits)

lemma tan_log_new: "tan_log (new_tandb sz mx) sid rid i = None"
  by (simp add: tan_log_def new_tandb_def node_index_def newNodeIndex_def zero_index_def)

definition demo_update :: Update where
  "demo_update = zero_Update\<lparr>ud_ShardID := 1, ud_ReplicaID := 2,
     ud_State := zero_State\<lparr>st_Term := 3, st_Vote := 2\<rparr>,
     ud_EntriesToSave := [zero_Entry\<lparr>e_Term := 3, e_Index := 1\<rparr>, zero_Entry\<lparr>e_Term := 3, e_Index := 2\<rparr>]\<rparr>"

lemma demo_update_ok:
  "upd_ok demo_update" "isCompactionUpdate demo_update = None"
  "\<not> (ud_ShardID demo_update = 0 \<and> ud_ReplicaID demo_update = 0)"
  by (simp_all add: upd_ok_def demo_update_def isCompactionUpdate_def contig_iff nth_Cons')


definition demo_tandb :: tandb where
  "demo_tandb = written (makeRoomForWrite (new_tandb (\<lambda>_. 10) 100)) demo_update"

lemma demo_tandb_ok: "tan_ok demo_tandb" "td_nextFileNum demo_tandb \<noteq> 0"
    "tan_log demo_tandb 1 2 2 = Some (zero_Entry\<lparr>e_Term := 3, e_Index := 2\<rparr>)"
proof -
  have nz: "td_nextFileNum (new_tandb (\<lambda>_. 10) 100) \<noteq> 0" by (simp add: new_tandb_def)
  note w = doWriteLocked_log [OF tan_ok_new nz demo_update_ok]
  show "tan_ok demo_tandb" unfolding demo_tandb_def by (rule w(1))
  show "td_nextFileNum demo_tandb \<noteq> 0"
    by (simp add: demo_tandb_def makeRoomForWrite_def new_tandb_def with_record_def)
  show "tan_log demo_tandb 1 2 2 = Some (zero_Entry\<lparr>e_Term := 3, e_Index := 2\<rparr>)"
    unfolding demo_tandb_def w(2)
    by (simp add: demo_update_def log_write_def node_index_def newNodeIndex_def zero_index_def new_tandb_def)
qed

theorem removeEntries_refines_witness:
  "\<exists>d'. removeEntries demo_tandb 1 2 1 = Inr d' \<and> tan_log d' 1 2 1 = None \<and>
     tan_log d' 1 2 2 = Some (zero_Entry\<lparr>e_Term := 3, e_Index := 2\<rparr>)"
  using removeEntries_refines [OF demo_tandb_ok(1,2), of 1 2 1] demo_tandb_ok(3) by force
end
