(* ===== verification/LogStack.thy ===== *)
theory LogStack
  imports TanLog Raft
begin

text \<open>
  The log of a replica over the whole storage stack: the entry log on its in-memory part, on a log
  reader, on the write-ahead log of \<open>raft/tan\<close>. The interpretation \<open>wal\<close> gives the facts proved
  against the contracts \<open>ilogdb\<close> and \<open>raft_logdb\<close> for the definitions that model the code. It also
  holds the count of pending configuration changes, whose loop is shown to end.
\<close>

section \<open>The stack\<close>

definition stack_db :: "tandb \<Rightarrow> LogReader \<Rightarrow> ILogDB" where
  "stack_db d lr = lr_ILogDB (lr\<lparr>lr_logdb := IterateEntries d\<rparr>)"

definition stack_log :: "tandb \<Rightarrow> LogReader \<Rightarrow> nat \<Rightarrow> Entry option" where
  "stack_log d lr = tan_log d (lr_shardID lr) (lr_replicaID lr)"

definition stack_ok :: "tandb \<Rightarrow> LogReader \<Rightarrow> entryLog \<Rightarrow> bool" where
  "stack_ok d lr l \<longleftrightarrow>
     tan_ok d \<and> lr_backed (stack_log d lr) lr \<and> lg_logdb l = stack_db d lr \<and> el_wf (lr_trm (stack_log d lr) lr) l"

definition stack_ent :: "tandb \<Rightarrow> LogReader \<Rightarrow> entryLog \<Rightarrow> nat \<Rightarrow> Entry" where
  "stack_ent d lr l = el_ent (lr_ent (stack_log d lr)) l"

definition stack_term :: "tandb \<Rightarrow> LogReader \<Rightarrow> entryLog \<Rightarrow> nat \<Rightarrow> u64" where
  "stack_term d lr l = el_lookup (lr_trm (stack_log d lr) lr) l"

lemma stack_entries:
  assumes "stack_ok d lr l" "el_first l \<le> unat low" "low < high" "unat high \<le> Suc (el_last l)"
  shows "\<exists>n. 0 < n \<and> n \<le> unat high - unat low \<and>
    lg_getEntries l low high sz = Inr (map (stack_ent d lr l) [unat low..<unat low + n]) \<and>
    (n = 1 \<or> GetEntrySliceSize (map (stack_ent d lr l) [unat low..<unat low + n]) \<le> sz)"
  using wal.lrdb.getEntries_sequence [of "(lr, d)" l low high sz] assms
  by (simp add: stack_ok_def stack_ent_def stack_log_def stack_db_def)

lemma stack_index:
  assumes "stack_ok d lr l" "el_first l \<le> i" "i \<le> el_last l"
  shows "unat (e_Index (stack_ent d lr l i)) = i"
proof -
  let ?m = "unat (im_markerIndex (lg_inmem l))"
  have wf: "el_wf (lr_trm (stack_log d lr) lr) l" using assms(1) by (simp add: stack_ok_def)
  note w = im_wfD [OF el_wfD(1) [OF wf]]
  show ?thesis
  proof (cases "?m \<le> i")
    case True
    then have "i - ?m < length (im_entries (lg_inmem l))" using assms(3) w(5) by (simp add: el_last_def)
    with True contig_nth [OF w(7) this] show ?thesis by (simp add: stack_ent_def el_ent_def)
  next
    case False
    have j: "el_joined (lr_trm (stack_log d lr) lr) l" by (rule el_wfD(2) [OF wf])
    obtain f la where fl: "ld_GetRange (stack_db d lr) = (f, la)" by fastforce
    have "unat f \<le> i" "i \<le> unat la"
      using j False assms(1,2) fl by (auto simp: el_joined_def el_first_def Let_def stack_ok_def split: option.splits)
    with wal.lrdb.ent_law [of "(lr, d)" f la i] fl assms(1) False show ?thesis
      by (simp add: stack_ok_def stack_ent_def el_ent_def stack_db_def stack_log_def)
  qed
qed

text \<open>
  C12: The entry log over the write-ahead log reads as one log: a read of any non-empty range inside the
  log never fails and returns the entries from the lower bound on, each with its own index, whether they
  come from the log files, from memory or from both. It stops before the upper bound only when a limit is
  reached, and it returns more than one entry only within the size limit.
\<close>
theorem entryLog_reads_sequence:
  assumes "stack_ok d lr l" "el_first l \<le> unat low" "low < high" "unat high \<le> Suc (el_last l)"
  shows "\<exists>ents. lg_getEntries l low high sz = Inr ents \<and> ents \<noteq> [] \<and> length ents \<le> unat high - unat low \<and>
    contig (unat low) ents \<and> (length ents = 1 \<or> GetEntrySliceSize ents \<le> sz) \<and>
    (\<forall>i < length ents. ents ! i = stack_ent d lr l (unat low + i))"
proof -
  obtain n where n: "0 < n" "n \<le> unat high - unat low"
    "lg_getEntries l low high sz = Inr (map (stack_ent d lr l) [unat low..<unat low + n])"
    "n = 1 \<or> GetEntrySliceSize (map (stack_ent d lr l) [unat low..<unat low + n]) \<le> sz"
    using stack_entries [OF assms, of sz] by (elim exE conjE) (rule that)
  have "unat (e_Index (stack_ent d lr l (unat low + j))) = unat low + j" if "j < n" for j
    using stack_index [OF assms(1), of "unat low + j"] that n(2) assms(2,4) by simp
  then have "contig (unat low) (map (stack_ent d lr l) [unat low..<unat low + n])" by (simp add: contig_iff)
  with n show ?thesis by (intro exI [of _ "map (stack_ent d lr l) [unat low..<unat low + n]"]) simp
qed

section \<open>Appending from a leader\<close>

text \<open>
  C13: Appending the entries of a replication message keeps the log well formed. The entries that the log
  already has with the same term are skipped; when all of them are there nothing changes, otherwise the
  log is cut at the first entry that differs and continues with the remaining ones, and nothing below that
  entry and no committed entry changes.
\<close>
theorem tryAppend_truncates_at_conflict:
  assumes "stack_ok d lr l" "tryAppend_pre (lr_trm (stack_log d lr) lr) l index ents"
    and "k = length (takeWhile (\<lambda>e. stack_term d lr l (unat (e_Index e)) = e_Term e) ents)"
  shows "if k = length ents then tryAppend l index ents = Inr (l, False)
    else \<exists>l'. tryAppend l index ents = Inr (l', True) \<and> stack_ok d lr l' \<and>
      el_last l' = unat index + length ents \<and> lg_committed l' = lg_committed l \<and>
      (\<forall>i \<le> unat index + k. stack_ent d lr l' i = stack_ent d lr l i) \<and>
      (\<forall>j < length ents. k \<le> j \<longrightarrow> stack_ent d lr l' (Suc (unat index) + j) = ents ! j)"
proof (cases "k = length ents")
  case True
  then show ?thesis
    using wal.lrdb.tryAppend_result [of "(lr, d)" l index ents] assms
    by (simp add: stack_ok_def stack_term_def stack_log_def stack_db_def)
next
  case False
  then have k: "k < length ents" using assms(3) length_takeWhile_le le_neq_implies_less by metis
  obtain l' where l': "tryAppend l index ents = Inr (l', True)" "el_wf (lr_trm (stack_log d lr) lr) l'"
    "appended l (drop k ents) l'"
    using wal.lrdb.tryAppend_result [of "(lr, d)" l index ents] assms False
    by (auto simp: stack_ok_def stack_term_def stack_log_def stack_db_def)
  have c: "contig (Suc (unat index)) ents" using assms(2) by (simp add: tryAppend_pre_def)
  have hd: "unat (e_Index (hd (drop k ents))) = Suc (unat index) + k"
    using contig_nth [OF c k] k by (simp add: hd_drop_conv_nth)
  have e: "el_ent ent l' i = (if i < Suc (unat index) + k then el_ent ent l i
      else if i < Suc (unat index) + length ents then ents ! (i - Suc (unat index)) else el_ent ent l' i)" for ent i
  proof -
    have "el_ent ent l' i = (if i < Suc (unat index) + k then el_ent ent l i
        else if i < Suc (unat index) + k + length (drop k ents) then drop k ents ! (i - (Suc (unat index) + k)) else el_ent ent l' i)"
      using l'(3) unfolding appended_def hd Let_def by metis
    then show ?thesis using k by (auto simp: nth_drop split: if_splits)
  qed
  have "stack_ok d lr l'" "el_last l' = unat index + length ents" "lg_committed l' = lg_committed l"
    using l'(2,3) assms(1) k unfolding appended_def hd by (auto simp: stack_ok_def Let_def)
  moreover have "\<forall>i \<le> unat index + k. stack_ent d lr l' i = stack_ent d lr l i"
    unfolding stack_ent_def by (subst e) auto
  moreover have "\<forall>j < length ents. k \<le> j \<longrightarrow> stack_ent d lr l' (Suc (unat index) + j) = ents ! j"
    unfolding stack_ent_def by (subst e) auto
  ultimately show ?thesis using False l'(1) by simp
qed

section \<open>Counting pending configuration changes\<close>

lemma countConfigChange_append: "countConfigChange (xs @ ys) = countConfigChange xs + countConfigChange ys"
  by (simp add: countConfigChange_def)

lemma pending_loop_count:
  assumes ok: "stack_ok d lr l"
  shows "el_first l \<le> unat idx \<Longrightarrow> unat idx \<le> Suc (el_last l) \<Longrightarrow> Suc (el_last l) - unat idx < fuel \<Longrightarrow>
    pendingConfigChange_loop fuel l idx cnt =
      Inr (cnt + countConfigChange (map (stack_ent d lr l) [unat idx..<Suc (el_last l)]))"
proof (induction fuel arbitrary: idx cnt)
  case (Suc fuel)
  have wf: "el_wf (lr_trm (stack_log d lr) lr) l" using ok by (simp add: stack_ok_def)
  have la: "unat (lg_lastIndex l) = el_last l" by (rule unat_lg_lastIndex [OF wf])
  have la1: "unat (lg_lastIndex l + 1) = Suc (el_last l)"
    using el_last_bound [OF wf] la by (simp add: unat_Suc_u64 u64_neq_max)
  show ?case
  proof (cases "unat idx = Suc (el_last l)")
    case True
    then have "idx > lg_lastIndex l" by (simp add: word_less_nat_alt la)
    with True show ?thesis by (simp add: lg_entries_def countConfigChange_def)
  next
    case False
    then have le: "unat idx \<le> el_last l" "\<not> idx > lg_lastIndex l" "idx < lg_lastIndex l + 1"
      using Suc.prems(2) by (simp_all add: word_less_nat_alt la la1)
    obtain n where n: "0 < n" "n \<le> unat (lg_lastIndex l + 1) - unat idx"
      "lg_getEntries l idx (lg_lastIndex l + 1) MaxApplyEntrySize = Inr (map (stack_ent d lr l) [unat idx..<unat idx + n])"
      using stack_entries [OF ok Suc.prems(1) le(3) eq_refl [OF la1], of MaxApplyEntrySize] by (elim exE conjE) (rule that)
    let ?es = "map (stack_ent d lr l) [unat idx..<unat idx + n]"
    have nb: "unat idx + n \<le> Suc (el_last l)" using n(2) le(1) la1 by simp
    have "unat (e_Index (last ?es)) = unat idx + n - 1"
      using stack_index [OF ok, of "unat idx + n - 1"] Suc.prems(1) n(1) nb by (simp add: last_map)
    then have nx: "unat (e_Index (last ?es) + 1) = unat idx + n"
      using n(1) nb el_last_bound [OF wf] by (simp add: unat_Suc_u64 u64_neq_max)
    have "pendingConfigChange_loop (Suc fuel) l idx cnt =
        pendingConfigChange_loop fuel l (e_Index (last ?es) + 1) (cnt + countConfigChange ?es)"
      using n(1,3) le(2) by (simp add: lg_entries_def)
    also have "\<dots> = Inr (cnt + countConfigChange ?es +
        countConfigChange (map (stack_ent d lr l) [unat idx + n..<Suc (el_last l)]))"
      using Suc.IH [of "e_Index (last ?es) + 1"] Suc.prems n(1) nb unfolding nx by simp
    also have "\<dots> = Inr (cnt + countConfigChange (map (stack_ent d lr l) [unat idx..<Suc (el_last l)]))"
      using map_upt_split [of "unat idx" "unat idx + n" "Suc (el_last l)" "stack_ent d lr l"] nb
      by (simp add: countConfigChange_append)
    finally show ?thesis .
  qed
qed simp

text \<open>
  C14: The count of pending configuration changes a new leader makes always ends and is exact: reading
  the uncommitted part of the log page by page, it returns the number of configuration changes among all
  entries above the committed index.
\<close>
theorem getPendingConfigChangeCount_total:
  assumes "stack_ok d lr (r_log r)"
  shows "getPendingConfigChangeCount r =
    Inr (countConfigChange (map (stack_ent d lr (r_log r)) [Suc (unat (lg_committed (r_log r)))..<Suc (el_last (r_log r))]))"
proof -
  let ?l = "r_log r"
  have wf: "el_wf (lr_trm (stack_log d lr) lr) ?l" using assms by (simp add: stack_ok_def)
  have c: "unat (lg_committed ?l + 1) = Suc (unat (lg_committed ?l))"
    using el_wfD(6) [OF wf] el_last_bound [OF wf] by (intro unat_Suc_u64) (simp add: u64_neq_max)
  show ?thesis
    unfolding getPendingConfigChangeCount_def
    using pending_loop_count [OF assms, of "lg_committed ?l + 1" "unat (lg_lastIndex ?l) + 2" 0]
      el_wfD(5,6) [OF wf] unat_lg_lastIndex [OF wf] by (simp add: c)
qed

section \<open>A concrete stack\<close>

definition demo_reader :: LogReader where
  "demo_reader = (NewLogReader 1 2 (IterateEntries demo_tandb))\<lparr>lr_length := 3\<rparr>"

definition demo_log :: entryLog where
  "demo_log = (let l = newEntryLog (stack_db demo_tandb demo_reader) (NewInMemRateLimiter 0) (\<lambda>c n. n)
     in l\<lparr>lg_inmem := (lg_inmem l)\<lparr>im_entries := [zero_Entry\<lparr>e_Term := 4, e_Index := 3, e_Type := ConfigChangeEntry\<rparr>]\<rparr>\<rparr>)"

lemma demo_reader_simps:
  "lr_markerIndex demo_reader = 0" "lr_shardID demo_reader = 1" "lr_replicaID demo_reader = 2"
  "lr_markerTerm demo_reader = 0" "lr_length demo_reader = 3"
  by (simp_all add: demo_reader_def NewLogReader_def)

lemma demo_tan_log:
  "tan_log demo_tandb 1 2 1 = Some (zero_Entry\<lparr>e_Term := 3, e_Index := 1\<rparr>)"
  "tan_log demo_tandb 1 2 2 = Some (zero_Entry\<lparr>e_Term := 3, e_Index := 2\<rparr>)"
proof -
  have nz: "td_nextFileNum (new_tandb (\<lambda>_. 10) 100) \<noteq> 0" by (simp add: new_tandb_def)
  note w = doWriteLocked_log [OF tan_ok_new nz demo_update_ok]
  show "tan_log demo_tandb 1 2 1 = Some (zero_Entry\<lparr>e_Term := 3, e_Index := 1\<rparr>)"
    unfolding demo_tandb_def w(2)
    by (simp add: demo_update_def log_write_def node_index_def newNodeIndex_def zero_index_def new_tandb_def)
qed (rule demo_tandb_ok(3))

lemma demo_log_simps:
  "lg_committed demo_log = 0" "lg_processed demo_log = 0" "im_markerIndex (lg_inmem demo_log) = 3"
  "im_entries (lg_inmem demo_log) = [zero_Entry\<lparr>e_Term := 4, e_Index := 3, e_Type := ConfigChangeEntry\<rparr>]"
  "im_snapshot (lg_inmem demo_log) = None" "im_appliedToIndex (lg_inmem demo_log) = 0"
  "lg_logdb demo_log = stack_db demo_tandb demo_reader" "ld_GetRange (stack_db demo_tandb demo_reader) = (1, 2)"
  by (simp_all add: demo_log_def newEntryLog_def stack_db_def lr_ILogDB_def lr_GetRange_def demo_reader_def
      NewLogReader_def lr_firstIndex_def lr_lastIndex_def newInMemory_def Let_def)

lemma demo_bounds: "el_first demo_log = 1" "el_last demo_log = 3"
  by (simp_all add: el_first_def el_last_def demo_log_simps)

lemma demo_stack_ok: "stack_ok demo_tandb demo_reader demo_log"
proof -
  have "i = 1 \<or> i = 2" if "0 < i" "i \<le> 2" for i :: nat using that by auto
  then have "lr_backed (stack_log demo_tandb demo_reader) demo_reader"
    using demo_tan_log by (auto simp: lr_backed_def lr_wf_def lr_last_def demo_reader_simps stack_log_def)
  moreover have "im_wf (lg_inmem demo_log)"
    by (simp add: im_wf_def im_pos_def demo_log_def newEntryLog_def stack_db_def lr_ILogDB_def lr_GetRange_def
        demo_reader_def NewLogReader_def lr_firstIndex_def lr_lastIndex_def newInMemory_def terms_ok_def Let_def
        im_rateLimited_def il_Enabled_def NewInMemRateLimiter_def NewRateLimiter_def rl_Enabled_def)
  ultimately show ?thesis
    using demo_tandb_ok(1) demo_tan_log
    by (simp add: stack_ok_def el_wf_def el_joined_def el_term_def demo_log_simps demo_bounds lr_trm_def lr_ent_def
        demo_reader_simps stack_log_def)
qed

lemma demo_ent: "stack_ent demo_tandb demo_reader demo_log 1 = zero_Entry\<lparr>e_Term := 3, e_Index := 1\<rparr>"
  "stack_ent demo_tandb demo_reader demo_log 2 = zero_Entry\<lparr>e_Term := 3, e_Index := 2\<rparr>"
  "stack_ent demo_tandb demo_reader demo_log 3 = zero_Entry\<lparr>e_Term := 4, e_Index := 3, e_Type := ConfigChangeEntry\<rparr>"
  using demo_tan_log
  by (simp_all add: stack_ent_def el_ent_def lr_ent_def stack_log_def demo_log_simps demo_reader_simps)

theorem entryLog_reads_sequence_witness:
  "\<exists>ents. lg_getEntries demo_log 2 4 1000 = Inr ents \<and> ents ! 0 = zero_Entry\<lparr>e_Term := 3, e_Index := 2\<rparr> \<and> length ents \<le> 2"
  using entryLog_reads_sequence [OF demo_stack_ok, of 2 4 1000] demo_ent
  by (auto simp: demo_bounds simp flip: numeral_2_eq_2)

theorem tryAppend_truncates_at_conflict_witness:
  "\<exists>l'. tryAppend demo_log 2 [zero_Entry\<lparr>e_Term := 5, e_Index := 3\<rparr>] = Inr (l', True) \<and> el_last l' = 3 \<and>
    stack_ent demo_tandb demo_reader l' 3 = zero_Entry\<lparr>e_Term := 5, e_Index := 3\<rparr>"
proof -
  let ?es = "[zero_Entry\<lparr>e_Term := 5, e_Index := 3\<rparr>]" let ?t = "lr_trm (stack_log demo_tandb demo_reader) demo_reader"
  have t: "el_term ?t demo_log 2 = 3" "el_term ?t demo_log 3 = 4"
    using demo_tan_log by (simp_all add: el_term_def demo_log_simps lr_trm_def lr_ent_def stack_log_def demo_reader_simps)
  have "tryAppend_pre ?t demo_log 2 ?es"
    using t by (simp add: tryAppend_pre_def contig_iff terms_ok_def demo_bounds demo_log_simps)
  from tryAppend_truncates_at_conflict [OF demo_stack_ok this refl] t show ?thesis
    by (auto simp: stack_term_def el_lookup_def demo_bounds)
qed

theorem getPendingConfigChangeCount_total_witness:
  "\<forall>r. getPendingConfigChangeCount (r\<lparr>r_log := demo_log\<rparr>) = Inr 1"
  using getPendingConfigChangeCount_total [of demo_tandb demo_reader "_\<lparr>r_log := demo_log\<rparr>"] demo_stack_ok demo_ent
  by (simp add: demo_log_simps demo_bounds countConfigChange_def upt_rec flip: numeral_2_eq_2 numeral_3_eq_3)

end
