(* ===== verification/Keys.thy ===== *)
theory Keys
  imports Prelude "HOL-Library.List_Lexorder"
begin

text \<open>
  The physical keys of a table, \<^verbatim>\<open>storage/table/key\<close>: the versioned encodings of a
  logical key (type, user key, sequence number) into the bytes stored in the key-value engine, and
  their decoders. The lemmas show that decoding inverts encoding, and that the byte order of two
  encoded keys is the order of the user keys and, for one user key, the reverse order of the
  sequence numbers, so that the newest version of a key is the first one an iterator visits. The
  order lemma needs user keys without zero bytes, which is what the API layer enforces.

  \<open>bytes.Compare\<close> is the lexicographic order on lists of bytes; a Go reader is the list of bytes
  that is left to read, a writer the list of bytes written.
\<close>

unbundle bit_operations_syntax

section \<open>Big-endian integers\<close>

fun be_bytes :: "nat \<Rightarrow> nat \<Rightarrow> bytes" where
  "be_bytes 0 v = []"
| "be_bytes (Suc n) v = of_nat (v div 256 ^ n) # be_bytes n (v mod 256 ^ n)"

fun be_value :: "bytes \<Rightarrow> nat" where
  "be_value [] = 0"
| "be_value (b # bs) = unat b * 256 ^ length bs + be_value bs"

definition PutUint64 :: "u64 \<Rightarrow> bytes" where
  "PutUint64 v = be_bytes 8 (unat v)"

definition Uint64 :: "bytes \<Rightarrow> u64" where
  "Uint64 bs = of_nat (be_value bs)"

lemma length_be_bytes [simp]: "length (be_bytes n v) = n"
  by (induction n arbitrary: v) auto

lemma byte_lt: "unat (b :: byte) < 256"
  using unsigned_less [of b, where ?'a = nat] by simp

lemma unat_of_nat_byte: "n < 256 \<Longrightarrow> unat (of_nat n :: byte) = n"
  by (simp add: unat_of_nat)

lemma be_value_lt: "be_value bs < 256 ^ length bs"
proof (induction bs)
  case (Cons b bs)
  have "unat b * 256 ^ length bs + be_value bs < (unat b + 1) * 256 ^ length bs"
    using Cons by simp
  also have "\<dots> \<le> 256 * 256 ^ length bs" using byte_lt [of b] by (intro mult_right_mono) auto
  finally show ?case by simp
qed simp

lemma be_value_bytes: "v < 256 ^ n \<Longrightarrow> be_value (be_bytes n v) = v"
proof (induction n arbitrary: v)
  case (Suc n)
  then have "v div 256 ^ n < 256" by (simp add: less_mult_imp_div_less)
  moreover have "v mod 256 ^ n < 256 ^ n" by simp
  ultimately show ?case using Suc.IH [of "v mod 256 ^ n"] by (simp add: unat_of_nat_byte div_mult_mod_eq)
qed simp

lemma be_value_inj: "length xs = length ys \<Longrightarrow> be_value xs = be_value ys \<Longrightarrow> xs = ys"
proof (induction xs ys rule: list_induct2)
  case (Cons x xs y ys)
  have x: "be_value xs < 256 ^ length xs" "be_value ys < 256 ^ length xs"
    using be_value_lt [of xs] be_value_lt [of ys] Cons.hyps by simp_all
  have d: "(unat b * 256 ^ length xs + c) div 256 ^ length xs = unat b" if "c < 256 ^ length xs" for b :: byte and c :: nat
    using that by simp
  have "unat x = unat y"
    using Cons.prems Cons.hyps d [OF x(1), of x] d [OF x(2), of y] by simp
  then show ?case using Cons by (simp add: word_unat_eq_iff)
qed simp

lemma be_value_less:
  "length xs = length ys \<Longrightarrow> xs < ys \<longleftrightarrow> be_value xs < be_value ys"
proof (induction xs ys rule: list_induct2)
  case (Cons x xs y ys)
  have b: "be_value xs < 256 ^ length ys" "be_value ys < 256 ^ length ys"
    using be_value_lt [of xs] be_value_lt [of ys] Cons.hyps by simp_all
  have lt: "unat a * 256 ^ length ys + u < unat c * 256 ^ length ys + v"
    if "unat a < unat c" "u < 256 ^ length ys" for a c :: byte and u v
  proof -
    have "unat a * 256 ^ length ys + u < (unat a + 1) * 256 ^ length ys" using that by simp
    also have "\<dots> \<le> unat c * 256 ^ length ys" using that by (intro mult_right_mono) auto
    finally show ?thesis by simp
  qed
  show ?case
  proof (cases "x = y")
    case True
    with Cons show ?thesis by simp
  next
    case False
    then consider "unat x < unat y" | "unat y < unat x" by (metis linorder_less_linear word_unat_eq_iff)
    then show ?thesis
    proof cases
      case 1
      with lt [OF 1 b(1), of "be_value ys"] Cons.hyps show ?thesis by (simp add: word_less_nat_alt)
    next
      case 2
      with lt [OF 2 b(2), of "be_value xs"] Cons.hyps False show ?thesis by (simp add: word_less_nat_alt)
    qed
  qed
qed simp

lemma unat_not_byte: "unat (NOT b :: byte) = 255 - unat b"
proof -
  have "NOT b = - 1 - b" by (simp add: not_eq_complement)
  moreover have "unat (- 1 - b) = unat (- 1 :: byte) - unat b" by (rule unat_sub) simp
  moreover have "unat (- 1 :: byte) = 255" by (simp add: unsigned_minus_1_eq_mask mask_eq_exp_minus_1)
  ultimately show ?thesis by simp
qed

lemma not_byte_less: "(NOT a :: byte) < NOT b \<longleftrightarrow> b < a"
  using byte_lt [of a] byte_lt [of b] by (auto simp: word_less_nat_alt unat_not_byte)

lemma map_not_less:
  "length xs = length ys \<Longrightarrow> map (\<lambda>b :: byte. NOT b) xs < map (\<lambda>b. NOT b) ys \<longleftrightarrow> ys < xs"
  by (induction xs ys rule: list_induct2) (auto simp: not_byte_less)

lemma length_PutUint64 [simp]: "length (PutUint64 v) = 8"
  by (simp add: PutUint64_def)

lemma Uint64_Put [simp]: "Uint64 (PutUint64 v) = v"
  using u64_unat_lt [of v] by (simp add: Uint64_def PutUint64_def be_value_bytes)

lemma Put_Uint64: "length bs = 8 \<Longrightarrow> PutUint64 (Uint64 bs) = bs"
  using be_value_lt [of bs]
  by (intro be_value_inj) (simp_all add: PutUint64_def Uint64_def be_value_bytes unat_of_nat_u64)

lemma PutUint64_less: "PutUint64 a < PutUint64 b \<longleftrightarrow> a < b"
  using u64_unat_lt [of a] u64_unat_lt [of b]
  by (simp add: be_value_less PutUint64_def be_value_bytes word_less_nat_alt)


section \<open>Keys\<close>

definition TypeUnknown :: byte where
  "TypeUnknown = 0"

definition TypeUser :: byte where
  "TypeUser = 1"

definition TypeSystem :: byte where
  "TypeSystem = 2"

definition keyHeaderLen :: nat where
  "keyHeaderLen = 4"

definition V1 :: byte where
  "V1 = 1"

definition V1KeyLen :: nat where
  "V1KeyLen = 1024"

definition keyV1BodyLen :: nat where
  "keyV1BodyLen = V1KeyLen - keyHeaderLen"

definition V2 :: byte where
  "V2 = 2"

definition V2SeqLen :: nat where
  "V2SeqLen = 8"

definition V2SepLen :: nat where
  "V2SepLen = 1"

definition V2MaxUserKeyLen :: nat where
  "V2MaxUserKeyLen = 1024"

definition V2KeyLen :: nat where
  "V2KeyLen = keyHeaderLen + 1 + V2MaxUserKeyLen + V2SepLen + V2SeqLen"

definition keyV2BodyLen :: nat where
  "keyV2BodyLen = V2KeyLen - keyHeaderLen"

definition V1Len :: "nat \<Rightarrow> nat" where
  "V1Len userkeyLen = keyHeaderLen + 1 + userkeyLen"

definition V2Len :: "nat \<Rightarrow> nat" where
  "V2Len userkeyLen = keyHeaderLen + 1 + userkeyLen + V2SepLen + V2SeqLen"

definition UnknownVersion :: byte where
  "UnknownVersion = 0"

definition LatestVersion :: byte where
  "LatestVersion = V2"

definition V1MinKey :: bytes where
  "V1MinKey = replicate (keyV1BodyLen - 1) 0"

definition V1MaxKey :: bytes where
  "V1MaxKey = replicate (keyV1BodyLen - 1) 255"

definition LatestMinKey :: bytes where
  "LatestMinKey = [0]"

definition LatestMaxKey :: bytes where
  "LatestMaxKey = replicate V2MaxUserKeyLen 255"

lemmas key_consts = TypeUnknown_def TypeUser_def TypeSystem_def keyHeaderLen_def V1_def V1KeyLen_def
  keyV1BodyLen_def V2_def V2SeqLen_def V2SepLen_def V2MaxUserKeyLen_def V2KeyLen_def keyV2BodyLen_def
  UnknownVersion_def LatestVersion_def

record Key =
  k_version :: byte
  k_KeyType :: byte
  k_Key :: bytes
  k_Seqno :: u64

definition key_reset :: Key where
  "key_reset = \<lparr>k_version = UnknownVersion, k_KeyType = TypeUnknown, k_Key = [], k_Seqno = 0\<rparr>"

record keyV1 =
  k1_keyType :: byte
  k1_key :: bytes

record keyV2 =
  k2_keyType :: byte
  k2_key :: bytes
  k2_seqno :: u64

definition ErrMissingKeyHeader :: go_error where
  "ErrMissingKeyHeader = ErrOther ''missing key header''"

definition ErrMalformedKeyHeader :: go_error where
  "ErrMalformedKeyHeader = ErrOther ''malformed key header''"

definition ErrUnknownKeyVersion :: go_error where
  "ErrUnknownKeyVersion = ErrOther ''unknown key version''"

definition ErrMissingKeyType :: go_error where
  "ErrMissingKeyType = ErrOther ''missing key type''"

definition V1_Encode :: "keyV1 \<Rightarrow> bytes" where
  "V1_Encode k = k1_keyType k # k1_key k"

text \<open>\<open>io.ReadAll (io.LimitReader r n)\<close> returns at most \<open>n\<close> bytes.\<close>

definition V1_Decode :: "bytes \<Rightarrow> keyV1 res" where
  "V1_Decode reader =
     (case take keyV1BodyLen reader of
        [] \<Rightarrow> Inl ErrMissingKeyType
      | t # key \<Rightarrow> Inr \<lparr>k1_keyType = t, k1_key = key\<rparr>)"

definition v1DecodeRaw :: "bytes \<Rightarrow> keyV1" where
  "v1DecodeRaw raw =
     (if length raw > 1 then \<lparr>k1_keyType = hd raw, k1_key = tl raw\<rparr>
      else \<lparr>k1_keyType = TypeUnknown, k1_key = []\<rparr>)"

definition stored_seqno :: "u64 \<Rightarrow> bytes" where
  "stored_seqno seqno = map (\<lambda>b. NOT b) (PutUint64 seqno)"

definition read_seqno :: "bytes \<Rightarrow> u64" where
  "read_seqno seqBuf = Uint64 (map (\<lambda>b. NOT b) seqBuf)"

definition V2_Encode :: "keyV2 \<Rightarrow> bytes" where
  "V2_Encode k = k2_keyType k # k2_key k @ 0 # stored_seqno (k2_seqno k)"

definition v2_split :: "bytes \<Rightarrow> keyV2" where
  "v2_split raw =
     (let seqStart = length raw - V2SeqLen
      in \<lparr>k2_keyType = hd raw, k2_key = drop 1 (take (seqStart - V2SepLen) raw),
          k2_seqno = read_seqno (drop seqStart raw)\<rparr>)"

definition V2_Decode :: "bytes \<Rightarrow> keyV2 res" where
  "V2_Decode reader =
     (let raw = take keyV2BodyLen reader
      in if length raw < 1 + V2SepLen + V2SeqLen then Inl ErrMissingKeyType else Inr (v2_split raw))"

definition v2DecodeRaw :: "bytes \<Rightarrow> keyV2" where
  "v2DecodeRaw raw =
     (if length raw < 1 + V2SepLen + V2SeqLen
      then \<lparr>k2_keyType = TypeUnknown, k2_key = [], k2_seqno = 0\<rparr> else v2_split raw)"

definition DecodeV2Seqno :: "bytes \<Rightarrow> u64" where
  "DecodeV2Seqno physicalKey =
     (if length physicalKey \<le> V2SeqLen \<or> physicalKey ! 0 \<noteq> V2 then 0
      else read_seqno (drop (length physicalKey - V2SeqLen) physicalKey))"

definition key_Decode :: "bytes \<Rightarrow> Key res" where
  "key_Decode r =
     (let key = key_reset
      in if length r < keyHeaderLen then Inl ErrMissingKeyHeader
         else if \<exists>i \<in> {1..<keyHeaderLen}. r ! i \<noteq> 0 then Inl ErrMalformedKeyHeader
         else if r ! 0 = V1 then
           bind_res (V1_Decode (drop keyHeaderLen r)) (\<lambda>k.
             Inr (key\<lparr>k_version := V1, k_KeyType := k1_keyType k, k_Key := k1_key k\<rparr>))
         else if r ! 0 = V2 then
           bind_res (V2_Decode (drop keyHeaderLen r)) (\<lambda>k.
             Inr (key\<lparr>k_version := V2, k_KeyType := k2_keyType k, k_Key := k2_key k, k_Seqno := k2_seqno k\<rparr>))
         else Inl ErrUnknownKeyVersion)"

text \<open>\<open>Encoder.Encode\<close>: the bytes written and the number it reports; a version it does not know is
  reported after the header is already written.\<close>

definition key_Encode :: "Key \<Rightarrow> Key \<times> bytes \<times> nat res" where
  "key_Encode key =
     (let key = (if k_version key = UnknownVersion then key\<lparr>k_version := LatestVersion\<rparr> else key);
          header = k_version key # replicate (keyHeaderLen - 1) 0
      in if k_version key = V1 then
           let body = V1_Encode \<lparr>k1_keyType = k_KeyType key, k1_key = k_Key key\<rparr>
           in (key, header @ body, Inr (keyHeaderLen + length body))
         else if k_version key = V2 then
           let body = V2_Encode \<lparr>k2_keyType = k_KeyType key, k2_key = k_Key key, k2_seqno = k_Seqno key\<rparr>
           in (key, header @ body, Inr (keyHeaderLen + length body))
         else (key, header, Inl ErrUnknownKeyVersion))"

definition DecodeBytes :: "bytes \<Rightarrow> Key res" where
  "DecodeBytes raw =
     (if length raw < keyHeaderLen then Inl ErrMissingKeyHeader
      else if raw ! 0 = V1 then
        let k = v1DecodeRaw (drop keyHeaderLen raw)
        in Inr \<lparr>k_version = V1, k_KeyType = k1_keyType k, k_Key = k1_key k, k_Seqno = 0\<rparr>
      else if raw ! 0 = V2 then
        let k = v2DecodeRaw (drop keyHeaderLen raw)
        in Inr \<lparr>k_version = V2, k_KeyType = k2_keyType k, k_Key = k2_key k, k_Seqno = k2_seqno k\<rparr>
      else Inl ErrUnknownKeyVersion)"

section \<open>Decoding inverts encoding\<close>

lemma read_stored [simp]: "read_seqno (stored_seqno s) = s"
  by (simp add: read_seqno_def stored_seqno_def comp_def)

lemma stored_read: "length bs = 8 \<Longrightarrow> stored_seqno (read_seqno bs) = bs"
  by (simp add: read_seqno_def stored_seqno_def Put_Uint64 comp_def)

lemma length_stored_seqno [simp]: "length (stored_seqno s) = 8"
  by (simp add: stored_seqno_def)

lemma stored_seqno_less: "stored_seqno a < stored_seqno b \<longleftrightarrow> b < a"
  by (simp add: stored_seqno_def map_not_less PutUint64_less)

lemma v2_split_Encode: "v2_split (V2_Encode k) = k"
  by (cases k) (simp add: v2_split_def V2_Encode_def Let_def key_consts)

lemma length_V2_Encode: "length (V2_Encode k) = length (k2_key k) + 10"
  by (simp add: V2_Encode_def)

text \<open>
  C21: Encoding a logical key and decoding the bytes, with the streaming decoder or with the decoder for
  raw bytes, gives the key back: the latest version for every type, user key of at most the maximal
  length and sequence number, and the first version, which has no sequence number, within its own length.
\<close>
theorem key_round_trip:
  assumes "k_version k = UnknownVersion \<or> k_version k = V2 \<or>
      k_version k = V1 \<and> k_Seqno k = 0 \<and> k_Key k \<noteq> []"
    and "if k_version k = V1 then length (k_Key k) < keyV1BodyLen else length (k_Key k) \<le> V2MaxUserKeyLen"
  shows "\<exists>k' bs. key_Encode k = (k', bs, Inr (length bs)) \<and> k_version k' \<noteq> UnknownVersion \<and>
    k' = k\<lparr>k_version := k_version k'\<rparr> \<and>
    length bs = (if k_version k = V1 then V1Len (length (k_Key k)) else V2Len (length (k_Key k))) \<and>
    key_Decode bs = Inr k' \<and> DecodeBytes bs = Inr k'"
proof (cases "k_version k = V1")
  case True
  let ?bs = "V1 # replicate 3 0 @ V1_Encode \<lparr>k1_keyType = k_KeyType k, k1_key = k_Key k\<rparr>"
  have "\<not> (\<exists>i \<in> {1..<4}. ?bs ! i \<noteq> 0)" by (auto simp: nth_Cons' nth_append)
  with True assms show ?thesis
    by (cases k) (auto simp: key_Encode_def key_Decode_def DecodeBytes_def V1_Encode_def V1_Decode_def
        v1DecodeRaw_def key_consts V1Len_def key_reset_def Let_def)
next
  case False
  let ?k2 = "\<lparr>k2_keyType = k_KeyType k, k2_key = k_Key k, k2_seqno = k_Seqno k\<rparr>"
  let ?bs = "V2 # replicate 3 0 @ V2_Encode ?k2" and ?k' = "k\<lparr>k_version := V2\<rparr>"
  have pad: "\<not> (\<exists>i \<in> {1..<4}. ?bs ! i \<noteq> 0)" by (auto simp: nth_Cons' nth_append)
  have len: "length (V2_Encode ?k2) = length (k_Key k) + 10" "length (k_Key k) \<le> 1024"
    using assms(2) False by (simp_all add: length_V2_Encode key_consts)
  have enc: "key_Encode k = (?k', ?bs, Inr (length ?bs))"
    using False assms(1) by (auto simp: key_Encode_def key_consts Let_def numeral_3_eq_3)
  have b0: "?bs ! 0 = V2" "length ?bs = length (k_Key k) + 14" "drop 4 ?bs = V2_Encode ?k2"
    "V1 \<noteq> V2" using len(1) by (simp_all add: key_consts numeral_3_eq_3 numeral_eq_Suc)
  have tk: "take keyV2BodyLen (V2_Encode ?k2) = V2_Encode ?k2" "\<not> length (V2_Encode ?k2) < 1 + V2SepLen + V2SeqLen"
    using len by (simp_all add: key_consts)
  have "key_Decode ?bs = Inr ?k'"
    using pad b0 tk unfolding key_Decode_def keyHeaderLen_def V2_Decode_def Let_def
    by (cases k) (simp add: v2_split_Encode key_reset_def)
  moreover have "DecodeBytes ?bs = Inr ?k'"
    using b0 tk unfolding DecodeBytes_def keyHeaderLen_def v2DecodeRaw_def Let_def
    by (cases k) (simp add: v2_split_Encode)
  ultimately show ?thesis using enc b0(2) False assms(1)
    by (intro exI [of _ ?k'] exI [of _ ?bs]) (simp add: V2Len_def key_consts)
qed


theorem key_round_trip_witness:
  "\<exists>bs. length bs = 16 \<and> key_Decode bs = DecodeBytes bs \<and>
     DecodeBytes bs = Inr \<lparr>k_version = V2, k_KeyType = TypeUser, k_Key = [97, 98], k_Seqno = 5\<rparr>"
proof -
  let ?k = "\<lparr>k_version = UnknownVersion, k_KeyType = TypeUser, k_Key = [97, 98], k_Seqno = 5\<rparr>"
  have "k_version (fst (key_Encode ?k)) = V2" by (simp add: key_Encode_def key_consts Let_def)
  then show ?thesis
    using key_round_trip [of ?k] by (auto simp: key_consts V2Len_def)
qed

section \<open>The order of encoded keys\<close>

definition physical_key :: "byte \<Rightarrow> bytes \<Rightarrow> u64 \<Rightarrow> bytes" where
  "physical_key t k s = fst (snd (key_Encode \<lparr>k_version = UnknownVersion, k_KeyType = t, k_Key = k, k_Seqno = s\<rparr>))"

lemma physical_key_eq: "physical_key t k s = [2, 0, 0, 0, t] @ k @ [0] @ stored_seqno s"
  by (simp add: physical_key_def key_Encode_def key_consts V2_Encode_def Let_def numeral_3_eq_3)

lemma append_less_iff [simp]: "(xs :: bytes) @ ys < xs @ zs \<longleftrightarrow> ys < zs"
  by (induction xs) auto

lemma sep_less:
  assumes "(0 :: byte) \<notin> set k" "0 \<notin> set k'"
  shows "k @ 0 # a < k' @ 0 # b \<longleftrightarrow> k < k' \<or> k = k' \<and> a < b"
  using assms
proof (induction k arbitrary: k')
  case Nil
  then show ?case by (cases k') (auto simp: word_neq_0_conv)
next
  case (Cons x k)
  then show ?case by (cases k') (auto simp: word_neq_0_conv)
qed

lemma sep_eq:
  assumes "(0 :: byte) \<notin> set k" "0 \<notin> set k'"
  shows "k @ 0 # a = k' @ 0 # b \<longleftrightarrow> k = k' \<and> a = b"
  using assms
proof (induction k arbitrary: k')
  case Nil
  then show ?case by (cases k') auto
next
  case (Cons x k)
  then show ?case by (cases k') auto
qed

lemma stored_seqno_inj [simp]: "stored_seqno a = stored_seqno b \<longleftrightarrow> a = b"
  using read_stored by metis

lemma physical_key_inj:
  assumes "0 \<notin> set k" "0 \<notin> set k'"
  shows "physical_key t k s = physical_key t' k' s' \<longleftrightarrow> t = t' \<and> k = k' \<and> s = s'"
  using sep_eq [OF assms] by (simp add: physical_key_eq)

lemma physical_key_less:
  assumes "0 \<notin> set k" "0 \<notin> set k'"
  shows "physical_key t k s < physical_key t k' s' \<longleftrightarrow> k < k' \<or> k = k' \<and> s' < s"
  using sep_less [OF assms] by (simp add: physical_key_eq stored_seqno_less)

text \<open>
  C22: For user keys without zero bytes the byte order of the encoded keys is the order of the user keys,
  and among the versions of one key the newer version comes first; in particular two different logical
  keys never share a physical key.
\<close>
theorem key_order:
  assumes "0 \<notin> set k" "0 \<notin> set k'"
  shows "(physical_key t k s < physical_key t k' s' \<longleftrightarrow> k < k' \<or> k = k' \<and> s' < s) \<and>
    (physical_key t k s = physical_key t k' s' \<longleftrightarrow> k = k' \<and> s = s')"
  using physical_key_less [OF assms] physical_key_inj [OF assms] by simp

theorem key_order_witness:
  "physical_key TypeUser [97] 7 < physical_key TypeUser [97] 3 \<and>
   physical_key TypeUser [97] 3 < physical_key TypeUser [97, 98] 9"
  using key_order [of "[97]" "[97]" TypeUser 7 3] key_order [of "[97]" "[97, 98]" TypeUser 3 9] by simp

end
