(* ===== verification/Varint.thy ===== *)
theory Varint
  imports Raftpb Keys
begin

text \<open>
  The variable-length integers of the wire format of \<^verbatim>\<open>raft/raftpb\<close>. A decoder works on the
  bytes from the current index to the end and returns how many of them it consumed, which is what the
  code adds to \<open>iNdEx\<close>. The lemmas show that decoding an encoded integer gives it back and that its
  length is what \<open>sovRaft\<close> computes.
\<close>

unbundle bit_operations_syntax

section \<open>Variable-length integers\<close>

definition ErrIntOverflowRaft :: go_error where
  "ErrIntOverflowRaft = ErrOther ''proto: integer overflow''"

definition ErrInvalidLengthRaft :: go_error where
  "ErrInvalidLengthRaft = ErrOther ''proto: negative length found during unmarshaling''"

definition ErrUnexpectedEOF :: go_error where
  "ErrUnexpectedEOF = ErrOther ''unexpected EOF''"

lemma unat_drop_7: "unat (drop_bit 7 (v :: u64)) = unat v div 128"
  by (simp add: drop_bit_eq_div unat_div)

lemma drop_7_less: "(128 :: u64) \<le> v \<Longrightarrow> unat (drop_bit 7 v) < unat v"
  by (simp add: unat_drop_7 word_le_nat_alt)

function encodeVarintRaft :: "u64 \<Rightarrow> bytes" where
  "encodeVarintRaft v =
     (if v \<ge> 0x80 then ucast (v AND 0x7F OR 0x80) # encodeVarintRaft (drop_bit 7 v) else [ucast v])"
  by auto
termination
  by (relation "measure unat") (auto simp: drop_7_less)

function sovRaft :: "u64 \<Rightarrow> nat" where
  "sovRaft x = (let x = drop_bit 7 x in if x = 0 then 1 else Suc (sovRaft x))"
  by auto
termination
proof (relation "measure unat")
  fix x xa :: u64
  assume "xa = drop_bit 7 x" "xa \<noteq> 0"
  then have "0 < unat x div 128" using unat_drop_7 [of x] by (metis bot_nat_0.not_eq_extremum unat_eq_zero)
  then show "(xa, x) \<in> measure unat" using \<open>xa = drop_bit 7 x\<close> by (simp add: unat_drop_7 div_less_dividend)
qed simp

declare encodeVarintRaft.simps [simp del] sovRaft.simps [simp del]

fun varint_loop :: "nat \<Rightarrow> u64 \<Rightarrow> nat \<Rightarrow> bytes \<Rightarrow> (u64 \<times> nat) res" where
  "varint_loop shift x n [] = Inl (if shift \<ge> 64 then ErrIntOverflowRaft else ErrUnexpectedEOF)"
| "varint_loop shift x n (b # bs) =
     (if shift \<ge> 64 then Inl ErrIntOverflowRaft
      else
        let x = x OR push_bit shift (ucast (b AND 0x7F))
        in if b < 0x80 then Inr (x, Suc n) else varint_loop (shift + 7) x (Suc n) bs)"

definition getVarint :: "bytes \<Rightarrow> (u64 \<times> nat) res" where
  "getVarint bs = varint_loop 0 0 0 bs"

lemma byte_128: "(b :: byte) < 0x80 \<longleftrightarrow> \<not> bit b 7"
proof -
  have "bit b 7 \<longleftrightarrow> bit (unat b) 7" by (simp add: bit_unsigned_iff)
  also have "\<dots> \<longleftrightarrow> odd (unat b div 128)" by (simp add: bit_iff_odd)
  also have "\<dots> \<longleftrightarrow> 128 \<le> unat b"
  proof -
    have "unat b div 128 < 2" using byte_lt [of b] by (simp add: less_mult_imp_div_less)
    then have "unat b div 128 = 0 \<or> unat b div 128 = 1" by linarith
    then show ?thesis by (auto simp: div_eq_0_iff)
  qed
  finally show ?thesis by (simp add: word_less_nat_alt not_le)
qed

lemma mask_7: "(0x7F :: 'a :: len word) = mask 7"
  by (simp add: mask_eq_exp_minus_1)

lemma bit_80: "bit (0x80 :: 'a :: len word) n \<longleftrightarrow> n = 7 \<and> 7 < LENGTH('a)"
proof -
  have e: "(0x80 :: 'a word) = 2 ^ 7" by simp
  show ?thesis unfolding e bit_exp_iff by auto
qed

lemma high_byte:
  fixes v :: u64
  defines "b \<equiv> (ucast (v AND 0x7F OR 0x80) :: byte)"
  shows "\<not> b < 0x80" "ucast (b AND 0x7F) = take_bit 7 v"
proof -
  have bits: "bit b n \<longleftrightarrow> n < 7 \<and> bit v n \<or> n = 7" for n
    unfolding b_def bit_unsigned_iff bit_or_iff bit_and_iff bit_80 mask_7 bit_mask_iff by auto
  then show "\<not> b < 0x80" by (simp add: byte_128)
  show "ucast (b AND 0x7F) = take_bit 7 v"
    by (rule bit_word_eqI) (auto simp: mask_7 bit_unsigned_iff bit_and_iff bit_mask_iff bit_take_bit_iff bits)
qed

lemma low_byte:
  fixes v :: u64
  assumes "v < 0x80"
  shows "(ucast v :: byte) < 0x80" "ucast ((ucast v :: byte) AND 0x7F) = v"
proof -
  have n: "unat v < 128" using assms by (simp add: word_less_nat_alt)
  then have u: "unat (ucast v :: byte) = unat v" by (simp add: unsigned_ucast_eq take_bit_nat_eq_self)
  then show "(ucast v :: byte) < 0x80" using n by (simp add: word_less_nat_alt)
  have "take_bit 7 v = v" using n by (simp add: word_unat_eq_iff unsigned_take_bit_eq take_bit_nat_eq_self)
  moreover have "ucast ((ucast v :: byte) AND 0x7F) = take_bit 7 v"
    unfolding mask_7 by (rule bit_word_eqI) (auto simp: bit_simps)
  ultimately show "ucast ((ucast v :: byte) AND 0x7F) = v" by simp
qed

lemma split_7: "take_bit 7 v OR push_bit 7 (drop_bit 7 v) = (v :: u64)"
proof (rule bit_word_eqI)
  fix n assume "n < LENGTH(64)"
  then show "bit (take_bit 7 v OR push_bit 7 (drop_bit 7 v)) n = bit v n"
    by (cases "n < 7") (auto simp: bit_simps)
qed

lemma varint_loop_encode:
  assumes "shift < 64" "unat v < 2 ^ (64 - shift)"
  shows "varint_loop shift x n (encodeVarintRaft v @ rest) = Inr (x OR push_bit shift v, n + length (encodeVarintRaft v))"
  using assms
proof (induction v arbitrary: shift x n rule: encodeVarintRaft.induct)
  case (1 v)
  show ?case
  proof (cases "0x80 \<le> v")
    case False
    then have "v < 0x80" by simp
    then show ?thesis using False 1(2) low_byte [of v] by (subst (1 2) encodeVarintRaft.simps) (simp add: Let_def)
  next
    case True
    have "(2 :: nat) ^ 7 < 2 ^ (64 - shift)" using True 1(3) by (simp add: word_le_nat_alt)
    then have "7 < 64 - shift" by (rule power_less_imp_less_exp [rotated]) simp
    then have s: "shift + 7 < 64" "64 - shift = (64 - (shift + 7)) + 7" by simp_all
    have "unat v < 2 ^ (64 - (shift + 7)) * 2 ^ 7" using 1(3) unfolding s(2) power_add .
    then have "unat v div 128 < 2 ^ (64 - (shift + 7))" by (simp add: less_mult_imp_div_less)
    then have "varint_loop (shift + 7) y k (encodeVarintRaft (drop_bit 7 v) @ rest) =
        Inr (y OR push_bit (shift + 7) (drop_bit 7 v), k + length (encodeVarintRaft (drop_bit 7 v)))" for y k
      using 1(1) [OF True s(1)] by (simp add: unat_drop_7)
    moreover have "push_bit shift v = push_bit shift (take_bit 7 v) OR push_bit (shift + 7) (drop_bit 7 v)"
      by (subst (1) split_7 [of v, symmetric]) (simp add: push_bit_or push_bit_push_bit add.commute)
    ultimately show ?thesis
      using True 1(2) high_byte [of v] by (subst (1 2) encodeVarintRaft.simps) (simp add: Let_def or.assoc)
  qed
qed

lemma getVarint_encode: "getVarint (encodeVarintRaft v @ rest) = Inr (v, length (encodeVarintRaft v))"
  using varint_loop_encode [of 0 v 0 0 rest] unsigned_less [of v, where ?'a = nat] by (simp add: getVarint_def)

lemma getVarint_byte: "b < 0x80 \<Longrightarrow> getVarint (b # bs) = Inr (ucast b, 1)"
proof -
  assume b: "b < 0x80"
  then have "\<not> bit b 7" by (simp add: byte_128)
  have "b AND 0x7F = b"
  proof (rule bit_word_eqI)
    fix n assume "n < LENGTH(8)"
    then have "n < 7 \<or> n = 7" by auto
    then show "bit (b AND 0x7F) n = bit b n" using \<open>\<not> bit b 7\<close> by (auto simp: mask_7 bit_and_iff bit_mask_iff)
  qed
  with b show ?thesis by (simp add: getVarint_def Let_def)
qed

lemma varint_loop_consumed: "varint_loop shift x n bs = Inr (v, k) \<Longrightarrow> n < k \<and> k \<le> n + length bs"
  by (induction bs arbitrary: shift x n) (auto simp: Let_def split: if_splits, fastforce+)

lemma getVarint_consumed: "getVarint bs = Inr (v, k) \<Longrightarrow> 0 < k \<and> k \<le> length bs"
  unfolding getVarint_def by (drule varint_loop_consumed) simp

lemma length_encodeVarint: "length (encodeVarintRaft v) = sovRaft v"
proof (induction v rule: encodeVarintRaft.induct)
  case (1 v)
  have "v \<ge> 0x80 \<longleftrightarrow> drop_bit 7 v \<noteq> 0"
  proof -
    have "drop_bit 7 v = 0 \<longleftrightarrow> unat v div 128 = 0" by (metis unat_drop_7 unat_eq_zero)
    then show ?thesis by (auto simp: word_le_nat_alt div_eq_0_iff)
  qed
  with 1 show ?case by (subst encodeVarintRaft.simps, subst sovRaft.simps) (auto simp: Let_def)
qed

lemma sovRaft_bound: "unat v < 128 ^ Suc n \<Longrightarrow> sovRaft v \<le> Suc n"
proof (induction n arbitrary: v)
  case 0
  then have "drop_bit 7 v = 0" by (metis div_less power_one_right unat_drop_7 unat_eq_zero One_nat_def)
  then show ?case by (subst sovRaft.simps) simp
next
  case (Suc n)
  have "unat (drop_bit 7 v) < 128 ^ Suc n" using Suc.prems by (simp add: unat_drop_7 less_mult_imp_div_less)
  from Suc.IH [OF this] show ?case by (subst sovRaft.simps) (simp add: Let_def)
qed

lemma sovRaft_10: "sovRaft v \<le> 10"
  using sovRaft_bound [of v 9] unsigned_less [of v, where ?'a = nat] by simp

lemma sovRaft_pos: "0 < sovRaft v"
  by (subst sovRaft.simps) (simp add: Let_def)

section \<open>Signed readings\<close>

lemma uint_eq: "uint (w :: 'a :: len word) = int (unat w)" by simp

lemma sint_small:
  fixes w :: "'a :: len word"
  assumes "unat w < 2 ^ (LENGTH('a) - Suc 0)"
  shows "sint w = int (unat w)"
proof -
  have u: "uint w < 2 ^ (LENGTH('a) - Suc 0)"
    using assms by (simp only: uint_eq of_nat_less_numeral_power_cancel_iff)
  have "- (2 ^ (LENGTH('a) - Suc 0)) \<le> uint w"
    using order.trans [of "- (2 ^ (LENGTH('a) - Suc 0))" 0 "uint w"] by simp
  then have "sint w = uint w" unfolding sint_uint using u by (rule signed_take_bit_int_eq_self)
  then show ?thesis by simp
qed

lemma sint_nonneg:
  fixes w :: u64
  assumes "unat w \<le> 9223372036854775807"
  shows "\<not> sint w < 0"
proof -
  have "unat w < 2 ^ (LENGTH(64) - Suc 0)" using assms by simp
  then show ?thesis using sint_small [of w] by simp
qed

end
