(* ===== verification/Wire.thy ===== *)
theory Wire
  imports Varint
begin

text \<open>
  The parts that all \<open>Unmarshal\<close> methods of \<^verbatim>\<open>raft/raftpb\<close> share: skipping unknown fields, the
  loop over the fields of a message and the reading of integer and length-delimited fields, with the
  lemmas that reading an encoded field gives its value back.
\<close>

unbundle bit_operations_syntax

section \<open>Skipping unknown fields\<close>

text \<open>
  \<open>skip_group\<close> is the loop over the fields of a group; its first argument is the index reached in
  the bytes \<open>skipRaft\<close> was called on. An index that leaves the 64-bit integers wraps to a negative
  number in the code, which is its test for an invalid length.
\<close>

abbreviation max_int :: nat where
  "max_int \<equiv> 9223372036854775807"

function skipRaft :: "bytes \<Rightarrow> nat res" and skip_group :: "nat \<Rightarrow> bytes \<Rightarrow> nat res" where
  "skipRaft dAtA =
     (if dAtA = [] then Inl (GoPanic ''unreachable'')
      else case getVarint dAtA of
        Inl e \<Rightarrow> Inl e
      | Inr (wire, n) \<Rightarrow>
          let wireType = unat (wire AND 7); rest = drop n dAtA
          in if wireType = 0 then (case getVarint rest of Inl e \<Rightarrow> Inl e | Inr (_, k) \<Rightarrow> Inr (n + k))
             else if wireType = 1 then Inr (n + 8)
             else if wireType = 2 then
               (case getVarint rest of
                  Inl e \<Rightarrow> Inl e
                | Inr (len, k) \<Rightarrow>
                    if sint len < 0 \<or> n + k + unat len > max_int then Inl ErrInvalidLengthRaft
                    else Inr (n + k + unat len))
             else if wireType = 3 then skip_group n rest
             else if wireType = 4 then Inr n
             else if wireType = 5 then Inr (n + 4)
             else Inl (ErrOther ''proto: illegal wireType''))"
| "skip_group iNdEx dAtA =
     (case getVarint dAtA of
        Inl e \<Rightarrow> Inl e
      | Inr (innerWire, k) \<Rightarrow>
          if unat (innerWire AND 7) = 4 then Inr (iNdEx + k)
          else case skipRaft dAtA of
            Inl e \<Rightarrow> Inl e
          | Inr next \<Rightarrow>
              if iNdEx + next > max_int then Inl ErrInvalidLengthRaft
              else if next = 0 then Inl (GoPanic ''no progress'')
              else skip_group (iNdEx + next) (drop next dAtA))"
  by pat_completeness auto
termination
  by (relation "measure (\<lambda>x. case x of Inl d \<Rightarrow> 2 * length d | Inr (i, d) \<Rightarrow> Suc (2 * length d))")
    (auto dest!: getVarint_consumed)

declare skipRaft.simps [simp del] skip_group.simps [simp del]

text \<open>A skip always makes progress, so the guard in \<open>skip_group\<close> is never taken.\<close>

lemma skip_progress:
  "skipRaft d = Inr n \<Longrightarrow> 0 < n" "skip_group i d = Inr n \<Longrightarrow> i < n"
proof (induction d and i d arbitrary: n and n rule: skipRaft_skip_group.induct)
  case (1 d)
  then show ?case
    by (subst (asm) skipRaft.simps)
      (auto simp: Let_def dest!: getVarint_consumed split: if_splits sum.splits prod.splits, fastforce)
next
  case (2 i d)
  then show ?case
    by (subst (asm) skip_group.simps)
      (auto dest!: getVarint_consumed split: if_splits sum.splits prod.splits, fastforce)
qed

section \<open>The loop over the fields of a message\<close>

text \<open>
  \<open>field f wt rest m\<close> is the \<open>switch\<close> on the field number: it gets the bytes after the tag and
  returns the message and the number of bytes read, or \<open>None\<close> for the default case, in which the
  field is skipped. \<open>l\<close> is the length of the whole input.
\<close>

type_synonym 'm field = "int \<Rightarrow> nat \<Rightarrow> bytes \<Rightarrow> 'm \<Rightarrow> ('m \<times> nat) option res"

function proto_loop :: "nat \<Rightarrow> 'm field \<Rightarrow> bytes \<Rightarrow> 'm \<Rightarrow> 'm res" where
  "proto_loop l field dAtA m =
     (if dAtA = [] then Inr m
      else case getVarint dAtA of
        Inl e \<Rightarrow> Inl e
      | Inr (wire, n) \<Rightarrow>
          let fieldNum = sint (ucast (drop_bit 3 wire) :: 32 word); wireType = unat (wire AND 7)
          in if wireType = 4 then Inl (ErrOther ''proto: wiretype end group for non-group'')
             else if fieldNum \<le> 0 then Inl (ErrOther ''proto: illegal tag'')
             else case field fieldNum wireType (drop n dAtA) m of
               Inl e \<Rightarrow> Inl e
             | Inr (Some (m', k)) \<Rightarrow> proto_loop l field (drop (n + k) dAtA) m'
             | Inr None \<Rightarrow>
                 (case skipRaft dAtA of
                    Inl e \<Rightarrow> Inl e
                  | Inr skippy \<Rightarrow>
                      if l - length dAtA + skippy > max_int then Inl ErrInvalidLengthRaft
                      else if skippy > length dAtA then Inl ErrUnexpectedEOF
                      else proto_loop l field (drop skippy dAtA) m))"
  by auto
termination
  by (relation "measure (\<lambda>(l, f, d, m). length d)") (auto dest: getVarint_consumed skip_progress(1))

declare proto_loop.simps [simp del]

definition wrong_wireType :: go_error where
  "wrong_wireType = ErrOther ''proto: wrong wireType''"

definition uint_field :: "nat \<Rightarrow> bytes \<Rightarrow> (u64 \<Rightarrow> 'm res) \<Rightarrow> ('m \<times> nat) option res" where
  "uint_field wireType d upd =
     (if wireType \<noteq> 0 then Inl wrong_wireType
      else bind_res (getVarint d) (\<lambda>(v, n). bind_res (upd v) (\<lambda>m. Inr (Some (m, n)))))"

definition bytes_field :: "nat \<Rightarrow> nat \<Rightarrow> bytes \<Rightarrow> (bytes \<Rightarrow> 'm res) \<Rightarrow> ('m \<times> nat) option res" where
  "bytes_field l wireType d upd =
     (if wireType \<noteq> 2 then Inl wrong_wireType
      else bind_res (getVarint d) (\<lambda>(len, n).
        if sint len < 0 \<or> l - length d + n + unat len > max_int then Inl ErrInvalidLengthRaft
        else if n + unat len > length d then Inl ErrUnexpectedEOF
        else bind_res (upd (take (unat len) (drop n d))) (\<lambda>m. Inr (Some (m, n + unat len)))))"

lemma proto_loop_Nil [simp]: "proto_loop l field [] m = Inr m"
  by (subst proto_loop.simps) simp

lemma proto_loop_field:
  assumes "tag < 0x80" "unat tag mod 8 \<noteq> 4" "0 < unat tag div 8"
    and "field (int (unat tag div 8)) (unat tag mod 8) (payload @ rest) m = Inr (Some (m', length payload))"
  shows "proto_loop l field (tag # payload @ rest) m = proto_loop l field rest m'"
proof -
  have t: "unat tag < 128" using assms(1) by (simp add: word_less_nat_alt)
  have u: "unat (ucast tag :: u64) = unat tag"
    using t by (simp add: unsigned_ucast_eq take_bit_nat_eq_self)
  have wt: "unat ((ucast tag :: u64) AND 7) = unat tag mod 8"
  proof -
    have m: "(7 :: u64) = mask 3" by (simp add: mask_eq_exp_minus_1)
    have "unat ((ucast tag :: u64) AND 7) = take_bit 3 (unat (ucast tag :: u64))"
      unfolding m take_bit_eq_mask [symmetric] by (simp add: unsigned_take_bit_eq)
    then show ?thesis by (simp add: take_bit_eq_mod u)
  qed
  have d: "unat (drop_bit 3 (ucast tag :: u64)) = unat tag div 8" by (simp add: drop_bit_eq_div unat_div u)
  then have "unat (ucast (drop_bit 3 (ucast tag :: u64)) :: 32 word) = unat tag div 8"
    using t by (simp add: unsigned_ucast_eq take_bit_nat_eq_self)
  then have f: "sint (ucast (drop_bit 3 (ucast tag :: u64)) :: 32 word) = int (unat tag div 8)"
    using t sint_small [of "ucast (drop_bit 3 (ucast tag :: u64)) :: 32 word"] by simp
  show ?thesis
    by (subst proto_loop.simps) (use assms wt f in \<open>simp add: getVarint_byte [OF assms(1)] Let_def\<close>)
qed

lemma uint_field_encode:
  "upd v = Inr m \<Longrightarrow> uint_field 0 (encodeVarintRaft v @ rest) upd = Inr (Some (m, length (encodeVarintRaft v)))"
  by (simp add: uint_field_def getVarint_encode)

definition lenDelimited :: "bytes \<Rightarrow> bytes" where
  "lenDelimited bs = encodeVarintRaft (of_nat (length bs)) @ bs"

lemma bytes_field_encode:
  assumes "upd bs = Inr m" "length (lenDelimited bs @ rest) \<le> l" "l \<le> max_int"
  shows "bytes_field l 2 (lenDelimited bs @ rest) upd = Inr (Some (m, length (lenDelimited bs)))"
proof -
  let ?v = "of_nat (length bs) :: u64"
  have b: "length bs \<le> max_int" using assms(2,3) by (simp add: lenDelimited_def)
  then have u: "unat ?v = length bs" by (simp add: unat_of_nat_u64)
  have "\<not> sint ?v < 0" using b u by (intro sint_nonneg) simp
  moreover have "\<not> l - length (lenDelimited bs @ rest) + length (encodeVarintRaft ?v) + length bs > max_int"
    using assms(2,3) by (simp add: lenDelimited_def)
  ultimately show ?thesis
    using assms(1) u by (simp add: bytes_field_def lenDelimited_def getVarint_encode)
qed

end
