(* ===== verification/Codec.thy ===== *)
theory Codec
  imports Wire
begin

text \<open>
  The encodings of \<^verbatim>\<open>raft/raftpb\<close>: the hard state, membership changes, snapshot files,
  memberships and snapshots in the protocol buffer format. Each message has its encoder, the size its
  buffer is allocated with, the switch over its fields and its decoder. The lemmas show that decoding
  an encoded message gives it back and that the computed size is the length written. An enumeration
  value outside the declared ones is not a value of the model's type; decoding it is an error here.
  A nil byte slice and an empty one are not distinguished; both are left out by the encoders.
\<close>

section \<open>Strings and flags\<close>

definition str_bytes :: "string \<Rightarrow> bytes" where
  "str_bytes s = map (\<lambda>c. of_nat (of_char c)) s"

definition bytes_str :: "bytes \<Rightarrow> string" where
  "bytes_str bs = map (\<lambda>b. char_of (unat b)) bs"

definition flag :: "bool \<Rightarrow> bytes" where
  "flag b = [if b then 1 else 0]"

lemma char_byte: "char_of (unat (of_nat (of_char c) :: byte)) = c"
  by (simp add: unat_of_nat_byte)

lemma bytes_str_bytes [simp]: "bytes_str (str_bytes s) = s"
  by (induction s) (simp_all add: bytes_str_def str_bytes_def char_byte)

lemma length_str_bytes [simp]: "length (str_bytes s) = length s"
  by (simp add: str_bytes_def)

lemma flag_varint: "flag b = encodeVarintRaft (if b then 1 else 0)"
  by (subst encodeVarintRaft.simps) (simp add: flag_def word_le_nat_alt)

lemma length_flag [simp]: "length (flag b) = 1"
  by (simp add: flag_def)

section \<open>Hard state\<close>

definition State_MarshalTo :: "State \<Rightarrow> bytes" where
  "State_MarshalTo m =
     0x8 # encodeVarintRaft (st_Term m) @
     0x10 # encodeVarintRaft (st_Vote m) @
     0x18 # encodeVarintRaft (st_Commit m)"

definition State_Size :: "State \<Rightarrow> nat" where
  "State_Size m = 1 + sovRaft (st_Term m) + 1 + sovRaft (st_Vote m) + 1 + sovRaft (st_Commit m)"

definition State_field :: "State field" where
  "State_field fieldNum wireType d m =
     (if fieldNum = 1 then uint_field wireType d (\<lambda>v. Inr (m\<lparr>st_Term := v\<rparr>))
      else if fieldNum = 2 then uint_field wireType d (\<lambda>v. Inr (m\<lparr>st_Vote := v\<rparr>))
      else if fieldNum = 3 then uint_field wireType d (\<lambda>v. Inr (m\<lparr>st_Commit := v\<rparr>))
      else Inr None)"

definition State_Unmarshal :: "bytes \<Rightarrow> State \<Rightarrow> State res" where
  "State_Unmarshal dAtA m = proto_loop (length dAtA) State_field dAtA m"

lemma State_size: "length (State_MarshalTo m) = State_Size m"
  by (simp add: State_MarshalTo_def State_Size_def length_encodeVarint)

lemma State_decode: "State_Unmarshal (State_MarshalTo m) m0 = Inr m"
proof -
  have f: "proto_loop l State_field (0x8 # encodeVarintRaft v @ rest) m = proto_loop l State_field rest (m\<lparr>st_Term := v\<rparr>)"
    "proto_loop l State_field (0x10 # encodeVarintRaft v @ rest) m = proto_loop l State_field rest (m\<lparr>st_Vote := v\<rparr>)"
    "proto_loop l State_field (0x18 # encodeVarintRaft v @ rest) m = proto_loop l State_field rest (m\<lparr>st_Commit := v\<rparr>)"
    for l v rest m
    by (rule proto_loop_field; simp add: State_field_def uint_field_encode)+
  show ?thesis
    using f(3) [of _ _ "[]"] unfolding State_Unmarshal_def State_MarshalTo_def by (simp add: f)
qed

section \<open>Membership changes\<close>

definition ConfigChangeType_num :: "ConfigChangeType \<Rightarrow> u64" where
  "ConfigChangeType_num t = (case t of AddNode \<Rightarrow> 0 | RemoveNode \<Rightarrow> 1 | AddNonVoting \<Rightarrow> 2 | AddWitness \<Rightarrow> 3)"

definition ConfigChangeType_of :: "32 word \<Rightarrow> ConfigChangeType res" where
  "ConfigChangeType_of x =
     (if x = 0 then Inr AddNode else if x = 1 then Inr RemoveNode else if x = 2 then Inr AddNonVoting
      else if x = 3 then Inr AddWitness else Inl (ErrOther ''unknown config change type''))"

definition cc_Marshal :: "ConfigChange \<Rightarrow> bytes" where
  "cc_Marshal m =
     0x8 # encodeVarintRaft (cc_ConfigChangeId m) @
     0x10 # encodeVarintRaft (ConfigChangeType_num (cc_Type m)) @
     0x18 # encodeVarintRaft (cc_ReplicaID m) @
     0x22 # lenDelimited (str_bytes (cc_Address m)) @
     0x28 # flag (cc_Initialize m)"

definition cc_Size :: "ConfigChange \<Rightarrow> nat" where
  "cc_Size m =
     1 + sovRaft (cc_ConfigChangeId m) + 1 + sovRaft (ConfigChangeType_num (cc_Type m)) +
     1 + sovRaft (cc_ReplicaID m) +
     (let l = length (cc_Address m) in 1 + l + sovRaft (of_nat l)) + 2"

definition cc_field :: "nat \<Rightarrow> ConfigChange field" where
  "cc_field l fieldNum wireType d m =
     (if fieldNum = 1 then uint_field wireType d (\<lambda>v. Inr (m\<lparr>cc_ConfigChangeId := v\<rparr>))
      else if fieldNum = 2 then
        uint_field wireType d (\<lambda>v. bind_res (ConfigChangeType_of (ucast v)) (\<lambda>t. Inr (m\<lparr>cc_Type := t\<rparr>)))
      else if fieldNum = 3 then uint_field wireType d (\<lambda>v. Inr (m\<lparr>cc_ReplicaID := v\<rparr>))
      else if fieldNum = 4 then bytes_field l wireType d (\<lambda>bs. Inr (m\<lparr>cc_Address := bytes_str bs\<rparr>))
      else if fieldNum = 5 then uint_field wireType d (\<lambda>v. Inr (m\<lparr>cc_Initialize := (v \<noteq> 0)\<rparr>))
      else Inr None)"

definition cc_Unmarshal :: "bytes \<Rightarrow> ConfigChange \<Rightarrow> ConfigChange res" where
  "cc_Unmarshal dAtA m = proto_loop (length dAtA) (cc_field (length dAtA)) dAtA m"

lemma cc_size: "length (cc_Marshal m) = cc_Size m"
  by (simp add: cc_Marshal_def cc_Size_def length_encodeVarint lenDelimited_def Let_def)

lemma ConfigChangeType_num_of: "ConfigChangeType_of (ucast (ConfigChangeType_num t)) = Inr t"
  by (cases t) (simp_all add: ConfigChangeType_num_def ConfigChangeType_of_def)

lemma cc_decode:
  assumes "length (cc_Marshal m) \<le> max_int"
  shows "cc_Unmarshal (cc_Marshal m) m0 = Inr m"
proof -
  let ?l = "length (cc_Marshal m)" let ?f = "cc_field ?l"
  have f: "proto_loop ?l ?f (0x8 # encodeVarintRaft v @ rest) m = proto_loop ?l ?f rest (m\<lparr>cc_ConfigChangeId := v\<rparr>)"
    "proto_loop ?l ?f (0x10 # encodeVarintRaft (ConfigChangeType_num t) @ rest) m = proto_loop ?l ?f rest (m\<lparr>cc_Type := t\<rparr>)"
    "proto_loop ?l ?f (0x18 # encodeVarintRaft v @ rest) m = proto_loop ?l ?f rest (m\<lparr>cc_ReplicaID := v\<rparr>)"
    "proto_loop ?l ?f (0x28 # flag b @ rest) m = proto_loop ?l ?f rest (m\<lparr>cc_Initialize := b\<rparr>)"
    for v t rest m b
    unfolding flag_varint
    by (rule proto_loop_field; simp add: cc_field_def uint_field_encode ConfigChangeType_num_of)+
  have g: "proto_loop ?l ?f (0x22 # lenDelimited (str_bytes s) @ rest) m = proto_loop ?l ?f rest (m\<lparr>cc_Address := s\<rparr>)"
    if "length (lenDelimited (str_bytes s) @ rest) \<le> ?l" for s rest m
    by (rule proto_loop_field; simp add: cc_field_def bytes_field_encode [OF _ that assms])
  have "length (lenDelimited (str_bytes (cc_Address m)) @ 0x28 # flag (cc_Initialize m)) \<le> ?l"
    by (simp add: cc_Marshal_def)
  then show ?thesis
    using f(4) [of _ "[]"] unfolding cc_Unmarshal_def by (subst (3) cc_Marshal_def) (simp add: f g)
qed

text \<open>
  C36: Encoding a membership change and decoding the bytes gives the change back, whatever the fields of
  the message decoded into were, and the buffer allocated for the encoding has exactly its length. The
  same holds of the hard state.
\<close>
theorem raftpb_round_trip:
  assumes "cc_Size cc \<le> max_int"
  shows "cc_Unmarshal (cc_Marshal cc) cc0 = Inr cc \<and> length (cc_Marshal cc) = cc_Size cc \<and>
    State_Unmarshal (State_MarshalTo st) st0 = Inr st \<and> length (State_MarshalTo st) = State_Size st"
  using cc_decode [of cc cc0] assms by (simp add: cc_size State_decode State_size)

lemma raftpb_round_trip_witness:
  "let cc = \<lparr>cc_ConfigChangeId = 300, cc_Type = AddNonVoting, cc_ReplicaID = 2, cc_Address = ''a1:1'', cc_Initialize = True\<rparr>
   in cc_Size cc \<le> max_int \<and> cc_Unmarshal (cc_Marshal cc) (cc\<lparr>cc_Address := ''b''\<rparr>) = Inr cc"
proof -
  let ?cc = "\<lparr>cc_ConfigChangeId = 300, cc_Type = AddNonVoting, cc_ReplicaID = 2, cc_Address = ''a1:1'', cc_Initialize = True\<rparr>"
  have "cc_Size ?cc \<le> max_int"
    using sovRaft_10 [of 300] sovRaft_10 [of 2] sovRaft_10 [of 4]
    by (simp add: cc_Size_def ConfigChangeType_num_def Let_def)
  then show ?thesis using raftpb_round_trip [of ?cc "?cc\<lparr>cc_Address := ''b''\<rparr>"] by (simp add: Let_def)
qed

end
