(* ===== verification/Peer.thy ===== *)
theory Peer
  imports RaftHandlers LogStack Codec
begin

text \<open>
  The interface of the core to the layers above (\<open>peer.go\<close>): requests are turned into messages, and the
  state to persist, to send and to apply is handed out as an \<open>Update\<close>, which is confirmed by \<open>Commit\<close>.
  The main result is that the update handed out is always consistent with the log.
\<close>

section \<open>Launching a replica\<close>

record PeerAddress =
  pa_Address :: string
  pa_ReplicaID :: u64

record Peer =
  pr_raft :: raft
  pr_prevState :: State

definition checkLaunchRequest :: "Config \<Rightarrow> PeerAddress list \<Rightarrow> bool \<Rightarrow> bool \<Rightarrow> unit res" where
  "checkLaunchRequest c addresses initial newNode =
     (if cf_ReplicaID c = 0 then Inl (GoPanic ''config.ReplicaID must not be zero'')
      else if initial \<and> newNode \<and> addresses = [] then Inl (GoPanic ''addresses must be specified'')
      else if length (remdups (map pa_Address addresses)) \<noteq> length addresses
        then Inl (GoPanic ''duplicated address found'')
      else if initial \<and> cf_IsWitness c then Inl (GoPanic ''witness can not be used as initial member'')
      else if initial \<and> cf_IsNonVoting c then Inl (GoPanic ''non-voting can not be used as initial member'')
      else Inr ())"

definition bootstrap_entry :: "nat \<Rightarrow> PeerAddress \<Rightarrow> Entry" where
  "bootstrap_entry i peer =
     zero_Entry\<lparr>e_Type := ConfigChangeEntry, e_Term := 1, e_Index := of_nat (i + 1),
       e_Cmd := cc_Marshal \<lparr>cc_ConfigChangeId = 0, cc_Type = AddNode, cc_ReplicaID = pa_ReplicaID peer,
                           cc_Address = pa_Address peer, cc_Initialize = True\<rparr>\<rparr>"

text \<open>\<open>sort.Slice\<close> is not stable; replicas with equal identifiers are not distinguished further here.\<close>

definition bootstrap :: "raft \<Rightarrow> PeerAddress list \<Rightarrow> raft res" where
  "bootstrap r addresses =
     (let addresses = sort_key pa_ReplicaID addresses;
          ents = map (\<lambda>(i, peer). bootstrap_entry i peer) (enumerate 0 addresses)
      in bind_res (lg_append (r_log r) ents) (\<lambda>l.
           foldM (\<lambda>peer r. addNode r (pa_ReplicaID peer)) addresses
             (r\<lparr>r_log := l\<lparr>lg_committed := of_nat (length ents)\<rparr>\<rparr>)))"

definition Launch :: "Config \<Rightarrow> ILogDB \<Rightarrow> (nat \<Rightarrow> nat \<Rightarrow> nat) \<Rightarrow> go_rt \<Rightarrow> RaftEvent list option \<Rightarrow>
    PeerAddress list \<Rightarrow> bool \<Rightarrow> bool \<Rightarrow> Peer res" where
  "Launch c logdb grow rt events addresses initial newNode =
     bind_res (checkLaunchRequest c addresses initial newNode) (\<lambda>_.
     bind_res (newRaft c logdb grow rt) (\<lambda>r.
       let r = r\<lparr>r_events := events\<rparr>; prevState = raftState r
       in bind_res (if initial \<and> newNode
                    then bind_res (becomeFollower r 1 NoLeader) (\<lambda>r. bootstrap r addresses)
                    else Inr r) (\<lambda>r.
            Inr \<lparr>pr_raft = r, pr_prevState = prevState\<rparr>)))"

section \<open>Requests as messages\<close>

definition peer_step :: "Peer \<Rightarrow> Message \<Rightarrow> Peer res" where
  "peer_step p m = bind_res (Handle (pr_raft p) m) (\<lambda>r. Inr (p\<lparr>pr_raft := r\<rparr>))"

definition peer_Tick :: "Peer \<Rightarrow> Peer res" where
  "peer_Tick p = peer_step p (zero_Message LocalTick)"

definition peer_QuiescedTick :: "Peer \<Rightarrow> Peer res" where
  "peer_QuiescedTick p = peer_step p ((zero_Message LocalTick)\<lparr>m_Reject := True\<rparr>)"

definition QueryRaftLog :: "Peer \<Rightarrow> u64 \<Rightarrow> u64 \<Rightarrow> u64 \<Rightarrow> Peer res" where
  "QueryRaftLog p firstIndex lastIndex maxSize =
     peer_step p ((zero_Message LogQuery)\<lparr>m_From := firstIndex, m_To := lastIndex, m_Hint := maxSize\<rparr>)"

definition RequestLeaderTransfer :: "Peer \<Rightarrow> u64 \<Rightarrow> Peer res" where
  "RequestLeaderTransfer p target =
     peer_step p ((zero_Message LeaderTransfer)\<lparr>m_To := r_replicaID (pr_raft p), m_Hint := target\<rparr>)"

definition ProposeEntries :: "Peer \<Rightarrow> Entry list \<Rightarrow> Peer res" where
  "ProposeEntries p ents =
     peer_step p ((zero_Message Propose)\<lparr>m_From := r_replicaID (pr_raft p), m_Entries := ents\<rparr>)"

definition ProposeConfigChange :: "Peer \<Rightarrow> ConfigChange \<Rightarrow> u64 \<Rightarrow> Peer res" where
  "ProposeConfigChange p cc key =
     peer_step p ((zero_Message Propose)
       \<lparr>m_Entries := [zero_Entry\<lparr>e_Type := ConfigChangeEntry, e_Cmd := cc_Marshal cc, e_Key := key\<rparr>]\<rparr>)"

definition ApplyConfigChange :: "Peer \<Rightarrow> ConfigChange \<Rightarrow> Peer res" where
  "ApplyConfigChange p cc =
     (if cc_ReplicaID cc = NoLeader then Inr (p\<lparr>pr_raft := clearPendingConfigChange (pr_raft p)\<rparr>)
      else peer_step p ((zero_Message ConfigChangeEvent)
             \<lparr>m_Hint := cc_ReplicaID cc, m_HintHigh := ConfigChangeType_num (cc_Type cc)\<rparr>))"

definition RejectConfigChange :: "Peer \<Rightarrow> Peer res" where
  "RejectConfigChange p = peer_step p ((zero_Message ConfigChangeEvent)\<lparr>m_Reject := True\<rparr>)"

definition RestoreRemotes :: "Peer \<Rightarrow> Snapshot \<Rightarrow> Peer res" where
  "RestoreRemotes p ss = peer_step p ((zero_Message SnapshotReceived)\<lparr>m_Snapshot := ss\<rparr>)"

definition ReportUnreachableNode :: "Peer \<Rightarrow> u64 \<Rightarrow> Peer res" where
  "ReportUnreachableNode p replicaID = peer_step p ((zero_Message Unreachable)\<lparr>m_From := replicaID\<rparr>)"

definition ReportSnapshotStatus :: "Peer \<Rightarrow> u64 \<Rightarrow> bool \<Rightarrow> Peer res" where
  "ReportSnapshotStatus p replicaID reject =
     peer_step p ((zero_Message SnapshotStatus)\<lparr>m_From := replicaID, m_Reject := reject\<rparr>)"

definition peer_ReadIndex :: "Peer \<Rightarrow> SystemCtx \<Rightarrow> Peer res" where
  "peer_ReadIndex p ctx =
     peer_step p ((zero_Message ReadIndex)\<lparr>m_Hint := ctx_Low ctx, m_HintHigh := ctx_High ctx\<rparr>)"

definition peer_Handle :: "Peer \<Rightarrow> Message \<Rightarrow> Peer res" where
  "peer_Handle p m =
     (if isLocalMessageType (m_Type m) then Inl (GoPanic ''local message sent to Step'')
      else
        let r = pr_raft p
        in if mhas (r_remotes r) (m_From m) \<or> mhas (r_nonVotings r) (m_From m) \<or> mhas (r_witnesses r) (m_From m) \<or>
              \<not> isResponseMessageType (m_Type m)
           then peer_step p m else Inr p)"

definition NotifyRaftLastApplied :: "Peer \<Rightarrow> u64 \<Rightarrow> Peer" where
  "NotifyRaftLastApplied p lastApplied = p\<lparr>pr_raft := setApplied (pr_raft p) lastApplied\<rparr>"

section \<open>Updates\<close>

definition HasEntryToApply :: "Peer \<Rightarrow> bool" where
  "HasEntryToApply p \<longleftrightarrow> hasEntriesToApply (r_log (pr_raft p))"

definition HasUpdate :: "Peer \<Rightarrow> bool \<Rightarrow> bool" where
  "HasUpdate p moreToApply \<longleftrightarrow>
     (let r = pr_raft p; pst = raftState r in
      length (lg_entriesToSave (r_log r)) > 0 \<or> r_logQueryResult r \<noteq> None \<or> r_leaderUpdate r \<noteq> None \<or>
      length (r_msgs r) > 0 \<or> moreToApply \<and> hasEntriesToApply (r_log r) \<or>
      \<not> IsEmptyState pst \<and> \<not> IsStateEqual pst (pr_prevState p) \<or>
      (case im_snapshot (lg_inmem (r_log r)) of None \<Rightarrow> False | Some ss \<Rightarrow> \<not> IsEmptySnapshot ss) \<or>
      length (r_readyToRead r) \<noteq> 0 \<or> length (r_droppedEntries r) > 0 \<or> length (r_droppedReadIndexes r) > 0)"

definition validateUpdate :: "Update \<Rightarrow> unit res" where
  "validateUpdate ud =
     (if st_Commit (ud_State ud) > 0 \<and> length (ud_CommittedEntries ud) > 0 \<and>
         e_Index (last (ud_CommittedEntries ud)) > st_Commit (ud_State ud)
      then Inl (GoPanic ''trying to apply not committed entry'')
      else if length (ud_CommittedEntries ud) > 0 \<and> length (ud_EntriesToSave ud) > 0 \<and>
         e_Index (last (ud_CommittedEntries ud)) > e_Index (last (ud_EntriesToSave ud))
      then Inl (GoPanic ''trying to apply not saved entry'')
      else Inr ())"

definition setFastApply :: "Update \<Rightarrow> Update" where
  "setFastApply ud =
     (let fast = IsEmptySnapshot (ud_Snapshot ud);
          fast = (if fast \<and> length (ud_CommittedEntries ud) > 0 \<and> length (ud_EntriesToSave ud) > 0 \<and>
                     e_Index (last (ud_CommittedEntries ud)) \<ge> e_Index (hd (ud_EntriesToSave ud)) \<and>
                     e_Index (last (ud_CommittedEntries ud)) \<le> e_Index (last (ud_EntriesToSave ud))
                  then False else fast)
      in ud\<lparr>ud_FastApply := fast\<rparr>)"

definition getUpdateCommit :: "Update \<Rightarrow> UpdateCommit" where
  "getUpdateCommit ud =
     (let uc = zero_UpdateCommit\<lparr>uc_ReadyToRead := of_nat (length (ud_ReadyToReads ud)), uc_LastApplied := ud_LastApplied ud\<rparr>;
          uc = (if length (ud_CommittedEntries ud) > 0
                then uc\<lparr>uc_Processed := e_Index (last (ud_CommittedEntries ud))\<rparr> else uc);
          uc = (if length (ud_EntriesToSave ud) > 0
                then let lastEntry = last (ud_EntriesToSave ud)
                     in uc\<lparr>uc_StableLogTo := e_Index lastEntry, uc_StableLogTerm := e_Term lastEntry\<rparr> else uc)
      in if \<not> IsEmptySnapshot (ud_Snapshot ud)
         then let to = ss_Index (ud_Snapshot ud)
              in uc\<lparr>uc_StableSnapshotTo := to, uc_Processed := max (uc_Processed uc) to\<rparr>
         else uc)"

text \<open>The messages of the update share their memory with those of the replica, so both get the shard.\<close>

definition getUpdate :: "Peer \<Rightarrow> bool \<Rightarrow> u64 \<Rightarrow> (Peer \<times> Update) res" where
  "getUpdate p moreToApply lastApplied =
     (let r = pr_raft p; l = r_log r;
          msgs = map (\<lambda>m. m\<lparr>m_ShardID := r_shardID r\<rparr>) (r_msgs r);
          p = p\<lparr>pr_raft := r\<lparr>r_msgs := msgs\<rparr>\<rparr>
      in bind_res (if moreToApply then entriesToApply l else Inr []) (\<lambda>toApply.
           Inr (p, zero_Update\<lparr>ud_ShardID := r_shardID r, ud_ReplicaID := r_replicaID r,
             ud_EntriesToSave := lg_entriesToSave l, ud_Messages := msgs, ud_LastApplied := lastApplied,
             ud_FastApply := True,
             ud_LogQueryResult := (case r_logQueryResult r of Some q \<Rightarrow> q | None \<Rightarrow> zero_LogQueryResult),
             ud_LeaderUpdate := (case r_leaderUpdate r of Some u \<Rightarrow> u | None \<Rightarrow> zero_LeaderUpdate),
             ud_CommittedEntries := toApply,
             ud_MoreCommittedEntries := (length toApply > 0 \<and> hasMoreEntriesToApply l (e_Index (last toApply))),
             ud_State := (if \<not> IsStateEqual (raftState r) (pr_prevState p) then raftState r else zero_State),
             ud_Snapshot := (case im_snapshot (lg_inmem l) of Some ss \<Rightarrow> ss | None \<Rightarrow> zero_Snapshot),
             ud_ReadyToReads := r_readyToRead r, ud_DroppedEntries := r_droppedEntries r,
             ud_DroppedReadIndexes := r_droppedReadIndexes r\<rparr>)))"

definition GetUpdate :: "Peer \<Rightarrow> bool \<Rightarrow> u64 \<Rightarrow> (Peer \<times> Update) res" where
  "GetUpdate p moreToApply lastApplied =
     bind_res (getUpdate p moreToApply lastApplied) (\<lambda>(p, ud).
     bind_res (validateUpdate ud) (\<lambda>_.
       let ud = setFastApply ud in Inr (p, ud\<lparr>ud_UpdateCommit := getUpdateCommit ud\<rparr>)))"

definition peer_Commit :: "Peer \<Rightarrow> Update \<Rightarrow> Peer res" where
  "peer_Commit p ud =
     (let r = (pr_raft p)\<lparr>r_msgs := [], r_logQueryResult := None, r_leaderUpdate := None,
                          r_droppedEntries := [], r_droppedReadIndexes := []\<rparr>;
          prev = (if \<not> IsEmptyState (ud_State ud) then ud_State ud else pr_prevState p);
          r = (if uc_ReadyToRead (ud_UpdateCommit ud) > 0 then clearReadyToRead r else r)
      in bind_res (lg_commitUpdate (r_log r) (ud_UpdateCommit ud)) (\<lambda>l.
           Inr \<lparr>pr_raft = r\<lparr>r_log := l\<rparr>, pr_prevState = prev\<rparr>))"

section \<open>Consistency of updates\<close>

lemma entriesToApply_ok:
  assumes ok: "stack_ok d lr l"
  shows "\<exists>ents. entriesToApply l = Inr ents \<and> contig (unat (firstNotAppliedIndex l)) ents \<and>
    (\<forall>e \<in> set ents. e_Index e \<le> lg_committed l) \<and> (hasEntriesToApply l \<longrightarrow> ents \<noteq> [])"
proof (cases "hasEntriesToApply l")
  case False
  then show ?thesis by (simp add: entriesToApply_def getEntriesToApply_def contig_iff)
next
  case True
  have wf: "el_wf (lr_trm (stack_log d lr) lr) l" using ok by (simp add: stack_ok_def)
  have hi: "unat (toApplyIndexLimit l) = Suc (unat (lg_committed l))"
    unfolding toApplyIndexLimit_def using el_wfD(6) [OF wf] el_last_bound [OF wf]
    by (intro unat_Suc_u64) (simp add: u64_neq_max)
  have lo: "el_first l \<le> unat (firstNotAppliedIndex l)"
    using unat_lg_firstIndex [OF wf] by (simp add: firstNotAppliedIndex_def max_def word_le_nat_alt)
  have lt: "firstNotAppliedIndex l < toApplyIndexLimit l" using True by (simp add: hasEntriesToApply_def)
  have le: "unat (toApplyIndexLimit l) \<le> Suc (el_last l)" using hi el_wfD(6) [OF wf] by simp
  obtain n where n: "0 < n" "n \<le> unat (toApplyIndexLimit l) - unat (firstNotAppliedIndex l)"
    "lg_getEntries l (firstNotAppliedIndex l) (toApplyIndexLimit l) MaxApplyEntrySize =
       Inr (map (stack_ent d lr l) [unat (firstNotAppliedIndex l)..<unat (firstNotAppliedIndex l) + n])"
    using stack_entries [OF ok lo lt le, of MaxApplyEntrySize] by (elim exE conjE) (rule that)
  let ?a = "unat (firstNotAppliedIndex l)"
  have ix: "unat (e_Index (stack_ent d lr l i)) = i" if "?a \<le> i" "i < ?a + n" for i
    using stack_index [OF ok, of i] that n(2) lo le by simp
  have "contig ?a (map (stack_ent d lr l) [?a..<?a + n])" using ix by (simp add: contig_iff)
  moreover have "\<forall>e \<in> set (map (stack_ent d lr l) [?a..<?a + n]). e_Index e \<le> lg_committed l"
    using ix n(2) hi by (auto simp: word_le_nat_alt)
  ultimately show ?thesis
    using True n(1,3) by (intro exI [of _ "map (stack_ent d lr l) [?a..<?a + n]"])
      (simp add: entriesToApply_def getEntriesToApply_def)
qed

lemma entriesToSave_bounds:
  assumes "el_wf trm l" "lg_entriesToSave l \<noteq> []"
  shows "unat (e_Index (last (lg_entriesToSave l))) = el_last l"
    "unat (e_Index (hd (lg_entriesToSave l))) = Suc (unat (im_savedTo (lg_inmem l)))"
proof -
  let ?im = "lg_inmem l" let ?m = "unat (im_markerIndex ?im)" let ?k = "Suc (unat (im_savedTo ?im)) - ?m"
  note w = im_wfD [OF el_wfD(1) [OF assms(1)]]
  have s: "lg_entriesToSave l = drop ?k (im_entries ?im)"
    by (simp add: lg_entriesToSave_def im_entriesToSave_eq [OF el_wfD(1) [OF assms(1)]])
  then have k: "?k < length (im_entries ?im)" using assms(2) by simp
  show "unat (e_Index (hd (lg_entriesToSave l))) = Suc (unat (im_savedTo ?im))"
    using contig_nth [OF w(7) k] w(8) k by (simp add: s hd_drop_conv_nth)
  have "im_entries ?im \<noteq> []" using k by auto
  then show "unat (e_Index (last (lg_entriesToSave l))) = el_last l"
    using contig_last [OF w(7)] k by (simp add: s el_last_def)
qed

lemma nothing_to_save:
  assumes "el_wf trm l" "lg_entriesToSave l = []"
  shows "el_last l \<le> unat (im_savedTo (lg_inmem l))"
  using assms(2) im_wfD(8) [OF el_wfD(1) [OF assms(1)]]
  by (simp add: lg_entriesToSave_def im_entriesToSave_eq [OF el_wfD(1) [OF assms(1)]] el_last_def)

lemma GetUpdate_facts:
  assumes "stack_ok d lr (r_log (pr_raft p))"
  shows "\<exists>p' ud. GetUpdate p moreToApply lastApplied = Inr (p', ud) \<and>
    r_log (pr_raft p') = r_log (pr_raft p) \<and>
    contig (unat (firstNotAppliedIndex (r_log (pr_raft p)))) (ud_CommittedEntries ud) \<and>
    (\<forall>e \<in> set (ud_CommittedEntries ud). e_Index e \<le> lg_committed (r_log (pr_raft p))) \<and>
    ud_EntriesToSave ud = lg_entriesToSave (r_log (pr_raft p)) \<and>
    (ud_FastApply ud \<longrightarrow> IsEmptySnapshot (ud_Snapshot ud) \<and>
       (\<forall>e \<in> set (ud_CommittedEntries ud). e_Index e \<le> im_savedTo (lg_inmem (r_log (pr_raft p)))))"
proof -
  let ?r = "pr_raft p" let ?l = "r_log ?r"
  have wf: "el_wf (lr_trm (stack_log d lr) lr) ?l" using assms by (simp add: stack_ok_def)
  obtain ents where e: "(if moreToApply then entriesToApply ?l else Inr []) = Inr ents"
    "contig (unat (firstNotAppliedIndex ?l)) ents" "\<forall>e \<in> set ents. e_Index e \<le> lg_committed ?l"
    using entriesToApply_ok [OF assms] by (cases moreToApply) (auto simp: contig_iff)
  obtain p' ud where g: "getUpdate p moreToApply lastApplied = Inr (p', ud)" "r_log (pr_raft p') = ?l"
    "ud_CommittedEntries ud = ents" "ud_EntriesToSave ud = lg_entriesToSave ?l"
    "ud_State ud = raftState ?r \<or> ud_State ud = zero_State"
    using e(1) unfolding getUpdate_def Let_def by (cases "IsStateEqual (raftState ?r) (pr_prevState p)") auto
  have com: "unat (e_Index (last ents)) \<le> unat (lg_committed ?l)" if "ents \<noteq> []"
    using e(3) that last_in_set [OF that] by (simp add: word_le_nat_alt)
  have v: "validateUpdate ud = Inr ()"
    using com entriesToSave_bounds(1) [OF wf] el_wfD(6) [OF wf] g(5)
    unfolding validateUpdate_def g(3,4) raftState_def by (fastforce simp: word_less_nat_alt)
  have saved: "e_Index x \<le> im_savedTo (lg_inmem ?l)"
    if f: "ud_FastApply (setFastApply ud)" and x: "x \<in> set ents" for x
  proof -
    have ne: "ents \<noteq> []" using x by auto
    obtain j where j: "j < length ents" "x = ents ! j" using x by (auto simp: in_set_conv_nth)
    have "unat (e_Index x) \<le> unat (e_Index (last ents))"
      using contig_nth [OF e(2) j(1)] contig_last [OF e(2) ne] j by simp
    moreover have "unat (e_Index (last ents)) \<le> unat (im_savedTo (lg_inmem ?l))"
    proof (cases "lg_entriesToSave ?l = []")
      case True
      then show ?thesis using nothing_to_save [OF wf] com [OF ne] el_wfD(6) [OF wf] by simp
    next
      case False
      then have "\<not> (e_Index (last ents) \<ge> e_Index (hd (lg_entriesToSave ?l)) \<and>
          e_Index (last ents) \<le> e_Index (last (lg_entriesToSave ?l)))"
        using f ne by (auto simp: setFastApply_def g(3,4) Let_def split: if_splits)
      then show ?thesis
        using entriesToSave_bounds [OF wf False] com [OF ne] el_wfD(6) [OF wf] by (simp add: word_le_nat_alt)
    qed
    ultimately show ?thesis by (simp add: word_le_nat_alt)
  qed
  have fast: "ud_FastApply (setFastApply ud) \<longrightarrow> IsEmptySnapshot (ud_Snapshot ud)"
    by (simp add: setFastApply_def Let_def)
  have "GetUpdate p moreToApply lastApplied =
      Inr (p', (setFastApply ud)\<lparr>ud_UpdateCommit := getUpdateCommit (setFastApply ud)\<rparr>)"
    by (simp add: GetUpdate_def g(1) v Let_def)
  moreover have "ud_CommittedEntries (setFastApply ud) = ents" "ud_EntriesToSave (setFastApply ud) = lg_entriesToSave ?l"
    "ud_Snapshot (setFastApply ud) = ud_Snapshot ud"
    by (simp_all add: setFastApply_def g(3,4) Let_def)
  ultimately show ?thesis using g(2) e(2,3) saved fast by auto
qed

lemma GetUpdate_total:
  "stack_ok d lr (r_log (pr_raft p)) \<Longrightarrow> \<exists>p' ud. GetUpdate p moreToApply lastApplied = Inr (p', ud)"
  using GetUpdate_facts by metis

text \<open>
  C15: An update is always available and consistent: taking it never panics, the entries it hands out to
  be applied follow the last processed entry without a gap and are committed, it carries every entry that is
  not yet persisted, and when it allows the entries to be applied before the rest of the update is saved,
  there is no pending snapshot and every one of them is already persisted.
\<close>
theorem GetUpdate_consistent:
  assumes "stack_ok d lr (r_log (pr_raft p))"
  shows "\<exists>p' ud. GetUpdate p moreToApply lastApplied = Inr (p', ud) \<and>
    r_log (pr_raft p') = r_log (pr_raft p) \<and>
    contig (unat (firstNotAppliedIndex (r_log (pr_raft p)))) (ud_CommittedEntries ud) \<and>
    (\<forall>e \<in> set (ud_CommittedEntries ud). e_Index e \<le> lg_committed (r_log (pr_raft p))) \<and>
    ud_EntriesToSave ud = lg_entriesToSave (r_log (pr_raft p)) \<and>
    (ud_FastApply ud \<longrightarrow> IsEmptySnapshot (ud_Snapshot ud) \<and>
       (\<forall>e \<in> set (ud_CommittedEntries ud). e_Index e \<le> im_savedTo (lg_inmem (r_log (pr_raft p)))))"
  by (rule GetUpdate_facts [OF assms])

section \<open>Committing an update\<close>

abbreviation all_saved :: "inMemory \<Rightarrow> bool" where
  "all_saved im \<equiv> unat (im_markerIndex im) + length (im_entries im) \<le> Suc (unat (im_savedTo im))"

lemma entriesToSave_Nil: "im_wf im \<Longrightarrow> im_entriesToSave im = [] \<longleftrightarrow> all_saved im"
  using im_wfD(8) [of im] by (auto simp: im_entriesToSave_eq)

lemma savedLogTo_last:
  assumes "im_wf im" "im_entriesToSave im \<noteq> []"
  shows "\<exists>im'. savedLogTo im (e_Index (last (im_entriesToSave im))) (e_Term (last (im_entriesToSave im))) = Inr im' \<and>
    im_wf im' \<and> all_saved im' \<and> im_snapshot im' = im_snapshot im"
proof -
  let ?es = "im_entries im" let ?x = "last ?es"
  note w = im_wfD [OF assms(1)]
  have s: "im_entriesToSave im = drop (Suc (unat (im_savedTo im)) - unat (im_markerIndex im)) ?es"
    by (rule im_entriesToSave_eq [OF assms(1)])
  then have l: "last (im_entriesToSave im) = ?x" and ne: "?es \<noteq> []" using assms(2) by auto
  have ix: "unat (e_Index ?x) = unat (im_markerIndex im) + length ?es - 1" using contig_last [OF w(7) ne] .
  have len: "0 < length ?es" using ne by simp
  have has: "im_has im (e_Index ?x)" using ix len unfolding im_has_def word_le_nat_alt by linarith
  have "unat (e_Index ?x) - unat (im_markerIndex im) = length ?es - 1" using ix len by linarith
  then have "im_nth im (e_Index ?x) = ?x" using ne by (simp add: im_nth_def last_conv_nth)
  then have "savedLogTo im (e_Index ?x) (e_Term ?x) = Inr (im\<lparr>im_savedTo := e_Index ?x\<rparr>)"
    using savedLogTo_eq [OF assms(1)] has by simp
  with im_wf_savedTo [OF assms(1) has] ix show ?thesis unfolding l by auto
qed

lemma appliedLogTo_saved:
  assumes "im_wf im" "all_saved im"
  shows "\<exists>im'. appliedLogTo im index = Inr im' \<and> im_wf im' \<and> all_saved im' \<and> im_snapshot im' = im_snapshot im"
proof (cases "im_has im index")
  case False
  with appliedLogTo_skip [OF assms(1)] assms show ?thesis by auto
next
  case True
  obtain im' where im': "appliedLogTo im index = Inr im'" "applied_to im index im'"
    using appliedLogTo_has [OF assms(1) True] by blast
  have h: "unat (im_markerIndex im) \<le> unat index" "unat index < unat (im_markerIndex im) + length (im_entries im)"
    using True by (auto simp: im_has_def word_le_nat_alt)
  have "index \<le> im_savedTo im" using h assms(2) by (simp add: word_le_nat_alt)
  then have "im_wf im'" by (rule applied_to_wf [OF assms(1) True _ im'(2)])
  moreover have "unat (index + 1) = Suc (unat index)"
    using h im_wfD(6) [OF assms(1)] by (intro unat_Suc_u64) (simp add: u64_neq_max)
  then have "all_saved im'" using im'(2) h assms(2) by (simp add: applied_to_def)
  ultimately show ?thesis using im' by (auto simp: applied_to_def)
qed

lemma commitUpdate_ok:
  assumes wf: "im_wf (lg_inmem l)"
    and log: "if lg_entriesToSave l = [] then uc_StableLogTo cu = 0
      else uc_StableLogTo cu = e_Index (last (lg_entriesToSave l)) \<and> uc_StableLogTerm cu = e_Term (last (lg_entriesToSave l)) \<and>
        uc_StableLogTo cu \<noteq> 0"
    and pro: "uc_Processed cu \<noteq> 0 \<longrightarrow> lg_processed l \<le> uc_Processed cu \<and> uc_Processed cu \<le> lg_committed l"
    and la: "uc_LastApplied cu \<le> lg_committed l"
      "uc_LastApplied cu \<le> (if uc_Processed cu = 0 then lg_processed l else uc_Processed cu)"
  shows "\<exists>l'. lg_commitUpdate l cu = Inr l' \<and> lg_entriesToSave l' = [] \<and> lg_committed l' = lg_committed l \<and>
    lg_processed l' = (if uc_Processed cu = 0 then lg_processed l else uc_Processed cu)"
proof -
  let ?im = "lg_inmem l"
  obtain im1 where im1: "(if uc_StableLogTo cu > 0 then savedLogTo ?im (uc_StableLogTo cu) (uc_StableLogTerm cu) else Inr ?im) = Inr im1"
    "im_wf im1" "all_saved im1"
  proof (cases "lg_entriesToSave l = []")
    case True
    then show ?thesis using that [of ?im] log wf entriesToSave_Nil [OF wf] by (simp add: lg_entriesToSave_def)
  next
    case False
    then show ?thesis using that savedLogTo_last [OF wf] log
      by (auto simp: lg_entriesToSave_def word_neq_0_conv)
  qed
  define im2 where "im2 = (if uc_StableSnapshotTo cu > 0 then savedSnapshotTo im1 (uc_StableSnapshotTo cu) else im1)"
  have c: "im_commitUpdate ?im cu = Inr im2" using im1(1) by (simp add: im_commitUpdate_def im2_def)
  have im2: "im_wf im2" "all_saved im2"
    using im1(2,3) savedSnapshotTo_wf [OF im1(2)] by (auto simp: im2_def savedSnapshotTo_def)
  define l2 where "l2 = l\<lparr>lg_inmem := im2, lg_processed := (if uc_Processed cu = 0 then lg_processed l else uc_Processed cu)\<rparr>"
  obtain im3 where im3: "appliedLogTo im2 (uc_LastApplied cu) = Inr im3" "im_wf im3" "all_saved im3"
    using appliedLogTo_saved [OF im2] by blast
  have "lg_commitUpdate l cu =
      (if uc_LastApplied cu > 0 then Inr (l2\<lparr>lg_inmem := im3\<rparr>) else Inr l2)"
  proof (cases "uc_Processed cu = 0")
    case True
    then show ?thesis using la im3(1) unfolding lg_commitUpdate_def c l2_def by (simp add: Let_def leD)
  next
    case False
    then have "lg_processed l \<le> uc_Processed cu" "uc_Processed cu \<le> lg_committed l" "0 < uc_Processed cu"
      using pro by (simp_all add: word_neq_0_conv)
    with False show ?thesis using la im3(1) unfolding lg_commitUpdate_def c l2_def by (simp add: Let_def leD)
  qed
  then show ?thesis
    using entriesToSave_Nil [OF im2(1)] entriesToSave_Nil [OF im3(2)] im2(2) im3(3)
    by (cases "uc_LastApplied cu > 0") (simp_all add: lg_entriesToSave_def l2_def)
qed

definition clear_update :: "raft \<Rightarrow> Update \<Rightarrow> raft" where
  "clear_update r ud =
     (let r = r\<lparr>r_msgs := [], r_logQueryResult := None, r_leaderUpdate := None,
                r_droppedEntries := [], r_droppedReadIndexes := []\<rparr>
      in if uc_ReadyToRead (ud_UpdateCommit ud) > 0 then clearReadyToRead r else r)"

lemma clear_update_simps:
  "r_log (clear_update r ud) = r_log r" "r_msgs (clear_update r ud) = []"
  "r_term (clear_update r ud) = r_term r" "r_vote (clear_update r ud) = r_vote r"
  by (simp_all add: clear_update_def clearReadyToRead_def Let_def)

lemma entriesToSave_pos:
  assumes "el_wf trm l" "lg_entriesToSave l \<noteq> []"
  shows "0 < unat (e_Index (last (lg_entriesToSave l)))"
proof -
  have "im_entries (lg_inmem l) \<noteq> []"
    using assms(2) by (auto simp: lg_entriesToSave_def im_entriesToSave_eq [OF el_wfD(1) [OF assms(1)]])
  then have "0 < length (im_entries (lg_inmem l))" by simp
  then show ?thesis
    using entriesToSave_bounds(1) [OF assms] im_wfD(5) [OF el_wfD(1) [OF assms(1)]]
    unfolding el_last_def by linarith
qed

lemma update_processed:
  assumes ok: "stack_ok d lr l" and e: "contig (unat (firstNotAppliedIndex l)) ents" "\<forall>e \<in> set ents. e_Index e \<le> lg_committed l"
    and snap: "ss_Index snap \<noteq> 0 \<Longrightarrow> im_snapshot (lg_inmem l) = Some snap \<and> lg_processed l \<le> ss_Index snap"
  defines "n \<equiv> if ents = [] then 0 else e_Index (last ents)"
  defines "m \<equiv> if ss_Index snap = 0 then n else max n (ss_Index snap)"
  assumes "m \<noteq> 0"
  shows "lg_processed l \<le> m \<and> m \<le> lg_committed l"
proof -
  have wf: "el_wf (lr_trm (stack_log d lr) lr) l" using ok by (simp add: stack_ok_def)
  note w = el_wfD [OF wf]
  have pr: "unat (lg_processed l + 1) = Suc (unat (lg_processed l))"
    using w(4,6) el_last_bound [OF wf] by (intro unat_Suc_u64) (simp add: u64_neq_max word_le_nat_alt)
  have n: "n \<le> lg_committed l" using e(2) last_in_set by (auto simp: n_def)
  have np: "lg_processed l \<le> n" if "ents \<noteq> []"
  proof -
    have "unat (firstNotAppliedIndex l) \<ge> unat (lg_processed l + 1)"
      by (simp add: firstNotAppliedIndex_def max_def word_le_nat_alt)
    moreover have "0 < length ents" using that by simp
    ultimately show ?thesis using contig_last [OF e(1) that] that pr by (simp add: n_def word_le_nat_alt)
  qed
  have s: "ss_Index snap \<le> lg_committed l" if "ss_Index snap \<noteq> 0"
    using snap [OF that] w(5) by (simp add: el_first_def word_le_nat_alt)
  show ?thesis
  proof (cases "ss_Index snap = 0")
    case True
    then have "m = n" "ents \<noteq> []" using assms(7) by (auto simp: m_def n_def)
    with n np show ?thesis by simp
  next
    case False
    with n s snap show ?thesis by (auto simp: m_def intro: order.trans le_max_iff_disj [THEN iffD2])
  qed
qed


lemma stack_ok_commit:
  assumes "stack_ok d lr l" "unat c \<le> el_last l" "lg_committed l \<le> c"
  shows "stack_ok d lr (l\<lparr>lg_committed := c\<rparr>)"
proof -
  have s: "el_first (l\<lparr>lg_committed := c\<rparr>) = el_first l" "el_last (l\<lparr>lg_committed := c\<rparr>) = el_last l"
    "el_term t (l\<lparr>lg_committed := c\<rparr>) = el_term t l" "el_joined t (l\<lparr>lg_committed := c\<rparr>) = el_joined t l" for t
    by (simp_all add: el_first_def el_last_def el_term_def el_joined_def fun_eq_iff Let_def split: option.splits)
  have "el_first l \<le> Suc (unat c)" if "el_first l \<le> Suc (unat (lg_committed l))"
    using that assms(3) by (simp add: word_le_nat_alt)
  with assms show ?thesis by (auto simp: stack_ok_def el_wf_def s)
qed

theorem GetUpdate_consistent_witness:
  "\<forall>r st. \<exists>p' ud. GetUpdate \<lparr>pr_raft = r\<lparr>r_log := demo_log\<lparr>lg_committed := 2\<rparr>\<rparr>, pr_prevState = st\<rparr> True 0 = Inr (p', ud) \<and>
    length (ud_EntriesToSave ud) = 1 \<and> contig 1 (ud_CommittedEntries ud) \<and> (\<forall>e \<in> set (ud_CommittedEntries ud). e_Index e \<le> 2)"
proof (intro allI)
  fix r st
  let ?l = "demo_log\<lparr>lg_committed := 2\<rparr>"
  have ok: "stack_ok demo_tandb demo_reader ?l"
    by (rule stack_ok_commit [OF demo_stack_ok]) (simp_all add: demo_bounds demo_log_simps)
  have "lg_firstIndex ?l = 1" by (simp add: lg_firstIndex_def getSnapshotIndex_def demo_log_simps)
  then have a: "unat (firstNotAppliedIndex ?l) = 1" by (simp add: firstNotAppliedIndex_def demo_log_simps)
  have "im_wf (lg_inmem demo_log)" using demo_stack_ok by (simp add: stack_ok_def el_wf_def)
  moreover have "im_savedTo (lg_inmem demo_log) = 2"
    by (simp add: demo_log_def newEntryLog_def newInMemory_def demo_log_simps Let_def)
  ultimately have "length (lg_entriesToSave ?l) = 1"
    by (simp add: lg_entriesToSave_def im_entriesToSave_eq demo_log_simps)
  with GetUpdate_consistent [of demo_tandb demo_reader "\<lparr>pr_raft = r\<lparr>r_log := ?l\<rparr>, pr_prevState = st\<rparr>" True 0] ok a
  show "\<exists>p' ud. GetUpdate \<lparr>pr_raft = r\<lparr>r_log := ?l\<rparr>, pr_prevState = st\<rparr> True 0 = Inr (p', ud) \<and>
      length (ud_EntriesToSave ud) = 1 \<and> contig 1 (ud_CommittedEntries ud) \<and> (\<forall>e \<in> set (ud_CommittedEntries ud). e_Index e \<le> 2)"
    by auto
qed


end
