(* ===== verification/RaftFrame.thy ===== *)
theory RaftFrame
  imports RaftHandlers
begin

text \<open>
  What the operations of the raft state leave alone. \<open>calm r r'\<close> says that an operation kept the
  replica's identity and configuration, its term, vote and membership, that the commit index did not
  move backwards, that messages were only appended to the outbox, none of them a vote or a vote
  request, and that the replica did not gain a role. Almost every operation is calm; the few that are
  not (campaigning, winning, granting a vote, adopting a higher term, membership changes) have their
  own lemmas. The rules in \<open>calm_wp_rules\<close> carry calmness through a handler in weakest-precondition
  style.
\<close>

named_theorems calm_simps \<open>state updates that are calm\<close>
named_theorems calm_wp_rules \<open>weakest preconditions of calm operations\<close>

section \<open>Calm steps\<close>

definition quiet_msg :: "raft \<Rightarrow> Message \<Rightarrow> bool" where
  "quiet_msg r m \<longleftrightarrow>
     m_From m = r_replicaID r \<and> m_Type m \<noteq> RequestVote \<and> m_Type m \<noteq> RequestVoteResp"

definition config_kept :: "raft \<Rightarrow> raft \<Rightarrow> bool" where
  "config_kept r r' \<longleftrightarrow>
     r_replicaID r' = r_replicaID r \<and> r_shardID r' = r_shardID r \<and>
     r_checkQuorum r' = r_checkQuorum r \<and> r_preVote r' = r_preVote r \<and>
     r_electionTimeout r' = r_electionTimeout r \<and> r_heartbeatTimeout r' = r_heartbeatTimeout r \<and>
     rt_ok (r_rt r') = rt_ok (r_rt r)"

definition same_members :: "raft \<Rightarrow> raft \<Rightarrow> bool" where
  "same_members r r' \<longleftrightarrow>
     mkeys (r_remotes r') = mkeys (r_remotes r) \<and> mkeys (r_nonVotings r') = mkeys (r_nonVotings r) \<and>
     mkeys (r_witnesses r') = mkeys (r_witnesses r)"

definition commit_grows :: "raft \<Rightarrow> raft \<Rightarrow> bool" where
  "commit_grows r r' \<longleftrightarrow> lg_committed (r_log r) \<le> lg_committed (r_log r')"

definition quiet_sends :: "raft \<Rightarrow> raft \<Rightarrow> bool" where
  "quiet_sends r r' \<longleftrightarrow> (\<exists>ms. r_msgs r' = r_msgs r @ ms \<and> (\<forall>m \<in> set ms. quiet_msg r m))"

definition no_promotion :: "raft \<Rightarrow> raft \<Rightarrow> bool" where
  "no_promotion r r' \<longleftrightarrow>
     (r_state r' = Leader \<longrightarrow> r_state r = Leader) \<and>
     (r_state r' = Candidate \<longrightarrow> r_state r = Candidate \<and> r_votes r' = r_votes r)"

definition class_kept :: "raft \<Rightarrow> raft \<Rightarrow> bool" where
  "class_kept r r' \<longleftrightarrow>
     (r_state r' = Witness \<longleftrightarrow> r_state r = Witness) \<and>
     (r_state r' = NonVoting \<longrightarrow> r_state r = NonVoting)"

definition basic :: "raft \<Rightarrow> raft \<Rightarrow> bool" where
  "basic r r' \<longleftrightarrow> config_kept r r' \<and> commit_grows r r' \<and> class_kept r r'"

definition quiet :: "raft \<Rightarrow> raft \<Rightarrow> bool" where
  "quiet r r' \<longleftrightarrow>
     basic r r' \<and> quiet_sends r r' \<and> no_promotion r r' \<and>
     r_term r' = r_term r \<and> r_vote r' = r_vote r"

definition calm :: "raft \<Rightarrow> raft \<Rightarrow> bool" where
  "calm r r' \<longleftrightarrow> quiet r r' \<and> same_members r r'"

lemmas frame_defs = calm_def quiet_def basic_def config_kept_def same_members_def commit_grows_def
  quiet_sends_def no_promotion_def class_kept_def quiet_msg_def

lemma quiet_sends_trans:
  "quiet_sends r r' \<Longrightarrow> quiet_sends r' r'' \<Longrightarrow> r_replicaID r' = r_replicaID r \<Longrightarrow> quiet_sends r r''"
  unfolding quiet_sends_def quiet_msg_def by force

lemma basic_trans: "basic r r' \<Longrightarrow> basic r' r'' \<Longrightarrow> basic r r''"
  unfolding basic_def config_kept_def commit_grows_def class_kept_def by auto

lemma quiet_trans: "quiet r r' \<Longrightarrow> quiet r' r'' \<Longrightarrow> quiet r r''"
  unfolding quiet_def
  using quiet_sends_trans [of r r' r''] basic_trans [of r r' r'']
  by (auto simp: no_promotion_def basic_def config_kept_def)

lemma calm_trans: "calm r r' \<Longrightarrow> calm r' r'' \<Longrightarrow> calm r r''"
  unfolding calm_def using quiet_trans by (auto simp: same_members_def)

lemma quiet_refl [simp]: "quiet r r"
  by (simp add: frame_defs)

lemma calm_refl [simp]: "calm r r"
  by (simp add: calm_def same_members_def)

lemma calm_quiet: "calm r r' \<Longrightarrow> quiet r r'"
  by (simp add: calm_def)

lemma calm_wp:
  "post m (\<lambda>x. calm r (st x)) \<Longrightarrow> calm r0 r \<Longrightarrow> (\<And>x. calm r0 (st x) \<Longrightarrow> Q x) \<Longrightarrow> post m Q"
  by (cases m) (auto dest: calm_trans)

lemma quiet_wp:
  "post m (\<lambda>x. quiet r (st x)) \<Longrightarrow> quiet r0 r \<Longrightarrow> (\<And>x. quiet r0 (st x) \<Longrightarrow> Q x) \<Longrightarrow> post m Q"
  by (cases m) (auto dest: quiet_trans)

lemmas calm_wp1 = calm_wp [where st = "\<lambda>x. x"]
lemmas calm_wp2 = calm_wp [where st = snd]

section \<open>Updates of single fields\<close>

lemma calm_field [simp]:
  "calm r0 (r\<lparr>r_events := v1\<rparr>) = calm r0 r"
  "calm r0 (r\<lparr>r_logQueryResult := v2\<rparr>) = calm r0 r"
  "calm r0 (r\<lparr>r_leaderUpdate := v3\<rparr>) = calm r0 r"
  "calm r0 (r\<lparr>r_readIndex := v4\<rparr>) = calm r0 r"
  "calm r0 (r\<lparr>r_matched := v5\<rparr>) = calm r0 r"
  "calm r0 (r\<lparr>r_droppedReadIndexes := v6\<rparr>) = calm r0 r"
  "calm r0 (r\<lparr>r_droppedEntries := v7\<rparr>) = calm r0 r"
  "calm r0 (r\<lparr>r_readyToRead := v8\<rparr>) = calm r0 r"
  "calm r0 (r\<lparr>r_prevLeader := v9\<rparr>) = calm r0 r"
  "calm r0 (r\<lparr>r_leaderTransferTarget := v10\<rparr>) = calm r0 r"
  "calm r0 (r\<lparr>r_leaderID := v11\<rparr>) = calm r0 r"
  "calm r0 (r\<lparr>r_tickCount := v12\<rparr>) = calm r0 r"
  "calm r0 (r\<lparr>r_electionTick := v13\<rparr>) = calm r0 r"
  "calm r0 (r\<lparr>r_heartbeatTick := v14\<rparr>) = calm r0 r"
  "calm r0 (r\<lparr>r_randomizedElectionTimeout := v15\<rparr>) = calm r0 r"
  "calm r0 (r\<lparr>r_snapshotting := v16\<rparr>) = calm r0 r"
  "calm r0 (r\<lparr>r_quiesce := v17\<rparr>) = calm r0 r"
  "calm r0 (r\<lparr>r_isLeaderTransferTarget := v18\<rparr>) = calm r0 r"
  "calm r0 (r\<lparr>r_pendingConfigChange := v19\<rparr>) = calm r0 r"
  by (simp_all add: frame_defs)

lemma calm_log: "calm r0 r \<Longrightarrow> lg_committed (r_log r) \<le> lg_committed l \<Longrightarrow> calm r0 (r\<lparr>r_log := l\<rparr>)"
  by (auto simp: frame_defs)

lemma calm_log_same [simp]:
  "lg_committed l = lg_committed (r_log r) \<Longrightarrow> calm r0 (r\<lparr>r_log := l\<rparr>) = calm r0 r"
  by (simp add: frame_defs)

lemma calm_pure [simp]:
  "calm r0 (emit e r) = calm r0 r"
  "calm r0 (set_rl rl r) = calm r0 r"
  "calm r0 (setLeaderID r lid) = calm r0 r"
  "calm r0 (abortLeaderTransfer r) = calm r0 r"
  "calm r0 (resetMatchValueArray r) = calm r0 r"
  "calm r0 (setPendingConfigChange r) = calm r0 r"
  "calm r0 (clearPendingConfigChange r) = calm r0 r"
  "calm r0 (quiescedTick r) = calm r0 r"
  "calm r0 (reportDroppedConfigChange r e') = calm r0 r"
  "calm r0 (reportDroppedProposal r m) = calm r0 r"
  "calm r0 (reportDroppedReadIndex r m) = calm r0 r"
  "calm r0 (clearReadyToRead r) = calm r0 r"
  "calm r0 (addReadyToRead r i ctx) = calm r0 r"
  "calm r0 (leaderIsAvailable r) = calm r0 r"
  by (simp_all add: emit_def set_rl_def setLeaderID_def abortLeaderTransfer_def
      resetMatchValueArray_def setPendingConfigChange_def clearPendingConfigChange_def
      quiescedTick_def reportDroppedConfigChange_def reportDroppedProposal_def
      reportDroppedReadIndex_def clearReadyToRead_def addReadyToRead_def leaderIsAvailable_def
      im_resize_def Let_def)

lemma calm_rt [simp]: "rt_ok rt = rt_ok (r_rt r) \<Longrightarrow> calm r0 (r\<lparr>r_rt := rt\<rparr>) = calm r0 r"
  by (simp add: frame_defs)

lemma range_r_eq: "range_r r m = (fst (range_keys (r_rt r) m), r\<lparr>r_rt := snd (range_keys (r_rt r) m)\<rparr>)"
  by (simp add: range_r_def split: prod.splits)

lemma calm_range [simp]: "calm r0 (snd (range_r r m)) = calm r0 r"
  by (simp add: range_r_eq)

lemma range_r_other [simp]:
  "r_remotes (snd (range_r r m)) = r_remotes r"
  "r_nonVotings (snd (range_r r m)) = r_nonVotings r"
  "r_witnesses (snd (range_r r m)) = r_witnesses r"
  "r_log (snd (range_r r m)) = r_log r"
  "r_state (snd (range_r r m)) = r_state r"
  "r_replicaID (snd (range_r r m)) = r_replicaID r"
  "r_term (snd (range_r r m)) = r_term r"
  by (simp_all add: range_r_eq)

lemma calm_nodes [simp]: "calm r0 (snd (nodes r)) = calm r0 r"
  by (simp add: nodes_def Let_def split_beta)

lemma calm_rp_set [simp]:
  "mhas (rmap r loc) nid \<Longrightarrow> calm r0 (rp_set loc nid rp r) = calm r0 r"
  by (cases loc) (auto simp: rp_set_def rmap_def frame_defs mkeys_mput_same)

lemma rp_deref_Inr [simp]: "rp_deref r loc nid = Inr rp \<longleftrightarrow> mget (rmap r loc) nid = Some rp"
  by (auto simp: rp_deref_def split: option.splits)

lemma rp_deref_wp [calm_wp_rules]:
  "(\<And>rp. mget (rmap r loc) nid = Some rp \<Longrightarrow> mhas (rmap r loc) nid \<Longrightarrow> Q rp) \<Longrightarrow>
     post (rp_deref r loc nid) Q"
  by (auto simp: rp_deref_def mhas_def split: option.splits)

lemma mustBeLeader_wp [calm_wp_rules]:
  "(isLeader r \<Longrightarrow> Q ()) \<Longrightarrow> post (mustBeLeader r) Q"
  by (simp add: mustBeLeader_def)

section \<open>The log\<close>

lemma commitTo_grows: "post (commitTo l i) (\<lambda>l'. lg_committed l \<le> lg_committed l')"
  by (auto simp: commitTo_def)

lemma lg_append_committed: "post (lg_append l es) (\<lambda>l'. lg_committed l' = lg_committed l)"
  by (auto simp: lg_append_def post_iff)

lemma tryAppend_committed: "post (tryAppend l i es) (\<lambda>(l', _). lg_committed l' = lg_committed l)"
  using lg_append_committed by (auto simp: tryAppend_def post_iff split: if_splits)

lemma lg_tryCommit_grows: "post (lg_tryCommit l q t) (\<lambda>(l', _). lg_committed l \<le> lg_committed l')"
  using commitTo_grows by (auto simp: lg_tryCommit_def post_iff split: if_splits)

lemma lg_restore_grows: "post (lg_restore l ss) (\<lambda>l'. lg_committed l \<le> lg_committed l')"
  by (auto simp: lg_restore_def Let_def)

lemma log_wp:
  assumes "calm r0 r" and "post m (\<lambda>x. lg_committed (r_log r) \<le> lg_committed (lf x))"
    and "\<And>x. calm r0 (r\<lparr>r_log := lf x\<rparr>) \<Longrightarrow> Q x"
  shows "post m Q"
proof (cases m)
  case (Inr x)
  with assms(2) have "calm r0 (r\<lparr>r_log := lf x\<rparr>)"
    by (intro calm_log assms(1)) simp
  then show ?thesis using assms(3) Inr by simp
qed simp

lemma lg_append_wp [calm_wp_rules]:
  "calm r0 r \<Longrightarrow> (\<And>l. calm r0 (r\<lparr>r_log := l\<rparr>) \<Longrightarrow> Q l) \<Longrightarrow> post (lg_append (r_log r) es) Q"
  by (rule log_wp [of r0 r _ "\<lambda>x. x"])
    (use lg_append_committed [of "r_log r" es] in \<open>auto simp: post_iff\<close>)

lemma lg_tryCommit_wp [calm_wp_rules]:
  "calm r0 r \<Longrightarrow> (\<And>x. calm r0 (r\<lparr>r_log := fst x\<rparr>) \<Longrightarrow> Q x) \<Longrightarrow>
     post (lg_tryCommit (r_log r) q t) Q"
  by (rule log_wp [of r0 r _ fst])
    (use lg_tryCommit_grows [of "r_log r" q t] in \<open>auto simp: post_iff\<close>)

section \<open>Sending\<close>

lemma finalizeMessageTerm_post:
  "post (finalizeMessageTerm r m) (\<lambda>m'. m_Type m' = m_Type m \<and> m_From m' = m_From m \<and>
     m_To m' = m_To m \<and> m_Reject m' = m_Reject m)"
  by (auto simp: finalizeMessageTerm_def)

lemma send_calm:
  "m_Type m \<noteq> RequestVote \<Longrightarrow> m_Type m \<noteq> RequestVoteResp \<Longrightarrow> post (send r m) (calm r)"
  unfolding send_def post_simps
  by (rule post_mono [OF finalizeMessageTerm_post]) (auto simp: frame_defs)

lemmas send_wp [calm_wp_rules] = calm_wp1 [OF send_calm]

lemma zero_Message_simps [simp]:
  "m_Type (zero_Message t) = t"
  "m_Term (zero_Message t) = 0"
  "m_Reject (zero_Message t) = False"
  "m_Entries (zero_Message t) = []"
  by (simp_all add: zero_Message_def)

lemma post_if: "(b \<Longrightarrow> post x Q) \<Longrightarrow> (\<not> b \<Longrightarrow> post y Q) \<Longrightarrow> post (if b then x else y) Q"
  by simp

lemma post_on_error:
  "(\<And>e. post (f e) Q) \<Longrightarrow> (\<And>x. m = Inr x \<Longrightarrow> post (g x) Q) \<Longrightarrow> post (on_error m f g) Q"
  by (auto simp: on_error_def split: sum.splits go_error.splits)

lemma calm_foldM:
  assumes "\<And>x r. x \<in> set xs \<Longrightarrow> calm r0 r \<Longrightarrow> post (f x r) (calm r)" and "calm r0 r"
    and "\<And>r'. calm r0 r' \<Longrightarrow> Q r'"
  shows "post (foldM f xs r) Q"
proof (rule post_mono)
  show "post (foldM f xs r) (calm r0)"
  proof (rule post_foldM)
    fix x s
    assume "x \<in> set xs" and s: "calm r0 s"
    then have "post (f x s) (calm s)" by (rule assms(1))
    then show "post (f x s) (calm r0)" by (rule post_mono) (rule calm_trans [OF s])
  qed (rule assms(2))
qed (rule assms(3))

lemmas calm_unfold = Let_def split_beta post_simps

lemma progress_wp: "(\<And>rp'. Q rp') \<Longrightarrow> post (progress rp i) Q"
  by (cases "progress rp i") auto

lemma find_remote_mhas: "find_remote r nid = Some loc \<Longrightarrow> mhas (rmap r loc) nid"
  by (auto simp: find_remote_def rmap_def split: if_splits)

lemma post_any: "(\<And>x. Q x) \<Longrightarrow> post m Q"
  by (cases m) auto

lemma sendRateLimitMessage_calm: "post (sendRateLimitMessage r) (calm r)"
  unfolding sendRateLimitMessage_def calm_unfold
  by (intro post_if, simp_all only: post_simps calm_refl, rule post_any, rule send_wp [of _ r]) simp_all

lemma sendReplicateMessage_calm: "post (sendReplicateMessage r to) (calm r)"
proof -
  have snapshot:  "post (if \<not> isActive rp then Inr r else bind_res (makeInstallSnapshotMessage r to)
      (\<lambda>(index, m). send (rp_set loc to (becomeSnapshot rp index) r) m)) (calm r)"
    if "mhas (rmap r loc) to" for loc rp
    using that by (auto simp: calm_unfold makeInstallSnapshotMessage_def intro!: send_wp [of _ r])
  have replicate: "post (if length (m_Entries m) > 0 then bind_res (progress rp (e_Index (last (m_Entries m))))
       (\<lambda>rp. send (rp_set loc to rp r) m) else send r m) (calm r)"
    if "mhas (rmap r loc) to" "makeReplicateMessage r to (rm_next rp) MaxEntrySize = Inr m" for loc rp m
  proof -
    from that(2) have "m_Type m = Replicate"
      by (auto simp: makeReplicateMessage_def Let_def split: if_splits)
    with that(1) show ?thesis
      by (auto intro!: progress_wp send_wp [of _ r])
  qed
  show ?thesis
  proof (cases "find_remote r to")
    case (Some loc)
    show ?thesis
      unfolding sendReplicateMessage_def Some option.case post_simps(3)
      by (rule rp_deref_wp, rule post_if, simp, rule post_on_error, erule snapshot, erule (1) replicate)
  qed (simp add: sendReplicateMessage_def)
qed

lemmas sendReplicateMessage_wp [calm_wp_rules] = calm_wp1 [OF sendReplicateMessage_calm]

lemma broadcastReplicateMessage_calm: "post (broadcastReplicateMessage r) (calm r)"
  unfolding broadcastReplicateMessage_def calm_unfold
  by (intro mustBeLeader_wp post_if) (auto intro!: calm_foldM sendReplicateMessage_calm)

lemma sendHeartbeatMessage_calm: "post (sendHeartbeatMessage r to hint match) (calm r)"
  unfolding sendHeartbeatMessage_def Let_def by (rule send_calm) auto

lemma broadcastHeartbeatMessageWithHint_calm: "post (broadcastHeartbeatMessageWithHint r ctx) (calm r)"
  unfolding broadcastHeartbeatMessageWithHint_def calm_unfold
  by (rule calm_foldM [where ?r0.0 = r], auto split: option.splits intro!: sendHeartbeatMessage_calm)
    (rule calm_foldM [where ?r0.0 = r], auto split: option.splits intro!: sendHeartbeatMessage_calm)

lemma broadcastHeartbeatMessage_calm: "post (broadcastHeartbeatMessage r) (calm r)"
  unfolding broadcastHeartbeatMessage_def post_simps
  by (auto intro!: mustBeLeader_wp post_any broadcastHeartbeatMessageWithHint_calm)

lemma sendTimeoutNowMessage_calm: "post (sendTimeoutNowMessage r nid) (calm r)"
  unfolding sendTimeoutNowMessage_def by (rule send_calm) auto

lemmas calm_sends [calm_wp_rules] =
  calm_wp1 [OF broadcastReplicateMessage_calm] calm_wp1 [OF sendTimeoutNowMessage_calm]
  calm_wp1 [OF broadcastHeartbeatMessageWithHint_calm] calm_wp1 [OF broadcastHeartbeatMessage_calm]
  calm_wp1 [OF sendRateLimitMessage_calm]

section \<open>Appending and committing\<close>

lemma tryCommit_calm: "post (tryCommit r) (\<lambda>x. calm r (snd x))"
  unfolding tryCommit_def calm_unfold
  by (intro mustBeLeader_wp, simp add: calm_unfold, intro impI) 
    (rule lg_tryCommit_wp [of r], auto simp: frame_defs)

lemmas tryCommit_wp [calm_wp_rules] = calm_wp2 [OF tryCommit_calm]

lemma appendEntries_calm: "post (appendEntries r es) (calm r)"
  unfolding appendEntries_def calm_unfold
  by (rule lg_append_wp [of r], simp, rule rp_deref_wp)
    (auto simp: calm_unfold intro!: tryCommit_wp)

lemmas appendEntries_wp [calm_wp_rules] = calm_wp1 [OF appendEntries_calm]

end
