(* ===== verification/RaftSteps.thy ===== *)
theory RaftSteps
  imports RaftFrame
begin

text \<open>
  What \<open>Handle\<close> does to the role, term, vote and membership of a replica. Every message is handled
  in two stages: a message with a higher term may first move the replica to that term (\<open>adopts\<close>), then
  the handler runs, and its effect is one of a few kinds (\<open>handled\<close>): calm, a campaign in the next
  term (\<open>campaigns\<close>), an answer to a vote request (\<open>answers_vote\<close>), the count of a received vote
  (\<open>counts_vote\<close>), or a membership change. \<open>Handle_steps\<close> is the summary lemma; the safety theorems
  about a single replica and about the whole shard rest on it.
\<close>

section \<open>Role transitions\<close>

definition voters :: "raft \<Rightarrow> u64 set" where
  "voters r = set (mkeys (r_remotes r)) \<union> set (mkeys (r_witnesses r))"

definition restarted :: "raft \<Rightarrow> u64 \<Rightarrow> raft \<Rightarrow> bool" where
  "restarted r t r' \<longleftrightarrow>
     config_kept r r' \<and> same_members r r' \<and> r_term r' = t \<and>
     r_vote r' = (if r_term r = t then r_vote r else NoLeader) \<and> r_msgs r' = r_msgs r \<and>
     lg_committed (r_log r') = lg_committed (r_log r) \<and> r_votes r' = []"

lemma mkeys_reset_remote_map [simp]: "mkeys (reset_remote_map r m) = mkeys m"
  by (simp add: reset_remote_map_def)

lemmas reset_simps = resetMatchValueArray_def resetWitnesses_def resetNonVotings_def
  resetRemotes_def abortLeaderTransfer_def clearPendingConfigChange_def set_rl_def

definition timers_only :: "raft \<Rightarrow> raft \<Rightarrow> bool" where
  "timers_only r r' \<longleftrightarrow>
     config_kept r r' \<and> r_remotes r' = r_remotes r \<and> r_nonVotings r' = r_nonVotings r \<and>
     r_witnesses r' = r_witnesses r \<and> r_term r' = r_term r \<and> r_vote r' = r_vote r \<and>
     r_msgs r' = r_msgs r \<and> r_log r' = r_log r \<and> r_state r' = r_state r"

lemma setRandomizedElectionTimeout_post: "post (setRandomizedElectionTimeout r) (timers_only r)"
  by (auto simp: setRandomizedElectionTimeout_def Let_def split_beta timers_only_def config_kept_def)

lemma reset_post: "post (reset r t b) (\<lambda>r'. restarted r t r' \<and> r_state r' = r_state r)"
proof -
  define r1 where "r1 = (if r_term r \<noteq> t then r\<lparr>r_term := t, r_vote := NoLeader\<rparr> else r)"
  define r2 where "r2 = (if il_Enabled (r_rl r1) then set_rl (il_Reset (r_rl r1)) r1 else r1)"
  have r2: "config_kept r r2 \<and> same_members r r2 \<and> r_term r2 = t \<and>
      r_vote r2 = (if r_term r = t then r_vote r else NoLeader) \<and> r_msgs r2 = r_msgs r \<and>
      lg_committed (r_log r2) = lg_committed (r_log r) \<and> r_state r2 = r_state r"
    by (auto simp: r2_def r1_def set_rl_def config_kept_def same_members_def)
  have "post (if b then setRandomizedElectionTimeout (r2\<lparr>r_electionTick := 0\<rparr>) else Inr r2)
      (timers_only r2)"
    by (rule post_if, rule post_mono [OF setRandomizedElectionTimeout_post])
      (auto simp: timers_only_def config_kept_def)
  then show ?thesis
    unfolding reset_def Let_def r1_def [symmetric] r2_def [symmetric] post_simps
    by (rule post_mono)
      (use r2 in \<open>auto simp: restarted_def reset_simps config_kept_def same_members_def timers_only_def\<close>)
qed

lemma setLeaderID_other [simp]:
  "r_state (setLeaderID r lid) = r_state r"
  "r_term (setLeaderID r lid) = r_term r"
  "r_vote (setLeaderID r lid) = r_vote r"
  "r_votes (setLeaderID r lid) = r_votes r"
  "r_msgs (setLeaderID r lid) = r_msgs r"
  "r_log (setLeaderID r lid) = r_log r"
  "r_remotes (setLeaderID r lid) = r_remotes r"
  "r_nonVotings (setLeaderID r lid) = r_nonVotings r"
  "r_witnesses (setLeaderID r lid) = r_witnesses r"
  "r_replicaID (setLeaderID r lid) = r_replicaID r"
  by (simp_all add: setLeaderID_def emit_def Let_def)

lemma config_kept_setLeaderID [simp]: "config_kept r (setLeaderID r' lid) = config_kept r r'"
  by (simp add: config_kept_def setLeaderID_def emit_def Let_def)

lemma config_kept_vote [simp]: "config_kept r (r'\<lparr>r_vote := v\<rparr>) = config_kept r r'"
  by (simp add: config_kept_def)

lemma config_kept_state [simp]: "config_kept (r\<lparr>r_state := s\<rparr>) r' = config_kept r r'"
  by (simp add: config_kept_def)

lemma config_kept_replicaID: "config_kept r r' \<Longrightarrow> r_replicaID r' = r_replicaID r"
  by (simp add: config_kept_def)

lemma restarted_setLeaderID [simp]: "restarted r t (setLeaderID r' lid) = restarted r t r'"
  by (simp add: restarted_def same_members_def)

lemma restarted_state [simp]: "restarted (r\<lparr>r_state := s\<rparr>) t r' = restarted r t r'"
  by (simp add: restarted_def config_kept_def same_members_def)

lemma restarted_calm:
  "restarted r (r_term r) r' \<Longrightarrow> r_state r' \<noteq> Leader \<Longrightarrow> r_state r' \<noteq> Candidate \<Longrightarrow>
     class_kept r r' \<Longrightarrow> calm r r'"
  by (auto simp: frame_defs restarted_def)

lemma toFollowerState_post:
  "post (toFollowerState r t lid b)
     (\<lambda>r'. restarted r t r' \<and> r_state r' = Follower \<and> r_state r \<noteq> Witness)"
  unfolding toFollowerState_def
  by (auto simp: isWitness_def intro!: post_mono [OF reset_post])

lemma becomeFollower_calm: "post (becomeFollower r (r_term r) lid) (calm r)"
  unfolding becomeFollower_def
  by (rule post_mono [OF toFollowerState_post]) (auto intro!: restarted_calm simp: class_kept_def)

lemmas becomeFollower_wp [calm_wp_rules] = calm_wp1 [OF becomeFollower_calm]

lemma becomePreVoteCandidate_post:
  "post (becomePreVoteCandidate r) (\<lambda>r'. calm r r' \<and> r_state r' = PreVoteCandidate)"
  unfolding becomePreVoteCandidate_def Let_def
  by (auto simp: isWitness_def isNonVoting_def isLeader_def class_kept_def
      intro!: post_mono [OF reset_post] restarted_calm)

definition adopts :: "raft \<Rightarrow> u64 \<Rightarrow> raft \<Rightarrow> bool" where
  "adopts r t r' \<longleftrightarrow>
     basic r r' \<and> same_members r r' \<and> r_msgs r' = r_msgs r \<and> r_term r < t \<and> r_term r' = t \<and>
     r_vote r' = NoLeader \<and> r_state r' \<noteq> Leader \<and> r_state r' \<noteq> Candidate"

lemma restarted_adopts:
  "restarted r t r' \<Longrightarrow> r_term r < t \<Longrightarrow> r_state r' \<noteq> Leader \<Longrightarrow> r_state r' \<noteq> Candidate \<Longrightarrow>
     class_kept r r' \<Longrightarrow> adopts r t r'"
  by (auto simp: adopts_def restarted_def basic_def commit_grows_def)

lemma onHigherTerm_post:
  assumes "r_term r < m_Term m"
  shows "post (onHigherTerm r m) (\<lambda>r'. r' = r \<or> adopts r (m_Term m) r')"
  unfolding onHigherTerm_def becomeNonVoting_def becomeWitness_def becomeFollower_def
    becomeFollowerKE_def Let_def
  by (auto simp: isWitness_def isNonVoting_def class_kept_def assms
      intro!: post_mono [OF reset_post] post_mono [OF toFollowerState_post] restarted_adopts)

definition newly_leads :: "raft \<Rightarrow> raft \<Rightarrow> bool" where
  "newly_leads r r' \<longleftrightarrow>
     basic r r' \<and> same_members r r' \<and> quiet_sends r r' \<and> r_term r' = r_term r \<and>
     r_vote r' = r_vote r \<and> r_state r' = Leader"

lemma newly_leads_calm: "newly_leads r r' \<Longrightarrow> calm r' r'' \<Longrightarrow> r_state r'' = Leader \<Longrightarrow> newly_leads r r''"
  unfolding newly_leads_def calm_def quiet_def
  using quiet_sends_trans [of r r' r''] basic_trans [of r r' r'']
  by (auto simp: same_members_def basic_def config_kept_def)

lemma reset_newly_leads:
  "restarted r (r_term r) r' \<Longrightarrow> r_state r' = Leader \<Longrightarrow> r_state r \<noteq> Witness \<Longrightarrow> newly_leads r r'"
  by (auto simp: newly_leads_def restarted_def basic_def commit_grows_def class_kept_def
      quiet_sends_def)

lemma preLeaderPromotionHandleConfigChange_wp:
  "calm r0 r \<Longrightarrow> (\<And>r'. calm r0 r' \<Longrightarrow> r_state r' = r_state r \<Longrightarrow> Q r') \<Longrightarrow>
     post (preLeaderPromotionHandleConfigChange r) Q"
  unfolding preLeaderPromotionHandleConfigChange_def post_simps
  by (rule post_any) (auto simp: setPendingConfigChange_def)

lemma state_rp_set [simp]: "r_state (rp_set loc nid rp r) = r_state r"
  by (cases loc) (auto simp: rp_set_def)

lemma tryCommit_state: "post (tryCommit r) (\<lambda>x. r_state (snd x) = r_state r)"
  unfolding tryCommit_def by (auto simp: Let_def split_beta intro!: mustBeLeader_wp post_any)

lemma appendEntries_state: "post (appendEntries r es) (\<lambda>r'. r_state r' = r_state r)"
  unfolding appendEntries_def calm_unfold
  by (rule post_any, rule post_any, rule post_if, simp only: post_simps, rule post_mono [OF tryCommit_state])
    (auto simp: split_beta)

lemma becomeLeader_post:
  "post (becomeLeader r) (\<lambda>r'. newly_leads r r' \<and> (r_state r = Leader \<or> r_state r = Candidate))"
proof -
  have append: "post (appendEntries r2 es) (\<lambda>r'. newly_leads r r')"
    if "newly_leads r r1" "calm r1 r2" "r_state r2 = Leader" for r1 r2 es
  proof -
    have "post (appendEntries r2 es) (\<lambda>r'. calm r2 r' \<and> r_state r' = r_state r2)"
      by (simp add: post_conj appendEntries_calm appendEntries_state)
    then show ?thesis
      by (rule post_mono) (use that in \<open>auto intro: newly_leads_calm dest: calm_trans\<close>)
  qed
  show ?thesis
    unfolding becomeLeader_def Let_def post_simps
  proof (rule post_if, simp, unfold post_simps, rule post_mono [OF reset_post])
    fix r'
    assume s: "\<not> (\<not> isLeader r \<and> \<not> isCandidate r)"
      and r': "restarted (r\<lparr>r_state := Leader\<rparr>) (r_term (r\<lparr>r_state := Leader\<rparr>)) r' \<and>
        r_state r' = r_state (r\<lparr>r_state := Leader\<rparr>)"
    let ?r1 = "setLeaderID r' (r_replicaID r')"
    have lead: "newly_leads r ?r1"
      using s r' by (intro reset_newly_leads) (auto simp: isLeader_def isCandidate_def)
    show "post (preLeaderPromotionHandleConfigChange ?r1) (\<lambda>x. post (appendEntries x
        [zero_Entry\<lparr>e_Type := ApplicationEntry, e_Cmd := []\<rparr>])
        (\<lambda>r'. newly_leads r r' \<and> (r_state r = Leader \<or> r_state r = Candidate)))"
      by (rule preLeaderPromotionHandleConfigChange_wp [of ?r1])
        (use s r' append [OF lead] in \<open>auto simp: post_conj isLeader_def isCandidate_def\<close>)
  qed
qed

section \<open>Campaigns\<close>

lemma keys_maps_copy: "fst ` set (maps_copy dst src) = fst ` set dst \<union> fst ` set src"
proof (induction src arbitrary: dst)
  case (Cons kv src)
  obtain k v where kv: "kv = (k, v)" by (cases kv)
  have "maps_copy dst (kv # src) = maps_copy (mput k v dst) src"
    by (simp add: maps_copy_def kv)
  then show ?case using Cons by (simp add: kv dom_update)
qed (simp add: maps_copy_def)

lemma keys_votingMembers: "fst ` set (votingMembers r) = voters r"
  unfolding votingMembers_def keys_maps_copy by (simp add: voters_def)

definition candidacy :: "raft \<Rightarrow> raft \<Rightarrow> bool" where
  "candidacy r r' \<longleftrightarrow>
     config_kept r r' \<and> same_members r r' \<and> r_msgs r' = r_msgs r \<and>
     lg_committed (r_log r') = lg_committed (r_log r) \<and> r_term r' = r_term r + 1 \<and>
     r_vote r' = r_replicaID r \<and> r_state r' = Candidate \<and>
     r_state r \<noteq> Leader \<and> r_state r \<noteq> NonVoting \<and> r_state r \<noteq> Witness"

lemma becomeCandidate_post: "post (becomeCandidate r) (\<lambda>r'. candidacy r r' \<and> r_votes r' = [])"
  unfolding becomeCandidate_def Let_def
  by (auto simp: isWitness_def isNonVoting_def isLeader_def intro!: post_mono [OF reset_post])
    (auto simp: candidacy_def restarted_def same_members_def dest: config_kept_replicaID)

definition vote_request :: "raft \<Rightarrow> Message \<Rightarrow> bool" where
  "vote_request r m \<longleftrightarrow>
     m_From m = r_replicaID r \<and> m_Type m \<noteq> RequestVoteResp \<and>
     (m_Type m = RequestVote \<longrightarrow> m_Term m = r_term r \<and> (rt_ok (r_rt r) \<longrightarrow> m_To m \<in> voters r))"

definition campaigns :: "raft \<Rightarrow> raft \<Rightarrow> bool" where
  "campaigns r r' \<longleftrightarrow>
     basic r r' \<and> same_members r r' \<and> r_term r' = r_term r + 1 \<and> r_vote r' = r_replicaID r \<and>
     r_state r \<noteq> Leader \<and> r_state r \<noteq> NonVoting \<and> r_state r \<noteq> Witness \<and>
     (\<exists>ms. r_msgs r' = r_msgs r @ ms \<and> (\<forall>m \<in> set ms. vote_request r' m)) \<and>
     (r_state r' = Candidate \<and> r_votes r' = [(r_replicaID r, True)] \<or>
      r_state r' = Leader \<and> isSingleNodeQuorum r)"

lemma send_request:
  "isRequestVoteMessage (m_Type m) \<Longrightarrow>
     post (send r m) (\<lambda>r'. r' = r\<lparr>r_msgs := r_msgs r @ [m\<lparr>m_From := r_replicaID r\<rparr>]\<rparr>)"
  by (auto simp: send_def finalizeMessageTerm_def isRequestVoteMessage_def)

lemma request_loop:
  assumes "\<And>k. isRequestVoteMessage (m_Type (req k))"
  shows "post (foldM (\<lambda>k r. if k = r_replicaID r then Inr r else send r (req k)) ks r)
     (\<lambda>r'. \<exists>ms. r' = r\<lparr>r_msgs := r_msgs r @ ms\<rparr> \<and>
        (\<forall>m \<in> set ms. \<exists>k \<in> set ks. m = (req k)\<lparr>m_From := r_replicaID r\<rparr>))"
proof (rule post_foldM)
  show "\<exists>ms. r = r\<lparr>r_msgs := r_msgs r @ ms\<rparr> \<and>
      (\<forall>m \<in> set ms. \<exists>k \<in> set ks. m = (req k)\<lparr>m_From := r_replicaID r\<rparr>)"
    by (rule exI [of _ "[]"]) simp
next
  fix k s
  assume k: "k \<in> set ks" and "\<exists>ms. s = r\<lparr>r_msgs := r_msgs r @ ms\<rparr> \<and>
      (\<forall>m \<in> set ms. \<exists>k \<in> set ks. m = (req k)\<lparr>m_From := r_replicaID r\<rparr>)"
  then obtain ms where s: "s = r\<lparr>r_msgs := r_msgs r @ ms\<rparr>"
    and ms: "\<forall>m \<in> set ms. \<exists>k \<in> set ks. m = (req k)\<lparr>m_From := r_replicaID r\<rparr>" by blast
  let ?P = "\<lambda>r'. \<exists>ms. r' = r\<lparr>r_msgs := r_msgs r @ ms\<rparr> \<and>
      (\<forall>m \<in> set ms. \<exists>k \<in> set ks. m = (req k)\<lparr>m_From := r_replicaID r\<rparr>)"
  have "?P (s\<lparr>r_msgs := r_msgs s @ [(req k)\<lparr>m_From := r_replicaID s\<rparr>]\<rparr>)"
    by (rule exI [of _ "ms @ [(req k)\<lparr>m_From := r_replicaID r\<rparr>]"]) (use s ms k in auto)
  moreover have "?P s" using s ms by blast
  ultimately show "post (if k = r_replicaID s then Inr s else send s (req k)) ?P"
    by (auto intro!: post_mono [OF send_request [OF assms]])
qed

lemma campaign_requests:
  assumes "candidacy r r1" and "r_votes r1 = [(r_replicaID r, True)]" and "trm = r_term r1"
  shows "post (bind_res lt (\<lambda>t. foldM (\<lambda>k r.
       if k = r_replicaID r then Inr r
       else send r ((zero_Message RequestVote)\<lparr>m_Term := trm, m_To := k,
              m_LogIndex := i, m_LogTerm := t, m_Hint := h\<rparr>))
       (fst (range_r r1 (votingMembers r1))) (snd (range_r r1 (votingMembers r1))))) (campaigns r)"
  unfolding post_simps
proof (rule post_any)
  fix t
  let ?r2 = "snd (range_r r1 (votingMembers r1))" and ?ks = "fst (range_r r1 (votingMembers r1))"
  let ?req = "\<lambda>k. (zero_Message RequestVote)\<lparr>m_Term := r_term r1, m_To := k, m_LogIndex := i,
      m_LogTerm := t, m_Hint := h\<rparr>"
  have ks: "rt_ok (r_rt r1) \<Longrightarrow> set ?ks = voters r1"
    using set_range_keys [of "r_rt r1" "votingMembers r1"]
    by (simp add: range_r_eq keys_votingMembers)
  have "post (foldM (\<lambda>k r. if k = r_replicaID r then Inr r else send r (?req k)) ?ks ?r2) (campaigns r)"
  proof (rule post_mono [OF request_loop])
    fix r'
    assume "\<exists>ms. r' = ?r2\<lparr>r_msgs := r_msgs ?r2 @ ms\<rparr> \<and>
        (\<forall>m \<in> set ms. \<exists>k \<in> set ?ks. m = (?req k)\<lparr>m_From := r_replicaID ?r2\<rparr>)"
    then obtain ms where r': "r' = ?r2\<lparr>r_msgs := r_msgs ?r2 @ ms\<rparr>"
      and ms: "\<forall>m \<in> set ms. \<exists>k \<in> set ?ks. m = (?req k)\<lparr>m_From := r_replicaID ?r2\<rparr>" by blast
    have "\<forall>m \<in> set ms. vote_request r' m"
      using ms ks by (force simp: vote_request_def r' voters_def range_r_eq)
    then show "campaigns r r'"
      using assms unfolding campaigns_def candidacy_def basic_def
      by (auto simp: r' range_r_eq config_kept_def same_members_def commit_grows_def class_kept_def)
  qed (simp add: isRequestVoteMessage_def)
  then show "post (foldM (\<lambda>k r. if k = r_replicaID r then Inr r else send r
      ((zero_Message RequestVote)\<lparr>m_Term := trm, m_To := k, m_LogIndex := i, m_LogTerm := t,
         m_Hint := h\<rparr>)) ?ks ?r2) (campaigns r)"
    unfolding assms(3) .
qed

lemma same_members_single: "same_members r r' \<Longrightarrow> isSingleNodeQuorum r' = isSingleNodeQuorum r"
  unfolding isSingleNodeQuorum_def quorum_def numVotingMembers_def same_members_def
  by (metis length_map)

lemma campaign_wins:
  assumes "candidacy r r1" and "isSingleNodeQuorum r1"
  shows "post (becomeLeader r1) (campaigns r)"
proof (rule post_mono [OF becomeLeader_post])
  fix r'
  assume "newly_leads r1 r' \<and> (r_state r1 = Leader \<or> r_state r1 = Candidate)"
  then have n: "newly_leads r1 r'" by simp
  then obtain ms where ms: "r_msgs r' = r_msgs r1 @ ms" "\<forall>m \<in> set ms. quiet_msg r1 m"
    by (auto simp: newly_leads_def quiet_sends_def)
  have "basic r r1"
    using assms(1) by (auto simp: candidacy_def basic_def commit_grows_def class_kept_def)
  with n have "basic r r'" by (auto simp: newly_leads_def intro: basic_trans)
  moreover have "\<forall>m \<in> set ms. vote_request r' m"
    using ms n by (auto simp: vote_request_def quiet_msg_def newly_leads_def basic_def config_kept_def)
  ultimately show "campaigns r r'"
    using n assms ms by (auto simp: campaigns_def newly_leads_def candidacy_def same_members_def
        same_members_single [of r r1])
qed

lemma campaign_post: "post (campaign r) (campaigns r)"
  unfolding campaign_def post_simps
proof (rule post_mono [OF becomeCandidate_post])
  fix r1
  assume r1: "candidacy r r1 \<and> r_votes r1 = []"
  define r2 where "r2 = emit (CampaignLaunched \<lparr>ci_ShardID = r_shardID r1,
      ci_ReplicaID = r_replicaID r1, ci_PreVote = False, ci_Term = r_term r1\<rparr>) r1"
  define r3 where "r3 = snd (handleVoteResp r2 (r_replicaID r2) False)"
  have r3: "candidacy r r3 \<and> r_votes r3 = [(r_replicaID r, True)] \<and> r_term r3 = r_term r1"
    using r1 by (auto simp: r3_def r2_def handleVoteResp_def emit_def candidacy_def config_kept_def
        same_members_def Let_def mhas_def)
  define r4 where "r4 = (if r_isLeaderTransferTarget r3 then r3\<lparr>r_isLeaderTransferTarget := False\<rparr> else r3)"
  have r4: "candidacy r r4 \<and> r_votes r4 = [(r_replicaID r, True)] \<and> r_term r4 = r_term r1"
    using r3 by (auto simp: r4_def candidacy_def config_kept_def same_members_def)
  show "post (let trm = r_term r1;
           r = emit (CampaignLaunched \<lparr>ci_ShardID = r_shardID r1, ci_ReplicaID = r_replicaID r1,
                       ci_PreVote = False, ci_Term = trm\<rparr>) r1;
           (_, r) = handleVoteResp r (r_replicaID r) False
       in if isSingleNodeQuorum r then becomeLeader r
          else
            let hint = (if r_isLeaderTransferTarget r then r_replicaID r else 0);
                r = (if r_isLeaderTransferTarget r then r\<lparr>r_isLeaderTransferTarget := False\<rparr> else r);
                index = lg_lastIndex (r_log r)
            in bind_res (lg_lastTerm (r_log r)) (\<lambda>lastTerm.
                 let (ks, r) = range_r r (votingMembers r)
                 in foldM (\<lambda>k r.
                      if k = r_replicaID r then Inr r
                      else send r ((zero_Message RequestVote)\<lparr>m_Term := trm, m_To := k,
                             m_LogIndex := index, m_LogTerm := lastTerm, m_Hint := hint\<rparr>)) ks r))
     (campaigns r)"
    unfolding Let_def split_beta r2_def [symmetric] r3_def [symmetric] r4_def [symmetric] post_simps
    by (rule post_if, rule campaign_wins [OF conjunct1 [OF r3]], assumption)
      (rule campaign_requests, use r4 in simp_all)
qed

end
