(* ===== verification/RaftHandle.thy ===== *)
theory RaftHandle
  imports RaftSteps
begin

text \<open>
  The effect of every handler, of the clock and of \<open>Handle\<close> in the terms of \<open>RaftSteps\<close>, up to the
  summary lemmas \<open>tick_steps\<close> and \<open>Handle_steps\<close>, and the agreement of \<open>Handle0\<close> with \<open>Handle\<close>.
\<close>

section \<open>Calm handlers\<close>

lemma commitTo_wp:
  "calm r0 r \<Longrightarrow> (\<And>l. calm r0 (r\<lparr>r_log := l\<rparr>) \<Longrightarrow> Q l) \<Longrightarrow> post (commitTo (r_log r) i) Q"
  by (rule log_wp [of r0 r _ "\<lambda>x. x"]) (auto intro: commitTo_grows)

lemma lg_restore_wp:
  "calm r0 r \<Longrightarrow> (\<And>l. calm r0 (r\<lparr>r_log := l\<rparr>) \<Longrightarrow> Q l) \<Longrightarrow> post (lg_restore (r_log r) ss) Q"
  by (rule log_wp [of r0 r _ "\<lambda>x. x"]) (auto intro: lg_restore_grows)

lemma tryAppend_wp:
  "calm r0 r \<Longrightarrow> (\<And>x. calm r0 (r\<lparr>r_log := fst x\<rparr>) \<Longrightarrow> Q x) \<Longrightarrow> post (tryAppend (r_log r) i es) Q"
  by (rule log_wp [of r0 r _ fst])
    (use tryAppend_committed [of "r_log r" i es] in \<open>auto simp: post_iff\<close>)

lemma handleHeartbeatMessage_calm: "post (handleHeartbeatMessage r m) (calm r)"
  unfolding handleHeartbeatMessage_def post_simps
  by (rule commitTo_wp [of r r], simp) (rule send_wp [of _ r], simp_all)

lemma restore_calm: "post (restore r ss) (\<lambda>x. calm r (snd x))"
  unfolding restore_def
  by (intro post_if; (simp; fail)?; unfold post_simps; rule post_any; rule post_if; unfold post_simps)
    (rule commitTo_wp [of r r] lg_restore_wp [of r r], simp_all)+

lemma handleInstallSnapshotMessage_calm: "post (handleInstallSnapshotMessage r m) (calm r)"
  unfolding handleInstallSnapshotMessage_def calm_unfold
  by (rule calm_wp2 [OF restore_calm, of r], simp, rule post_if) (rule send_wp [of _ r], simp_all)+

lemma replicate_calm:
  "post (tryAppend (r_log r) i es) (\<lambda>x. post (commitTo (fst x) c)
      (\<lambda>l. post (send (r\<lparr>r_log := l\<rparr>) (resp\<lparr>m_LogIndex := j\<rparr>)) (calm r)))"
  if "m_Type resp = ReplicateResp"
proof (rule tryAppend_wp [of r r], simp)
  fix x :: "entryLog \<times> bool"
  assume "calm r (r\<lparr>r_log := fst x\<rparr>)"
  then show "post (commitTo (fst x) c) (\<lambda>l. post (send (r\<lparr>r_log := l\<rparr>) (resp\<lparr>m_LogIndex := j\<rparr>)) (calm r))"
    using commitTo_wp [of r "r\<lparr>r_log := fst x\<rparr>" "\<lambda>l. post (send (r\<lparr>r_log := l\<rparr>) (resp\<lparr>m_LogIndex := j\<rparr>)) (calm r)" c]
    by (simp add: send_wp [of _ r] that)
qed

lemma handleReplicateMessage_calm: "post (handleReplicateMessage r m) (calm r)"
  unfolding handleReplicateMessage_def calm_unfold
proof (rule post_if)
  show "post (send r ((zero_Message ReplicateResp)
      \<lparr>m_To := m_From m, m_LogIndex := lg_committed (r_log r)\<rparr>)) (calm r)"
    by (rule send_calm) simp_all
qed (unfold post_simps, rule post_any, rule post_if, unfold post_simps,
    rule replicate_calm, simp, rule send_wp [of _ r], simp_all)

lemma calm_broadcast_after: "calm r r' \<Longrightarrow> post (broadcastReplicateMessage r') (calm r)"
  by (rule calm_sends(1)) auto

lemma leaderHasQuorum_calm: "calm r (snd (leaderHasQuorum r))"
proof -
  let ?f = "\<lambda>(nid, member) (c, r). if nid = r_replicaID r \<or> isActive member
      then (Suc c, rp_set (voting_loc r nid) nid (setNotActive member) r) else (c, r)"
  have "calm r (snd (fold ?f xs (c, s)))"
    if "calm r s" "fst ` set xs \<subseteq> voters r" for xs c s
    using that
  proof (induction xs arbitrary: c s)
    case (Cons x xs)
    obtain nid member where x: "x = (nid, member)" by (cases x)
    have "nid \<in> voters s"
      using Cons.prems x by (auto simp: voters_def calm_def same_members_def)
    then have "mhas (rmap s (voting_loc s nid)) nid"
      by (auto simp: voters_def voting_loc_def rmap_def mhas_iff)
    then show ?case
      using Cons by (simp add: x)
  qed simp
  from this [of r "votingMembers r" 0] show ?thesis
    by (simp add: leaderHasQuorum_def Let_def split_beta keys_votingMembers)
qed

lemma handleLeaderCheckQuorum_calm: "post (handleLeaderCheckQuorum r m) (calm r)"
  unfolding handleLeaderCheckQuorum_def calm_unfold
  by (rule mustBeLeader_wp, rule post_if)
    (auto intro!: becomeFollower_wp [of r] leaderHasQuorum_calm)

lemma propose_entries_calm: "calm r0 r \<Longrightarrow> calm r0 (fst (propose_entries r es))"
  by (induction r es rule: propose_entries.induct) (auto simp: Let_def split_beta)

lemma handleLeaderPropose_calm: "post (handleLeaderPropose r m) (calm r)"
  unfolding handleLeaderPropose_def calm_unfold
  by (rule mustBeLeader_wp, rule post_if, simp, unfold post_simps)
    (rule appendEntries_wp [of r], simp add: propose_entries_calm, rule calm_broadcast_after)

lemma handleLeaderReadIndex_calm: "post (handleLeaderReadIndex r m) (calm r)"
  unfolding handleLeaderReadIndex_def calm_unfold
proof (rule mustBeLeader_wp, rule post_if, simp, rule post_if)
  show "post (bind_res (hasCommittedEntryAtCurrentTerm r) (\<lambda>ready. if \<not> ready then Inr (reportDroppedReadIndex r m)
      else bind_res (addRequest (r_readIndex r) (lg_committed (r_log r)) (message_ctx m) (m_From m)) (\<lambda>ri.
        broadcastHeartbeatMessageWithHint (r\<lparr>r_readIndex := ri\<rparr>) (message_ctx m)))) (calm r)"
    by (simp, rule post_any, auto) (rule post_any, rule calm_sends(3) [of r], simp_all)
qed (rule post_if, rule send_wp [of _ r], simp_all)

lemma enterRetryState_calm: "post (enterRetryState r loc nid) (calm r)"
  unfolding enterRetryState_def post_simps by (rule rp_deref_wp) auto

lemmas enterRetryState_wp = calm_wp1 [OF enterRetryState_calm]

lemma handleLeaderReplicateResp_calm: "post (handleLeaderReplicateResp r m loc) (calm r)"
proof -
  have accepted: "post (tryCommit (rp_set loc (m_From m) rp r)) (\<lambda>x. post
      (if fst x then broadcastReplicateMessage (snd x)
       else if b then sendReplicateMessage (snd x) (m_From m) else Inr (snd x))
      (\<lambda>r. post (rp_deref r loc (m_From m)) (\<lambda>rp. post
         (if leaderTransfering r \<and> m_From m = r_leaderTransferTarget r \<and>
             lg_lastIndex (r_log r) = rm_match rp
          then sendTimeoutNowMessage r (r_leaderTransferTarget r) else Inr r) Q)))"
    if "mhas (rmap r loc) (m_From m)" "Q = calm r" for rp b Q
  proof (rule tryCommit_wp [of r])
    show "calm r (rp_set loc (m_From m) rp r)" using that(1) by simp
    fix x :: "bool \<times> raft"
    assume x: "calm r (snd x)"
    have tail: "post (rp_deref s loc (m_From m)) (\<lambda>rp. post
         (if leaderTransfering s \<and> m_From m = r_leaderTransferTarget s \<and>
             lg_lastIndex (r_log s) = rm_match rp
          then sendTimeoutNowMessage s (r_leaderTransferTarget s) else Inr s) Q)" if "calm r s" for s
      by (rule rp_deref_wp, rule post_if, rule calm_sends(2) [OF that])
        (auto simp: \<open>Q = calm r\<close> that)
    show "post (if fst x then broadcastReplicateMessage (snd x)
       else if b then sendReplicateMessage (snd x) (m_From m) else Inr (snd x))
      (\<lambda>r. post (rp_deref r loc (m_From m)) (\<lambda>rp. post
         (if leaderTransfering r \<and> m_From m = r_leaderTransferTarget r \<and>
             lg_lastIndex (r_log r) = rm_match rp
          then sendTimeoutNowMessage r (r_leaderTransferTarget r) else Inr r) Q))"
      by (rule post_if, rule calm_sends(1) [OF x], erule tail, rule post_if,
          rule sendReplicateMessage_wp [OF x], erule tail, unfold post_simps, rule tail [OF x])
  qed
  have rejected: "post (if b then bind_res (enterRetryState (rp_set loc (m_From m) rp r) loc (m_From m))
         (\<lambda>r. sendReplicateMessage r (m_From m)) else Inr (rp_set loc (m_From m) rp r)) (calm r)"
    if "mhas (rmap r loc) (m_From m)" for rp b
    by (rule post_if, unfold post_simps, rule enterRetryState_wp [of r], simp add: that,
        erule sendReplicateMessage_wp, simp_all add: that)
  show ?thesis
    unfolding handleLeaderReplicateResp_def calm_unfold
    by (rule mustBeLeader_wp, rule rp_deref_wp, rule post_if, rule post_if, unfold post_simps)
      (rule accepted, simp, rule refl, simp, rule rejected)
qed

lemma handleReadIndexLeaderConfirmation_calm: "post (handleReadIndexLeaderConfirmation r m) (calm r)"
  unfolding handleReadIndexLeaderConfirmation_def calm_unfold
  by (rule post_any, rule calm_foldM [of _ r]) (auto intro!: send_calm)

lemma handleLeaderHeartbeatResp_calm: "post (handleLeaderHeartbeatResp r m loc) (calm r)"
proof -
  have confirm: "post (if b then handleReadIndexLeaderConfirmation s m else Inr s) (calm r)"
    if "calm r s" for s b
    using that by (auto intro: calm_wp1 [OF handleReadIndexLeaderConfirmation_calm])
  show ?thesis
    unfolding handleLeaderHeartbeatResp_def calm_unfold
    by (rule mustBeLeader_wp, rule rp_deref_wp, rule post_if, rule sendReplicateMessage_wp [of r], simp,
        erule confirm, unfold post_simps, rule confirm, simp)
qed

lemma handleLeaderTransfer_calm: "post (handleLeaderTransfer r m) (calm r)"
  unfolding handleLeaderTransfer_def calm_unfold
  by (rule mustBeLeader_wp) (auto split: option.splits intro!: calm_sends(2) [of r])

lemma handleLeaderSnapshotStatus_calm: "post (handleLeaderSnapshotStatus r m loc) (calm r)"
  unfolding handleLeaderSnapshotStatus_def calm_unfold
  by (rule rp_deref_wp) (auto simp: setSnapshotAck_def)

lemma handleLeaderUnreachable_calm: "post (handleLeaderUnreachable r m loc) (calm r)"
  unfolding handleLeaderUnreachable_def by (rule enterRetryState_calm)

lemma lw_calm: "(\<And>loc. post (f r m loc) (calm r)) \<Longrightarrow> post (lw f r m) (calm r)"
  by (auto simp: lw_def split: option.splits)

lemma follower_calm:
  "post (handleFollowerReplicate r m) (calm r)"
  "post (handleFollowerHeartbeat r m) (calm r)"
  "post (handleFollowerReadIndexResp r m) (calm r)"
  "post (handleFollowerInstallSnapshot r m) (calm r)"
  unfolding handleFollowerReplicate_def handleFollowerHeartbeat_def handleFollowerReadIndexResp_def
    handleFollowerInstallSnapshot_def
  by (rule calm_wp1 [OF handleReplicateMessage_calm, of r], simp_all)
    (rule calm_wp1 [OF handleHeartbeatMessage_calm, of r] calm_wp1 [OF handleInstallSnapshotMessage_calm, of r], simp_all)+

lemma forward_calm:
  "m_Type m = Propose \<Longrightarrow> post (handleFollowerPropose r m) (calm r)"
  "m_Type m = ReadIndex \<Longrightarrow> post (handleFollowerReadIndex r m) (calm r)"
  "m_Type m = LeaderTransfer \<Longrightarrow> post (handleFollowerLeaderTransfer r m) (calm r)"
  unfolding handleFollowerPropose_def handleFollowerReadIndex_def handleFollowerLeaderTransfer_def
  by (auto intro!: send_calm)

lemma candidate_calm:
  "post (handleCandidatePropose r m) (calm r)"
  "post (handleCandidateReadIndex r m) (calm r)"
  "post (handleCandidateReplicate r m) (calm r)"
  "post (handleCandidateInstallSnapshot r m) (calm r)"
  "post (handleCandidateHeartbeat r m) (calm r)"
  unfolding handleCandidatePropose_def handleCandidateReadIndex_def handleCandidateReplicate_def
    handleCandidateInstallSnapshot_def handleCandidateHeartbeat_def
  by (simp_all add: Let_def)
    (rule becomeFollower_wp [of r], simp,
     rule calm_wp1 [OF handleReplicateMessage_calm, of r] calm_wp1 [OF handleHeartbeatMessage_calm, of r]
       calm_wp1 [OF handleInstallSnapshotMessage_calm, of r], assumption, assumption)+

lemma node_calm:
  "post (handleNodeRequestPreVote r m) (calm r)"
  "post (handleLogQuery r m) (calm r)"
  "post (handleLeaderRateLimit r m) (calm r)"
  "post (handleLeaderHeartbeat r m) (calm r)"
proof -
  show "post (handleNodeRequestPreVote r m) (calm r)"
    unfolding handleNodeRequestPreVote_def calm_unfold
    by (rule post_any, intro post_if) (simp, (rule send_calm, simp_all)+)
  show "post (handleLogQuery r m) (calm r)"
    unfolding handleLogQuery_def Let_def by (intro post_if post_on_error) simp_all
qed (simp_all add: handleLeaderRateLimit_def handleLeaderHeartbeat_def broadcastHeartbeatMessage_calm)

section \<open>Messages handled within a tick\<close>

lemma handlers_clock: "t \<noteq> LocalTick \<Longrightarrow> t \<noteq> TimeoutNow \<Longrightarrow> handlers tk st t = handlers tk' st t"
  by (cases st; cases t)
    (simp_all add: handlers_def follower_handlers_def candidate_handlers_def preVoteCandidate_handlers_def
      leader_handlers_def nonVoting_handlers_def witness_handlers_def)

lemma defaultHandle_clock:
  assumes "m_Type m \<noteq> LocalTick" "m_Type m \<noteq> TimeoutNow"
  shows "defaultHandle tk r m = defaultHandle tk' r m"
  unfolding defaultHandle_def handlers_clock [OF assms, of tk "r_state r" tk'] ..

lemma Handle0_is_Handle:
  assumes "m_Type m \<noteq> LocalTick" "m_Type m \<noteq> TimeoutNow"
  shows "Handle0 r m = Handle r m"
  unfolding Handle0_def Handle_def HandleW_def
    defaultHandle_clock [OF assms, of "\<lambda>r. Inl (GoPanic ''tick called from tick'')" _ tick] ..

end
