(* ===== verification/RaftEffects.thy ===== *)
theory RaftEffects
  imports RaftHandle
begin

text \<open>
  The handlers that are not calm, the clock, and \<open>Handle\<close> itself: \<open>tick_steps\<close> and \<open>Handle_steps\<close>
  classify every successful call.
\<close>

section \<open>Elections\<close>

definition eligible :: "raft \<Rightarrow> bool" where
  "eligible r \<longleftrightarrow> r_state r \<noteq> Leader \<and> r_state r \<noteq> NonVoting \<and> r_state r \<noteq> Witness"

definition calm_or_campaigns :: "raft \<Rightarrow> raft \<Rightarrow> bool" where
  "calm_or_campaigns r r' \<longleftrightarrow> calm r r' \<or> campaigns r r'"

lemma calm_campaigns:
  assumes "calm r r1" and "campaigns r1 r'" and "eligible r"
  shows "campaigns r r'"
proof -
  obtain ms ms' where ms: "r_msgs r1 = r_msgs r @ ms" "\<forall>m \<in> set ms. quiet_msg r m"
    and ms': "r_msgs r' = r_msgs r1 @ ms'" "\<forall>m \<in> set ms'. vote_request r' m"
    using assms unfolding calm_def quiet_def quiet_sends_def campaigns_def by blast
  have basic: "basic r r'" "basic r r1"
    using assms basic_trans [of r r1 r'] by (auto simp: calm_def quiet_def campaigns_def)
  then have "\<forall>m \<in> set (ms @ ms'). vote_request r' m"
    using ms(2) ms'(2) by (auto simp: vote_request_def quiet_msg_def basic_def config_kept_def)
  moreover have "r_msgs r' = r_msgs r @ (ms @ ms')" using ms ms' by simp
  ultimately have "\<exists>ms. r_msgs r' = r_msgs r @ ms \<and> (\<forall>m \<in> set ms. vote_request r' m)" by blast
  moreover have "isSingleNodeQuorum r1 = isSingleNodeQuorum r"
    using assms(1) by (intro same_members_single) (simp add: calm_def)
  moreover have "r_replicaID r1 = r_replicaID r"
    using basic(2) by (simp add: basic_def config_kept_def)
  ultimately show ?thesis
    using assms basic unfolding campaigns_def eligible_def
    by (auto simp: same_members_def calm_def quiet_def)
qed

lemma calm_or_campaigns_wp:
  "post m (calm_or_campaigns r1) \<Longrightarrow> calm r r1 \<Longrightarrow> eligible r \<Longrightarrow> post m (calm_or_campaigns r)"
  unfolding calm_or_campaigns_def by (erule post_mono) (auto intro: calm_campaigns calm_trans)

lemma campaign_wp: "calm r r1 \<Longrightarrow> eligible r \<Longrightarrow> post (campaign r1) (calm_or_campaigns r)"
  by (rule calm_or_campaigns_wp) (auto intro: post_mono [OF campaign_post] simp: calm_or_campaigns_def)

lemma handleVoteResp_calm:
  "r_state r \<noteq> Candidate \<Longrightarrow> calm r0 (snd (handleVoteResp r from rej)) = calm r0 r"
  by (auto simp: handleVoteResp_def Let_def frame_defs)

lemma preVoteCampaign_steps:
  assumes "eligible r"
  shows "post (preVoteCampaign r) (calm_or_campaigns r)"
proof -
  have requests: "post (foldM (\<lambda>k r. if k = r_replicaID r then Inr r
        else send r ((zero_Message RequestPreVote)\<lparr>m_Term := r_term r + 1, m_To := k,
          m_LogIndex := i, m_LogTerm := t\<rparr>)) ks s) (calm_or_campaigns r)"
    if "calm r s" for i t ks s
    by (rule calm_foldM [of _ r]) (auto intro!: send_calm simp: that calm_or_campaigns_def)
  show ?thesis
    unfolding preVoteCampaign_def calm_unfold
  proof (rule post_mono [OF becomePreVoteCandidate_post])
    fix r1
    let ?r2 = "snd (handleVoteResp r1 (r_replicaID r1) False)"
    assume "calm r r1 \<and> r_state r1 = PreVoteCandidate"
    then have calm2: "calm r ?r2" by (simp add: handleVoteResp_calm)
    show "post (if isSingleNodeQuorum ?r2 then campaign ?r2
        else bind_res (lg_lastTerm (r_log ?r2)) (\<lambda>lastTerm. foldM (\<lambda>k r. if k = r_replicaID r then Inr r
          else send r ((zero_Message RequestPreVote)\<lparr>m_Term := r_term r + 1, m_To := k,
            m_LogIndex := lg_lastIndex (r_log ?r2), m_LogTerm := lastTerm\<rparr>))
          (fst (range_r ?r2 (votingMembers ?r2))) (snd (range_r ?r2 (votingMembers ?r2)))))
      (calm_or_campaigns r)"
      by (rule post_if, rule campaign_wp [OF calm2 assms], unfold post_simps)
        (rule post_any, rule requests, simp add: calm2)
  qed
qed

lemma handleNodeElection_steps:
  "r_state r \<noteq> NonVoting \<Longrightarrow> r_state r \<noteq> Witness \<Longrightarrow> post (handleNodeElection r m) (calm_or_campaigns r)"
  unfolding handleNodeElection_def
  by (intro post_if preVoteCampaign_steps campaign_wp)
    (auto simp: calm_or_campaigns_def eligible_def isLeader_def)

section \<open>Votes\<close>

definition answers_vote :: "raft \<Rightarrow> Message \<Rightarrow> raft \<Rightarrow> bool" where
  "answers_vote r m r' \<longleftrightarrow>
     basic r r' \<and> same_members r r' \<and> r_term r' = r_term r \<and> r_state r' = r_state r \<and>
     r_votes r' = r_votes r \<and> r_log r' = r_log r \<and>
     (\<exists>resp. r_msgs r' = r_msgs r @ [resp] \<and> m_Type resp = RequestVoteResp \<and>
        m_From resp = r_replicaID r \<and> m_To resp = m_From m \<and> m_Term resp = r_term r \<and>
        (if m_Reject resp then r_vote r' = r_vote r
         else r_vote r' = m_From m \<and> canGrantVote r m \<and>
              upToDate (r_log r) (m_LogIndex m) (m_LogTerm m) = Inr True))"

lemma send_vote_resp:
  "m_Type m = RequestVoteResp \<Longrightarrow>
     post (send r m) (\<lambda>r'. r' = r\<lparr>r_msgs := r_msgs r @ [m\<lparr>m_From := r_replicaID r, m_Term := r_term r\<rparr>]\<rparr>)"
  by (auto simp: send_def finalizeMessageTerm_def isRequestVoteMessage_def isRequestMessage_def)

lemma handleNodeRequestVote_steps: "post (handleNodeRequestVote r m) (answers_vote r m)"
proof -
  let ?resp = "(zero_Message RequestVoteResp)\<lparr>m_To := m_From m\<rparr>"
  have grant: "post (send (r\<lparr>r_electionTick := 0, r_vote := m_From m\<rparr>) ?resp) (answers_vote r m)"
    if "canGrantVote r m" "upToDate (r_log r) (m_LogIndex m) (m_LogTerm m) = Inr True"
    by (rule post_mono [OF send_vote_resp])
      (use that in \<open>auto simp: answers_vote_def frame_defs\<close>)
  have reject: "post (send r (?resp\<lparr>m_Reject := True\<rparr>)) (answers_vote r m)"
    by (rule post_mono [OF send_vote_resp]) (auto simp: answers_vote_def frame_defs)
  show ?thesis
    unfolding handleNodeRequestVote_def Let_def
    by (cases "upToDate (r_log r) (m_LogIndex m) (m_LogTerm m)") (auto simp: grant reject)
qed

definition counted :: "raft \<Rightarrow> Message \<Rightarrow> (u64, bool) gomap" where
  "counted r m =
     (if mhas (r_votes r) (m_From m) then r_votes r else mput (m_From m) (\<not> m_Reject m) (r_votes r))"

definition counts_vote :: "raft \<Rightarrow> Message \<Rightarrow> raft \<Rightarrow> bool" where
  "counts_vote r m r' \<longleftrightarrow>
     basic r r' \<and> same_members r r' \<and> quiet_sends r r' \<and> r_term r' = r_term r \<and>
     r_vote r' = r_vote r \<and> \<not> mhas (r_nonVotings r) (m_From m) \<and>
     (r_state r' = Candidate \<and> r_votes r' = counted r m \<or>
      r_state r' = Leader \<and> length (filter snd (counted r m)) = quorum r)"

lemma send_state: "post (send r m) (\<lambda>r'. r_state r' = r_state r)"
  by (auto simp: send_def intro!: post_any)

lemma sendRateLimitMessage_state: "post (sendRateLimitMessage r) (\<lambda>r'. r_state r' = r_state r)"
  unfolding sendRateLimitMessage_def calm_unfold
  by (intro post_if, simp_all only: post_simps, rule post_any, rule post_mono [OF send_state])
    (simp add: set_rl_def)

lemma broadcastReplicateMessage_state: "post (broadcastReplicateMessage r) (\<lambda>r'. r_state r' = r_state r)"
proof -
  note send = send_state
  have repl: "post (sendReplicateMessage s nid) (\<lambda>r'. r_state r' = r_state s)" for s nid
    unfolding sendReplicateMessage_def
    by (cases "find_remote s nid", simp, simp only: option.case post_simps)
      (rule post_any, rule post_if, simp, rule post_on_error, rule post_if, simp,
       simp only: post_simps split_beta, rule post_any, rule post_mono [OF send], simp,
       rule post_if, simp only: post_simps, rule post_any, rule post_mono [OF send], simp, rule send)
  have "post (foldM (\<lambda>nid r. if nid \<noteq> r_replicaID r then sendReplicateMessage r nid else Inr r) ns s)
      (\<lambda>r'. r_state r' = r_state r)" if "r_state s = r_state r" for ns s
    by (rule post_foldM) (auto simp: that intro!: post_mono [OF repl])
  then show ?thesis
    unfolding broadcastReplicateMessage_def calm_unfold
    by (intro mustBeLeader_wp post_if) (simp_all add: nodes_def Let_def split_beta)
qed

lemma becomeLeader_broadcast:
  "post (bind_res (becomeLeader r) broadcastReplicateMessage) (newly_leads r)"
  unfolding post_simps
proof (rule post_mono [OF becomeLeader_post])
  fix r'
  assume "newly_leads r r' \<and> (r_state r = Leader \<or> r_state r = Candidate)"
  then have n: "newly_leads r r'" and lead: "r_state r' = Leader" by (simp_all add: newly_leads_def)
  have "post (broadcastReplicateMessage r') (\<lambda>r''. calm r' r'' \<and> r_state r'' = r_state r')"
    by (simp add: post_conj broadcastReplicateMessage_calm broadcastReplicateMessage_state)
  then show "post (broadcastReplicateMessage r') (newly_leads r)"
    by (rule post_mono) (use newly_leads_calm [OF n] lead in auto)
qed

lemma handleCandidateRequestVoteResp_steps:
  assumes "r_state r = Candidate"
  shows "post (handleCandidateRequestVoteResp r m) (\<lambda>r'. calm r r' \<or> counts_vote r m r')"
proof -
  let ?r1 = "r\<lparr>r_votes := counted r m\<rparr>"
  have hv: "handleVoteResp r (m_From m) (m_Reject m) = (length (filter snd (counted r m)), ?r1)"
    by (simp add: handleVoteResp_def counted_def)
  have q: "quorum ?r1 = quorum r"
    by (simp add: quorum_def numVotingMembers_def)
  have win: "post (bind_res (becomeLeader ?r1) broadcastReplicateMessage)
      (\<lambda>r'. calm r r' \<or> counts_vote r m r')"
    if "\<not> mhas (r_nonVotings r) (m_From m)" "length (filter snd (counted r m)) = quorum r"
    by (rule post_mono [OF becomeLeader_broadcast])
      (use that in \<open>auto simp: counts_vote_def newly_leads_def frame_defs\<close>)
  have lose: "post (becomeFollower ?r1 (r_term ?r1) NoLeader) (\<lambda>r'. calm r r' \<or> counts_vote r m r')"
    unfolding becomeFollower_def
    by (rule post_mono [OF toFollowerState_post])
      (auto simp: restarted_def frame_defs assms)
  have go: "\<not> mhas (r_nonVotings r) (m_From m) \<Longrightarrow> calm r ?r1 \<or> counts_vote r m ?r1"
    using assms by (auto simp: counts_vote_def frame_defs)
  show ?thesis
    unfolding handleCandidateRequestVoteResp_def hv Let_def split_beta fst_conv snd_conv q
    by (intro post_if win lose) (use go in simp_all)
qed

lemma handlePreVoteCandidateRequestPreVoteResp_steps:
  assumes "r_state r = PreVoteCandidate"
  shows "post (handlePreVoteCandidateRequestPreVoteResp r m) (calm_or_campaigns r)"
proof -
  let ?r1 = "snd (handleVoteResp r (m_From m) (m_Reject m))"
  have calm1: "calm r ?r1" using assms by (simp add: handleVoteResp_calm)
  have lose: "post (becomeFollower ?r1 (r_term ?r1) NoLeader) (calm_or_campaigns r)"
    by (rule becomeFollower_wp [OF calm1]) (simp add: calm_or_campaigns_def)
  show ?thesis
    unfolding handlePreVoteCandidateRequestPreVoteResp_def Let_def split_beta
    by (intro post_if campaign_wp lose) (simp_all add: calm_or_campaigns_def calm1 eligible_def assms)
qed

section \<open>Membership changes\<close>

lemma quiet_members [simp]:
  "quiet r0 (r\<lparr>r_remotes := v1\<rparr>) = quiet r0 r"
  "quiet r0 (r\<lparr>r_nonVotings := v2\<rparr>) = quiet r0 r"
  "quiet r0 (r\<lparr>r_witnesses := v3\<rparr>) = quiet r0 r"
  "quiet r0 (r\<lparr>r_pendingConfigChange := v4\<rparr>) = quiet r0 r"
  "quiet r0 (r\<lparr>r_leaderTransferTarget := v5\<rparr>) = quiet r0 r"
  "quiet r0 (r\<lparr>r_matched := v6\<rparr>) = quiet r0 r"
  by (simp_all add: frame_defs)

lemma quiet_membership_ops [simp]:
  "quiet r0 (deleteRemote r nid) = quiet r0 r"
  "quiet r0 (deleteNonVoting r nid) = quiet r0 r"
  "quiet r0 (deleteWitness r nid) = quiet r0 r"
  "quiet r0 (setRemote r nid mt nx) = quiet r0 r"
  "quiet r0 (setNonVoting r nid mt nx) = quiet r0 r"
  "quiet r0 (setWitness r nid mt nx) = quiet r0 r"
  "quiet r0 (clearPendingConfigChange r) = quiet r0 r"
  "quiet r0 (abortLeaderTransfer r) = quiet r0 r"
  "quiet r0 (resetMatchValueArray r) = quiet r0 r"
  by (simp_all add: deleteRemote_def deleteNonVoting_def deleteWitness_def setRemote_def
      setNonVoting_def setWitness_def clearPendingConfigChange_def abortLeaderTransfer_def
      resetMatchValueArray_def)

lemma quiet_of_calm:
  "post m (\<lambda>x. calm r (st x)) \<Longrightarrow> quiet r0 r \<Longrightarrow> (\<And>x. quiet r0 (st x) \<Longrightarrow> Q x) \<Longrightarrow> post m Q"
  by (rule quiet_wp [where r = r]) (auto intro: post_mono calm_quiet)

lemmas becomeFollower_quiet = quiet_of_calm [where st = "\<lambda>x. x", OF becomeFollower_calm]

lemma addNode_quiet: "post (addNode r nid) (quiet r)"
proof (cases "mget (r_nonVotings (clearPendingConfigChange r)) nid")
  case (Some rp)
  show ?thesis
    unfolding addNode_def Let_def Some option.case
    by (intro post_if becomeFollower_quiet [of r]) simp_all
qed (simp add: addNode_def Let_def)

lemma addNonVoting_quiet: "post (addNonVoting r nid) (quiet r)"
  by (simp add: addNonVoting_def Let_def)

lemma addWitness_quiet: "post (addWitness r nid) (quiet r)"
  by (simp add: addWitness_def Let_def)

lemma removeNode_quiet: "post (removeNode r nid) (quiet r)"
proof -
  have commit: "post (if b then bind_res (tryCommit s) (\<lambda>x. if fst x then broadcastReplicateMessage (snd x) else Inr (snd x))
      else Inr s) (quiet r)" if "quiet r s" for s b
    by (rule post_if, unfold post_simps,
        rule quiet_of_calm [OF tryCommit_calm that], rule post_if)
      (auto intro: quiet_of_calm [where st = "\<lambda>x. x", OF broadcastReplicateMessage_calm] that)
  show ?thesis
    unfolding removeNode_def calm_unfold
    by (rule post_if, rule becomeFollower_quiet [of r], simp, rule commit, simp)
      (unfold post_simps, rule commit, simp)
qed

lemma handleNodeConfigChange_quiet: "post (handleNodeConfigChange r m) (quiet r)"
  unfolding handleNodeConfigChange_def Let_def
  by (intro post_if addNode_quiet removeNode_quiet addNonVoting_quiet addWitness_quiet) simp_all

lemma restoreRemotes_quiet: "post (restoreRemotes r ss) (quiet r)"
proof -
  have nv: "quiet r s \<Longrightarrow> quiet r (fold (\<lambda>nid r. setNonVoting r nid (mt r nid) (nx r)) xs s)"
    and w: "quiet r s \<Longrightarrow> quiet r (fold (\<lambda>nid r. setWitness r nid (mt r nid) (nx r)) xs s)" for s mt nx xs
    by (induction xs arbitrary: s) auto
  have step: "post (bind_res (if nid = r_replicaID s \<and> isNonVoting s
        then becomeFollower s (r_term s) (r_leaderID s) else Inr s) (\<lambda>r.
          if mhas (r_witnesses r) nid then Inl (GoPanic ''Assumed witness could not promote to full member'')
          else Inr (setRemote r nid (restored_match r nid) (lg_lastIndex (r_log r) + 1)))) (quiet r)"
    if "quiet r s" for nid s
    unfolding post_simps
    by (rule post_if, rule becomeFollower_quiet [OF that]) (simp_all add: that)
  have rt: "quiet r (snd (range_r (r\<lparr>r_remotes := []\<rparr>) m))" for m :: "(u64, string) gomap"
    by (simp add: range_r_eq frame_defs)
  show ?thesis
    unfolding restoreRemotes_def calm_unfold
  proof (rule post_mono [OF post_foldM [where I = "quiet r"]])
    fix s
    assume "quiet r s"
    then show "post (if selfRemoved s \<and> isLeader s then becomeFollower s (r_term s) NoLeader else Inr s)
        (\<lambda>x. quiet r (resetMatchValueArray (fold (\<lambda>nid r. setWitness r nid (restored_match r nid) (lg_lastIndex (r_log r) + 1))
           (mkeys (mb_Witnesses (ss_Membership ss)))
           ((fold (\<lambda>nid r. setNonVoting r nid (restored_match r nid) (lg_lastIndex (r_log r) + 1))
             (mkeys (mb_NonVotings (ss_Membership ss))) (x\<lparr>r_nonVotings := []\<rparr>))\<lparr>r_witnesses := []\<rparr>))))"
      by (intro post_if becomeFollower_quiet [of r]) (simp_all add: nv w)
  qed (use step rt in auto)
qed

section \<open>The clock\<close>

lemma local_term [simp]: "m_Term m = 0 \<Longrightarrow> onMessageTermNotMatched r m = Inr (False, r)"
  by (simp add: onMessageTermNotMatched_def)

lemma Handle0_local:
  "m_Term m = 0 \<Longrightarrow> Handle0 r m = Inr r' \<Longrightarrow>
     \<exists>tk. tk = (\<lambda>r. Inl (GoPanic ''tick called from tick'')) \<and> defaultHandle tk r m = Inr r'"
  by (auto simp: Handle0_def HandleW_def split: if_splits)

lemmas handler_tables = handlers_def follower_handlers_def candidate_handlers_def
  preVoteCandidate_handlers_def leader_handlers_def nonVoting_handlers_def witness_handlers_def

lemma Handle0_calm:
  assumes "m_Term m = 0" and "m_Type m = CheckQuorum \<or> m_Type m = LeaderHeartbeat \<or> m_Type m = SnapshotStatus"
  shows "post (Handle0 r m) (calm r)"
  unfolding post_iff
proof (intro allI impI)
  fix r'
  assume "Handle0 r m = Inr r'"
  from Handle0_local [OF assms(1) this] have d: "defaultHandle (\<lambda>r. Inl (GoPanic ''tick called from tick'')) r m = Inr r'"
    by blast
  have "post (defaultHandle (\<lambda>r. Inl (GoPanic ''tick called from tick'')) r m) (calm r)"
    using assms(2) unfolding defaultHandle_def
    by (cases "r_state r") (auto simp: handler_tables handleLeaderCheckQuorum_calm node_calm
        intro!: lw_calm handleLeaderSnapshotStatus_calm)
  with d show "calm r r'" by simp
qed

lemma Handle0_election:
  assumes "m_Term m = 0" and "m_Type m = Election"
  shows "post (Handle0 r m) (calm_or_campaigns r)"
  unfolding post_iff
proof (intro allI impI)
  fix r'
  assume "Handle0 r m = Inr r'"
  from Handle0_local [OF assms(1) this] have d: "defaultHandle (\<lambda>r. Inl (GoPanic ''tick called from tick'')) r m = Inr r'"
    by blast
  have "post (defaultHandle (\<lambda>r. Inl (GoPanic ''tick called from tick'')) r m) (calm_or_campaigns r)"
    using assms(2) unfolding defaultHandle_def
    by (cases "r_state r") (auto simp: handler_tables calm_or_campaigns_def [of r r]
        intro!: handleNodeElection_steps)
  with d show "calm_or_campaigns r r'" by simp
qed

lemmas Handle0_wp = calm_wp1 [OF Handle0_calm]

lemma campaigns_fields [simp]:
  "campaigns (r\<lparr>r_electionTick := v1\<rparr>) r' = campaigns r r'"
  "campaigns (r\<lparr>r_isLeaderTransferTarget := v2\<rparr>) r' = campaigns r r'"
  "campaigns r (r'\<lparr>r_isLeaderTransferTarget := v3\<rparr>) = campaigns r r'"
  by (simp_all add: campaigns_def frame_defs vote_request_def voters_def isSingleNodeQuorum_def
      quorum_def numVotingMembers_def)

lemma calm_fields_left:
  "calm (r\<lparr>r_electionTick := v1\<rparr>) r' = calm r r'"
  "calm (r\<lparr>r_isLeaderTransferTarget := v2\<rparr>) r' = calm r r'"
  by (simp_all add: frame_defs)

lemma nonLeaderTick_steps: "post (nonLeaderTick r) (calm_or_campaigns r)"
proof -
  have tail: "post (if isNonVoting s \<or> isWitness s then Inr s
      else if \<not> selfRemoved s \<and> timeForElection s
        then Handle0 (s\<lparr>r_electionTick := 0\<rparr>) ((zero_Message Election)\<lparr>m_From := r_replicaID s\<rparr>)
      else Inr s) (calm_or_campaigns r)" if "calm r s" "r_state s = r_state r" "\<not> isLeader r" for s
  proof (intro post_if)
    assume ns: "\<not> (isNonVoting s \<or> isWitness s)"
    show "post (Handle0 (s\<lparr>r_electionTick := 0\<rparr>)
        ((zero_Message Election)\<lparr>m_From := r_replicaID s\<rparr>)) (calm_or_campaigns r)"
      by (rule calm_or_campaigns_wp [OF Handle0_election])
        (use that ns in \<open>simp_all add: eligible_def isLeader_def isNonVoting_def isWitness_def\<close>)
  qed (simp_all add: calm_or_campaigns_def that)
  let ?r1 = "r\<lparr>r_electionTick := r_electionTick r + 1\<rparr>"
  have rl: "post (if b then sendRateLimitMessage (set_rl rl ?r1) else Inr ?r1)
      (\<lambda>s. calm r s \<and> r_state s = r_state r)" for b rl
    by (simp add: post_conj, intro impI conjI calm_wp1 [OF sendRateLimitMessage_calm, of r]
          post_mono [OF sendRateLimitMessage_state]) (simp_all add: set_rl_def)
  show ?thesis
    unfolding nonLeaderTick_def calm_unfold
    by (rule post_if, simp, unfold post_simps, rule post_any, rule post_mono [OF rl], rule tail) simp_all
qed

lemma check_acks_calm: "post (check_acks loc r) (calm r)"
proof -
  have due: "post (Handle0 s' m) (\<lambda>r. post (rp_deref r loc nid) (\<lambda>rp.
      calm s (rp_set loc nid (clearSnapshotAck rp) r)))"
    if "calm s s'" "m_Term m = 0" "m_Type m = SnapshotStatus" for s s' m nid
    by (rule Handle0_wp [of _ s]) (use that in \<open>auto intro!: rp_deref_wp\<close>)
  show ?thesis
    unfolding check_acks_def calm_unfold
    by (rule calm_foldM [of _ r], unfold post_simps, rule rp_deref_wp, rule post_if, rule post_if,
        unfold post_simps, rule due) simp_all
qed

lemma checkPendingSnapshotAck_calm: "post (checkPendingSnapshotAck r) (calm r)"
  unfolding checkPendingSnapshotAck_def
  by (rule post_if, unfold post_simps, rule calm_wp1 [OF check_acks_calm, of r], simp,
      rule calm_wp1 [OF check_acks_calm, of r], assumption, rule calm_wp1 [OF check_acks_calm, of r])
    simp_all

lemma leaderTick_calm: "post (leaderTick r) (calm r)"
proof -
  have beat: "post (if timeForHeartbeat s
        then Handle0 (s\<lparr>r_heartbeatTick := 0\<rparr>) ((zero_Message LeaderHeartbeat)\<lparr>m_From := r_replicaID s\<rparr>)
        else Inr s) (\<lambda>x. post (checkPendingSnapshotAck x) (calm r))" if "calm r s" for s
    by (rule post_if, rule Handle0_wp [of _ r], simp_all add: that)
      (rule calm_wp1 [OF checkPendingSnapshotAck_calm, of r], simp_all add: that)+
  have quorum: "post (if timeForCheckQuorum s then (if r_checkQuorum (s\<lparr>r_electionTick := 0\<rparr>)
          then Handle0 (s\<lparr>r_electionTick := 0\<rparr>) ((zero_Message CheckQuorum)\<lparr>m_From := r_replicaID (s\<lparr>r_electionTick := 0\<rparr>)\<rparr>)
          else Inr (s\<lparr>r_electionTick := 0\<rparr>)) else Inr s) (calm r)" if "calm r s" for s
    by (intro post_if Handle0_wp [of _ r]) (simp_all add: that)
  show ?thesis
    unfolding leaderTick_def calm_unfold
    by (rule mustBeLeader_wp, rule post_any, rule post_mono [OF quorum], simp) (rule beat, simp)
qed

lemma tick_steps: "post (tick r) (calm_or_campaigns r)"
proof -
  define r1 where "r1 = r\<lparr>r_quiesce := False, r_tickCount := r_tickCount r + 1\<rparr>"
  define r2 where "r2 = (if timeForInMemGC r1
      then r1\<lparr>r_log := (r_log r1)\<lparr>lg_inmem := tryResize (lg_inmem (r_log r1))\<rparr>\<rparr> else r1)"
  have calm2: "calm r r2" and st2: "r_state r2 = r_state r" by (simp_all add: r2_def r1_def)
  have camp: "campaigns r2 r' = campaigns r r'" for r'
    by (simp add: r2_def r1_def campaigns_def frame_defs isSingleNodeQuorum_def quorum_def
        numVotingMembers_def)
  show ?thesis
    unfolding tick_def Let_def r1_def [symmetric] r2_def [symmetric]
  proof (rule post_if)
    show "post (leaderTick r2) (calm_or_campaigns r)"
      by (rule calm_wp1 [OF leaderTick_calm calm2]) (simp add: calm_or_campaigns_def)
    show "post (nonLeaderTick r2) (calm_or_campaigns r)"
      by (rule post_mono [OF nonLeaderTick_steps])
        (auto simp: calm_or_campaigns_def camp intro: calm_trans [OF calm2])
  qed
qed

section \<open>Handle\<close>

definition handled :: "raft \<Rightarrow> Message \<Rightarrow> raft \<Rightarrow> bool" where
  "handled r m r' \<longleftrightarrow>
     calm r r' \<or> campaigns r r' \<or>
     m_Type m = RequestVote \<and> answers_vote r m r' \<or>
     m_Type m = RequestVoteResp \<and> r_state r = Candidate \<and> counts_vote r m r' \<or>
     (m_Type m = ConfigChangeEvent \<or> m_Type m = SnapshotReceived) \<and> quiet r r'"

lemma handled_calm: "post x (calm r) \<Longrightarrow> post x (handled r m)"
  by (erule post_mono) (simp add: handled_def)

lemma handled_calm_or_campaigns: "post x (calm_or_campaigns r) \<Longrightarrow> post x (handled r m)"
  by (erule post_mono) (auto simp: handled_def calm_or_campaigns_def)

lemma handled_clock:
  assumes "\<And>r. post (tk r) (calm_or_campaigns r)"
  shows "post (handleLocalTick tk r m) (handled r m)" "post (handleFollowerTimeoutNow tk r m) (handled r m)"
proof -
  show "post (handleLocalTick tk r m) (handled r m)"
    unfolding handleLocalTick_def
    by (intro post_if handled_calm_or_campaigns [OF assms]) (simp add: handled_def)
  show "post (handleFollowerTimeoutNow tk r m) (handled r m)"
    unfolding handleFollowerTimeoutNow_def post_simps
    by (rule post_mono [OF assms]) (auto simp: handled_def calm_or_campaigns_def calm_fields_left)
qed

lemma handled_others:
  "m_Type m = RequestVote \<Longrightarrow> post (handleNodeRequestVote r m) (handled r m)"
  "m_Type m = RequestVoteResp \<Longrightarrow> r_state r = Candidate \<Longrightarrow>
     post (handleCandidateRequestVoteResp r m) (handled r m)"
  "m_Type m = ConfigChangeEvent \<Longrightarrow> post (handleNodeConfigChange r m) (handled r m)"
  "m_Type m = SnapshotReceived \<Longrightarrow> post (handleRestoreRemote r m) (handled r m)"
  unfolding handleRestoreRemote_def
  by (rule post_mono, rule handleNodeRequestVote_steps handleCandidateRequestVoteResp_steps
        handleNodeConfigChange_quiet restoreRemotes_quiet, simp_all add: handled_def, blast?)+

lemmas reroutes = handleNonVotingReplicate_def handleNonVotingHeartbeat_def
  handleNonVotingSnapshot_def handleNonVotingPropose_def handleNonVotingReadIndex_def
  handleNonVotingReadIndexResp_def handleWitnessReplicate_def handleWitnessHeartbeat_def
  handleWitnessSnapshot_def

lemma lw_handlers_calm:
  "post (lw handleLeaderReplicateResp r m) (calm r)"
  "post (lw handleLeaderHeartbeatResp r m) (calm r)"
  "post (lw handleLeaderSnapshotStatus r m) (calm r)"
  "post (lw handleLeaderUnreachable r m) (calm r)"
  by (rule lw_calm, rule handleLeaderReplicateResp_calm handleLeaderHeartbeatResp_calm
        handleLeaderSnapshotStatus_calm handleLeaderUnreachable_calm)+

lemmas calm_handlers = candidate_calm follower_calm forward_calm node_calm
  handleLeaderCheckQuorum_calm handleLeaderPropose_calm handleLeaderReadIndex_calm
  lw_handlers_calm handleLeaderTransfer_calm

lemmas handled_handlers = calm_handlers [THEN handled_calm] handled_others
  handleNodeElection_steps [THEN handled_calm_or_campaigns]
  handlePreVoteCandidateRequestPreVoteResp_steps [THEN handled_calm_or_campaigns]

lemma defaultHandle_steps:
  assumes "\<And>r. post (tk r) (calm_or_campaigns r)"
  shows "post (defaultHandle tk r m) (handled r m)"
proof (cases "handlers tk (r_state r) (m_Type m)")
  case None
  then show ?thesis by (simp add: defaultHandle_def handled_def)
next
  case (Some f)
  then have "post (f r m) (handled r m)"
    by (cases "r_state r")
      (auto simp: handler_tables reroutes handled_clock [OF assms] handled_handlers split: if_splits)
  with Some show ?thesis by (simp add: defaultHandle_def)
qed

definition term_checked :: "raft \<Rightarrow> Message \<Rightarrow> raft \<Rightarrow> bool" where
  "term_checked r m r1 \<longleftrightarrow> r1 = r \<or> adopts r (m_Term m) r1"

lemma onMessageTermNotMatched_steps:
  "post (onMessageTermNotMatched r m) (\<lambda>x. if fst x then calm r (snd x) else term_checked r m (snd x))"
    (is "post _ ?Q")
proof -
  have higher: "post (bind_res (onHigherTerm r m) (\<lambda>r. Inr (False, r))) ?Q" if "m_Term m > r_term r"
    unfolding post_simps
    by (rule post_mono [OF onHigherTerm_post [OF that]]) (simp add: term_checked_def)
  have lower: "post (bind_res (if b then send r ((zero_Message NoOP)\<lparr>m_To := k\<rparr>) else Inr r)
      (\<lambda>r. Inr (True, r))) ?Q" for b k
    by (cases b) (auto intro!: send_wp [of _ r])
  show ?thesis
    unfolding onMessageTermNotMatched_def
    by (rule post_if, simp add: term_checked_def, subst post_simps(3), rule post_any)
      (intro post_if higher lower, simp_all add: term_checked_def)
qed

theorem Handle_steps:
  assumes "Handle r m = Inr r'"
  obtains (ignored) "calm r r'"
    | (handled) r1 where "term_checked r m r1" "handled r1 m r'"
        "isPreVoteMessage (m_Type m) \<or> m_Term m = 0 \<or> m_Term m = r_term r1"
proof -
  from assms obtain ign r1 where t: "onMessageTermNotMatched r m = Inr (ign, r1)"
    and h: "(if \<not> ign then bind_res (if \<not> isPreVoteMessage (m_Type m) then doubleCheckTermMatched r1 (m_Term m)
                    else Inr ()) (\<lambda>_. defaultHandle tick r1 m) else Inr r1) = Inr r'"
    unfolding Handle_def HandleW_def by (auto split: if_splits)
  have o: "if ign then calm r r1 else term_checked r m r1"
    using onMessageTermNotMatched_steps [of r m] t by (cases ign) simp_all
  show thesis
  proof (cases ign)
    case True
    with o h show thesis using ignored by simp
  next
    case False
    with h have d: "defaultHandle tick r1 m = Inr r'"
      and c: "isPreVoteMessage (m_Type m) \<or> m_Term m = 0 \<or> m_Term m = r_term r1"
      by (auto simp: doubleCheckTermMatched_def split: if_splits)
    have "handled r1 m r'"
      using defaultHandle_steps [of tick r1 m] tick_steps d by simp
    with False o c show thesis using handled by simp
  qed
qed

end
