(* ===== verification/RaftSafety.thy ===== *)
theory RaftSafety
  imports RaftEffects
begin

text \<open>
  Safety of a single replica, for every state and every message: terms and commit indexes never move
  backwards, a vote is never changed within its term, a vote is granted only to a candidate whose log
  is up to date, leadership needs a quorum of votes, and a leader moves the commit index only to an
  entry of its own term that a quorum of voting members has acknowledged.
\<close>

definition grants :: "Message \<Rightarrow> bool" where
  "grants g \<longleftrightarrow> m_Type g = RequestVoteResp \<and> \<not> m_Reject g"

section \<open>A concrete shard\<close>

text \<open>
  A shard of three replicas with an empty log; replica 1 votes for replica 2, campaigns itself, and wins
  with the vote of replica 2. It instantiates the hypotheses of the theorems below.
\<close>

definition demo_rt :: go_rt where
  "demo_rt = \<lparr>rt_calls = 0, rt_rand = (\<lambda>n. 3), rt_order = (\<lambda>n ks. ks)\<rparr>"

definition demo_members :: Membership where
  "demo_members = zero_Membership\<lparr>mb_Addresses := [(1, ''a1''), (2, ''a2''), (3, ''a3'')]\<rparr>"

definition demo_logdb :: ILogDB where
  "demo_logdb = \<lparr>ld_GetRange = (1, 0), ld_NodeState = (zero_State, demo_members),
     ld_Term = (\<lambda>i. if i = 0 then Inr 0 else Inl ErrUnavailable),
     ld_Entries = (\<lambda>a b c. Inl ErrUnavailable), ld_Snapshot = zero_Snapshot\<rparr>"

definition demo_config :: "u64 \<Rightarrow> Config" where
  "demo_config rid = \<lparr>cf_ReplicaID = rid, cf_ShardID = 7, cf_CheckQuorum = True, cf_PreVote = False,
     cf_ElectionRTT = 10, cf_HeartbeatRTT = 1, cf_SnapshotEntries = 0, cf_CompactionOverhead = 0,
     cf_OrderedConfigChange = False, cf_MaxInMemLogSize = 0, cf_SnapshotCompressionType = 0,
     cf_EntryCompressionType = 0, cf_DisableAutoCompactions = False, cf_IsNonVoting = False,
     cf_IsWitness = False, cf_WaitReady = False\<rparr>"

definition demo_raft :: "u64 \<Rightarrow> raft" where
  "demo_raft rid = init_raft (demo_config rid) demo_logdb (\<lambda>c n. n) demo_rt"

definition demo_request :: Message where
  "demo_request = (zero_Message RequestVote)\<lparr>m_From := 2, m_To := 1, m_Term := 5\<rparr>"

definition demo_candidate :: raft where
  "demo_candidate = (demo_raft 1)\<lparr>r_state := Candidate, r_term := 1, r_vote := 1, r_votes := [(1, True)]\<rparr>"

definition demo_vote :: Message where
  "demo_vote = (zero_Message RequestVoteResp)\<lparr>m_From := 2, m_To := 1, m_Term := 1\<rparr>"

definition demo_acked :: raft where
  "demo_acked = (demo_raft 1)\<lparr>r_state := Leader, r_term := 1, r_vote := 1,
     r_log := (r_log (demo_raft 1))\<lparr>lg_inmem :=
       (lg_inmem (r_log (demo_raft 1)))\<lparr>im_entries := [demo_entry 1 1]\<rparr>\<rparr>,
     r_remotes := [(1, new_remote 1 2), (2, new_remote 1 2), (3, new_remote 0 1)]\<rparr>"

lemma demo_voted:
  "case Handle (demo_raft 1) demo_request of Inl _ \<Rightarrow> False
   | Inr r' \<Rightarrow> length (r_msgs r') = 1 \<and> grants (hd (r_msgs r'))"
  unfolding grants_def by code_simp

lemma demo_wins:
  "case Handle demo_candidate demo_vote of Inl _ \<Rightarrow> False | Inr r' \<Rightarrow> r_state r' = Leader"
  by code_simp

lemma demo_commits:
  "case tryCommit demo_acked of Inl _ \<Rightarrow> False | Inr x \<Rightarrow> lg_committed (r_log (snd x)) = 1"
  by code_simp

lemma demo_raft_facts:
  "r_term (demo_raft 1) = 0 \<and> r_msgs (demo_raft 1) = [] \<and> r_state demo_candidate = Candidate \<and>
   r_term demo_acked = 1 \<and> lg_committed (r_log demo_acked) = 0 \<and> m_Term demo_request = 5 \<and>
   m_From demo_request = 2"
  by (simp add: demo_raft_def init_raft_def demo_candidate_def demo_acked_def demo_request_def
      demo_logdb_def newEntryLog_def Let_def zero_Message_def)

section \<open>Terms, votes and commit indexes\<close>

lemma u64_less_Suc: "x \<noteq> - 1 \<Longrightarrow> (x :: u64) < x + 1"
  by (simp add: word_less_nat_alt unat_Suc_u64)

lemma term_checked_facts:
  assumes "term_checked r m r1"
  shows "basic r r1" "same_members r r1" "r_msgs r1 = r_msgs r"
    "r_term r1 = r_term r \<and> r_vote r1 = r_vote r \<and> r1 = r \<or>
     r_term r < r_term r1 \<and> r_term r1 = m_Term m \<and> r_vote r1 = NoLeader"
  using assms by (auto simp: term_checked_def adopts_def frame_defs)

lemma handled_basic: "handled r m r' \<Longrightarrow> basic r r'"
  by (auto simp: handled_def calm_def quiet_def campaigns_def answers_vote_def counts_vote_def)

lemma handled_term:
  "handled r m r' \<Longrightarrow> r_term r \<noteq> - 1 \<Longrightarrow> r_term r \<le> r_term r'"
  using u64_less_Suc [of "r_term r"]
  by (auto simp: handled_def calm_def quiet_def campaigns_def answers_vote_def counts_vote_def)

lemma handled_vote:
  assumes "handled r m r'" and "r_term r' = r_term r" and "r_vote r \<noteq> NoNode"
    and "isPreVoteMessage (m_Type m) \<or> m_Term m = 0 \<or> m_Term m = r_term r"
  shows "r_vote r' = r_vote r"
  using assms
  by (auto simp: handled_def calm_def quiet_def campaigns_def answers_vote_def counts_vote_def
      canGrantVote_def isPreVoteMessage_def split: if_splits)



section \<open>Granted votes\<close>

lemma vote_request_grants: "vote_request r g \<Longrightarrow> \<not> grants g"
  by (simp add: vote_request_def grants_def)

lemma quiet_msg_grants: "quiet_msg r g \<Longrightarrow> \<not> grants g"
  by (simp add: quiet_msg_def grants_def)

lemma handled_sends:
  assumes "handled r m r'"
  obtains ms where "r_msgs r' = r_msgs r @ ms" "\<forall>g \<in> set ms. m_From g = r_replicaID r"
    "\<forall>g \<in> set ms. m_Type g = RequestVoteResp \<longrightarrow> m_Type m = RequestVote \<and> answers_vote r m r' \<and> ms = [g]"
    "\<forall>g \<in> set ms. m_Type g = RequestVote \<longrightarrow> campaigns r r' \<and> vote_request r' g"
proof -
  consider (quiet) "quiet_sends r r'" | (camp) "campaigns r r'"
    | (answer) "m_Type m = RequestVote" "answers_vote r m r'"
    using assms by (auto simp: handled_def calm_def quiet_def counts_vote_def)
  then show thesis
  proof cases
    case quiet
    then show thesis using that unfolding quiet_sends_def quiet_msg_def by blast
  next
    case camp
    then have same: "r_replicaID r' = r_replicaID r"
      by (simp add: campaigns_def basic_def config_kept_def)
    from camp obtain ms where "r_msgs r' = r_msgs r @ ms" "\<forall>g \<in> set ms. vote_request r' g"
      unfolding campaigns_def by blast
    with same camp show thesis using that [of ms] by (auto simp: vote_request_def)
  next
    case answer
    have "\<exists>resp. r_msgs r' = r_msgs r @ [resp] \<and> m_From resp = r_replicaID r \<and> m_Type resp = RequestVoteResp"
      using answer(2) unfolding answers_vote_def by (elim conjE exE) (rule exI, intro conjI)
    then obtain resp where resp: "r_msgs r' = r_msgs r @ [resp]" "m_From resp = r_replicaID r"
      "m_Type resp = RequestVoteResp" by (elim conjE exE)
    show thesis
      by (rule that [of "[resp]"]) (simp_all add: resp answer)
  qed
qed

text \<open>
  C3: A replica grants a vote only in answer to a vote request, at most one per message. The granted
  vote is the one it records, it is in the replica's current term, and the candidate's log is at least
  as up to date as its own.
\<close>

theorem granted_vote:
  assumes "Handle r m = Inr r'" and "r_msgs r' = r_msgs r @ ms" and "g \<in> set ms" and "grants g"
  shows "m_Type m = RequestVote \<and> ms = [g] \<and> m_From g = r_replicaID r \<and> m_To g = m_From m \<and>
     r_vote r' = m_From m \<and> m_Term g = r_term r' \<and>
     upToDate (r_log r') (m_LogIndex m) (m_LogTerm m) = Inr True"
  using assms(1)
proof (cases rule: Handle_steps)
  case ignored
  then show ?thesis
    using assms(2-4) by (auto simp: calm_def quiet_def quiet_sends_def quiet_msg_def grants_def)
next
  case (handled r1)
  note t = term_checked_facts [OF handled(1)]
  from handled(2) obtain ms' where ms': "r_msgs r' = r_msgs r1 @ ms'"
    and a: "\<forall>g \<in> set ms'. m_Type g = RequestVoteResp \<longrightarrow> m_Type m = RequestVote \<and> answers_vote r1 m r' \<and> ms' = [g]"
    by (rule handled_sends)
  have "ms' = ms" using ms' assms(2) t(3) by simp
  with a assms(3,4) have ans: "m_Type m = RequestVote" "answers_vote r1 m r'" "ms = [g]"
    by (auto simp: grants_def)
  from ans(2) obtain resp where resp: "r_msgs r' = r_msgs r1 @ [resp]" "m_From resp = r_replicaID r1"
      "m_To resp = m_From m" "m_Term resp = r_term r1"
      "if m_Reject resp then r_vote r' = r_vote r1
       else r_vote r' = m_From m \<and> canGrantVote r1 m \<and> upToDate (r_log r1) (m_LogIndex m) (m_LogTerm m) = Inr True"
    and same: "r_term r' = r_term r1" "r_log r' = r_log r1"
    unfolding answers_vote_def by (elim conjE exE) (rule that)
  have "resp = g" using resp(1) ms' \<open>ms' = ms\<close> ans(3) by simp
  have "r_replicaID r1 = r_replicaID r" using t(1) by (simp add: basic_def config_kept_def)
  then show ?thesis
    using resp ans same \<open>resp = g\<close> assms(4) \<open>r_replicaID r1 = r_replicaID r\<close>
    by (auto simp: grants_def)
qed

theorem granted_vote_witness:
  "\<exists>r' g. Handle (demo_raft 1) demo_request = Inr r' \<and> r_msgs r' = [g] \<and> grants g \<and>
     m_To g = 2 \<and> r_vote r' = 2"
proof -
  obtain r' where step: "Handle (demo_raft 1) demo_request = Inr r'"
    and r': "length (r_msgs r') = 1" "grants (hd (r_msgs r'))"
    using demo_voted by (cases "Handle (demo_raft 1) demo_request") auto
  then obtain g where g: "r_msgs r' = [g]" "grants g" by (cases "r_msgs r'") auto
  then have "r_msgs r' = r_msgs (demo_raft 1) @ [g]" by (simp add: demo_raft_facts)
  from granted_vote [OF step this _ g(2)] have "m_To g = 2" "r_vote r' = 2"
    by (simp_all add: demo_raft_facts)
  with step g show ?thesis by blast
qed

section \<open>Leadership\<close>

text \<open>
  C4: A replica that is not the leader becomes one only in two ways: by handling a vote response as a
  candidate in the same term, when the votes counted with it reach exactly the quorum, or by
  campaigning in a shard with a single voting member.
\<close>

theorem leader_has_quorum:
  assumes "Handle r m = Inr r'" and "r_state r \<noteq> Leader" and "r_state r' = Leader"
  shows "r_state r = Candidate \<and> m_Type m = RequestVoteResp \<and> r_term r' = r_term r \<and>
       \<not> mhas (r_nonVotings r) (m_From m) \<and> length (filter snd (counted r m)) = quorum r \<or>
     quorum r = 1"
  using assms(1)
proof (cases rule: Handle_steps)
  case ignored
  then show ?thesis using assms by (simp add: calm_def quiet_def no_promotion_def)
next
  case (handled r1)
  consider "r1 = r" | "adopts r (m_Term m) r1" using handled(1) by (auto simp: term_checked_def)
  then show ?thesis
  proof cases
    case 1
    then show ?thesis
      using handled(2) assms(2,3)
      by (auto simp: handled_def calm_def quiet_def no_promotion_def campaigns_def answers_vote_def
          counts_vote_def isSingleNodeQuorum_def)
  next
    case 2
    then have q: "quorum r1 = quorum r"
      unfolding adopts_def same_members_def quorum_def numVotingMembers_def by (metis length_map)
    have "campaigns r1 r'"
      using handled(2) 2 assms(3)
      by (auto simp: handled_def calm_def quiet_def no_promotion_def answers_vote_def adopts_def)
    then show ?thesis
      using assms(3) q by (auto simp: campaigns_def isSingleNodeQuorum_def)
  qed
qed

theorem leader_has_quorum_witness:
  "\<exists>r'. Handle demo_candidate demo_vote = Inr r' \<and> r_state r' = Leader \<and>
     (length (filter snd (counted demo_candidate demo_vote)) = quorum demo_candidate \<or>
      quorum demo_candidate = 1)"
proof -
  obtain r' where step: "Handle demo_candidate demo_vote = Inr r'" and r': "r_state r' = Leader"
    using demo_wins by (cases "Handle demo_candidate demo_vote") auto
  from leader_has_quorum [OF step _ r'] step r' show ?thesis by (auto simp: demo_raft_facts)
qed

section \<open>Committing\<close>

lemma length_3_list: "length xs = 3 \<Longrightarrow> \<exists>a b c. xs = [a, b, c]"
  by (simp add: length_Suc_conv numeral_3_eq_3) blast

lemma sortMatchValues_eq_sort: "sortMatchValues xs = sort xs"
proof -
  consider (three) "length xs = 3" | (one) "length xs = 1" | (other) "length xs \<noteq> 3" "length xs \<noteq> 1"
    by blast
  then show ?thesis
  proof cases
    case three
    then obtain a b c where "xs = [a, b, c]" using length_3_list by blast
    then show ?thesis
      by (auto simp: sortMatchValues_def swap_if_greater_def)
  next
    case one
    then obtain a where "xs = [a]" by (auto simp: length_Suc_conv)
    then show ?thesis by (simp add: sortMatchValues_def)
  qed (simp add: sortMatchValues_def)
qed

text \<open>
  C9: The unrolled bubble sort for three voting members, and the shortcut for one, agree with the
  sorting function of the library, which orders the values and keeps all of them.
\<close>

theorem sortMatchValues_sorts:
  "sortMatchValues xs = sort xs \<and> sorted (sortMatchValues xs) \<and> mset (sortMatchValues xs) = mset xs"
  by (simp add: sortMatchValues_eq_sort)

lemma count_at_least:
  assumes "sorted xs" and "k < length xs"
  shows "length xs - k \<le> length (filter (\<lambda>x. i \<le> x) xs) \<longleftrightarrow> i \<le> xs ! k"
proof
  assume le: "i \<le> xs ! k"
  have "\<forall>x \<in> set (drop k xs). i \<le> x"
  proof
    fix x
    assume "x \<in> set (drop k xs)"
    then obtain j where "j < length xs - k" "x = xs ! (k + j)" by (auto simp: in_set_conv_nth)
    then have "xs ! k \<le> x" using assms by (simp add: sorted_iff_nth_mono)
    with le show "i \<le> x" by simp
  qed
  then have "filter (\<lambda>x. i \<le> x) (drop k xs) = drop k xs" by simp
  then have "length xs - k = length (filter (\<lambda>x. i \<le> x) (drop k xs))" by simp
  also have "\<dots> \<le> length (filter (\<lambda>x. i \<le> x) (take k xs @ drop k xs))"
    unfolding filter_append by simp
  finally show "length xs - k \<le> length (filter (\<lambda>x. i \<le> x) xs)" by simp
next
  assume le: "length xs - k \<le> length (filter (\<lambda>x. i \<le> x) xs)"
  show "i \<le> xs ! k"
  proof (rule ccontr)
    assume less: "\<not> i \<le> xs ! k"
    have "\<forall>x \<in> set (take (Suc k) xs). \<not> i \<le> x"
    proof
      fix x
      assume "x \<in> set (take (Suc k) xs)"
      then obtain j where j: "j < Suc k" "j < length xs" "x = xs ! j" by (auto simp: in_set_conv_nth)
      then have "x \<le> xs ! k" using assms by (simp add: sorted_iff_nth_mono)
      then show "\<not> i \<le> x" using less by simp
    qed
    then have "filter (\<lambda>x. i \<le> x) (take (Suc k) xs) = []" by simp
    then have "filter (\<lambda>x. i \<le> x) xs = filter (\<lambda>x. i \<le> x) (drop (Suc k) xs)"
      by (metis append_Nil append_take_drop_id filter_append)
    also have "length \<dots> \<le> length (drop (Suc k) xs)" by (rule length_filter_le)
    finally show False using le assms(2) by simp
  qed
qed

definition acked :: "raft \<Rightarrow> u64 \<Rightarrow> nat" where
  "acked r i = length (filter (\<lambda>rp. i \<le> rm_match rp) (map snd (r_remotes r) @ map snd (r_witnesses r)))"

lemma quorum_le: "0 < numVotingMembers r \<Longrightarrow> quorum r \<le> numVotingMembers r"
  by (simp add: quorum_def)

lemma acked_quorum:
  assumes "quorum r \<le> numVotingMembers r"
  shows "quorum r \<le> acked r i \<longleftrightarrow>
    i \<le> sortMatchValues (map (rm_match \<circ> snd) (r_remotes r) @ map (rm_match \<circ> snd) (r_witnesses r)) !
        (numVotingMembers r - quorum r)"
proof -
  let ?xs = "map (rm_match \<circ> snd) (r_remotes r) @ map (rm_match \<circ> snd) (r_witnesses r)"
  have len: "length ?xs = numVotingMembers r" by (simp add: numVotingMembers_def)
  have "0 < quorum r" by (simp add: quorum_def)
  then have k: "numVotingMembers r - quorum r < length (sort ?xs)" using assms len by simp
  have "length (filter (\<lambda>x. i \<le> x) (sort ?xs)) = length (filter (\<lambda>x. i \<le> x) ?xs)"
    by (simp only: filter_sort length_sort)
  also have "\<dots> = acked r i"
    by (simp add: acked_def filter_map comp_def)
  finally show ?thesis
    using count_at_least [OF sorted_sort k, of i] len assms
    by (simp add: sortMatchValues_eq_sort)
qed

lemma lg_tryCommit_moves:
  "lg_tryCommit l q t = Inr (l', ok) \<Longrightarrow> lg_committed l' \<noteq> lg_committed l \<Longrightarrow> t \<noteq> 0 \<Longrightarrow>
     lg_committed l < q \<and> lg_term l q = Inr t \<and> lg_committed l' = q"
  by (auto simp: lg_tryCommit_def commitTo_def split: if_splits sum.splits go_error.splits)

text \<open>
  C5: When a leader with a non-zero term moves its commit index, it moves forward to an entry of the
  leader's own term, that entry is acknowledged by a quorum of the voting members, and no larger index
  is acknowledged by a quorum.
\<close>

theorem commit_needs_quorum:
  assumes "tryCommit r = Inr (ok, r')" and "lg_committed (r_log r') \<noteq> lg_committed (r_log r)"
    and "r_term r \<noteq> 0"
  shows "isLeader r \<and> lg_committed (r_log r) < lg_committed (r_log r') \<and>
     lg_term (r_log r) (lg_committed (r_log r')) = Inr (r_term r) \<and>
     quorum r \<le> acked r (lg_committed (r_log r')) \<and>
     (\<forall>i > lg_committed (r_log r'). acked r i < quorum r)"
proof -
  let ?ms = "sortMatchValues (map (rm_match \<circ> snd) (r_remotes r) @ map (rm_match \<circ> snd) (r_witnesses r))"
  let ?q = "?ms ! (numVotingMembers r - quorum r)"
  have n: "numVotingMembers (r\<lparr>r_matched := ?ms\<rparr>) = numVotingMembers r"
    "quorum (r\<lparr>r_matched := ?ms\<rparr>) = quorum r"
    by (simp_all add: numVotingMembers_def quorum_def)
  from assms(1) obtain l where lead: "isLeader r" and le: "quorum r \<le> numVotingMembers r"
    and c: "lg_tryCommit (r_log r) ?q (r_term r) = Inr (l, ok)" and r': "r_log r' = l"
    unfolding tryCommit_def Let_def n by (auto simp: mustBeLeader_def split: if_splits)
  have q: "lg_committed (r_log r) < ?q" "lg_term (r_log r) ?q = Inr (r_term r)" "lg_committed l = ?q"
    using lg_tryCommit_moves [OF c _ assms(3)] r' assms(2) by simp_all
  have a: "quorum r \<le> acked r i \<longleftrightarrow> i \<le> ?q" for i by (rule acked_quorum [OF le])
  then have b: "acked r i < quorum r \<longleftrightarrow> ?q < i" for i by (simp only: not_le [symmetric])
  show ?thesis unfolding r' q(3) a b using lead q(1,2) by simp
qed

theorem commit_needs_quorum_witness:
  "lg_committed (r_log demo_acked) < 1 \<and> quorum demo_acked \<le> acked demo_acked 1"
proof -
  obtain ok r' where step: "tryCommit demo_acked = Inr (ok, r')" and c: "lg_committed (r_log r') = 1"
    using demo_commits by (cases "tryCommit demo_acked") auto
  have "lg_committed (r_log r') \<noteq> lg_committed (r_log demo_acked)" "r_term demo_acked \<noteq> 0"
    by (simp_all add: c demo_raft_facts)
  from commit_needs_quorum [OF step this, unfolded c] show ?thesis
    by (elim conjE) (intro conjI)
qed

section \<open>Restarts\<close>

definition restored :: "Config \<Rightarrow> ILogDB \<Rightarrow> go_rt \<Rightarrow> raft \<Rightarrow> bool" where
  "restored c logdb rt r \<longleftrightarrow>
     (let st = fst (ld_NodeState logdb); mb = snd (ld_NodeState logdb) in
      r_term r = st_Term st \<and> r_vote r = st_Vote st \<and>
      (\<not> IsEmptyState st \<longrightarrow> lg_committed (r_log r) = st_Commit st) \<and>
      r_replicaID r = cf_ReplicaID c \<and> r_msgs r = [] \<and> r_votes r = [] \<and>
      r_state r = (if cf_IsNonVoting c then NonVoting else if cf_IsWitness c then Witness else Follower) \<and>
      mkeys (r_remotes r) = mkeys (mb_Addresses mb) \<and> mkeys (r_nonVotings r) = mkeys (mb_NonVotings mb) \<and>
      mkeys (r_witnesses r) = mkeys (mb_Witnesses mb) \<and> rt_ok (r_rt r) = rt_ok rt)"

definition loaded :: "Config \<Rightarrow> ILogDB \<Rightarrow> go_rt \<Rightarrow> raft \<Rightarrow> bool" where
  "loaded c logdb rt r \<longleftrightarrow>
     restored c logdb rt (r\<lparr>r_state := (if cf_IsNonVoting c then NonVoting else if cf_IsWitness c then Witness else Follower)\<rparr>) \<and>
     r_state r = Follower"

lemma init_loaded:
  "post (if \<not> IsEmptyState (fst (ld_NodeState logdb))
         then loadState (resetMatchValueArray (init_raft c logdb grow rt)) (fst (ld_NodeState logdb))
         else Inr (resetMatchValueArray (init_raft c logdb grow rt))) (loaded c logdb rt)"
  by (auto simp: loadState_def loaded_def restored_def resetMatchValueArray_def init_raft_def
      new_remotes_def IsEmptyState_def isStateEqual_def zero_State_def Let_def)

lemma restored_restart:
  "restored c logdb rt (r\<lparr>r_state := s\<rparr>) \<Longrightarrow> restarted r (r_term r) r' \<Longrightarrow> r_state r' = s \<Longrightarrow> restored c logdb rt r'"
  by (simp add: restored_def restarted_def config_kept_def same_members_def Let_def)

lemma newRaft_restored: "post (newRaft c logdb grow rt) (restored c logdb rt)"
proof (cases "Validate c")
  case (Inr u)
  have role: "post (if cf_IsNonVoting c then becomeNonVoting (r\<lparr>r_state := NonVoting\<rparr>) (r_term r) NoLeader
       else if cf_IsWitness c then becomeWitness (r\<lparr>r_state := Witness\<rparr>) (r_term r) NoLeader
       else becomeFollower r (r_term r) NoLeader) (restored c logdb rt)"
    if "loaded c logdb rt r" for r
    using that unfolding loaded_def becomeNonVoting_def becomeWitness_def becomeFollower_def toFollowerState_def
    by (auto simp: isNonVoting_def isWitness_def
        intro!: post_mono [OF reset_post] elim!: restored_restart)
  show ?thesis
    unfolding newRaft_def Inr sum.case Let_def post_simps
    by (rule post_mono [OF init_loaded], erule post_mono [OF role], rule post_any)
qed (simp add: newRaft_def)

text \<open>
  C8: A replica created from its log database starts with the term, vote and commit index saved there,
  with the members of the saved membership, an empty outbox and no votes, as a follower, non-voting
  member or witness as configured.
\<close>

theorem newRaft_restores:
  assumes "newRaft c logdb grow rt = Inr r"
  shows "restored c logdb rt r"
  using newRaft_restored [of c logdb grow rt] assms by simp

lemma demo_new: "\<not> isl (newRaft (demo_config 1) demo_logdb (\<lambda>c n. n) demo_rt)"
  by code_simp

theorem newRaft_restores_witness:
  "\<exists>r. newRaft (demo_config 1) demo_logdb (\<lambda>c n. n) demo_rt = Inr r \<and> restored (demo_config 1) demo_logdb demo_rt r"
proof -
  obtain r where "newRaft (demo_config 1) demo_logdb (\<lambda>c n. n) demo_rt = Inr r"
    using demo_new by (cases "newRaft (demo_config 1) demo_logdb (\<lambda>c n. n) demo_rt") auto
  with newRaft_restores [OF this] show ?thesis by blast
qed

end
