(* ===== verification/ShardElection.thy ===== *)
theory ShardElection
  imports RaftSafety
begin

text \<open>
  Election safety of a whole shard: at most one replica ever becomes leader in a term.

  The shard is the state of its voting members, the set of all messages sent so far and, as a history
  variable, the set of pairs of a term and the replica that led it. A step lets one replica handle a
  message: one of the sent messages addressed to it, in any order, any number of times or never, or a
  message created locally (a tick, a proposal, a read request and so on). A replica may also change
  anything else of its state that the election does not depend on, which covers the log being saved,
  the outbox being flushed and entries being applied. A replica may crash and restart from a log
  database that holds its term and vote, which the callers of the raft package save before they send
  any message. Membership is fixed: membership change and snapshot restore messages are not part of a
  run. Terms are assumed to stay below the largest \<open>uint64\<close>.
\<close>

section \<open>The shard\<close>

record shard =
  sh_node :: "u64 \<Rightarrow> raft"
  sh_net :: "Message set"
  sh_won :: "(u64 \<times> u64) set"

definition sh_update :: "shard \<Rightarrow> u64 \<Rightarrow> raft \<Rightarrow> shard" where
  "sh_update s i r' = \<lparr>sh_node = (sh_node s)(i := r'), sh_net = sh_net s \<union> set (r_msgs r'),
     sh_won = sh_won s \<union> (if r_state r' = Leader then {(r_term r', i)} else {})\<rparr>"

definition membership_msg :: "Message \<Rightarrow> bool" where
  "membership_msg m \<longleftrightarrow> m_Type m = ConfigChangeEvent \<or> m_Type m = SnapshotReceived"

definition local_msg :: "Message \<Rightarrow> bool" where
  "local_msg m \<longleftrightarrow> m_Term m = 0 \<and> m_Type m \<noteq> RequestVote \<and> m_Type m \<noteq> RequestVoteResp"

definition unrelated :: "raft \<Rightarrow> raft \<Rightarrow> bool" where
  "unrelated r r' \<longleftrightarrow>
     r_replicaID r' = r_replicaID r \<and> r_term r' = r_term r \<and> r_vote r' = r_vote r \<and>
     r_state r' = r_state r \<and> r_votes r' = r_votes r \<and> same_members r r' \<and>
     rt_ok (r_rt r') = rt_ok (r_rt r) \<and> set (r_msgs r') \<subseteq> set (r_msgs r)"

definition restarts :: "raft \<Rightarrow> raft \<Rightarrow> bool" where
  "restarts r r' \<longleftrightarrow>
     (\<exists>c logdb grow rt. newRaft c logdb grow rt = Inr r' \<and> cf_ReplicaID c = r_replicaID r \<and> rt_ok rt \<and>
        st_Term (fst (ld_NodeState logdb)) = r_term r \<and> st_Vote (fst (ld_NodeState logdb)) = r_vote r \<and>
        mkeys (mb_Addresses (snd (ld_NodeState logdb))) = mkeys (r_remotes r) \<and>
        mkeys (mb_Witnesses (snd (ld_NodeState logdb))) = mkeys (r_witnesses r))"

inductive shard_step :: "u64 set \<Rightarrow> shard \<Rightarrow> shard \<Rightarrow> bool" for V where
  deliver: "i \<in> V \<Longrightarrow> m \<in> sh_net s \<Longrightarrow> m_To m = i \<Longrightarrow> \<not> membership_msg m \<Longrightarrow>
     r_term (sh_node s i) \<noteq> - 1 \<Longrightarrow> m_Term m \<noteq> - 1 \<Longrightarrow> Handle (sh_node s i) m = Inr r' \<Longrightarrow>
     shard_step V s (sh_update s i r')"
| local: "i \<in> V \<Longrightarrow> local_msg m \<Longrightarrow> \<not> membership_msg m \<Longrightarrow> r_term (sh_node s i) \<noteq> - 1 \<Longrightarrow>
     Handle (sh_node s i) m = Inr r' \<Longrightarrow> shard_step V s (sh_update s i r')"
| restart: "i \<in> V \<Longrightarrow> restarts (sh_node s i) r' \<Longrightarrow> shard_step V s (sh_update s i r')"
| other: "i \<in> V \<Longrightarrow> unrelated (sh_node s i) r' \<Longrightarrow> shard_step V s (sh_update s i r')"

definition members_ok :: "u64 set \<Rightarrow> raft \<Rightarrow> bool" where
  "members_ok V r \<longleftrightarrow> voters r = V \<and> distinct (mkeys (r_remotes r) @ mkeys (r_witnesses r))"

definition shard_init :: "u64 set \<Rightarrow> shard \<Rightarrow> bool" where
  "shard_init V s \<longleftrightarrow>
     0 \<notin> V \<and> sh_net s = {} \<and> sh_won s = {} \<and>
     (\<forall>i \<in> V. r_replicaID (sh_node s i) = i \<and> members_ok V (sh_node s i) \<and> rt_ok (r_rt (sh_node s i)) \<and>
        r_msgs (sh_node s i) = [] \<and> r_state (sh_node s i) \<noteq> Leader \<and> r_state (sh_node s i) \<noteq> Candidate)"

inductive shard_run :: "u64 set \<Rightarrow> shard \<Rightarrow> bool" for V where
  start: "shard_init V s \<Longrightarrow> shard_run V s"
| step: "shard_run V s \<Longrightarrow> shard_step V s s' \<Longrightarrow> shard_run V s'"

section \<open>Quorums\<close>

lemma quorum_card: "members_ok V r \<Longrightarrow> quorum r = card V div 2 + 1"
proof -
  assume "members_ok V r"
  then have "card V = length (mkeys (r_remotes r) @ mkeys (r_witnesses r))"
    unfolding members_ok_def voters_def by (metis distinct_card set_append)
  then show ?thesis by (simp add: quorum_def numVotingMembers_def)
qed

lemma quorums_meet:
  assumes "finite V" "Q1 \<subseteq> V" "Q2 \<subseteq> V" "card V div 2 + 1 \<le> card Q1" "card V div 2 + 1 \<le> card Q2"
  shows "Q1 \<inter> Q2 \<noteq> {}"
proof
  assume "Q1 \<inter> Q2 = {}"
  moreover have "finite Q1" "finite Q2" using assms finite_subset by blast+
  ultimately have "card Q1 + card Q2 = card (Q1 \<union> Q2)" by (simp add: card_Un_disjoint)
  also have "\<dots> \<le> card V" using assms by (intro card_mono) auto
  finally show False using assms(4,5) by linarith
qed

section \<open>The invariant\<close>

definition voted :: "Message set \<Rightarrow> u64 \<Rightarrow> u64 \<Rightarrow> u64 \<Rightarrow> bool" where
  "voted net n i t \<longleftrightarrow> (\<exists>g \<in> net. grants g \<and> m_From g = n \<and> m_To g = i \<and> m_Term g = t)"

definition backed_by :: "u64 set \<Rightarrow> Message set \<Rightarrow> u64 \<Rightarrow> u64 \<Rightarrow> bool" where
  "backed_by V net i t \<longleftrightarrow>
     (\<exists>Q \<subseteq> V. card V div 2 + 1 \<le> card Q \<and> (\<forall>n \<in> Q. n = i \<or> voted net n i t))"

definition net_ok :: "u64 set \<Rightarrow> shard \<Rightarrow> bool" where
  "net_ok V s \<longleftrightarrow>
     (\<forall>m \<in> sh_net s. m_From m \<in> V \<and> (m_Type m = RequestVote \<longrightarrow> m_Term m \<noteq> 0)) \<and>
     (\<forall>g \<in> sh_net s. grants g \<longrightarrow> m_Term g \<noteq> 0 \<and> m_To g \<noteq> 0 \<and>
        m_Term g \<le> r_term (sh_node s (m_From g)) \<and>
        (m_Term g = r_term (sh_node s (m_From g)) \<longrightarrow> r_vote (sh_node s (m_From g)) = m_To g)) \<and>
     (\<forall>g \<in> sh_net s. \<forall>h \<in> sh_net s. grants g \<and> grants h \<and> m_From g = m_From h \<and> m_Term g = m_Term h \<longrightarrow>
        m_To g = m_To h)"

definition candidate_ok :: "Message set \<Rightarrow> u64 \<Rightarrow> raft \<Rightarrow> bool" where
  "candidate_ok net i r \<longleftrightarrow>
     r_vote r = i \<and> gm_wf (r_votes r) \<and> (\<forall>(n, b) \<in> set (r_votes r). b \<longrightarrow> n = i \<or> voted net n i (r_term r))"

definition won_entry :: "u64 set \<Rightarrow> Message set \<Rightarrow> raft \<Rightarrow> u64 \<Rightarrow> u64 \<Rightarrow> bool" where
  "won_entry V net r t i \<longleftrightarrow>
     i \<in> V \<and> t \<le> r_term r \<and> (t = r_term r \<longrightarrow> r_vote r = i) \<and>
     (\<forall>g \<in> net. grants g \<and> m_From g = i \<and> m_Term g = t \<longrightarrow> m_To g = i) \<and> backed_by V net i t"

definition won_ok :: "u64 set \<Rightarrow> shard \<Rightarrow> bool" where
  "won_ok V s \<longleftrightarrow> (\<forall>t i. (t, i) \<in> sh_won s \<longrightarrow> won_entry V (sh_net s) (sh_node s i) t i)"

definition node_fine :: "u64 set \<Rightarrow> shard \<Rightarrow> u64 \<Rightarrow> bool" where
  "node_fine V s i \<longleftrightarrow>
     r_replicaID (sh_node s i) = i \<and> members_ok V (sh_node s i) \<and> rt_ok (r_rt (sh_node s i)) \<and>
     set (r_msgs (sh_node s i)) \<subseteq> sh_net s \<and>
     (r_state (sh_node s i) = Candidate \<longrightarrow> candidate_ok (sh_net s) i (sh_node s i)) \<and>
     (r_state (sh_node s i) = Leader \<longrightarrow> (r_term (sh_node s i), i) \<in> sh_won s)"

definition shard_ok :: "u64 set \<Rightarrow> shard \<Rightarrow> bool" where
  "shard_ok V s \<longleftrightarrow> 0 \<notin> V \<and> net_ok V s \<and> won_ok V s \<and> (\<forall>i \<in> V. node_fine V s i)"

text \<open>What a step of replica \<open>i\<close> has to satisfy to keep the invariant.\<close>

definition good_update :: "u64 set \<Rightarrow> shard \<Rightarrow> u64 \<Rightarrow> raft \<Rightarrow> Message set \<Rightarrow> bool" where
  "good_update V s i r' new \<longleftrightarrow>
     (let r = sh_node s i; net' = sh_net s \<union> new in
      set (r_msgs r') \<subseteq> net' \<and> new \<subseteq> set (r_msgs r') \<and>
      r_replicaID r' = i \<and> members_ok V r' \<and> rt_ok (r_rt r') \<and>
      r_term r \<le> r_term r' \<and> (r_term r' = r_term r \<longrightarrow> r_vote r' = r_vote r \<or> r_vote r = 0) \<and>
      (\<forall>m \<in> new. m_From m = i \<and> (m_Type m = RequestVote \<longrightarrow> m_Term m \<noteq> 0)) \<and>
      (\<forall>g \<in> new. grants g \<longrightarrow> m_Term g = r_term r' \<and> m_Term g \<noteq> 0 \<and> m_To g = r_vote r' \<and> m_To g \<noteq> 0) \<and>
      (r_state r' = Candidate \<longrightarrow> candidate_ok net' i r') \<and>
      (r_state r' = Leader \<longrightarrow> r_vote r' = i \<and> backed_by V net' i (r_term r')))"

lemma voted_mono: "voted net n i t \<Longrightarrow> net \<subseteq> net' \<Longrightarrow> voted net' n i t"
  by (auto simp: voted_def)

lemma backed_by_mono: "backed_by V net i t \<Longrightarrow> net \<subseteq> net' \<Longrightarrow> backed_by V net' i t"
  unfolding backed_by_def by (meson voted_mono)

lemma candidate_ok_mono: "candidate_ok net i r \<Longrightarrow> net \<subseteq> net' \<Longrightarrow> candidate_ok net' i r"
  unfolding candidate_ok_def using voted_mono [of net _ i "r_term r" net'] by (fastforce simp: split_beta)

lemma sh_update_simps:
  "sh_node (sh_update s i r') j = (if j = i then r' else sh_node s j)"
  "sh_net (sh_update s i r') = sh_net s \<union> set (r_msgs r')"
  "sh_won (sh_update s i r') = sh_won s \<union> (if r_state r' = Leader then {(r_term r', i)} else {})"
  by (simp_all add: sh_update_def)

lemma good_updateD:
  assumes "good_update V s i r' new"
  shows "sh_net s \<union> set (r_msgs r') = sh_net s \<union> new" "r_replicaID r' = i" "members_ok V r'"
    "rt_ok (r_rt r')" "r_term (sh_node s i) \<le> r_term r'"
    "r_term r' = r_term (sh_node s i) \<Longrightarrow> r_vote (sh_node s i) \<noteq> 0 \<Longrightarrow> r_vote r' = r_vote (sh_node s i)"
    "m \<in> new \<Longrightarrow> m_From m = i \<and> (m_Type m = RequestVote \<longrightarrow> m_Term m \<noteq> 0)"
    "g \<in> new \<Longrightarrow> grants g \<Longrightarrow> m_Term g = r_term r' \<and> m_Term g \<noteq> 0 \<and> m_To g = r_vote r' \<and> m_To g \<noteq> 0"
    "r_state r' = Candidate \<Longrightarrow> candidate_ok (sh_net s \<union> new) i r'"
    "r_state r' = Leader \<Longrightarrow> r_vote r' = i \<and> backed_by V (sh_net s \<union> new) i (r_term r')"
  using assms unfolding good_update_def Let_def by blast+

lemma net_okD:
  assumes "net_ok V s"
  shows "m \<in> sh_net s \<Longrightarrow> m_From m \<in> V \<and> (m_Type m = RequestVote \<longrightarrow> m_Term m \<noteq> 0)"
    "g \<in> sh_net s \<Longrightarrow> grants g \<Longrightarrow> m_Term g \<noteq> 0 \<and> m_To g \<noteq> 0 \<and> m_Term g \<le> r_term (sh_node s (m_From g))"
    "g \<in> sh_net s \<Longrightarrow> grants g \<Longrightarrow> m_Term g = r_term (sh_node s (m_From g)) \<Longrightarrow>
       r_vote (sh_node s (m_From g)) = m_To g"
    "g \<in> sh_net s \<Longrightarrow> h \<in> sh_net s \<Longrightarrow> grants g \<Longrightarrow> grants h \<Longrightarrow> m_From g = m_From h \<Longrightarrow>
       m_Term g = m_Term h \<Longrightarrow> m_To g = m_To h"
  using assms unfolding net_ok_def by blast+

text \<open>A vote granted earlier by \<open>i\<close> in the term of its new state is the vote of the new state.\<close>

lemma earlier_grant:
  assumes "net_ok V s" "good_update V s i r' new" "g \<in> sh_net s \<union> new" "grants g" "m_From g = i"
  shows "m_Term g \<le> r_term r'" "m_Term g = r_term r' \<Longrightarrow> m_To g = r_vote r'"
proof -
  note n = net_okD [OF assms(1)] and u = good_updateD [OF assms(2)]
  show "m_Term g \<le> r_term r'"
    using assms(3) n(2) [of g] u(5) u(8) [of g] assms(4,5) by (auto intro: order_trans)
  show "m_To g = r_vote r'" if "m_Term g = r_term r'"
  proof (cases "g \<in> new")
    case True
    then show ?thesis using u(8) assms(4) by blast
  next
    case False
    then have g: "g \<in> sh_net s" using assms(3) by blast
    then have "m_Term g = r_term (sh_node s i)"
      using n(2) [OF g assms(4)] u(5) that assms(5) by (metis order.antisym)
    with n(2,3) [OF g assms(4)] assms(5) that u(6) show ?thesis by metis
  qed
qed

lemma good_update_net:
  assumes "net_ok V s" "good_update V s i r' new" "i \<in> V"
  shows "net_ok V (sh_update s i r')"
proof -
  note n = net_okD [OF assms(1)] and u = good_updateD [OF assms(2)] and e = earlier_grant [OF assms(1,2)]
  have same: "m_To g = m_To h" if "g \<in> sh_net s \<union> new" "h \<in> sh_net s \<union> new" "grants g" "grants h"
    "m_From g = m_From h" "m_Term g = m_Term h" for g h
  proof (cases "g \<in> sh_net s \<and> h \<in> sh_net s")
    case True
    then show ?thesis using n(4) that by blast
  next
    case False
    then have "m_From g = i \<and> m_Term g = r_term r'" using that u(7,8) by (metis Un_iff)
    then show ?thesis using e(2) that by metis
  qed
  show ?thesis
    unfolding net_ok_def sh_update_simps u(1)
  proof (intro conjI ballI impI)
    fix m
    assume m: "m \<in> sh_net s \<union> new"
    then show "m_From m \<in> V" using n(1) u(7) assms(3) by blast
    show "m_Term m \<noteq> 0" if "m_Type m = RequestVote" using m that n(1) u(7) by blast
    assume g: "grants m"
    show "m_Term m \<noteq> 0" "m_To m \<noteq> 0" using m g n(2) u(8) by blast+
    show "m_Term m \<le> r_term (if m_From m = i then r' else sh_node s (m_From m))"
      using m g n(2) e(1) u(7) by auto
    show "r_vote (if m_From m = i then r' else sh_node s (m_From m)) = m_To m"
      if "m_Term m = r_term (if m_From m = i then r' else sh_node s (m_From m))"
      using that m g n(3) e(2) [OF m g] u(7) by (auto split: if_splits)
  qed (use same in blast)
qed

lemma good_update_won:
  assumes "won_ok V s" "net_ok V s" "good_update V s i r' new" "i \<in> V" "0 \<notin> V"
  shows "won_ok V (sh_update s i r')"
proof -
  note u = good_updateD [OF assms(3)] and e = earlier_grant [OF assms(2,3)]
  let ?net = "sh_net s \<union> new"
  have old: "won_entry V ?net (if j = i then r' else sh_node s j) t j"
    if w: "(t, j) \<in> sh_won s" for t j
  proof -
    have p: "j \<in> V" "t \<le> r_term (sh_node s j)" "t = r_term (sh_node s j) \<longrightarrow> r_vote (sh_node s j) = j"
      "\<forall>g \<in> sh_net s. grants g \<and> m_From g = j \<and> m_Term g = t \<longrightarrow> m_To g = j" "backed_by V (sh_net s) j t"
      using assms(1) w unfolding won_ok_def won_entry_def by blast+
    have bk: "backed_by V ?net j t" using p(5) by (rule backed_by_mono) simp
    have vote: "r_vote r' = i" if "j = i" "t = r_term r'"
    proof -
      have "r_term r' = r_term (sh_node s i)" using p(2) u(5) that by (metis order.antisym)
      moreover have "r_vote (sh_node s i) = i" using p(3) that calculation by metis
      ultimately show ?thesis using u(6) assms(4,5) by metis
    qed
    have "m_To g = j" if "g \<in> ?net" "grants g" "m_From g = j" "m_Term g = t" for g
    proof (cases "g \<in> sh_net s")
      case False
      then have "j = i \<and> t = r_term r' \<and> m_To g = r_vote r'" using that u(7,8) by (metis Un_iff)
      with vote show ?thesis by metis
    qed (use p(4) that in blast)
    with bk vote p(1,2,3) u(5) show ?thesis unfolding won_entry_def by (auto intro: order_trans)
  qed
  have new: "won_entry V ?net r' (r_term r') i" if "r_state r' = Leader"
    unfolding won_entry_def using u(10) [OF that] assms(4) e(2) by auto
  show ?thesis
    unfolding won_ok_def sh_update_simps u(1)
  proof (intro allI impI)
    fix t j
    assume "(t, j) \<in> sh_won s \<union> (if r_state r' = Leader then {(r_term r', i)} else {})"
    then consider "(t, j) \<in> sh_won s" | "r_state r' = Leader" "t = r_term r'" "j = i"
      by (auto split: if_splits)
    then show "won_entry V ?net (if j = i then r' else sh_node s j) t j"
      by cases (use old new in auto)
  qed
qed

lemma good_update_ok:
  assumes "shard_ok V s" "good_update V s i r' new" "i \<in> V"
  shows "shard_ok V (sh_update s i r')"
proof -
  note u = good_updateD [OF assms(2)]
  have ok: "net_ok V s" "won_ok V s" "0 \<notin> V" using assms(1) by (simp_all add: shard_ok_def)
  have "node_fine V (sh_update s i r') j" if "j \<in> V" for j
  proof (cases "j = i")
    case True
    then show ?thesis unfolding node_fine_def sh_update_simps u(1) using u(1-4,9) by auto
  next
    case False
    have "node_fine V s j" using assms(1) that by (simp add: shard_ok_def)
    with False show ?thesis
      unfolding node_fine_def sh_update_simps u(1) by (auto intro: candidate_ok_mono)
  qed
  with good_update_net [OF ok(1) assms(2,3)] good_update_won [OF ok(2,1) assms(2,3) ok(3)] ok(3)
  show ?thesis by (simp add: shard_ok_def)
qed

section \<open>Every step is good\<close>

lemma shard_okD:
  assumes "shard_ok V s" and "i \<in> V"
  shows "r_replicaID (sh_node s i) = i" "members_ok V (sh_node s i)" "rt_ok (r_rt (sh_node s i))"
    "set (r_msgs (sh_node s i)) \<subseteq> sh_net s"
    "r_state (sh_node s i) = Candidate \<Longrightarrow> candidate_ok (sh_net s) i (sh_node s i)"
    "r_state (sh_node s i) = Leader \<Longrightarrow>
       r_vote (sh_node s i) = i \<and> backed_by V (sh_net s) i (r_term (sh_node s i))"
    "net_ok V s" "0 \<notin> V"
proof -
  have f: "node_fine V s i" and w: "won_ok V s" using assms by (auto simp: shard_ok_def)
  show "r_replicaID (sh_node s i) = i" "members_ok V (sh_node s i)" "rt_ok (r_rt (sh_node s i))"
    "set (r_msgs (sh_node s i)) \<subseteq> sh_net s"
    "r_state (sh_node s i) = Candidate \<Longrightarrow> candidate_ok (sh_net s) i (sh_node s i)"
    using f by (simp_all add: node_fine_def)
  show "r_vote (sh_node s i) = i \<and> backed_by V (sh_net s) i (r_term (sh_node s i))"
    if "r_state (sh_node s i) = Leader"
    using f w that unfolding node_fine_def won_ok_def won_entry_def by blast
  show "net_ok V s" "0 \<notin> V" using assms by (simp_all add: shard_ok_def)
qed

lemma members_ok_same: "members_ok V r \<Longrightarrow> same_members r r' \<Longrightarrow> members_ok V r'"
  unfolding members_ok_def same_members_def voters_def by simp

lemma calm_good:
  assumes "shard_ok V s" "i \<in> V" "calm (sh_node s i) r'"
  shows "shard_ok V (sh_update s i r')"
proof -
  note d = shard_okD [OF assms(1,2)]
  obtain ms where ms: "r_msgs r' = r_msgs (sh_node s i) @ ms" "\<forall>m \<in> set ms. quiet_msg (sh_node s i) m"
    using assms(3) unfolding calm_def quiet_def quiet_sends_def by blast
  have c: "r_replicaID r' = i" "rt_ok (r_rt r')" "r_term r' = r_term (sh_node s i)"
    "r_vote r' = r_vote (sh_node s i)" "same_members (sh_node s i) r'" "no_promotion (sh_node s i) r'"
    using assms(3) d(1,3) unfolding calm_def quiet_def basic_def config_kept_def by auto
  have cand: "candidate_ok (sh_net s \<union> set ms) i r'" if "r_state r' = Candidate"
    using candidate_ok_mono [OF d(5), of "sh_net s \<union> set ms"] that c(3,4,6)
    by (auto simp: candidate_ok_def no_promotion_def)
  have "good_update V s i r' (set ms)"
    unfolding good_update_def Let_def
    using c ms d(1,4,6) members_ok_same [OF d(2) c(5)] cand
    by (auto simp: no_promotion_def quiet_msg_def grants_def intro: backed_by_mono)
  then show ?thesis using good_update_ok assms by blast
qed

lemma unrelated_good:
  assumes "shard_ok V s" "i \<in> V" "unrelated (sh_node s i) r'"
  shows "shard_ok V (sh_update s i r')"
proof -
  note d = shard_okD [OF assms(1,2)]
  have "good_update V s i r' {}"
    unfolding good_update_def Let_def
    using assms(3) d members_ok_same [OF d(2)]
    by (auto simp: unrelated_def candidate_ok_def)
  then show ?thesis using good_update_ok assms by blast
qed

lemma restarts_good:
  assumes "shard_ok V s" "i \<in> V" "restarts (sh_node s i) r'"
  shows "shard_ok V (sh_update s i r')"
proof -
  note d = shard_okD [OF assms(1,2)]
  have r: "r_replicaID r' = i" "r_term r' = r_term (sh_node s i)" "r_vote r' = r_vote (sh_node s i)"
    "rt_ok (r_rt r')" "r_msgs r' = []" "r_state r' \<noteq> Leader" "r_state r' \<noteq> Candidate"
    "mkeys (r_remotes r') = mkeys (r_remotes (sh_node s i))"
    "mkeys (r_witnesses r') = mkeys (r_witnesses (sh_node s i))"
    using assms(3) d(1) postD [OF newRaft_restored]
    unfolding restarts_def restored_def Let_def by (fastforce split: if_splits)+
  have "members_ok V r'" using d(2) r(8,9) unfolding members_ok_def voters_def by simp
  with r have "good_update V s i r' {}" unfolding good_update_def Let_def by auto
  then show ?thesis using good_update_ok assms by blast
qed

lemma adopts_good:
  assumes "shard_ok V s" "i \<in> V" "adopts (sh_node s i) t r'"
  shows "shard_ok V (sh_update s i r')"
proof -
  note d = shard_okD [OF assms(1,2)]
  have "good_update V s i r' {}"
    unfolding good_update_def Let_def
    using assms(3) d members_ok_same [OF d(2)]
    by (auto simp: adopts_def basic_def config_kept_def)
  then show ?thesis using good_update_ok assms by blast
qed

lemma campaigns_good:
  assumes "shard_ok V s" "i \<in> V" "campaigns (sh_node s i) r'" "r_term (sh_node s i) \<noteq> - 1"
  shows "shard_ok V (sh_update s i r')"
proof -
  note d = shard_okD [OF assms(1,2)]
  obtain ms where ms: "r_msgs r' = r_msgs (sh_node s i) @ ms" "\<forall>m \<in> set ms. vote_request r' m"
    using assms(3) unfolding campaigns_def by blast
  have c: "r_replicaID r' = i" "rt_ok (r_rt r')" "r_term r' = r_term (sh_node s i) + 1"
    "r_vote r' = i" "same_members (sh_node s i) r'"
    "r_state r' = Candidate \<and> r_votes r' = [(i, True)] \<or> r_state r' = Leader \<and> isSingleNodeQuorum (sh_node s i)"
    using assms(3) d(1,3) unfolding campaigns_def basic_def config_kept_def by auto
  have less: "r_term (sh_node s i) < r_term r'" using u64_less_Suc [OF assms(4)] c(3) by simp
  then have "r_term r' \<noteq> 0" by auto
  have lead: "backed_by V net i t" if "r_state r' = Leader" for net t
  proof -
    have "card V div 2 + 1 = 1"
      using that c(6) quorum_card [OF d(2)] by (auto simp: isSingleNodeQuorum_def)
    then show ?thesis unfolding backed_by_def using assms(2) by (intro exI [of _ "{i}"]) auto
  qed
  have cand: "candidate_ok net i r'" if "r_state r' = Candidate" for net
    using that c(4,6) by (auto simp: candidate_ok_def gm_wf_def)
  have "good_update V s i r' (set ms)"
    unfolding good_update_def Let_def
    using c(1,2,4) less ms d(4) members_ok_same [OF d(2) c(5)] lead cand \<open>r_term r' \<noteq> 0\<close>
    by (auto simp: vote_request_def grants_def)
  then show ?thesis using good_update_ok assms by blast
qed

lemma answers_vote_good:
  assumes "shard_ok V s" "i \<in> V" "answers_vote (sh_node s i) m r'"
    "m_Term m = r_term (sh_node s i)" "m_Term m \<noteq> 0" "m_From m \<in> V"
  shows "shard_ok V (sh_update s i r')"
proof -
  note d = shard_okD [OF assms(1,2)]
  have "\<exists>resp. r_msgs r' = r_msgs (sh_node s i) @ [resp] \<and> m_From resp = i \<and> m_Type resp = RequestVoteResp \<and>
      m_To resp = m_From m \<and> m_Term resp = r_term (sh_node s i) \<and>
      (if m_Reject resp then r_vote r' = r_vote (sh_node s i)
       else r_vote r' = m_From m \<and> canGrantVote (sh_node s i) m)"
    using assms(3) d(1) unfolding answers_vote_def by (elim conjE exE) (rule exI, auto split: if_splits)
  then obtain resp where resp: "r_msgs r' = r_msgs (sh_node s i) @ [resp]" "m_From resp = i"
      "m_Type resp = RequestVoteResp" "m_To resp = m_From m" "m_Term resp = r_term (sh_node s i)"
      "if m_Reject resp then r_vote r' = r_vote (sh_node s i)
       else r_vote r' = m_From m \<and> canGrantVote (sh_node s i) m"
    by (elim conjE exE)
  have c: "r_replicaID r' = i" "rt_ok (r_rt r')" "r_term r' = r_term (sh_node s i)"
    "same_members (sh_node s i) r'" "r_state r' = r_state (sh_node s i)" "r_votes r' = r_votes (sh_node s i)"
    using assms(3) d(1,3) unfolding answers_vote_def basic_def config_kept_def by auto
  have nz: "m_From m \<noteq> 0" using assms(6) d(8) by auto
  have vote: "r_vote r' = r_vote (sh_node s i) \<or> r_vote (sh_node s i) = 0"
    using resp(6) assms(4) by (auto simp: canGrantVote_def NoNode_def split: if_splits)
  have own: "r_vote r' = i" if "r_vote (sh_node s i) = i"
    using vote that assms(2) d(8) by auto
  have cand: "candidate_ok (sh_net s \<union> {resp}) i r'" if "r_state r' = Candidate"
    using candidate_ok_mono [OF d(5), of "sh_net s \<union> {resp}"] that c own
    by (auto simp: candidate_ok_def)
  have lead: "r_vote r' = i \<and> backed_by V (sh_net s \<union> {resp}) i (r_term r')" if "r_state r' = Leader"
    using d(6) that c own by (auto intro: backed_by_mono)
  have "good_update V s i r' {resp}"
    unfolding good_update_def Let_def
    using c(1,2,3) resp d(4) members_ok_same [OF d(2) c(4)] lead cand vote nz assms(4,5)
    by (auto simp: grants_def)
  then show ?thesis using good_update_ok assms by blast
qed

lemma mem_mput: "x \<in> set (mput k v m) \<Longrightarrow> x = (k, v) \<or> x \<in> set m"
  by (induction m) (auto split: if_splits)

lemma counted_voters:
  assumes "candidate_ok net i r" and "m \<in> net" "m_To m = i" "m_Type m = RequestVoteResp"
    "m_Reject m \<or> m_Term m = r_term r"
  shows "gm_wf (counted r m)" "\<forall>(n, b) \<in> set (counted r m). b \<longrightarrow> n = i \<or> voted net n i (r_term r)"
proof -
  have c: "gm_wf (r_votes r)" "\<forall>(n, b) \<in> set (r_votes r). b \<longrightarrow> n = i \<or> voted net n i (r_term r)"
    using assms(1) by (auto simp: candidate_ok_def)
  show "gm_wf (counted r m)" using c(1) by (simp add: counted_def)
  have "\<not> m_Reject m \<longrightarrow> voted net (m_From m) i (r_term r)"
    using assms by (auto simp: voted_def grants_def)
  then show "\<forall>(n, b) \<in> set (counted r m). b \<longrightarrow> n = i \<or> voted net n i (r_term r)"
    using c(2) by (auto simp: counted_def dest!: mem_mput split: if_splits)
qed

lemma counts_vote_good:
  assumes "shard_ok V s" "i \<in> V" "counts_vote (sh_node s i) m r'" "r_state (sh_node s i) = Candidate"
    "m \<in> sh_net s" "m_To m = i" "m_Type m = RequestVoteResp" "m_Reject m \<or> m_Term m = r_term (sh_node s i)"
  shows "shard_ok V (sh_update s i r')"
proof -
  note d = shard_okD [OF assms(1,2)]
  let ?r = "sh_node s i"
  obtain ms where ms: "r_msgs r' = r_msgs ?r @ ms" "\<forall>m \<in> set ms. quiet_msg ?r m"
    using assms(3) unfolding counts_vote_def quiet_sends_def by blast
  have c: "r_replicaID r' = i" "rt_ok (r_rt r')" "r_term r' = r_term ?r" "r_vote r' = r_vote ?r"
    "same_members ?r r'"
    "r_state r' = Candidate \<and> r_votes r' = counted ?r m \<or>
     r_state r' = Leader \<and> length (filter snd (counted ?r m)) = quorum ?r"
    using assms(3) d(1,3) unfolding counts_vote_def basic_def config_kept_def by auto
  have co: "candidate_ok (sh_net s) i ?r" by (rule d(5) [OF assms(4)])
  note v = counted_voters [OF co assms(5-8)]
  have own: "r_vote ?r = i" using co by (simp add: candidate_ok_def)
  have cand: "candidate_ok (sh_net s \<union> set ms) i r'" if "r_state r' = Candidate"
    by (rule candidate_ok_mono [of "sh_net s"]) (use v c that own in \<open>auto simp: candidate_ok_def\<close>)
  have lead: "backed_by V (sh_net s) i (r_term ?r)" if "r_state r' = Leader"
  proof -
    let ?Q = "fst ` set (filter snd (counted ?r m))"
    have "distinct (map fst (filter snd (counted ?r m)))"
      using v(1) by (simp add: gm_wf_def distinct_map_filter)
    then have "card ?Q = quorum ?r"
      using that c(6) by (metis NodeState.distinct(13) distinct_card length_map list.set_map)
    moreover have voted: "\<forall>n \<in> ?Q. n = i \<or> voted (sh_net s) n i (r_term ?r)" using v(2) by auto
    moreover have "?Q \<subseteq> V"
    proof
      fix n
      assume "n \<in> ?Q"
      with voted consider "n = i" | "voted (sh_net s) n i (r_term ?r)" by blast
      then show "n \<in> V"
        by cases (use assms(2) net_okD(1) [OF d(7)] in \<open>auto simp: voted_def\<close>)
    qed
    ultimately show ?thesis
      unfolding backed_by_def using quorum_card [OF d(2)] by (intro exI [of _ ?Q]) simp
  qed
  have "good_update V s i r' (set ms)"
    unfolding good_update_def Let_def
    using c(1-4) ms d(1,4) members_ok_same [OF d(2) c(5)] cand lead own
    by (auto simp: quiet_msg_def grants_def intro: backed_by_mono)
  then show ?thesis using good_update_ok assms by blast
qed

lemma sh_update_twice:
  "r_msgs r1 = r_msgs (sh_node s i) \<Longrightarrow> set (r_msgs (sh_node s i)) \<subseteq> sh_net s \<Longrightarrow> r_state r1 \<noteq> Leader \<Longrightarrow>
     sh_update (sh_update s i r1) i r' = sh_update s i r'"
  by (auto simp: sh_update_def)

lemma handled_good:
  assumes "shard_ok V s" "i \<in> V" "handled (sh_node s i) m r'" "\<not> membership_msg m"
    "r_term (sh_node s i) \<noteq> - 1"
    "isPreVoteMessage (m_Type m) \<or> m_Term m = 0 \<or> m_Term m = r_term (sh_node s i)"
    "local_msg m \<or> m \<in> sh_net s \<and> m_To m = i"
  shows "shard_ok V (sh_update s i r')"
proof -
  note d = shard_okD [OF assms(1,2)]
  consider "calm (sh_node s i) r'" | "campaigns (sh_node s i) r'"
    | "m_Type m = RequestVote" "answers_vote (sh_node s i) m r'"
    | "m_Type m = RequestVoteResp" "r_state (sh_node s i) = Candidate" "counts_vote (sh_node s i) m r'"
    using assms(3,4) by (auto simp: handled_def membership_msg_def)
  then show ?thesis
  proof cases
    case 1
    then show ?thesis by (rule calm_good [OF assms(1,2)])
  next
    case 2
    then show ?thesis by (rule campaigns_good [OF assms(1,2) _ assms(5)])
  next
    case 3
    then have "m \<in> sh_net s" using assms(7) by (auto simp: local_msg_def)
    then have "m_From m \<in> V" "m_Term m \<noteq> 0" using net_okD(1) [OF d(7)] 3(1) by auto
    moreover have "m_Term m = r_term (sh_node s i)"
      using assms(6) calculation 3(1) by (auto simp: isPreVoteMessage_def)
    ultimately show ?thesis using answers_vote_good [OF assms(1,2) 3(2)] by blast
  next
    case 4
    then have m: "m \<in> sh_net s" "m_To m = i" using assms(7) by (auto simp: local_msg_def)
    have "m_Reject m \<or> m_Term m = r_term (sh_node s i)"
      using assms(6) net_okD(2) [OF d(7) m(1)] 4(1) by (auto simp: isPreVoteMessage_def grants_def)
    then show ?thesis using counts_vote_good [OF assms(1,2) 4(3,2) m 4(1)] by blast
  qed
qed

lemma Handle_good:
  assumes "shard_ok V s" "i \<in> V" "Handle (sh_node s i) m = Inr r'" "\<not> membership_msg m"
    "r_term (sh_node s i) \<noteq> - 1" "m_Term m \<noteq> - 1" "local_msg m \<or> m \<in> sh_net s \<and> m_To m = i"
  shows "shard_ok V (sh_update s i r')"
  using assms(3)
proof (cases rule: Handle_steps)
  case ignored
  then show ?thesis by (rule calm_good [OF assms(1,2)])
next
  case (handled r1)
  consider "r1 = sh_node s i" | "adopts (sh_node s i) (m_Term m) r1"
    using handled(1) by (auto simp: term_checked_def)
  then show ?thesis
  proof cases
    case 1
    then show ?thesis using handled_good [OF assms(1,2) _ assms(4,5) _ assms(7)] handled(2,3) by simp
  next
    case 2
    have ok1: "shard_ok V (sh_update s i r1)" by (rule adopts_good [OF assms(1,2) 2])
    have "shard_ok V (sh_update (sh_update s i r1) i r')"
      by (rule handled_good [OF ok1 assms(2)])
        (use handled assms(4-7) 2 in \<open>auto simp: sh_update_simps adopts_def\<close>)
    moreover have "sh_update (sh_update s i r1) i r' = sh_update s i r'"
      using 2 shard_okD(4) [OF assms(1,2)] by (intro sh_update_twice) (auto simp: adopts_def)
    ultimately show ?thesis by simp
  qed
qed

lemma shard_step_ok: "shard_step V s s' \<Longrightarrow> shard_ok V s \<Longrightarrow> shard_ok V s'"
proof (induction rule: shard_step.induct)
  case (deliver i m s r')
  then show ?case using Handle_good by blast
next
  case (local i m s r')
  then have "m_Term m \<noteq> - 1" by (simp add: local_msg_def)
  with local show ?case using Handle_good by blast
next
  case (restart i s r')
  then show ?case using restarts_good by blast
next
  case (other i s r')
  then show ?case using unrelated_good by blast
qed

lemma shard_init_ok: "shard_init V s \<Longrightarrow> shard_ok V s"
  by (auto simp: shard_init_def shard_ok_def net_ok_def won_ok_def node_fine_def)

lemma shard_run_ok: "shard_run V s \<Longrightarrow> shard_ok V s"
  by (induction rule: shard_run.induct) (auto intro: shard_init_ok shard_step_ok)

text \<open>
  C1: In every run of a shard with a finite set of voting members, at most one replica ever becomes
  leader in a term; in particular no two replicas are leaders of the same term at the same time.
\<close>

theorem election_safety:
  assumes "finite V" and "shard_run V s" and "(t, i) \<in> sh_won s" and "(t, j) \<in> sh_won s"
  shows "i = j"
proof (rule ccontr)
  assume ne: "i \<noteq> j"
  have ok: "won_ok V s" "net_ok V s"
    using shard_run_ok [OF assms(2)] by (simp_all add: shard_ok_def)
  have wi: "won_entry V (sh_net s) (sh_node s i) t i" and wj: "won_entry V (sh_net s) (sh_node s j) t j"
    using ok(1) assms(3,4) by (auto simp: won_ok_def)
  obtain Q1 Q2 where q: "Q1 \<subseteq> V" "card V div 2 + 1 \<le> card Q1" "\<forall>n \<in> Q1. n = i \<or> voted (sh_net s) n i t"
    "Q2 \<subseteq> V" "card V div 2 + 1 \<le> card Q2" "\<forall>n \<in> Q2. n = j \<or> voted (sh_net s) n j t"
    using wi wj unfolding won_entry_def backed_by_def by blast
  obtain n where n: "n \<in> Q1" "n \<in> Q2" using quorums_meet [OF assms(1) q(1,4,2,5)] by blast
  have one: "a = b" if "voted (sh_net s) n a t" "voted (sh_net s) n b t" for a b
    using that net_okD(4) [OF ok(2)] unfolding voted_def by metis
  have self: "a = b" if "won_entry V (sh_net s) r t b" "voted (sh_net s) b a t" for a b r
    using that unfolding won_entry_def voted_def by blast
  show False using q(3,6) n ne one self [OF wi] self [OF wj] by metis
qed

text \<open>
  A run in which replica 1 of the concrete shard campaigns, replica 2 grants its vote and replica 1
  becomes leader of term 1.
\<close>

definition demo_shard :: shard where
  "demo_shard = \<lparr>sh_node = demo_raft, sh_net = {}, sh_won = {}\<rparr>"

definition request_to :: "u64 \<Rightarrow> raft \<Rightarrow> Message" where
  "request_to k r = hd (filter (\<lambda>m. m_To m = k) (r_msgs r))"

lemma request_to_mem: "filter (\<lambda>m. m_To m = k) (r_msgs r) \<noteq> [] \<Longrightarrow> request_to k r \<in> set (r_msgs r) \<and> m_To (request_to k r) = k"
  unfolding request_to_def using hd_in_set [of "filter (\<lambda>m. m_To m = k) (r_msgs r)"] by auto

definition usable :: "u64 \<Rightarrow> Message \<Rightarrow> raft \<Rightarrow> bool" where
  "usable k m r \<longleftrightarrow> filter (\<lambda>m. m_To m = k) (r_msgs r) \<noteq> [] \<and> \<not> membership_msg m \<and> m_Term m \<noteq> - 1 \<and> r_term r \<noteq> - 1"

lemma demo_election:
  "case Handle (demo_raft 1) (zero_Message Election) of Inl _ \<Rightarrow> False
   | Inr r1 \<Rightarrow> usable 2 (request_to 2 r1) r1 \<and>
      (case Handle (demo_raft 2) (request_to 2 r1) of Inl _ \<Rightarrow> False
       | Inr r2 \<Rightarrow> usable 1 (request_to 1 r2) r2 \<and>
          (case Handle r1 (request_to 1 r2) of Inl _ \<Rightarrow> False
           | Inr r3 \<Rightarrow> r_state r3 = Leader \<and> r_term r3 = 1))"
  unfolding usable_def membership_msg_def request_to_def by code_simp

lemma demo_shard_init: "shard_init {1, 2, 3} demo_shard"
  by (auto simp: shard_init_def demo_shard_def members_ok_def voters_def demo_raft_def init_raft_def
      demo_config_def demo_logdb_def demo_members_def new_remotes_def demo_rt_def rt_ok_def zero_Membership_def Let_def)

theorem election_safety_witness:
  "\<exists>s. shard_run {1, 2, 3} s \<and> (1, 1) \<in> sh_won s \<and> (\<forall>j. (1, j) \<in> sh_won s \<longrightarrow> j = 1)"
proof -
  obtain r1 where h1: "Handle (demo_raft 1) (zero_Message Election) = Inr r1"
    and u1: "usable 2 (request_to 2 r1) r1"
    and n1: "case Handle (demo_raft 2) (request_to 2 r1) of Inl _ \<Rightarrow> False
       | Inr r2 \<Rightarrow> usable 1 (request_to 1 r2) r2 \<and>
          (case Handle r1 (request_to 1 r2) of Inl _ \<Rightarrow> False
           | Inr r3 \<Rightarrow> r_state r3 = Leader \<and> r_term r3 = 1)"
    using demo_election by (cases "Handle (demo_raft 1) (zero_Message Election)") auto
  obtain r2 where h2: "Handle (demo_raft 2) (request_to 2 r1) = Inr r2"
    and u2: "usable 1 (request_to 1 r2) r2"
    and n2: "case Handle r1 (request_to 1 r2) of Inl _ \<Rightarrow> False
           | Inr r3 \<Rightarrow> r_state r3 = Leader \<and> r_term r3 = 1"
    using n1 by (cases "Handle (demo_raft 2) (request_to 2 r1)") auto
  obtain r3 where h3: "Handle r1 (request_to 1 r2) = Inr r3" and r3: "r_state r3 = Leader" "r_term r3 = 1"
    using n2 by (cases "Handle r1 (request_to 1 r2)") auto
  let ?s1 = "sh_update demo_shard 1 r1" and ?s2 = "sh_update (sh_update demo_shard 1 r1) 2 r2"
  let ?s3 = "sh_update ?s2 1 r3"
  have t0: "r_term (demo_raft k) = 0" for k by (simp add: demo_raft_def init_raft_def Let_def)
  have node: "sh_node demo_shard = demo_raft" by (simp add: demo_shard_def)
  have s1: "shard_step {1, 2, 3} demo_shard ?s1"
    by (rule shard_step.local [where m = "zero_Message Election"])
      (simp_all add: node t0 h1 local_msg_def membership_msg_def)
  have s2: "shard_step {1, 2, 3} ?s1 ?s2"
    by (rule deliver [where m = "request_to 2 r1"])
      (use u1 request_to_mem [of 2 r1] in \<open>simp_all add: sh_update_simps node t0 h2 usable_def\<close>)
  have s3: "shard_step {1, 2, 3} ?s2 ?s3"
    by (rule deliver [where m = "request_to 1 r2"])
      (use u1 u2 request_to_mem [of 1 r2] in \<open>simp_all add: sh_update_simps node h3 usable_def\<close>)
  have run: "shard_run {1, 2, 3} ?s3"
    by (intro shard_run.step [OF shard_run.step [OF shard_run.step [OF shard_run.start]]])
      (rule demo_shard_init s1 s2 s3)+
  have won: "(1, 1) \<in> sh_won ?s3" using r3 by (simp add: sh_update_simps)
  have "j = 1" if "(1, j) \<in> sh_won ?s3" for j
    by (rule election_safety [OF _ run that won]) simp
  with run won show ?thesis by blast
qed

end
