(* ===== verification/Mvcc.thy ===== *)
theory Mvcc
  imports Keys
begin

text \<open>
  The state machine of a table, \<^verbatim>\<open>storage/table/fsm\<close>: replicated commands applied as multi-version
  writes to the key-value engine, lookups, snapshots and garbage collection of old versions.

  The engine (Pebble) is a library outside the repository and a parameter of every definition: the
  record \<open>pebble\<close> has the calls the code makes, and \<open>pebble_ok\<close> states their documented behaviour
  through the contents \<open>C\<close> of a reader. Every call may fail. An open iterator is the list of pairs it
  has not passed yet, the current one first: \<open>Next\<close> drops one, and \<open>SeekGE\<close> drops the pairs below its
  key. The code only ever seeks forward. Protobuf messages are records and datatypes; a field of
  pointer or optional bytes type is an option.
\<close>

section \<open>The engine\<close>

type_synonym kvs = "(bytes \<times> bytes) list"

datatype ('db, 'b) reader = RDB 'db | RBatch 'b

record IterOptions =
  io_LowerBound :: "bytes option"
  io_UpperBound :: "bytes option"
  io_SeqnoFilter :: "u64 option"

record ('db, 'b) pebble =
  pb_NewBatch :: "'db \<Rightarrow> 'b"
  pb_NewIndexedBatch :: "'db \<Rightarrow> 'b"
  pb_Indexed :: "'b \<Rightarrow> bool"
  pb_Apply :: "'b \<Rightarrow> 'b \<Rightarrow> 'b res"
  pb_Set :: "'b \<Rightarrow> bytes \<Rightarrow> bytes \<Rightarrow> 'b res"
  pb_DeleteRange :: "'b \<Rightarrow> bytes \<Rightarrow> bytes \<Rightarrow> 'b res"
  pb_Commit :: "'b \<Rightarrow> 'db \<Rightarrow> 'db res"
  pb_Close :: "'b \<Rightarrow> unit res"
  pb_Count :: "'b \<Rightarrow> nat"
  pb_Len :: "'b \<Rightarrow> nat"
  pb_Get :: "('db, 'b) reader \<Rightarrow> bytes \<Rightarrow> bytes option res"
  pb_NewIter :: "('db, 'b) reader \<Rightarrow> IterOptions \<Rightarrow> kvs res"

definition no_options :: IterOptions where
  "no_options = \<lparr>io_LowerBound = None, io_UpperBound = None, io_SeqnoFilter = None\<rparr>"

definition in_bounds :: "IterOptions \<Rightarrow> bytes \<Rightarrow> bool" where
  "in_bounds o' k \<longleftrightarrow>
     (case io_LowerBound o' of None \<Rightarrow> True | Some l \<Rightarrow> l \<le> k) \<and>
     (case io_UpperBound o' of None \<Rightarrow> True | Some u \<Rightarrow> k < u)"

text \<open>The comparer of \<^verbatim>\<open>pebble/pebble.go\<close>: the length of the prefix all versions of a key share.\<close>

definition split :: "bytes \<Rightarrow> nat" where
  "split b =
     (if length b > V2SeqLen + V2SepLen + 5 \<and> b ! 0 = V2 then length b - V2SeqLen else length b)"

definition it_SeekGE :: "kvs \<Rightarrow> bytes \<Rightarrow> kvs" where
  "it_SeekGE xs k = dropWhile (\<lambda>(k', _). k' < k) xs"

definition it_SeekPrefixGE :: "kvs \<Rightarrow> bytes \<Rightarrow> kvs" where
  "it_SeekPrefixGE xs k =
     (case it_SeekGE xs k of
        [] \<Rightarrow> []
      | (k', v) # ys \<Rightarrow> if take (split k') k' = take (split k) k then (k', v) # ys else [])"

text \<open>
  What the code relies on. \<open>C r\<close> is the contents of a reader; for a batch these are the contents of
  the database it was created on, \<open>base\<close>, with the writes of the batch on top. A block property filter
  for a sequence number may hide any key at or above it, never one below.
\<close>

definition readable :: "('db, 'b) pebble \<Rightarrow> ('db, 'b) reader \<Rightarrow> bool" where
  "readable P r = (case r of RDB d \<Rightarrow> True | RBatch b \<Rightarrow> pb_Indexed P b)"

definition iter_ok :: "(bytes \<Rightarrow> bytes option) \<Rightarrow> IterOptions \<Rightarrow> kvs \<Rightarrow> bool" where
  "iter_ok m o' xs \<longleftrightarrow>
     sorted_wrt (<) (map fst xs) \<and>
     (\<forall>k v. (k, v) \<in> set xs \<longrightarrow> m k = Some v \<and> in_bounds o' k) \<and>
     (\<forall>k v. m k = Some v \<longrightarrow> in_bounds o' k \<longrightarrow>
        (case io_SeqnoFilter o' of None \<Rightarrow> True | Some g \<Rightarrow> DecodeV2Seqno k < g) \<longrightarrow> (k, v) \<in> set xs)"

definition pebble_ok :: "('db, 'b) pebble \<Rightarrow> (('db, 'b) reader \<Rightarrow> bytes \<Rightarrow> bytes option) \<Rightarrow> ('b \<Rightarrow> 'db) \<Rightarrow> bool" where
  "pebble_ok P C base \<longleftrightarrow>
     (\<forall>d. C (RBatch (pb_NewBatch P d)) = C (RDB d) \<and> base (pb_NewBatch P d) = d) \<and>
     (\<forall>d. C (RBatch (pb_NewIndexedBatch P d)) = C (RDB d) \<and> base (pb_NewIndexedBatch P d) = d \<and>
        pb_Indexed P (pb_NewIndexedBatch P d)) \<and>
     (\<forall>b. \<exists>b'. pb_Apply P (pb_NewIndexedBatch P (base b)) b = Inr b' \<and>
        C (RBatch b') = C (RBatch b) \<and> base b' = base b \<and> pb_Indexed P b') \<and>
     (\<forall>b k v. \<exists>b'. pb_Set P b k v = Inr b' \<and> C (RBatch b') = (C (RBatch b))(k \<mapsto> v) \<and>
        base b' = base b \<and> pb_Indexed P b' = pb_Indexed P b) \<and>
     (\<forall>b lo hi. \<exists>b'. pb_DeleteRange P b lo hi = Inr b' \<and> base b' = base b \<and>
        C (RBatch b') = (\<lambda>k. if lo \<le> k \<and> k < hi then None else C (RBatch b) k)) \<and>
     (\<forall>b. \<exists>d. pb_Commit P b (base b) = Inr d \<and> C (RDB d) = C (RBatch b)) \<and>
     (\<forall>b. pb_Close P b = Inr ()) \<and>
     (\<forall>b. pb_Count P b = 0 \<longrightarrow> C (RBatch b) = C (RDB (base b))) \<and>
     (\<forall>r k. readable P r \<longrightarrow> pb_Get P r k = Inr (C r k)) \<and>
     (\<forall>r o'. readable P r \<longrightarrow> (\<exists>xs. pb_NewIter P r o' = Inr xs \<and> iter_ok (C r) o' xs))"

section \<open>Messages\<close>

record KeyValue =
  kv_Key :: bytes
  kv_Value :: bytes

record RangeReq =
  rr_Key :: bytes
  rr_RangeEnd :: "bytes option"
  rr_Limit :: int
  rr_KeysOnly :: bool
  rr_CountOnly :: bool

record PutReq =
  pr_Key :: bytes
  pr_Value :: bytes
  pr_PrevKv :: bool

record DeleteReq =
  dr_Key :: bytes
  dr_RangeEnd :: "bytes option"
  dr_PrevKv :: bool
  dr_Count :: bool

datatype RequestOp =
    RequestRange RangeReq
  | RequestPut PutReq
  | RequestDeleteRange DeleteReq
  | RequestUnset

record RangeResp =
  rs_Kvs :: "KeyValue list"
  rs_More :: bool
  rs_Count :: int

record DeleteResp =
  ds_Deleted :: int
  ds_PrevKvs :: "KeyValue list"

datatype ResponseOp =
    ResponseRange RangeResp
  | ResponsePut "KeyValue option"
  | ResponseDeleteRange DeleteResp

datatype CompareResult = EQUAL | GREATER | LESS | NOT_EQUAL | CompareResult_other

record Compare =
  cp_Result :: CompareResult
  cp_TargetIsValue :: bool
  cp_Key :: bytes
  cp_Value :: "bytes option"
  cp_RangeEnd :: "bytes option"

record Txn =
  tx_Compare :: "Compare list"
  tx_Success :: "RequestOp list"
  tx_Failure :: "RequestOp list"

datatype CommandType =
  PUT | DELETE | DUMMY | PUT_BATCH | DELETE_BATCH | TXN | SEQUENCE | GC | CommandType_other

datatype Command = Command
  (cm_Table: bytes) (cm_Type: CommandType) (cm_Kv: "KeyValue option") (cm_LeaderIndex: "u64 option")
  (cm_Batch: "KeyValue list") (cm_Txn: "Txn option") (cm_RangeEnd: "bytes option") (cm_PrevKvs: bool)
  (cm_Sequence: "Command list") (cm_Count: bool)

record CommandResult =
  cr_Revision :: u64
  cr_Responses :: "ResponseOp list"

datatype UpdateResult = ResultFailure | ResultSuccess | ResultGC

definition zero_RangeReq :: "bytes \<Rightarrow> RangeReq" where
  "zero_RangeReq k = \<lparr>rr_Key = k, rr_RangeEnd = None, rr_Limit = 0, rr_KeysOnly = False, rr_CountOnly = False\<rparr>"

definition zero_RangeResp :: RangeResp where
  "zero_RangeResp = \<lparr>rs_Kvs = [], rs_More = False, rs_Count = 0\<rparr>"

definition zero_DeleteResp :: DeleteResp where
  "zero_DeleteResp = \<lparr>ds_Deleted = 0, ds_PrevKvs = []\<rparr>"

section \<open>Physical keys and iteration\<close>

definition tombstoneValue :: bytes where
  "tombstoneValue = [0]"

definition isTombstone :: "bytes \<Rightarrow> bool" where
  "isTombstone val \<longleftrightarrow> length val = 1 \<and> val ! 0 = 0"

definition encodeUserKey :: "bytes \<Rightarrow> u64 \<Rightarrow> bytes res" where
  "encodeUserKey keyBytes seqno =
     (case key_Encode \<lparr>k_version = UnknownVersion, k_KeyType = TypeUser, k_Key = keyBytes, k_Seqno = seqno\<rparr> of
        (_, dst, Inl e) \<Rightarrow> Inl e | (_, dst, Inr n) \<Rightarrow> Inr dst)"

definition mustEncodeKey :: "Key \<Rightarrow> bytes res" where
  "mustEncodeKey k =
     (case key_Encode k of (_, buff, Inl e) \<Rightarrow> Inl (GoPanic ''encode'') | (_, buff, Inr n) \<Rightarrow> Inr (take n buff))"

definition sysLocalIndex :: bytes where
  "sysLocalIndex = physical_key TypeSystem [105, 110, 100, 101, 120] 0"

definition sysLeaderIndex :: bytes where
  "sysLeaderIndex = physical_key TypeSystem [108, 101, 97, 100, 101, 114, 95, 105, 110, 100, 101, 120] 0"

definition sysGCHorizon :: bytes where
  "sysGCHorizon = physical_key TypeSystem [103, 99, 95, 104, 111, 114, 105, 122, 111, 110] 0"

definition minEncodedUserKey :: bytes where
  "minEncodedUserKey = physical_key TypeUser LatestMinKey (- 1)"

definition maxEncodedUserKey :: bytes where
  "maxEncodedUserKey = physical_key TypeUser LatestMaxKey 0"

text \<open>The loop of \<open>incrementRightmostByte\<close> from the last byte on, on the reversed bytes.\<close>

fun increment_rev :: "bytes \<Rightarrow> bytes" where
  "increment_rev [] = []"
| "increment_rev (b # bs) =
     (if b + 1 \<noteq> 0 then (b + 1) # bs
      else if bs = [] then [0, 1]
      else 0 # increment_rev bs)"

definition incrementRightmostByte :: "bytes \<Rightarrow> bytes" where
  "incrementRightmostByte in' = rev (increment_rev (rev in'))"

definition wildcard :: bytes where
  "wildcard = [0]"

definition iterOptionsForBounds :: "bytes \<Rightarrow> bytes \<Rightarrow> IterOptions res" where
  "iterOptionsForBounds low high =
     bind_res (encodeUserKey low (- 1)) (\<lambda>lowBuf.
       let o' = no_options\<lparr>io_LowerBound := Some lowBuf\<rparr>
       in if high = wildcard then Inr (o'\<lparr>io_UpperBound := Some (incrementRightmostByte maxEncodedUserKey)\<rparr>)
          else bind_res (encodeUserKey high (- 1)) (\<lambda>highBuf. Inr (o'\<lparr>io_UpperBound := Some highBuf\<rparr>)))"

text \<open>\<open>iterNextUserKey\<close>: the pairs from the next user key on; empty when the iterator is exhausted.\<close>

definition iterNextUserKey :: "kvs \<Rightarrow> bytes \<Rightarrow> kvs" where
  "iterNextUserKey piter currentPebbleKey =
     (if length currentPebbleKey \<le> V2SeqLen \<or> currentPebbleKey ! 0 \<noteq> V2 then tl piter
      else
        let prefixLen = length currentPebbleKey - V2SeqLen;
            seekKey = take prefixLen currentPebbleKey @ replicate V2SeqLen 255
        in case it_SeekGE piter seekKey of
             [] \<Rightarrow> []
           | (k, v) # rest \<Rightarrow> if k = seekKey then rest else (k, v) # rest)"

lemma bytes_le_ff: "(xs :: bytes) \<le> replicate (length xs) 255"
proof (induction xs)
  case (Cons x xs)
  have "x \<le> 255" using byte_lt [of x] by (simp add: word_le_nat_alt)
  with Cons show ?case by (auto simp: order.order_iff_strict)
qed simp

lemma append_le_iff [simp]: "(xs :: bytes) @ ys \<le> xs @ zs \<longleftrightarrow> ys \<le> zs"
  by (auto simp: order.order_iff_strict)

lemma seek_key_ge:
  assumes "8 \<le> length k"
  shows "(k :: bytes) \<le> take (length k - 8) k @ replicate 8 255"
proof -
  let ?d = "drop (length k - 8) k"
  have "length ?d = 8" using assms by simp
  then have "?d \<le> replicate 8 255" using bytes_le_ff [of ?d] by simp
  then have "take (length k - 8) k @ ?d \<le> take (length k - 8) k @ replicate 8 255" by (simp only: append_le_iff)
  then show ?thesis unfolding append_take_drop_id .
qed

lemma iterNextUserKey_shorter:
  "length (iterNextUserKey ((k, v) # xs) k) < Suc (length xs)"
proof (cases "length k \<le> V2SeqLen \<or> k ! 0 \<noteq> V2")
  case False
  let ?s = "take (length k - V2SeqLen) k @ replicate V2SeqLen 255"
  have "k \<le> ?s" using False seek_key_ge [of k] by (simp add: key_consts)
  then consider "k < ?s" | "k = ?s" by (auto simp: order.order_iff_strict)
  then show ?thesis
  proof cases
    case 1
    then have "length (it_SeekGE ((k, v) # xs) ?s) \<le> length xs"
      by (simp add: it_SeekGE_def length_dropWhile_le)
    with False show ?thesis by (auto simp: iterNextUserKey_def Let_def split: list.splits prod.splits)
  next
    case 2
    then have "it_SeekGE ((k, v) # xs) ?s = (k, v) # xs" by (simp add: it_SeekGE_def)
    with False 2 show ?thesis by (simp add: iterNextUserKey_def Let_def)
  qed
qed (simp add: iterNextUserKey_def)


section \<open>Lookups\<close>

definition addKVPair :: "bytes \<Rightarrow> bytes \<Rightarrow> RangeResp \<Rightarrow> RangeResp" where
  "addKVPair key val response =
     (let kvs = rs_Kvs response @ [\<lparr>kv_Key = key, kv_Value = val\<rparr>]
      in response\<lparr>rs_Kvs := kvs, rs_Count := int (length kvs)\<rparr>)"

definition addKeyOnly :: "bytes \<Rightarrow> bytes \<Rightarrow> RangeResp \<Rightarrow> RangeResp" where
  "addKeyOnly key val response =
     response\<lparr>rs_Kvs := rs_Kvs response @ [\<lparr>kv_Key = key, kv_Value = []\<rparr>], rs_Count := rs_Count response + 1\<rparr>"

definition addCountOnly :: "bytes \<Rightarrow> bytes \<Rightarrow> RangeResp \<Rightarrow> RangeResp" where
  "addCountOnly key val response = response\<lparr>rs_Count := rs_Count response + 1\<rparr>"

function sizeOfVarint :: "nat \<Rightarrow> nat" where
  "sizeOfVarint x = (if x \<ge> 128 then sizeOfVarint (x div 128) + 1 else 1)"
  by pat_completeness auto
termination
  by (relation "measure id") auto

declare sizeOfVarint.simps [simp del]

definition sizeRangeResponseKVEntry :: "nat \<Rightarrow> nat \<Rightarrow> nat" where
  "sizeRangeResponseKVEntry keyLen valueLen =
     (let kvSize = (if keyLen > 0 then 1 + keyLen + sizeOfVarint keyLen else 0) +
                   (if valueLen > 0 then 1 + valueLen + sizeOfVarint valueLen else 0)
      in 1 + kvSize + sizeOfVarint kvSize)"

definition maxRangeSize :: nat where
  "maxRangeSize = 4 * 1024 * 1024 - 1024"

definition iterFuncsFromReq :: "RangeReq \<Rightarrow> (bytes \<Rightarrow> bytes \<Rightarrow> RangeResp \<Rightarrow> RangeResp) \<times> (bytes \<Rightarrow> bytes \<Rightarrow> nat)" where
  "iterFuncsFromReq req =
     (if rr_KeysOnly req then (addKeyOnly, \<lambda>key val. sizeRangeResponseKVEntry (length key) 0)
      else if rr_CountOnly req then (addCountOnly, \<lambda>key val. 0)
      else (addKVPair, \<lambda>key val. sizeRangeResponseKVEntry (length key) (length val)))"

text \<open>
  The loop of \<open>iterate\<close>: the responses it yields, and the panic that ends it when a stored key does
  not decode. \<open>i\<close> counts the keys filled, \<open>sz\<close> the size of the current response.
\<close>

function iterate_loop :: "RangeReq \<Rightarrow> kvs \<Rightarrow> int \<Rightarrow> nat \<Rightarrow> RangeResp \<Rightarrow> RangeResp list \<times> go_error option" where
  "iterate_loop req [] i sz response = ([response], None)"
| "iterate_loop req ((pk, v) # xs) i sz response =
     (case DecodeBytes pk of
        Inl e \<Rightarrow> ([], Some (GoPanic ''decode''))
      | Inr k \<Rightarrow>
          if isTombstone v then iterate_loop req (iterNextUserKey ((pk, v) # xs) pk) i sz response
          else if i = rr_Limit req \<and> rr_Limit req \<noteq> 0 then ([response\<lparr>rs_More := xs \<noteq> []\<rparr>], None)
          else
            let (fill, sf) = iterFuncsFromReq req;
                entrySize = sf (k_Key k) v
            in if sz + entrySize \<ge> maxRangeSize then
                 let (more, e) = iterate_loop req (iterNextUserKey ((pk, v) # xs) pk) (i + 1) entrySize
                                   (fill (k_Key k) v zero_RangeResp)
                 in (response\<lparr>rs_More := True\<rparr> # more, e)
               else iterate_loop req (iterNextUserKey ((pk, v) # xs) pk) (i + 1) (sz + entrySize)
                      (fill (k_Key k) v response))"
  by pat_completeness auto
termination
  by (relation "measure (\<lambda>(req, xs, i, sz, response). length xs)") (auto simp: iterNextUserKey_shorter)

definition iterate :: "('db, 'b) pebble \<Rightarrow> ('db, 'b) reader \<Rightarrow> RangeReq \<Rightarrow> (RangeResp list \<times> go_error option) res" where
  "iterate P reader req =
     bind_res (iterOptionsForBounds (rr_Key req) (the (rr_RangeEnd req))) (\<lambda>opts.
       Inr (case pb_NewIter P reader opts of
              Inl e \<Rightarrow> ([], None)
            | Inr piter \<Rightarrow> iterate_loop req piter 0 0 zero_RangeResp))"

text \<open>\<open>iterx.First\<close>: the first response; a nil response reads as an empty one.\<close>

definition iterx_First :: "RangeResp list \<times> go_error option \<Rightarrow> RangeResp res" where
  "iterx_First it =
     (case it of (r # _, _) \<Rightarrow> Inr r | ([], Some e) \<Rightarrow> Inl e | ([], None) \<Rightarrow> Inr zero_RangeResp)"

definition rangeLookup :: "('db, 'b) pebble \<Rightarrow> ('db, 'b) reader \<Rightarrow> RangeReq \<Rightarrow> RangeResp res" where
  "rangeLookup P reader req = bind_res (iterate P reader req) iterx_First"

definition singleLookup :: "('db, 'b) pebble \<Rightarrow> ('db, 'b) reader \<Rightarrow> RangeReq \<Rightarrow> RangeResp res" where
  "singleLookup P reader req =
     bind_res (encodeUserKey (rr_Key req) (- 1)) (\<lambda>keyBuf.
     bind_res (pb_NewIter P reader no_options) (\<lambda>iter.
       case it_SeekPrefixGE iter keyBuf of
         [] \<Rightarrow> Inr zero_RangeResp
       | (_, value) # _ \<Rightarrow>
           if isTombstone value then Inr zero_RangeResp
           else
             let kv = \<lparr>kv_Key = rr_Key req,
                       kv_Value = (if \<not> rr_KeysOnly req \<and> \<not> rr_CountOnly req then value else [])\<rparr>
             in Inr \<lparr>rs_Kvs = (if \<not> rr_CountOnly req then [kv] else []), rs_More = False, rs_Count = 1\<rparr>))"

definition lookup :: "('db, 'b) pebble \<Rightarrow> ('db, 'b) reader \<Rightarrow> RangeReq \<Rightarrow> RangeResp res" where
  "lookup P reader req =
     (if rr_RangeEnd req \<noteq> None then rangeLookup P reader req else singleLookup P reader req)"

text \<open>Indexes are stored as eight little-endian bytes.\<close>

definition le_PutUint64 :: "u64 \<Rightarrow> bytes" where
  "le_PutUint64 v = rev (PutUint64 v)"

definition readLocalIndex :: "('db, 'b) pebble \<Rightarrow> ('db, 'b) reader \<Rightarrow> bytes \<Rightarrow> u64 res" where
  "readLocalIndex P db indexKey =
     bind_res (pb_Get P db indexKey) (\<lambda>v.
       case v of
         None \<Rightarrow> Inr 0
       | Some val \<Rightarrow> if length val < 8 then Inl (GoPanic ''index out of range'')
                     else Inr (Uint64 (rev (take 8 val))))"

section \<open>Commands\<close>

record ('db, 'b) updateContext =
  uc_batch :: 'b
  uc_db :: 'db
  uc_index :: u64
  uc_leaderIndex :: "u64 option"

definition uc_seqno :: "('db, 'b) updateContext \<Rightarrow> u64" where
  "uc_seqno c = (case uc_leaderIndex c of Some l \<Rightarrow> l | None \<Rightarrow> uc_index c)"

definition EnsureIndexed :: "('db, 'b) pebble \<Rightarrow> ('db, 'b) updateContext \<Rightarrow> ('db, 'b) updateContext res" where
  "EnsureIndexed P c =
     (if pb_Indexed P (uc_batch c) then Inr c
      else bind_res (pb_Apply P (pb_NewIndexedBatch P (uc_db c)) (uc_batch c)) (\<lambda>indexed.
           bind_res (pb_Close P (uc_batch c)) (\<lambda>_. Inr (c\<lparr>uc_batch := indexed\<rparr>))))"

definition batch_set :: "('db, 'b) pebble \<Rightarrow> ('db, 'b) updateContext \<Rightarrow> bytes \<Rightarrow> bytes \<Rightarrow> ('db, 'b) updateContext res" where
  "batch_set P c k v = bind_res (pb_Set P (uc_batch c) k v) (\<lambda>b. Inr (c\<lparr>uc_batch := b\<rparr>))"

definition handlePut :: "('db, 'b) pebble \<Rightarrow> ('db, 'b) updateContext \<Rightarrow> PutReq \<Rightarrow>
    (('db, 'b) updateContext \<times> KeyValue option) res" where
  "handlePut P ctx put =
     bind_res (encodeUserKey (pr_Key put) (uc_seqno ctx)) (\<lambda>keyBuf.
     bind_res (if pr_PrevKv put then
                 bind_res (EnsureIndexed P ctx) (\<lambda>ctx.
                 bind_res (singleLookup P (RBatch (uc_batch ctx)) (zero_RangeReq (pr_Key put))) (\<lambda>rng.
                   Inr (ctx, if length (rs_Kvs rng) = 1 then Some (rs_Kvs rng ! 0) else None)))
               else Inr (ctx, None)) (\<lambda>(ctx, prev).
     bind_res (batch_set P ctx keyBuf (pr_Value put)) (\<lambda>ctx. Inr (ctx, prev))))"

fun handlePutBatch :: "('db, 'b) pebble \<Rightarrow> ('db, 'b) updateContext \<Rightarrow> PutReq list \<Rightarrow>
    (('db, 'b) updateContext \<times> KeyValue option list) res" where
  "handlePutBatch P ctx [] = Inr (ctx, [])"
| "handlePutBatch P ctx (put # ops) =
     bind_res (handlePut P ctx put) (\<lambda>(ctx, res).
     bind_res (handlePutBatch P ctx ops) (\<lambda>(ctx, results). Inr (ctx, res # results)))"

text \<open>The scan of a range delete: the live user keys and their values, in order.\<close>

function delete_scan :: "kvs \<Rightarrow> (bytes \<times> bytes) list res" where
  "delete_scan [] = Inr []"
| "delete_scan ((pk, val) # xs) =
     bind_res (DecodeBytes pk) (\<lambda>k.
     bind_res (delete_scan (iterNextUserKey ((pk, val) # xs) pk)) (\<lambda>rest.
       Inr (if k_KeyType k = TypeUser \<and> \<not> isTombstone val then (k_Key k, val) # rest else rest)))"
  by pat_completeness auto
termination
  by (relation "measure length") (auto simp: iterNextUserKey_shorter)

fun write_tombstones :: "('db, 'b) pebble \<Rightarrow> bytes list \<Rightarrow> ('db, 'b) updateContext \<Rightarrow> ('db, 'b) updateContext res" where
  "write_tombstones P [] ctx = Inr ctx"
| "write_tombstones P (userKey # ks) ctx =
     bind_res (encodeUserKey userKey (uc_seqno ctx)) (\<lambda>keyBuf.
     bind_res (batch_set P ctx keyBuf tombstoneValue) (write_tombstones P ks))"

definition handleDelete :: "('db, 'b) pebble \<Rightarrow> ('db, 'b) updateContext \<Rightarrow> DeleteReq \<Rightarrow>
    (('db, 'b) updateContext \<times> DeleteResp) res" where
  "handleDelete P ctx del =
     (case dr_RangeEnd del of
        Some rangeEnd \<Rightarrow>
          bind_res (EnsureIndexed P ctx) (\<lambda>ctx.
          bind_res (iterOptionsForBounds (dr_Key del) rangeEnd) (\<lambda>opts.
          bind_res (pb_NewIter P (RBatch (uc_batch ctx)) opts) (\<lambda>iter.
          bind_res (delete_scan iter) (\<lambda>live.
          bind_res (write_tombstones P (map fst live) ctx) (\<lambda>ctx.
            Inr (ctx, \<lparr>ds_Deleted = (if dr_Count del \<or> dr_PrevKv del then int (length live) else 0),
                       ds_PrevKvs = (if dr_PrevKv del
                                     then map (\<lambda>(k, v). \<lparr>kv_Key = k, kv_Value = v\<rparr>) live else [])\<rparr>))))))
      | None \<Rightarrow>
          bind_res (EnsureIndexed P ctx) (\<lambda>ctx.
          bind_res (singleLookup P (RBatch (uc_batch ctx))
                      ((zero_RangeReq (dr_Key del))\<lparr>rr_CountOnly :=
                         (if dr_PrevKv del \<or> dr_Count del then dr_Count del \<and> \<not> dr_PrevKv del else True)\<rparr>)) (\<lambda>rng.
            if rs_Count rng = 0 then Inr (ctx, zero_DeleteResp)
            else
              let resp = (if dr_PrevKv del \<or> dr_Count del
                          then \<lparr>ds_Deleted = rs_Count rng, ds_PrevKvs = rs_Kvs rng\<rparr> else zero_DeleteResp)
              in bind_res (encodeUserKey (dr_Key del) (uc_seqno ctx)) (\<lambda>keyBuf.
                 bind_res (batch_set P ctx keyBuf tombstoneValue) (\<lambda>ctx. Inr (ctx, resp))))))"

fun handleDeleteBatch :: "('db, 'b) pebble \<Rightarrow> ('db, 'b) updateContext \<Rightarrow> DeleteReq list \<Rightarrow>
    (('db, 'b) updateContext \<times> DeleteResp list) res" where
  "handleDeleteBatch P ctx [] = Inr (ctx, [])"
| "handleDeleteBatch P ctx (del # ops) =
     bind_res (handleDelete P ctx del) (\<lambda>(ctx, res).
     bind_res (handleDeleteBatch P ctx ops) (\<lambda>(ctx, results). Inr (ctx, res # results)))"

definition txnCompareSingle :: "Compare \<Rightarrow> bytes \<Rightarrow> bool" where
  "txnCompareSingle cmp value =
     (case cp_Value cmp of
        Some v \<Rightarrow>
          if cp_TargetIsValue cmp then
            (case cp_Result cmp of
               EQUAL \<Rightarrow> value = v
             | NOT_EQUAL \<Rightarrow> value \<noteq> v
             | GREATER \<Rightarrow> value > v
             | LESS \<Rightarrow> value < v
             | CompareResult_other \<Rightarrow> True)
          else True
      | None \<Rightarrow> True)"

function compare_scan :: "Compare \<Rightarrow> kvs \<Rightarrow> bool" where
  "compare_scan cmp [] = True"
| "compare_scan cmp ((pk, v) # xs) =
     (if isTombstone v then compare_scan cmp (iterNextUserKey ((pk, v) # xs) pk)
      else if \<not> txnCompareSingle cmp v then False
      else compare_scan cmp xs)"
  by pat_completeness auto
termination
  by (relation "measure (length \<circ> snd)") (auto simp: iterNextUserKey_shorter)

definition compare_one :: "('db, 'b) pebble \<Rightarrow> ('db, 'b) reader \<Rightarrow> Compare \<Rightarrow> bool res" where
  "compare_one P reader cmp =
     (case cp_RangeEnd cmp of
        Some rangeEnd \<Rightarrow>
          bind_res (iterOptionsForBounds (cp_Key cmp) rangeEnd) (\<lambda>opts.
          bind_res (pb_NewIter P reader opts) (\<lambda>iter.
            Inr (if iter = [] then False else compare_scan cmp iter)))
      | None \<Rightarrow>
          bind_res (encodeUserKey (cp_Key cmp) (- 1)) (\<lambda>keyBuf.
          bind_res (pb_NewIter P reader no_options) (\<lambda>iter.
            Inr (case it_SeekPrefixGE iter keyBuf of
                   [] \<Rightarrow> False
                 | (_, value) # _ \<Rightarrow> \<not> isTombstone value \<and> txnCompareSingle cmp value))))"

fun txnCompare :: "('db, 'b) pebble \<Rightarrow> ('db, 'b) reader \<Rightarrow> Compare list \<Rightarrow> bool res" where
  "txnCompare P reader [] = Inr True"
| "txnCompare P reader (cmp # cmps) =
     bind_res (compare_one P reader cmp) (\<lambda>res. if \<not> res then Inr False else txnCompare P reader cmps)"

fun handleTxnOps :: "('db, 'b) pebble \<Rightarrow> ('db, 'b) updateContext \<Rightarrow> RequestOp list \<Rightarrow>
    (('db, 'b) updateContext \<times> ResponseOp list) res" where
  "handleTxnOps P ctx [] = Inr (ctx, [])"
| "handleTxnOps P ctx (op # req) =
     bind_res (case op of
         RequestRange r \<Rightarrow> bind_res (lookup P (RBatch (uc_batch ctx)) r) (\<lambda>response. Inr (ctx, [ResponseRange response]))
       | RequestPut p \<Rightarrow> bind_res (handlePut P ctx p) (\<lambda>(ctx, response). Inr (ctx, [ResponsePut response]))
       | RequestDeleteRange d \<Rightarrow>
           bind_res (handleDelete P ctx d) (\<lambda>(ctx, response). Inr (ctx, [ResponseDeleteRange response]))
       | RequestUnset \<Rightarrow> Inr (ctx, [])) (\<lambda>(ctx, r).
     bind_res (handleTxnOps P ctx req) (\<lambda>(ctx, results). Inr (ctx, r @ results)))"

definition handleTxn :: "('db, 'b) pebble \<Rightarrow> ('db, 'b) updateContext \<Rightarrow> Txn \<Rightarrow>
    (('db, 'b) updateContext \<times> bool \<times> ResponseOp list) res" where
  "handleTxn P ctx txn =
     bind_res (EnsureIndexed P ctx) (\<lambda>ctx.
     bind_res (txnCompare P (RBatch (uc_batch ctx)) (tx_Compare txn)) (\<lambda>ok.
     bind_res (handleTxnOps P ctx (if ok then tx_Success txn else tx_Failure txn)) (\<lambda>(ctx, res).
       Inr (ctx, ok, res))))"

definition nil_deref :: go_error where
  "nil_deref = GoPanic ''nil pointer dereference''"

text \<open>
  \<open>wrapCommand\<close> and the \<open>handle\<close> methods. The children of a sequence use their own source index, or
  that of the sequence when they have none; the context leaves a sequence with the outer index.
\<close>

function (sequential) handle :: "('db, 'b) pebble \<Rightarrow> ('db, 'b) updateContext \<Rightarrow> Command \<Rightarrow>
    (('db, 'b) updateContext \<times> UpdateResult \<times> CommandResult) res"
and handle_sequence :: "('db, 'b) pebble \<Rightarrow> u64 option \<Rightarrow> ('db, 'b) updateContext \<Rightarrow> Command list \<Rightarrow>
    (('db, 'b) updateContext \<times> ResponseOp list) res" where
  "handle P ctx (Command table typ kv leaderIndex batch txn rangeEnd prevKvs sequence' cnt) =
     (case typ of
        PUT \<Rightarrow>
          (case kv of
             None \<Rightarrow> Inl nil_deref
           | Some kv \<Rightarrow>
               bind_res (handlePut P ctx \<lparr>pr_Key = kv_Key kv, pr_Value = kv_Value kv, pr_PrevKv = prevKvs\<rparr>) (\<lambda>(ctx, resp).
                 Inr (ctx, ResultSuccess, \<lparr>cr_Revision = uc_seqno ctx, cr_Responses = [ResponsePut resp]\<rparr>)))
      | DELETE \<Rightarrow>
          (case kv of
             None \<Rightarrow> Inl nil_deref
           | Some kv \<Rightarrow>
               bind_res (handleDelete P ctx
                   \<lparr>dr_Key = kv_Key kv, dr_RangeEnd = rangeEnd, dr_PrevKv = prevKvs, dr_Count = cnt\<rparr>) (\<lambda>(ctx, resp).
                 Inr (ctx, ResultSuccess, \<lparr>cr_Revision = uc_seqno ctx, cr_Responses = [ResponseDeleteRange resp]\<rparr>)))
      | PUT_BATCH \<Rightarrow>
          bind_res (handlePutBatch P ctx
              (map (\<lambda>kv. \<lparr>pr_Key = kv_Key kv, pr_Value = kv_Value kv, pr_PrevKv = False\<rparr>) batch)) (\<lambda>(ctx, rop).
            Inr (ctx, ResultSuccess, \<lparr>cr_Revision = uc_seqno ctx, cr_Responses = map ResponsePut rop\<rparr>))
      | DELETE_BATCH \<Rightarrow>
          bind_res (handleDeleteBatch P ctx
              (map (\<lambda>kv. \<lparr>dr_Key = kv_Key kv, dr_RangeEnd = None, dr_PrevKv = False, dr_Count = False\<rparr>) batch)) (\<lambda>(ctx, rop).
            Inr (ctx, ResultSuccess, \<lparr>cr_Revision = uc_seqno ctx, cr_Responses = map ResponseDeleteRange rop\<rparr>))
      | TXN \<Rightarrow>
          (case txn of
             None \<Rightarrow> Inl nil_deref
           | Some txn \<Rightarrow>
               bind_res (handleTxn P ctx txn) (\<lambda>(ctx, succ, rop).
                 Inr (ctx, if succ then ResultSuccess else ResultFailure,
                      \<lparr>cr_Revision = uc_seqno ctx, cr_Responses = rop\<rparr>)))
      | SEQUENCE \<Rightarrow>
          bind_res (handle_sequence P (uc_leaderIndex ctx) ctx sequence') (\<lambda>(ctx', responses).
            Inr (ctx'\<lparr>uc_leaderIndex := uc_leaderIndex ctx\<rparr>, ResultSuccess,
                 \<lparr>cr_Revision = uc_seqno ctx, cr_Responses = responses\<rparr>))
      | DUMMY \<Rightarrow> Inr (ctx, ResultSuccess, \<lparr>cr_Revision = uc_seqno ctx, cr_Responses = []\<rparr>)
      | GC \<Rightarrow>
          bind_res (batch_set P ctx sysGCHorizon (le_PutUint64 (uc_seqno ctx))) (\<lambda>ctx.
            Inr (ctx, ResultGC, \<lparr>cr_Revision = uc_seqno ctx, cr_Responses = []\<rparr>))
      | CommandType_other \<Rightarrow> Inl (GoPanic ''unknown command type''))"
| "handle_sequence P sequenceLeaderIndex ctx [] = Inr (ctx, [])"
| "handle_sequence P sequenceLeaderIndex ctx (cmd # cmds) =
     bind_res (handle P (ctx\<lparr>uc_leaderIndex :=
         (case cm_LeaderIndex cmd of Some l \<Rightarrow> Some l | None \<Rightarrow> sequenceLeaderIndex)\<rparr>) cmd) (\<lambda>(ctx, _, cmdRes).
     bind_res (handle_sequence P sequenceLeaderIndex ctx cmds) (\<lambda>(ctx, responses).
       Inr (ctx, cr_Responses cmdRes @ responses)))"
  by pat_completeness auto
termination
  by (relation "measure (\<lambda>x. case x of Inl (P, ctx, c) \<Rightarrow> size c | Inr (P, l, ctx, cs) \<Rightarrow> size_list size cs)") auto

definition ctx_Commit :: "('db, 'b) pebble \<Rightarrow> ('db, 'b) updateContext \<Rightarrow> 'db res" where
  "ctx_Commit P c =
     bind_res (case uc_leaderIndex c of
         Some l \<Rightarrow> batch_set P c sysLeaderIndex (le_PutUint64 l) | None \<Rightarrow> Inr c) (\<lambda>c.
     bind_res (batch_set P c sysLocalIndex (le_PutUint64 (uc_index c))) (\<lambda>c.
       pb_Commit P (uc_batch c) (uc_db c)))"

end
