(* ===== verification/TableFsm.thy ===== *)
theory TableFsm
  imports Mvcc
begin

text \<open>
  The table state machine around its commands: applying a batch of log entries (\<open>FSM.Update\<close>),
  read-only requests (\<open>FSM.Lookup\<close>), full and incremental snapshots as streams of commands, and the
  sweep that removes old versions (\<open>runGC\<close>). Decoding a command from the bytes of a log entry is
  generated code and the parameter \<open>unmarshal\<close>; the callback for the applied index is recorded in
  \<open>fs_notified\<close>. A snapshot is the list of commands written to the stream; \<open>stop j\<close> says whether the
  stop channel is closed before step \<open>j\<close>.
\<close>

section \<open>Applying entries\<close>

record 'db FSM =
  fs_pebble :: 'db
  fs_gcHorizon :: u64
  fs_gcSignal :: bool
  fs_applied :: u64
  fs_notified :: "u64 list"

record smEntry =
  sme_Index :: u64
  sme_Cmd :: bytes

definition parseCommand :: "(bytes \<Rightarrow> Command res) \<Rightarrow> ('db, 'b) updateContext \<Rightarrow> smEntry \<Rightarrow>
    (('db, 'b) updateContext \<times> Command) res" where
  "parseCommand unmarshal c entry =
     bind_res (unmarshal (sme_Cmd entry)) (\<lambda>cmd.
       Inr (c\<lparr>uc_index := sme_Index entry, uc_leaderIndex := cm_LeaderIndex cmd\<rparr>, cmd))"

fun update_loop :: "('db, 'b) pebble \<Rightarrow> (bytes \<Rightarrow> Command res) \<Rightarrow> ('db, 'b) updateContext \<Rightarrow> u64 \<Rightarrow>
    smEntry list \<Rightarrow> (('db, 'b) updateContext \<times> u64 \<times> (UpdateResult \<times> CommandResult) list) res" where
  "update_loop P unmarshal ctx gcHorizonApplied [] = Inr (ctx, gcHorizonApplied, [])"
| "update_loop P unmarshal ctx gcHorizonApplied (entry # updates) =
     bind_res (parseCommand unmarshal ctx entry) (\<lambda>(ctx, cmd).
     bind_res (handle P ctx cmd) (\<lambda>(ctx, updateResult, res).
     bind_res (update_loop P unmarshal ctx
                 (if updateResult = ResultGC then cr_Revision res else gcHorizonApplied) updates)
       (\<lambda>(ctx, gcHorizonApplied, results). Inr (ctx, gcHorizonApplied, (updateResult, res) # results))))"

definition fsm_Update :: "('db, 'b) pebble \<Rightarrow> (bytes \<Rightarrow> Command res) \<Rightarrow> 'db FSM \<Rightarrow> smEntry list \<Rightarrow>
    ('db FSM \<times> (UpdateResult \<times> CommandResult) list) res" where
  "fsm_Update P unmarshal p updates =
     (let db = fs_pebble p;
          ctx = \<lparr>uc_batch = pb_NewBatch P db, uc_db = db, uc_index = 0, uc_leaderIndex = None\<rparr>
      in bind_res (update_loop P unmarshal ctx 0 updates) (\<lambda>(ctx, gcHorizonApplied, results).
         bind_res (ctx_Commit P ctx) (\<lambda>db.
           let idx = (if updates = [] then 0 else sme_Index (last updates));
               p = p\<lparr>fs_pebble := db\<rparr>;
               p = (if gcHorizonApplied > 0
                    then p\<lparr>fs_gcHorizon := gcHorizonApplied, fs_gcSignal := True\<rparr> else p);
               p = p\<lparr>fs_applied := idx\<rparr>
           in Inr (p\<lparr>fs_notified := fs_notified p @
                      [case uc_leaderIndex ctx of Some l \<Rightarrow> l | None \<Rightarrow> idx]\<rparr>, results))))"

text \<open>The part of \<open>FSM.Open\<close> after the database is open: the indexes it restores and reports.\<close>

definition fsm_Open :: "('db, 'b) pebble \<Rightarrow> 'db \<Rightarrow> ('db FSM \<times> u64) res" where
  "fsm_Open P db =
     bind_res (readLocalIndex P (RDB db) sysLocalIndex) (\<lambda>idx.
       let lx = (case readLocalIndex P (RDB db) sysLeaderIndex of Inr x \<Rightarrow> x | Inl _ \<Rightarrow> 0);
           gcH = (case readLocalIndex P (RDB db) sysGCHorizon of Inr x \<Rightarrow> x | Inl _ \<Rightarrow> 0)
       in Inr (\<lparr>fs_pebble = db, fs_gcHorizon = gcH, fs_gcSignal = False, fs_applied = idx,
                fs_notified = idx # (if lx \<noteq> 0 then [lx] else [])\<rparr>, idx))"

definition notifyRecovered :: "('db, 'b) pebble \<Rightarrow> 'db FSM \<Rightarrow> 'db FSM" where
  "notifyRecovered P p =
     p\<lparr>fs_gcHorizon := (case readLocalIndex P (RDB (fs_pebble p)) sysGCHorizon of Inr x \<Rightarrow> x | Inl _ \<Rightarrow> 0),
       fs_gcSignal := True\<rparr>"

section \<open>Snapshots\<close>

definition writeCommand :: "bytes \<Rightarrow> bytes \<Rightarrow> bytes \<Rightarrow> u64 \<Rightarrow> Command" where
  "writeCommand tableName key val leaderIndex =
     Command tableName PUT (Some \<lparr>kv_Key = key, kv_Value = val\<rparr>) (Some leaderIndex) [] None None False [] False"

definition writeDeleteCommand :: "bytes \<Rightarrow> bytes \<Rightarrow> u64 \<Rightarrow> Command" where
  "writeDeleteCommand tableName userKey leaderIndex =
     Command tableName DELETE (Some \<lparr>kv_Key = userKey, kv_Value = []\<rparr>) (Some leaderIndex) [] None None False [] False"

definition ErrSnapshotStopped :: go_error where
  "ErrSnapshotStopped = ErrOther ''snapshot stopped''"

function snapshot_loop :: "bytes \<Rightarrow> (nat \<Rightarrow> bool) \<Rightarrow> nat \<Rightarrow> kvs \<Rightarrow> Command list res" where
  "snapshot_loop tableName stop j [] = Inr []"
| "snapshot_loop tableName stop j ((pk, v) # xs) =
     (if stop j then Inl ErrSnapshotStopped
      else bind_res (DecodeBytes pk) (\<lambda>k.
        if k_KeyType k = TypeUser then
          bind_res (snapshot_loop tableName stop (Suc j) (iterNextUserKey ((pk, v) # xs) pk)) (\<lambda>w.
            Inr (if isTombstone v then w else writeCommand tableName (k_Key k) v (k_Seqno k) # w))
        else snapshot_loop tableName stop (Suc j) xs))"
  by pat_completeness auto
termination
  by (relation "measure (\<lambda>(t, st, j, xs). length xs)") (auto simp: iterNextUserKey_shorter)

definition commandSnapshot :: "('db, 'b) pebble \<Rightarrow> ('db, 'b) reader \<Rightarrow> bytes \<Rightarrow> (nat \<Rightarrow> bool) \<Rightarrow>
    (u64 \<times> Command list) res" where
  "commandSnapshot P reader tableName stop =
     bind_res (pb_NewIter P reader no_options) (\<lambda>iter.
     bind_res (readLocalIndex P reader sysLocalIndex) (\<lambda>idx.
     bind_res (snapshot_loop tableName stop 0 iter) (\<lambda>w. Inr (idx, w))))"

record SnapshotResponse =
  sr_Index :: u64
  sr_TipIndex :: u64
  sr_BaseIndex :: u64
  sr_GCHorizon :: u64

function incremental_loop :: "bytes \<Rightarrow> (nat \<Rightarrow> bool) \<Rightarrow> u64 \<Rightarrow> nat \<Rightarrow> kvs \<Rightarrow> Command list res" where
  "incremental_loop tableName stop baseIndex j [] = Inr []"
| "incremental_loop tableName stop baseIndex j ((pk, v) # xs) =
     (if stop j then Inl ErrSnapshotStopped
      else bind_res (DecodeBytes pk) (\<lambda>k.
        if k_KeyType k \<noteq> TypeUser then incremental_loop tableName stop baseIndex (Suc j) xs
        else
          let seqno = DecodeV2Seqno pk;
              out = (if seqno > baseIndex then
                       [if isTombstone v then writeDeleteCommand tableName (k_Key k) seqno
                        else writeCommand tableName (k_Key k) v seqno]
                     else [])
          in bind_res (incremental_loop tableName stop baseIndex (Suc j) (iterNextUserKey ((pk, v) # xs) pk))
               (\<lambda>w. Inr (out @ w))))"
  by pat_completeness auto
termination
  by (relation "measure (\<lambda>(t, st, b, j, xs). length xs)") (auto simp: iterNextUserKey_shorter)

definition commandIncrementalSnapshot :: "('db, 'b) pebble \<Rightarrow> ('db, 'b) reader \<Rightarrow> bytes \<Rightarrow> u64 \<Rightarrow> (nat \<Rightarrow> bool) \<Rightarrow>
    (SnapshotResponse \<times> Command list) res" where
  "commandIncrementalSnapshot P reader tableName requestedBase stop =
     bind_res (readLocalIndex P reader sysLocalIndex) (\<lambda>idx.
     bind_res (readLocalIndex P reader sysGCHorizon) (\<lambda>gcHorizon.
       let baseIndex = (if gcHorizon > 0 \<and> requestedBase \<le> gcHorizon then gcHorizon + 1 else requestedBase)
       in bind_res (pb_NewIter P reader no_options) (\<lambda>iter.
          bind_res (incremental_loop tableName stop baseIndex 0 iter) (\<lambda>w.
            Inr (\<lparr>sr_Index = idx, sr_TipIndex = idx, sr_BaseIndex = baseIndex, sr_GCHorizon = gcHorizon\<rparr>, w)))))"

section \<open>Read-only requests\<close>

datatype lookupRequest =
    LookupTxn Txn
  | LookupRange RangeReq
  | LookupIterator RangeReq
  | LookupSnapshot "nat \<Rightarrow> bool"
  | LookupIncrementalSnapshot u64 "nat \<Rightarrow> bool"
  | LookupLocalIndex
  | LookupLeaderIndex
  | LookupGCHorizon
  | LookupUnknown

datatype lookupResponse =
    TxnResponse bool "RangeResp list"
  | RangeResponse RangeResp
  | IteratorResponse "RangeResp list \<times> go_error option"
  | SnapshotResponse SnapshotResponse "Command list"
  | IndexResponse u64

fun lookups :: "('db, 'b) pebble \<Rightarrow> ('db, 'b) reader \<Rightarrow> RangeReq option list \<Rightarrow> RangeResp list res" where
  "lookups P r [] = Inr []"
| "lookups P r (None # ops) = Inl nil_deref"
| "lookups P r (Some op # ops) =
     bind_res (lookup P r op) (\<lambda>rr. bind_res (lookups P r ops) (\<lambda>rs. Inr (rr # rs)))"

definition GetRequestRange :: "RequestOp \<Rightarrow> RangeReq option" where
  "GetRequestRange op = (case op of RequestRange r \<Rightarrow> Some r | _ \<Rightarrow> None)"

definition iteratorLookup :: "('db, 'b) pebble \<Rightarrow> ('db, 'b) reader \<Rightarrow> RangeReq \<Rightarrow>
    (RangeResp list \<times> go_error option) res" where
  "iteratorLookup P reader req =
     (if rr_RangeEnd req \<noteq> None then iterate P reader req
      else bind_res (singleLookup P reader req) (\<lambda>single. Inr ([single], None)))"

definition fsm_Lookup :: "('db, 'b) pebble \<Rightarrow> bytes \<Rightarrow> 'db FSM \<Rightarrow> lookupRequest \<Rightarrow> lookupResponse res" where
  "fsm_Lookup P tableName p l =
     (let db = RDB (fs_pebble p)
      in case l of
           LookupTxn req \<Rightarrow>
             bind_res (txnCompare P db (tx_Compare req)) (\<lambda>ok.
             bind_res (lookups P db (map GetRequestRange (if ok then tx_Success req else tx_Failure req))) (\<lambda>rs.
               Inr (TxnResponse ok rs)))
         | LookupRange req \<Rightarrow> bind_res (lookup P db req) (\<lambda>r. Inr (RangeResponse r))
         | LookupIterator req \<Rightarrow> bind_res (iteratorLookup P db req) (\<lambda>it. Inr (IteratorResponse it))
         | LookupSnapshot stop \<Rightarrow>
             bind_res (commandSnapshot P db tableName stop) (\<lambda>(idx, w).
               Inr (SnapshotResponse \<lparr>sr_Index = idx, sr_TipIndex = idx, sr_BaseIndex = 0, sr_GCHorizon = 0\<rparr> w))
         | LookupIncrementalSnapshot since stop \<Rightarrow>
             bind_res (commandIncrementalSnapshot P db tableName since stop) (\<lambda>(r, w). Inr (SnapshotResponse r w))
         | LookupLocalIndex \<Rightarrow> bind_res (readLocalIndex P db sysLocalIndex) (\<lambda>idx. Inr (IndexResponse idx))
         | LookupLeaderIndex \<Rightarrow> bind_res (readLocalIndex P db sysLeaderIndex) (\<lambda>idx. Inr (IndexResponse idx))
         | LookupGCHorizon \<Rightarrow> Inr (IndexResponse (fs_gcHorizon p))
         | LookupUnknown \<Rightarrow> Inl (ErrOther ''unknown query type''))"

section \<open>Garbage collection\<close>

definition maxBatchSize :: nat where
  "maxBatchSize = 16 * 1024 * 1024"

definition gcPrefixUpper :: "bytes \<Rightarrow> bytes" where
  "gcPrefixUpper prefix = prefix[length prefix - 1 := 1]"

definition incrementStoredSeqno :: "bytes \<Rightarrow> bytes" where
  "incrementStoredSeqno physKey =
     (let seqStart = length physKey - V2SeqLen;
          stored = Uint64 (drop seqStart physKey)
      in take seqStart physKey @ PutUint64 (stored + 1))"

text \<open>
  The sweep over the pairs of the iterator. It returns the database with the batches committed so far
  and the error that stopped it, if any; \<open>lastPrefix\<close> and \<open>hasLiveAbove\<close> are the captured variables.
  A stored key shorter than its sequence number makes the slice expression panic.
\<close>

definition commitBatch :: "('db, 'b) pebble \<Rightarrow> 'db \<Rightarrow> 'b \<Rightarrow> ('db \<times> 'b) res" where
  "commitBatch P db batch =
     (if pb_Count P batch = 0 then Inr (db, batch)
      else bind_res (pb_Commit P batch db) (\<lambda>db. Inr (db, pb_NewBatch P db)))"

lemma length_SeekGE: "length (it_SeekGE xs k) \<le> length xs"
  by (simp add: it_SeekGE_def length_dropWhile_le)

function gc_loop :: "('db, 'b) pebble \<Rightarrow> u64 \<Rightarrow> kvs \<Rightarrow> bytes \<Rightarrow> bool \<Rightarrow> 'db \<Rightarrow> 'b \<Rightarrow> 'db \<times> go_error option" where
  "gc_loop P gcIndex [] lastPrefix hasLiveAbove db batch =
     (case commitBatch P db batch of Inl e \<Rightarrow> (db, Some e) | Inr (db, _) \<Rightarrow> (db, None))"
| "gc_loop P gcIndex ((physKey, v) # xs) lastPrefix hasLiveAbove db batch =
     (case DecodeBytes physKey of
        Inl e \<Rightarrow> (db, Some e)
      | Inr k \<Rightarrow>
          if k_KeyType k \<noteq> TypeUser then gc_loop P gcIndex xs lastPrefix hasLiveAbove db batch
          else if length physKey < V2SeqLen then (db, Some (GoPanic ''slice bounds out of range''))
          else
            let prefix = take (length physKey - V2SeqLen) physKey;
                hasLiveAbove = (if lastPrefix \<noteq> prefix then False else hasLiveAbove)
            in if k_Seqno k \<ge> gcIndex then gc_loop P gcIndex xs prefix True db batch
               else
                 let prefixUpper = gcPrefixUpper prefix;
                     rangeLo = (if hasLiveAbove \<or> isTombstone v then physKey else incrementStoredSeqno physKey)
                 in case pb_DeleteRange P batch rangeLo prefixUpper of
                      Inl e \<Rightarrow> (db, Some e)
                    | Inr batch \<Rightarrow>
                        (case (if pb_Len P batch \<ge> maxBatchSize then commitBatch P db batch else Inr (db, batch)) of
                           Inl e \<Rightarrow> (db, Some e)
                         | Inr (db, batch) \<Rightarrow>
                             gc_loop P gcIndex (it_SeekGE xs prefixUpper) prefix hasLiveAbove db batch))"
  by pat_completeness auto
termination
  by (relation "measure (\<lambda>(P, g, xs, l, h, db, b). length xs)") (auto simp: length_SeekGE le_imp_less_Suc)

definition runGC :: "('db, 'b) pebble \<Rightarrow> 'db \<Rightarrow> u64 \<Rightarrow> 'db \<times> go_error option" where
  "runGC P db gcIndex =
     (if gcIndex = 0 then (db, None)
      else
        case pb_NewIter P (RDB db)
               \<lparr>io_LowerBound = Some minEncodedUserKey,
                io_UpperBound = Some (incrementRightmostByte maxEncodedUserKey),
                io_SeqnoFilter = Some gcIndex\<rparr> of
          Inl e \<Rightarrow> (db, Some e)
        | Inr iter \<Rightarrow> gc_loop P gcIndex iter [] False db (pb_NewBatch P db))"

definition runGCSweep :: "('db, 'b) pebble \<Rightarrow> 'db FSM \<Rightarrow> 'db FSM" where
  "runGCSweep P p =
     (if fs_gcHorizon p = 0 then p
      else p\<lparr>fs_pebble := fst (runGC P (fs_pebble p) (fs_gcHorizon p)), fs_gcSignal := False\<rparr>)"

end
