(* ===== verification/MvccSpec.thy ===== *)
theory MvccSpec
  imports TableFsm
begin

text \<open>
  The abstract table behind the versioned store: \<open>visible m\<close> maps a user key to the value of its
  newest version, unless that is a deletion mark. Lookups read the visible table, writes update it, and
  iterating over user keys visits the newest version of every key once, in key order.
\<close>

section \<open>Versions and visible values\<close>

type_synonym store = "bytes \<Rightarrow> bytes option"

abbreviation ukey :: "bytes \<Rightarrow> u64 \<Rightarrow> bytes" where
  "ukey \<equiv> physical_key TypeUser"

definition user_key :: "bytes \<Rightarrow> bool" where
  "user_key k \<longleftrightarrow> k \<noteq> [] \<and> 0 \<notin> set k \<and> length k \<le> V2MaxUserKeyLen"

definition store_ok :: "store \<Rightarrow> bool" where
  "store_ok m \<longleftrightarrow> (\<forall>p v. m p = Some v \<longrightarrow>
     (\<exists>k s. p = ukey k s \<and> user_key k) \<or> (\<exists>k s. p = physical_key TypeSystem k s \<and> k \<noteq> [] \<and> 0 \<notin> set k))"

definition is_newest :: "store \<Rightarrow> bytes \<Rightarrow> u64 \<Rightarrow> bytes \<Rightarrow> bool" where
  "is_newest m k s v \<longleftrightarrow> m (ukey k s) = Some v \<and> (\<forall>s'. s < s' \<longrightarrow> m (ukey k s') = None)"

definition visible :: "store \<Rightarrow> bytes \<Rightarrow> bytes option" where
  "visible m k =
     (let ss = {s. m (ukey k s) \<noteq> None}
      in if ss = {} then None
         else let v = the (m (ukey k (Max ss))) in if isTombstone v then None else Some v)"

lemma visible_newest:
  assumes "is_newest m k s v"
  shows "visible m k = (if isTombstone v then None else Some v)"
proof -
  let ?ss = "{s. m (ukey k s) \<noteq> None}"
  have "Max ?ss = s" using assms by (intro Max_eqI) (auto simp: is_newest_def not_less [symmetric])
  moreover have "s \<in> ?ss" using assms by (simp add: is_newest_def)
  ultimately show ?thesis using assms by (auto simp: visible_def Let_def is_newest_def)
qed

lemma visible_no_version: "(\<And>s. m (ukey k s) = None) \<Longrightarrow> visible m k = None"
  by (simp add: visible_def)

lemma newest_cases:
  obtains (none) "\<And>s. m (ukey k s) = None" | (newest) s v where "is_newest m k s v"
proof (cases "{s. m (ukey k s) \<noteq> None} = {}")
  case True
  then show ?thesis by (intro none) auto
next
  case False
  define s where "s = Max {s. m (ukey k s) \<noteq> None}"
  have "s \<in> {s. m (ukey k s) \<noteq> None}" unfolding s_def by (rule Max_in [OF finite False])
  then obtain v where v: "m (ukey k s) = Some v" by auto
  have "m (ukey k s') = None" if "s < s'" for s'
  proof (rule ccontr)
    assume "m (ukey k s') \<noteq> None"
    then have "s' \<le> s" unfolding s_def by (intro Max_ge) simp_all
    with that show False by simp
  qed
  with v have "is_newest m k s v" unfolding is_newest_def by blast
  then show ?thesis by (rule newest)
qed

lemma is_newest_unique:
  assumes "is_newest m k s v" "is_newest m k s' v'"
  shows "s = s'" "v = v'"
proof -
  have "\<not> s < s'" "\<not> s' < s" using assms unfolding is_newest_def by auto
  then show "s = s'" by simp
  with assms show "v = v'" unfolding is_newest_def by simp
qed

lemma newest_ge: "is_newest m k s v \<Longrightarrow> m (ukey k s') \<noteq> None \<Longrightarrow> s' \<le> s"
  by (cases "s < s'") (auto simp: is_newest_def)

lemma visible_Some: "visible m k = Some v \<longleftrightarrow> (\<exists>s. is_newest m k s v) \<and> \<not> isTombstone v"
proof (cases rule: newest_cases [of m k])
  case none
  then show ?thesis by (simp add: visible_no_version is_newest_def)
next
  case (newest s v')
  then show ?thesis unfolding visible_newest [OF newest] by (auto dest: is_newest_unique(2) [OF newest])
qed

lemma visible_cong: "(\<And>s. m' (ukey k s) = m (ukey k s)) \<Longrightarrow> visible m' k = visible m k"
  by (simp add: visible_def)

lemma visible_write:
  assumes "user_key k" "\<And>s'. m (ukey k s') \<noteq> None \<Longrightarrow> s' \<le> s"
    and k': "0 \<notin> set k'"
  shows "visible (m(ukey k s \<mapsto> v)) k' = ((visible m)(k := if isTombstone v then None else Some v)) k'"
proof (cases "k' = k")
  case True
  have "m (ukey k s') = None" if "s < s'" for s'
    using assms(2) [of s'] that by (cases "m (ukey k s')") auto
  then have "is_newest (m(ukey k s \<mapsto> v)) k s v"
    using assms(1) by (auto simp: is_newest_def physical_key_inj user_key_def)
  then show ?thesis by (simp add: True visible_newest)
next
  case False
  then show ?thesis
    using assms(1) k' by (auto simp: physical_key_inj user_key_def intro: visible_cong)
qed

section \<open>Seeking in sorted pairs\<close>

lemma SeekGE_sorted:
  assumes "sorted_wrt (<) (map fst xs)"
  shows "it_SeekGE xs a = filter (\<lambda>(k, _). a \<le> k) xs"
  using assms
proof (induction xs)
  case (Cons x xs)
  obtain k v where x: "x = (k, v)" by fastforce
  show ?case
  proof (cases "k < a")
    case True
    with Cons x show ?thesis by (simp add: it_SeekGE_def)
  next
    case False
    then have "a \<le> k'" if "(k', v') \<in> set xs" for k' v'
      using Cons.prems x that by (force simp: not_less)
    then have "filter (\<lambda>(k, _). a \<le> k) xs = xs" by (auto intro: filter_True)
    with False x show ?thesis by (simp add: it_SeekGE_def not_less)
  qed
qed (simp add: it_SeekGE_def)

lemma SeekGE_hd:
  assumes "sorted_wrt (<) (map fst xs)" "(k, v) \<in> set xs" "a \<le> k"
    and least: "\<And>k' v'. (k', v') \<in> set xs \<Longrightarrow> a \<le> k' \<Longrightarrow> k \<le> k'"
  shows "\<exists>rest. it_SeekGE xs a = (k, v) # rest"
proof -
  let ?ys = "filter (\<lambda>(k, _). a \<le> k) xs"
  have mem: "(k, v) \<in> set ?ys" using assms(2,3) by auto
  have srt: "sorted_wrt (<) (map fst ?ys)" using assms(1) by (simp add: sorted_wrt_map sorted_wrt_filter)
  obtain k0 v0 rest where ys: "?ys = (k0, v0) # rest" using mem by (cases ?ys) auto
  then have "(k0, v0) \<in> set ?ys" by simp
  then have "k \<le> k0" by (auto intro: least)
  with srt mem ys have "(k, v) = (k0, v0)" by (auto dest: order.strict_trans2)
  with ys show ?thesis by (simp add: SeekGE_sorted [OF assms(1)])
qed

lemma stored_seqno_le: "stored_seqno a \<le> stored_seqno b \<longleftrightarrow> b \<le> a"
  by (auto simp: order.order_iff_strict stored_seqno_less)

lemma ukey_le:
  assumes "0 \<notin> set k" "0 \<notin> set k'"
  shows "physical_key t k s \<le> physical_key t k' s' \<longleftrightarrow> k < k' \<or> k = k' \<and> s' \<le> s"
  using physical_key_less [OF assms, of t s s'] physical_key_inj [OF assms, of t s t s']
  by (auto simp: order.order_iff_strict)

lemma type_less: "physical_key TypeUser k s < physical_key TypeSystem k' s'"
  by (simp add: physical_key_eq key_consts)

lemma split_physical: "k \<noteq> [] \<Longrightarrow> take (split (physical_key t k s)) (physical_key t k s) = [2, 0, 0, 0, t] @ k @ [0]"
proof -
  assume "k \<noteq> []"
  let ?a = "[2, 0, 0, 0, t] @ k @ [0]"
  have p: "physical_key t k s = ?a @ stored_seqno s" by (simp add: physical_key_eq)
  have "length (physical_key t k s) > V2SeqLen + V2SepLen + 5 \<and> physical_key t k s ! 0 = V2"
    using \<open>k \<noteq> []\<close> by (cases k) (simp_all add: physical_key_eq key_consts)
  then have "split (physical_key t k s) = length ?a" unfolding split_def p by (simp add: key_consts)
  then show ?thesis unfolding p by simp
qed

text \<open>Seeking the newest version of a key.\<close>

lemma iter_okD:
  assumes "iter_ok m o' xs" "io_SeqnoFilter o' = None"
  shows "sorted_wrt (<) (map fst xs)" "(p, v) \<in> set xs \<longleftrightarrow> m p = Some v \<and> in_bounds o' p"
  using assms unfolding iter_ok_def by (simp, metis option.case(1))

lemma in_bounds_no_options [simp]: "in_bounds no_options p" "io_SeqnoFilter no_options = None"
  by (simp_all add: in_bounds_def no_options_def)

lemma SeekPrefix_newest:
  assumes "store_ok m" "iter_ok m no_options xs" "user_key k"
  shows "(case it_SeekPrefixGE xs (ukey k (- 1)) of
      [] \<Rightarrow> (\<forall>s. m (ukey k s) = None)
    | (_, v) # _ \<Rightarrow> \<exists>s. is_newest m k s v)"
proof -
  have k: "0 \<notin> set k" "k \<noteq> []" using assms(3) by (auto simp: user_key_def)
  have srt: "sorted_wrt (<) (map fst xs)" and mem: "\<And>p v. (p, v) \<in> set xs \<longleftrightarrow> m p = Some v"
    using iter_okD [OF assms(2)] by simp_all
  have key: "(\<exists>k' s'. p = ukey k' s' \<and> user_key k') \<or> (\<exists>k' s'. p = physical_key TypeSystem k' s' \<and> k' \<noteq> [] \<and> 0 \<notin> set k')"
    if "(p, v) \<in> set xs" for p v
    using that assms(1) unfolding mem store_ok_def by blast
  show ?thesis
  proof (cases rule: newest_cases [of m k])
    case (newest s v)
    have "\<exists>rest. it_SeekGE xs (ukey k (- 1)) = (ukey k s, v) # rest"
    proof (rule SeekGE_hd [OF srt])
      show "(ukey k s, v) \<in> set xs" using newest by (simp add: mem is_newest_def)
      show "ukey k (- 1) \<le> ukey k s" using k by (simp add: ukey_le)
      fix p v' assume p: "(p, v') \<in> set xs" "ukey k (- 1) \<le> p"
      show "ukey k s \<le> p"
      proof (cases "\<exists>k' s'. p = ukey k' s' \<and> user_key k'")
        case True
        then obtain k' s' where q: "p = ukey k' s'" "user_key k'" by blast
        have "s' \<le> s" if "k' = k" using newest_ge [OF newest, of s'] p(1) that unfolding mem q by simp
        with p(2) q k show ?thesis by (auto simp: ukey_le user_key_def)
      next
        case False
        with key [OF p(1)] show ?thesis using type_less by (auto intro: less_imp_le)
      qed
    qed
    then show ?thesis using newest split_physical [OF k(2)] by (auto simp: it_SeekPrefixGE_def)
  next
    case none
    have "it_SeekPrefixGE xs (ukey k (- 1)) = []"
    proof (cases "it_SeekGE xs (ukey k (- 1))")
      case (Cons a ys)
      obtain p v where a: "a = (p, v)" by fastforce
      then have "(p, v) \<in> set (it_SeekGE xs (ukey k (- 1)))" using Cons by simp
      then have p: "(p, v) \<in> set xs" unfolding it_SeekGE_def by (rule set_dropWhileD)
      have "take (split p) p \<noteq> [2, 0, 0, 0, TypeUser] @ k @ [0]"
        using key [OF p] none p split_physical unfolding mem by (auto simp: user_key_def key_consts)
      then show ?thesis using Cons a split_physical [OF k(2)] by (simp add: it_SeekPrefixGE_def)
    qed (simp add: it_SeekPrefixGE_def)
    with none show ?thesis by simp
  qed
qed

lemma encodeUserKey_eq [simp]: "encodeUserKey k s = Inr (ukey k s)"
  by (simp add: encodeUserKey_def physical_key_def key_Encode_def key_consts Let_def)

lemma pebble_iter:
  assumes "pebble_ok P C base" "readable P r"
  obtains xs where "pb_NewIter P r o' = Inr xs" "iter_ok (C r) o' xs"
  using assms unfolding pebble_ok_def by blast

definition single_resp :: "RangeReq \<Rightarrow> bytes option \<Rightarrow> RangeResp" where
  "single_resp req v =
     (case v of
        None \<Rightarrow> zero_RangeResp
      | Some val \<Rightarrow> \<lparr>rs_Kvs = (if rr_CountOnly req then []
                              else [\<lparr>kv_Key = rr_Key req, kv_Value = (if rr_KeysOnly req then [] else val)\<rparr>]),
                    rs_More = False, rs_Count = 1\<rparr>)"

lemma singleLookup_visible:
  assumes "pebble_ok P C base" "readable P r" "store_ok (C r)" "user_key (rr_Key req)"
  shows "singleLookup P r req = Inr (single_resp req (visible (C r) (rr_Key req)))"
proof -
  obtain xs where xs: "pb_NewIter P r no_options = Inr xs" "iter_ok (C r) no_options xs"
    using pebble_iter [OF assms(1,2)] .
  note s = SeekPrefix_newest [OF assms(3) xs(2) assms(4)]
  show ?thesis
  proof (cases "it_SeekPrefixGE xs (ukey (rr_Key req) (- 1))")
    case Nil
    with s have "visible (C r) (rr_Key req) = None" by (intro visible_no_version) simp
    with Nil show ?thesis by (simp add: singleLookup_def xs(1) single_resp_def)
  next
    case (Cons a ys)
    obtain p v where a: "a = (p, v)" by fastforce
    with s Cons obtain s' where "is_newest (C r) (rr_Key req) s' v" by auto
    note v = visible_newest [OF this]
    show ?thesis using Cons a by (simp add: singleLookup_def xs(1) single_resp_def v Let_def)
  qed
qed


section \<open>Visiting user keys\<close>

text \<open>
  A run of versions as triples (user key, sequence number, value). \<open>firsts\<close> keeps the first triple of
  every user key; in a sorted run that is the newest version.
\<close>

type_synonym cell = "bytes \<times> u64 \<times> bytes"

definition cell_pair :: "cell \<Rightarrow> bytes \<times> bytes" where
  "cell_pair c = (case c of (k, s, v) \<Rightarrow> (ukey k s, v))"

definition cells_ok :: "cell list \<Rightarrow> bool" where
  "cells_ok cs \<longleftrightarrow> sorted_wrt (<) (map fst (map cell_pair cs)) \<and> (\<forall>(k, s, v) \<in> set cs. user_key k)"

function firsts :: "cell list \<Rightarrow> cell list" where
  "firsts [] = []"
| "firsts (c # cs) = c # firsts (dropWhile (\<lambda>d. fst d = fst c) cs)"
  by pat_completeness auto
termination
  by (relation "measure length") (auto simp: length_dropWhile_le le_imp_less_Suc)

lemma cells_ok_Cons:
  "cells_ok ((k, s, v) # cs) \<longleftrightarrow> user_key k \<and> cells_ok cs \<and>
     (\<forall>(k', s', v') \<in> set cs. k < k' \<or> k = k' \<and> s' < s)"
proof -
  have "(\<forall>x \<in> set cs. ukey k s < fst (cell_pair x)) \<longleftrightarrow> (\<forall>(k', s', v') \<in> set cs. k < k' \<or> k = k' \<and> s' < s)"
    if "user_key k" "\<forall>(k, s, v) \<in> set cs. user_key k"
    using that by (intro ball_cong refl) (auto simp: cell_pair_def physical_key_less user_key_def)
  moreover have "fst (cell_pair (k, s, v)) = ukey k s" by (simp add: cell_pair_def)
  ultimately show ?thesis by (auto simp: cells_ok_def)
qed

lemma cells_ok_dropWhile: "cells_ok cs \<Longrightarrow> cells_ok (dropWhile Q cs)"
  by (induction cs) (auto simp: cells_ok_Cons)

lemma DecodeBytes_physical:
  "DecodeBytes (physical_key t k s) = Inr \<lparr>k_version = V2, k_KeyType = t, k_Key = k, k_Seqno = s\<rparr>"
proof -
  have "physical_key t k s = V2 # replicate 3 0 @ V2_Encode \<lparr>k2_keyType = t, k2_key = k, k2_seqno = s\<rparr>"
    by (simp add: physical_key_eq V2_Encode_def key_consts numeral_3_eq_3)
  then show ?thesis
    by (simp add: DecodeBytes_def v2DecodeRaw_def v2_split_Encode length_V2_Encode key_consts Let_def numeral_3_eq_3)
qed

lemma seek_key_user:
  "take (length (physical_key t k s) - V2SeqLen) (physical_key t k s) @ replicate V2SeqLen 255 = physical_key t k 0"
proof -
  have "be_bytes n 0 = replicate n 0" for n by (induction n) auto
  then have "stored_seqno 0 = replicate 8 255"
    by (simp add: stored_seqno_def PutUint64_def)
  moreover have "physical_key t k s = ([2, 0, 0, 0, t] @ k @ [0]) @ stored_seqno s" for s
    by (simp add: physical_key_eq)
  moreover have "take (length (a @ stored_seqno s) - 8) (a @ stored_seqno s) = a" for a by simp
  ultimately show ?thesis unfolding V2SeqLen_def by metis
qed

lemma seek_next_cells:
  assumes "cells_ok cs" "user_key k" "\<forall>c \<in> set cs. k \<le> fst c" "\<forall>p \<in> fst ` set rest. ukey k 0 < p"
  shows "(case it_SeekGE (map cell_pair cs @ rest) (ukey k 0) of
      [] \<Rightarrow> [] | (p, v) # r \<Rightarrow> if p = ukey k 0 then r else (p, v) # r) =
    map cell_pair (dropWhile (\<lambda>d. fst d = k) cs) @ rest"
  using assms
proof (induction cs)
  case Nil
  then show ?case by (cases rest) (auto simp: it_SeekGE_def)
next
  case (Cons c cs)
  obtain k' s' v' where c: "c = (k', s', v')" by (cases c)
  have ok: "cells_ok cs" "user_key k'" "\<forall>(k'', s'', v'') \<in> set cs. k' < k'' \<or> k' = k'' \<and> s'' < s'"
    using Cons.prems(1) by (auto simp: c cells_ok_Cons)
  have z: "0 \<notin> set k" "0 \<notin> set k'" using Cons.prems(2) ok(2) by (auto simp: user_key_def)
  have less: "ukey k' s' < ukey k 0 \<longleftrightarrow> k' = k \<and> 0 < s'" "ukey k' s' = ukey k 0 \<longleftrightarrow> k' = k \<and> s' = 0"
    using Cons.prems(3) physical_key_less [OF z(2,1)] physical_key_inj [OF z(2,1)] by (auto simp: c)
  consider "k' = k" "0 < s'" | "k' = k" "s' = 0" | "k' \<noteq> k"
    by (cases "s' = 0") (auto simp: word_neq_0_conv)
  then show ?case
  proof cases
    case 1
    then show ?thesis using Cons.IH [OF ok(1) Cons.prems(2) _ Cons.prems(4)] Cons.prems(3) less(1)
      by (simp add: it_SeekGE_def c cell_pair_def)
  next
    case 2
    have "dropWhile (\<lambda>d. fst d = k) cs = cs"
    proof (cases cs)
      case (Cons d ds)
      with ok(3) 2 have "fst d \<noteq> k" by (cases d) auto
      with Cons show ?thesis by simp
    qed simp
    with 2 show ?thesis by (simp add: it_SeekGE_def c cell_pair_def)
  next
    case 3
    with less show ?thesis by (simp add: it_SeekGE_def c cell_pair_def)
  qed
qed

lemma iterNext_cells:
  assumes "cells_ok ((k, s, v) # cs)" "\<forall>p \<in> fst ` set rest. ukey k 0 < p"
  shows "iterNextUserKey ((ukey k s, v) # map cell_pair cs @ rest) (ukey k s) =
    map cell_pair (dropWhile (\<lambda>d. fst d = k) cs) @ rest"
proof -
  have "\<not> (length (ukey k s) \<le> V2SeqLen \<or> ukey k s ! 0 \<noteq> V2)"
    by (simp add: physical_key_eq key_consts)
  then have "iterNextUserKey ((ukey k s, v) # map cell_pair cs @ rest) (ukey k s) =
      (case it_SeekGE (map cell_pair ((k, s, v) # cs) @ rest) (ukey k 0) of
        [] \<Rightarrow> [] | (p, v) # r \<Rightarrow> if p = ukey k 0 then r else (p, v) # r)"
    unfolding iterNextUserKey_def Let_def seek_key_user by (simp add: cell_pair_def)
  also have "\<dots> = map cell_pair (dropWhile (\<lambda>d. fst d = k) ((k, s, v) # cs)) @ rest"
  proof (rule seek_next_cells [OF assms(1) _ _ assms(2)])
    show "user_key k" using assms(1) by (simp add: cells_ok_Cons)
    show "\<forall>c \<in> set ((k, s, v) # cs). k \<le> fst c" using assms(1) by (auto simp: cells_ok_Cons)
  qed
  finally show ?thesis by simp
qed

text \<open>The run of versions an iterator over user keys visits.\<close>

lemma sorted_cells:
  assumes "sorted_wrt (<) (map fst xs)" "\<And>p v. (p, v) \<in> set xs \<Longrightarrow> \<exists>k s. p = ukey k s \<and> user_key k"
  obtains cs where "xs = map cell_pair cs" "cells_ok cs"
proof -
  have "\<exists>cs. xs = map cell_pair cs \<and> (\<forall>(k, s, v) \<in> set cs. user_key k)"
    using assms(2)
  proof (induction xs)
    case (Cons x xs)
    obtain p v where x: "x = (p, v)" by fastforce
    then obtain k s where "p = ukey k s" "user_key k" using Cons.prems [of p v] by auto
    moreover obtain cs where "xs = map cell_pair cs" "\<forall>(k, s, v) \<in> set cs. user_key k"
      using Cons.IH Cons.prems by (metis list.set_intros(2))
    ultimately show ?case using x by (intro exI [of _ "(k, s, v) # cs"]) (auto simp: cell_pair_def)
  qed simp
  then show ?thesis using that assms(1) unfolding cells_ok_def by blast
qed

lemma firsts_sub: "set (firsts cs) \<subseteq> set cs"
  by (induction cs rule: firsts.induct) (auto dest: set_dropWhileD)

lemma firsts_mem:
  assumes "cells_ok cs" "(k, s, v) \<in> set cs" "\<And>s' v'. (k, s', v') \<in> set cs \<Longrightarrow> s' \<le> s"
  shows "(k, s, v) \<in> set (firsts cs)"
  using assms
proof (induction cs rule: firsts.induct)
  case (2 c cs)
  obtain k0 s0 v0 where c: "c = (k0, s0, v0)" by (cases c)
  note ok = 2(2) [unfolded c cells_ok_Cons]
  show ?case
  proof (cases "k = k0")
    case True
    then have "(k, s, v) = c" using 2(3) 2(4) [of s0 v0] ok by (auto simp: c)
    then show ?thesis by simp
  next
    case False
    then have mem: "(k, s, v) \<in> set cs" using 2(3) by (simp add: c)
    have "(k, s, v) \<in> set (dropWhile (\<lambda>d. fst d = fst c) cs)"
    proof -
      have "(k, s, v) \<notin> set (takeWhile (\<lambda>d. fst d = fst c) cs)"
        using False by (auto simp: c dest: set_takeWhileD)
      with mem show ?thesis by (metis Un_iff set_append takeWhile_dropWhile_id)
    qed
    then have "(k, s, v) \<in> set (firsts (dropWhile (\<lambda>d. fst d = fst c) cs))"
      using 2(1) [OF cells_ok_dropWhile] ok 2(4) by (auto dest: set_dropWhileD)
    then show ?thesis by simp
  qed
qed simp

lemma firsts_newest:
  assumes "cells_ok cs" "(k, s, v) \<in> set (firsts cs)" "(k, s', v') \<in> set cs"
  shows "s' \<le> s"
  using assms
proof (induction cs rule: firsts.induct)
  case (2 c cs)
  obtain k0 s0 v0 where c: "c = (k0, s0, v0)" by (cases c)
  note ok = 2(2) [unfolded c cells_ok_Cons]
  show ?case
  proof (cases "k = k0")
    case True
    have "(k, s, v) \<notin> set (firsts (dropWhile (\<lambda>d. fst d = fst c) cs))"
    proof
      let ?d = "dropWhile (\<lambda>d. fst d = fst c) cs"
      assume "(k, s, v) \<in> set (firsts ?d)"
      then have m: "(k, s, v) \<in> set ?d" using firsts_sub by blast
      then obtain d ds where d: "?d = d # ds" by (cases ?d) auto
      then have "fst d \<noteq> k0" using hd_dropWhile [of "\<lambda>d. fst d = fst c" cs] by (auto simp: c)
      moreover have "d \<in> set ?d" using d by simp
      then have "d \<in> set cs" by (rule set_dropWhileD)
      ultimately have "k0 < fst d" using ok by (cases d) auto
      moreover have "cells_ok (d # ds)" using cells_ok_dropWhile [of cs "\<lambda>d. fst d = fst c"] ok unfolding d by blast
      ultimately have "\<forall>e \<in> set (d # ds). k0 < fst e" by (cases d) (auto simp: cells_ok_Cons)
      with m d True show False by auto
    qed
    then have "(k, s, v) = c" using 2(3) by auto
    then show ?thesis using 2(4) ok by (auto simp: c)
  next
    case False
    have "(k, s, v) \<in> set (firsts (dropWhile (\<lambda>d. fst d = fst c) cs))" using 2(3) False by (auto simp: c)
    moreover have "(k, s', v') \<in> set (dropWhile (\<lambda>d. fst d = fst c) cs)"
    proof -
      have "(k, s', v') \<in> set cs" "(k, s', v') \<notin> set (takeWhile (\<lambda>d. fst d = fst c) cs)"
        using 2(4) False by (auto simp: c dest: set_takeWhileD)
      then show ?thesis by (metis Un_iff set_append takeWhile_dropWhile_id)
    qed
    ultimately show ?thesis using 2(1) [OF cells_ok_dropWhile] ok by blast
  qed
qed simp

lemma firsts_sorted: "cells_ok cs \<Longrightarrow> sorted_wrt (<) (map fst (firsts cs))"
proof (induction cs rule: firsts.induct)
  case (2 c cs)
  obtain k0 s0 v0 where c: "c = (k0, s0, v0)" by (cases c)
  note ok = 2(2) [unfolded c cells_ok_Cons]
  have "k0 < fst e" if "e \<in> set (firsts (dropWhile (\<lambda>d. fst d = fst c) cs))" for e
  proof -
    have "e \<in> set cs" using that firsts_sub by (blast dest: set_dropWhileD)
    then have "k0 < fst e \<or> k0 = fst e" using ok by (cases e) auto
    moreover have "\<not> k0 = fst e"
    proof
      assume "k0 = fst e"
      then have "(k0, snd e) \<in> set (firsts (c # cs))" using that by (cases e) auto
      then show False
        using firsts_newest [of "c # cs" k0 "fst (snd e)" "snd (snd e)" s0 v0] 2(2) \<open>e \<in> set cs\<close> ok \<open>k0 = fst e\<close>
        by (cases e) (auto simp: c)
    qed
    ultimately show ?thesis by blast
  qed
  then show ?case using 2(1) [OF cells_ok_dropWhile] ok by (auto simp: c)
qed simp

end
