(* ===== verification/MvccWrite.thy ===== *)
theory MvccWrite
  imports MvccSpec
begin

text \<open>
  Commands refine updates of the abstract table: a put stores a value, a delete removes a key or a
  range, a transaction chooses a branch by its comparisons. Writes need a sequence number that is not
  below any stored version, which the replicated log provides: it is the log index of the leader.
\<close>

section \<open>Ranges\<close>

definition bound_key :: "bytes \<Rightarrow> bool" where
  "bound_key k \<longleftrightarrow> k = wildcard \<or> user_key k"

definition in_range :: "bytes \<Rightarrow> bytes \<Rightarrow> bytes \<Rightarrow> bool" where
  "in_range lo hi k \<longleftrightarrow> lo \<le> k \<and> (hi = wildcard \<or> k < hi)"

lemma increment_rev_ff: "increment_rev (replicate n 255 @ 0 # r) = replicate n 0 @ 1 # r"
  by (induction n) auto

lemma stored_seqno_0: "stored_seqno 0 = replicate 8 255"
proof -
  have "be_bytes n 0 = replicate n 0" for n by (induction n) auto
  then show ?thesis by (simp add: stored_seqno_def PutUint64_def)
qed

lemma max_upper: "incrementRightmostByte maxEncodedUserKey = [2, 0, 0, 0, TypeUser] @ LatestMaxKey @ 1 # replicate 8 0"
proof -
  have "rev maxEncodedUserKey = replicate 8 255 @ 0 # rev ([2, 0, 0, 0, TypeUser] @ LatestMaxKey)"
    by (simp add: maxEncodedUserKey_def physical_key_eq stored_seqno_0)
  then show ?thesis unfolding incrementRightmostByte_def by (simp only: increment_rev_ff) simp
qed

lemma below_ff: "length k \<le> n \<Longrightarrow> k @ 0 # a < replicate n (255 :: byte) @ 1 # b"
proof (induction k arbitrary: n)
  case Nil
  then show ?case by (cases n) auto
next
  case (Cons x k)
  then obtain m where n: "n = Suc m" "length k \<le> m" by (cases n) auto
  have "x \<le> 255" using byte_lt [of x] by (simp add: word_le_nat_alt)
  then have "x < 255 \<or> x = 255" by auto
  with Cons.IH [OF n(2)] show ?case by (auto simp: n(1))
qed

lemma ukey_below_max: "user_key k \<Longrightarrow> ukey k s < incrementRightmostByte maxEncodedUserKey"
  by (simp add: max_upper physical_key_eq LatestMaxKey_def user_key_def below_ff)

lemma system_above_max: "incrementRightmostByte maxEncodedUserKey \<le> physical_key TypeSystem k s"
  by (simp add: max_upper physical_key_eq key_consts less_imp_le)

lemma wildcard_below: "user_key k \<Longrightarrow> ukey wildcard (- 1) \<le> ukey k s \<and> wildcard \<le> k"
  by (cases k) (auto simp: wildcard_def physical_key_eq user_key_def word_neq_0_conv less_imp_le)

lemma range_bounds:
  assumes "bound_key lo" "bound_key hi" "iterOptionsForBounds lo hi = Inr opts"
  shows "user_key k \<Longrightarrow> in_bounds opts (ukey k s) \<longleftrightarrow> in_range lo hi k"
    "\<not> in_bounds opts (physical_key TypeSystem k' s')" "io_SeqnoFilter opts = None"
proof -
  have lo: "io_LowerBound opts = Some (ukey lo (- 1))" and fil: "io_SeqnoFilter opts = None"
    and hi: "io_UpperBound opts = Some (if hi = wildcard then incrementRightmostByte maxEncodedUserKey else ukey hi (- 1))"
    using assms(3) by (auto simp: iterOptionsForBounds_def no_options_def Let_def split: if_splits)
  show "io_SeqnoFilter opts = None" by (rule fil)
  show "\<not> in_bounds opts (physical_key TypeSystem k' s')"
    using system_above_max [of k' s'] type_less [of hi "- 1" k' s'] by (simp add: in_bounds_def lo hi not_less less_imp_le)
  assume k: "user_key k"
  have "ukey lo (- 1) \<le> ukey k s \<longleftrightarrow> lo \<le> k"
  proof (cases "lo = wildcard")
    case True
    then show ?thesis using wildcard_below [OF k] by simp
  next
    case False
    then have "user_key lo" using assms(1) by (simp add: bound_key_def)
    with k show ?thesis by (simp add: ukey_le user_key_def) auto
  qed
  moreover have "ukey k s < ukey hi (- 1) \<longleftrightarrow> k < hi" if "hi \<noteq> wildcard"
    using that k assms(2) by (auto simp: bound_key_def physical_key_less user_key_def)
  ultimately show "in_bounds opts (ukey k s) \<longleftrightarrow> in_range lo hi k"
    using ukey_below_max [OF k] by (simp add: in_bounds_def lo hi in_range_def)
qed

lemma iterOptions_total: "\<exists>opts. iterOptionsForBounds lo hi = Inr opts"
  by (simp add: iterOptionsForBounds_def Let_def)

text \<open>The versions an iterator over a range visits, and the newest version of every key in it.\<close>

lemma range_cells:
  assumes ok: "pebble_ok P C base" "readable P r" "store_ok (C r)" and b: "bound_key lo" "bound_key hi"
  obtains opts cs where "iterOptionsForBounds lo hi = Inr opts" "pb_NewIter P r opts = Inr (map cell_pair cs)"
    "cells_ok cs" "\<forall>k s v. user_key k \<longrightarrow> ((k, s, v) \<in> set (firsts cs) \<longleftrightarrow> is_newest (C r) k s v \<and> in_range lo hi k)"
proof -
  obtain opts where opts: "iterOptionsForBounds lo hi = Inr opts" using iterOptions_total by blast
  note rb = range_bounds [OF b opts]
  obtain xs where xs: "pb_NewIter P r opts = Inr xs" "iter_ok (C r) opts xs" using pebble_iter [OF ok(1,2)] .
  note it = iter_okD [OF xs(2) rb(3)]
  have uk: "\<exists>k s. p = ukey k s \<and> user_key k" if "(p, v) \<in> set xs" for p v
    using that ok(3) rb(2) unfolding it(2) store_ok_def by blast
  obtain cs where cs: "xs = map cell_pair cs" "cells_ok cs" using sorted_cells [OF it(1) uk] .
  have mem: "(k, s, v) \<in> set cs \<longleftrightarrow> C r (ukey k s) = Some v \<and> in_range lo hi k" if "user_key k" for k s v
  proof -
    have "(k, s, v) \<in> set cs \<longleftrightarrow> (ukey k s, v) \<in> set xs"
    proof
      assume "(ukey k s, v) \<in> set xs"
      then obtain k' s' where "(k', s', v) \<in> set cs" "ukey k' s' = ukey k s" by (auto simp: cs(1) cell_pair_def)
      moreover from this have "user_key k'" using cs(2) by (auto simp: cells_ok_def)
      ultimately show "(k, s, v) \<in> set cs" using that by (auto simp: physical_key_inj user_key_def)
    qed (force simp: cs(1) cell_pair_def)
    then show ?thesis by (simp add: it(2) rb(1) [OF that])
  qed
  have "(k, s, v) \<in> set (firsts cs) \<longleftrightarrow> is_newest (C r) k s v \<and> in_range lo hi k" if k: "user_key k" for k s v
  proof
    assume f: "(k, s, v) \<in> set (firsts cs)"
    then have m: "C r (ukey k s) = Some v" "in_range lo hi k" using firsts_sub mem [OF k] by blast+
    have "C r (ukey k s') = None" if "s < s'" for s'
    proof (rule ccontr)
      assume "C r (ukey k s') \<noteq> None"
      then obtain v' where "(k, s', v') \<in> set cs" using mem [OF k] m(2) by auto
      from firsts_newest [OF cs(2) f this] that show False by simp
    qed
    with m show "is_newest (C r) k s v \<and> in_range lo hi k" by (simp add: is_newest_def)
  next
    assume n: "is_newest (C r) k s v \<and> in_range lo hi k"
    then have "(k, s, v) \<in> set cs" by (simp add: mem [OF k] is_newest_def)
    moreover have "s' \<le> s" if "(k, s', v') \<in> set cs" for s' v'
      using newest_ge [of "C r" k s v s'] n that by (simp add: mem [OF k])
    ultimately show "(k, s, v) \<in> set (firsts cs)" by (rule firsts_mem [OF cs(2)])
  qed
  with that opts xs(1) cs show ?thesis by blast
qed

definition live_cells :: "cell list \<Rightarrow> (bytes \<times> bytes) list" where
  "live_cells cs = map (\<lambda>(k, s, v). (k, v)) (filter (\<lambda>(k, s, v). \<not> isTombstone v) cs)"

lemma visit_cells:
  assumes "cells_ok ((k, s, v) # cs)"
  shows "map cell_pair ((k, s, v) # cs) = (ukey k s, v) # map cell_pair cs"
    "iterNextUserKey ((ukey k s, v) # map cell_pair cs) (ukey k s) = map cell_pair (dropWhile (\<lambda>d. fst d = k) cs)"
    "cells_ok (dropWhile (\<lambda>d. fst d = k) cs)"
  using iterNext_cells [of k s v cs "[]"] assms
  by (auto simp: cell_pair_def cells_ok_Cons intro: cells_ok_dropWhile)

lemma delete_scan_cells:
  assumes "cells_ok cs"
  shows "delete_scan (map cell_pair cs) = Inr (live_cells (firsts cs))"
  using assms
proof (induction cs rule: firsts.induct)
  case (2 c cs)
  obtain k s v where c: "c = (k, s, v)" by (cases c)
  note v = visit_cells [OF 2(2) [unfolded c]]
  have IH: "delete_scan (map cell_pair (dropWhile (\<lambda>d. fst d = k) cs)) = Inr (live_cells (firsts (dropWhile (\<lambda>d. fst d = k) cs)))"
    using 2(1) v(3) by (simp add: c)
  show ?case
    unfolding c v(1) delete_scan.simps v(2) IH DecodeBytes_physical by (simp add: live_cells_def)
qed (simp add: live_cells_def)

section \<open>Writing\<close>

definition ctx_ok :: "('db, 'b) pebble \<Rightarrow> (('db, 'b) reader \<Rightarrow> store) \<Rightarrow> ('b \<Rightarrow> 'db) \<Rightarrow> ('db, 'b) updateContext \<Rightarrow> bool" where
  "ctx_ok P C base c \<longleftrightarrow> base (uc_batch c) = uc_db c \<and> store_ok (C (RBatch (uc_batch c))) \<and>
     (\<forall>k s. C (RBatch (uc_batch c)) (ukey k s) \<noteq> None \<longrightarrow> s \<le> uc_seqno c)"

definition same_ctx :: "('db, 'b) updateContext \<Rightarrow> ('db, 'b) updateContext \<Rightarrow> bool" where
  "same_ctx c c' \<longleftrightarrow> uc_db c' = uc_db c \<and> uc_index c' = uc_index c \<and> uc_leaderIndex c' = uc_leaderIndex c"

lemma same_ctx_refl [simp]: "same_ctx c c"
  by (simp add: same_ctx_def)

lemma same_ctx_trans: "same_ctx c c' \<Longrightarrow> same_ctx c' c'' \<Longrightarrow> same_ctx c c''"
  by (simp add: same_ctx_def)

lemma same_ctx_seqno: "same_ctx c c' \<Longrightarrow> uc_seqno c' = uc_seqno c"
  by (simp add: same_ctx_def uc_seqno_def split: option.split)

text \<open>The visible table of a context, as far as user keys are concerned.\<close>

definition table :: "(('db, 'b) reader \<Rightarrow> store) \<Rightarrow> ('db, 'b) updateContext \<Rightarrow> bytes \<Rightarrow> bytes option" where
  "table C c k = (if user_key k then visible (C (RBatch (uc_batch c))) k else None)"

lemma EnsureIndexed_ok:
  assumes ok: "pebble_ok P C base" and c: "ctx_ok P C base c"
  obtains c' where "EnsureIndexed P c = Inr c'" "readable P (RBatch (uc_batch c'))" "same_ctx c c'"
    "C (RBatch (uc_batch c')) = C (RBatch (uc_batch c))" "ctx_ok P C base c'" "table C c' = table C c"
proof (cases "pb_Indexed P (uc_batch c)")
  case True
  then show ?thesis using c by (intro that [of c]) (simp_all add: EnsureIndexed_def readable_def)
next
  case False
  have b: "base (uc_batch c) = uc_db c" using c by (simp add: ctx_ok_def)
  obtain b' where b': "pb_Apply P (pb_NewIndexedBatch P (uc_db c)) (uc_batch c) = Inr b'"
    "C (RBatch b') = C (RBatch (uc_batch c))" "base b' = uc_db c" "pb_Indexed P b'" "pb_Close P (uc_batch c) = Inr ()"
    using ok unfolding pebble_ok_def b [symmetric] by metis
  let ?c = "c\<lparr>uc_batch := b'\<rparr>"
  have s: "same_ctx c ?c" by (simp add: same_ctx_def)
  show ?thesis
  proof (rule that [of ?c])
    show "EnsureIndexed P c = Inr ?c" using False b' by (simp add: EnsureIndexed_def)
    show "ctx_ok P C base ?c" using c b' same_ctx_seqno [OF s] by (simp add: ctx_ok_def)
    show "table C ?c = table C c" by (rule ext) (simp add: table_def b'(2))
  qed (use b' s in \<open>simp_all add: readable_def\<close>)
qed

lemma ukey_seqno_inj: "physical_key t k s = physical_key t' k' s' \<Longrightarrow> s = s'"
proof -
  assume "physical_key t k s = physical_key t' k' s'"
  then have "([2, 0, 0, 0, t] @ k @ [0]) @ stored_seqno s = ([2, 0, 0, 0, t'] @ k' @ [0]) @ stored_seqno s'"
    by (simp add: physical_key_eq)
  moreover have "length (stored_seqno s) = length (stored_seqno s')" by simp
  ultimately have "stored_seqno s = stored_seqno s'" using append_eq_append_conv by blast
  then show ?thesis by simp
qed

lemma batch_set_ok:
  assumes ok: "pebble_ok P C base" and c: "ctx_ok P C base c" and k: "user_key k"
  obtains c' where "batch_set P c (ukey k (uc_seqno c)) v = Inr c'" "same_ctx c c'" "ctx_ok P C base c'"
    "table C c' = (table C c)(k := if isTombstone v then None else Some v)"
    "readable P (RBatch (uc_batch c')) = readable P (RBatch (uc_batch c))"
proof -
  let ?p = "ukey k (uc_seqno c)" let ?m = "C (RBatch (uc_batch c))"
  obtain b where b: "pb_Set P (uc_batch c) ?p v = Inr b" "C (RBatch b) = ?m(?p \<mapsto> v)"
    "base b = base (uc_batch c)" "pb_Indexed P b = pb_Indexed P (uc_batch c)"
    using ok unfolding pebble_ok_def by metis
  let ?c = "c\<lparr>uc_batch := b\<rparr>"
  have s: "same_ctx c ?c" by (simp add: same_ctx_def)
  have le: "s \<le> uc_seqno c" if "?m (ukey k' s) \<noteq> None" for k' s using c that by (simp add: ctx_ok_def)
  have sok: "store_ok ?m" "base (uc_batch c) = uc_db c" using c by (simp_all add: ctx_ok_def)
  show ?thesis
  proof (rule that [of ?c])
    show "batch_set P c ?p v = Inr ?c" by (simp add: batch_set_def b(1))
    have "store_ok (?m(?p \<mapsto> v))" using sok(1) k unfolding store_ok_def by (metis fun_upd_apply)
    moreover have "s \<le> uc_seqno c" if "(?m(?p \<mapsto> v)) (ukey k' s) \<noteq> None" for k' s
    proof (cases "ukey k' s = ?p")
      case True
      then have "s = uc_seqno c" by (rule ukey_seqno_inj)
      then show ?thesis by simp
    next
      case False
      with that le show ?thesis by simp
    qed
    ultimately show "ctx_ok P C base ?c"
      using sok(2) same_ctx_seqno [OF s] b(2,3) by (simp add: ctx_ok_def)
    have "visible (?m(?p \<mapsto> v)) k' = ((visible ?m)(k := if isTombstone v then None else Some v)) k'" if "user_key k'" for k'
      by (rule visible_write [OF k]) (use le that in \<open>auto simp: user_key_def\<close>)
    then show "table C ?c = (table C c)(k := if isTombstone v then None else Some v)"
      using k by (auto simp: table_def b(2) fun_eq_iff)
  qed (use b s in \<open>simp_all add: readable_def\<close>)
qed

lemma lookup_table:
  assumes "pebble_ok P C base" "readable P (RBatch (uc_batch c))" "ctx_ok P C base c" "user_key (rr_Key req)"
  shows "singleLookup P (RBatch (uc_batch c)) req = Inr (single_resp req (table C c (rr_Key req)))"
  using singleLookup_visible [OF assms(1,2) _ assms(4)] assms(3,4) by (simp add: table_def ctx_ok_def)

lemma handlePut_ok:
  assumes ok: "pebble_ok P C base" and c: "ctx_ok P C base c" and k: "user_key (pr_Key put)"
  obtains c' where "handlePut P c put = Inr (c', if pr_PrevKv put
      then map_option (\<lambda>v. \<lparr>kv_Key = pr_Key put, kv_Value = v\<rparr>) (table C c (pr_Key put)) else None)"
    "same_ctx c c'" "ctx_ok P C base c'"
    "table C c' = (table C c)(pr_Key put := if isTombstone (pr_Value put) then None else Some (pr_Value put))"
    "readable P (RBatch (uc_batch c)) \<longrightarrow> readable P (RBatch (uc_batch c'))"
proof (cases "pr_PrevKv put")
  case False
  obtain c' where c': "batch_set P c (ukey (pr_Key put) (uc_seqno c)) (pr_Value put) = Inr c'" "same_ctx c c'"
    "ctx_ok P C base c'" "table C c' = (table C c)(pr_Key put := if isTombstone (pr_Value put) then None else Some (pr_Value put))"
    "readable P (RBatch (uc_batch c')) = readable P (RBatch (uc_batch c))"
    using batch_set_ok [OF ok c k] .
  show ?thesis by (rule that [of c']) (use False c' in \<open>simp_all add: handlePut_def\<close>)
next
  case True
  obtain c1 where c1: "EnsureIndexed P c = Inr c1" "readable P (RBatch (uc_batch c1))" "same_ctx c c1"
    "C (RBatch (uc_batch c1)) = C (RBatch (uc_batch c))" "ctx_ok P C base c1" "table C c1 = table C c"
    using EnsureIndexed_ok [OF ok c] .
  obtain c' where c': "batch_set P c1 (ukey (pr_Key put) (uc_seqno c1)) (pr_Value put) = Inr c'" "same_ctx c1 c'"
    "ctx_ok P C base c'" "table C c' = (table C c1)(pr_Key put := if isTombstone (pr_Value put) then None else Some (pr_Value put))"
    "readable P (RBatch (uc_batch c')) = readable P (RBatch (uc_batch c1))"
    using batch_set_ok [OF ok c1(5) k] .
  have l: "singleLookup P (RBatch (uc_batch c1)) (zero_RangeReq (pr_Key put)) =
      Inr (single_resp (zero_RangeReq (pr_Key put)) (table C c (pr_Key put)))"
    using lookup_table [OF ok c1(2,5), of "zero_RangeReq (pr_Key put)"] k c1(6) by (simp add: zero_RangeReq_def)
  have "handlePut P c put = Inr (c', map_option (\<lambda>v. \<lparr>kv_Key = pr_Key put, kv_Value = v\<rparr>) (table C c (pr_Key put)))"
    using True c1(1) l c'(1) same_ctx_seqno [OF c1(3)]
    by (cases "table C c (pr_Key put)")
      (simp_all add: handlePut_def single_resp_def zero_RangeReq_def zero_RangeResp_def)
  with True c1 c' show ?thesis by (intro that [of c']) (auto intro: same_ctx_trans)
qed


section \<open>Deleting\<close>

definition abs_put :: "(bytes \<Rightarrow> bytes option) \<Rightarrow> bytes \<Rightarrow> bytes \<Rightarrow> bytes \<Rightarrow> bytes option" where
  "abs_put T k v = T(k := if isTombstone v then None else Some v)"

definition abs_delete :: "(bytes \<Rightarrow> bytes option) \<Rightarrow> DeleteReq \<Rightarrow> bytes \<Rightarrow> bytes option" where
  "abs_delete T del =
     (case dr_RangeEnd del of
        None \<Rightarrow> T(dr_Key del := None)
      | Some hi \<Rightarrow> (\<lambda>k. if in_range (dr_Key del) hi k then None else T k))"

definition del_ok :: "DeleteReq \<Rightarrow> bool" where
  "del_ok del \<longleftrightarrow> (case dr_RangeEnd del of None \<Rightarrow> user_key (dr_Key del) | Some hi \<Rightarrow> bound_key (dr_Key del) \<and> bound_key hi)"

lemma isTombstone_value [simp]: "isTombstone tombstoneValue"
  by (simp add: isTombstone_def tombstoneValue_def)

lemma write_tombstones_ok:
  assumes ok: "pebble_ok P C base" and "ctx_ok P C base c" "\<forall>k \<in> set ks. user_key k"
  shows "\<exists>c'. write_tombstones P ks c = Inr c' \<and> same_ctx c c' \<and> ctx_ok P C base c' \<and>
    table C c' = (\<lambda>k. if k \<in> set ks then None else table C c k) \<and>
    readable P (RBatch (uc_batch c')) = readable P (RBatch (uc_batch c))"
  using assms(2,3)
proof (induction ks arbitrary: c)
  case (Cons k ks)
  obtain c1 where c1: "batch_set P c (ukey k (uc_seqno c)) tombstoneValue = Inr c1" "same_ctx c c1" "ctx_ok P C base c1"
    "table C c1 = (table C c)(k := if isTombstone tombstoneValue then None else Some tombstoneValue)"
    "readable P (RBatch (uc_batch c1)) = readable P (RBatch (uc_batch c))"
    using batch_set_ok [OF ok Cons.prems(1)] Cons.prems(2) by (metis list.set_intros(1))
  obtain c' where c': "write_tombstones P ks c1 = Inr c'" "same_ctx c1 c'" "ctx_ok P C base c'"
    "table C c' = (\<lambda>k. if k \<in> set ks then None else table C c1 k)"
    "readable P (RBatch (uc_batch c')) = readable P (RBatch (uc_batch c1))"
    using Cons.IH [OF c1(3)] Cons.prems(2) by auto
  show ?case using c1 c' by (intro exI [of _ c']) (auto intro: same_ctx_trans)
qed simp

lemma live_cells_mem:
  "k \<in> fst ` set (live_cells cs) \<longleftrightarrow> (\<exists>s v. (k, s, v) \<in> set cs \<and> \<not> isTombstone v)"
  by (force simp: live_cells_def)

lemma handleDelete_ok:
  assumes ok: "pebble_ok P C base" and c: "ctx_ok P C base c" and d: "del_ok del"
  shows "\<exists>c' resp. handleDelete P c del = Inr (c', resp) \<and> same_ctx c c' \<and> ctx_ok P C base c' \<and>
    table C c' = abs_delete (table C c) del \<and> readable P (RBatch (uc_batch c')) \<and>
    (dr_Count del \<longrightarrow> ds_Deleted resp = int (card {k. table C c k \<noteq> None \<and> abs_delete (table C c) del k = None}))"
proof -
  obtain c1 where c1: "EnsureIndexed P c = Inr c1" "readable P (RBatch (uc_batch c1))" "same_ctx c c1"
    "C (RBatch (uc_batch c1)) = C (RBatch (uc_batch c))" "ctx_ok P C base c1" "table C c1 = table C c"
    using EnsureIndexed_ok [OF ok c] .
  show ?thesis
  proof (cases "dr_RangeEnd del")
    case None
    then have k: "user_key (dr_Key del)" using d by (simp add: del_ok_def)
    let ?req = "(zero_RangeReq (dr_Key del))\<lparr>rr_CountOnly :=
        (if dr_PrevKv del \<or> dr_Count del then dr_Count del \<and> \<not> dr_PrevKv del else True)\<rparr>"
    have l: "singleLookup P (RBatch (uc_batch c1)) ?req = Inr (single_resp ?req (table C c (dr_Key del)))"
      using lookup_table [OF ok c1(2,5), of ?req] k c1(6) by (simp add: zero_RangeReq_def)
    show ?thesis
    proof (cases "table C c (dr_Key del)")
      case n: None
      then have h: "handleDelete P c del = Inr (c1, zero_DeleteResp)"
        using l by (simp add: handleDelete_def None c1(1) single_resp_def zero_RangeResp_def)
      have ab: "abs_delete (table C c) del = table C c" using n by (auto simp: abs_delete_def None)
      then have e: "{k. table C c k \<noteq> None \<and> abs_delete (table C c) del k = None} = {}" by auto
      show ?thesis unfolding e using c1 h ab by (auto simp: zero_DeleteResp_def)
    next
      case (Some v)
      obtain c' where c': "batch_set P c1 (ukey (dr_Key del) (uc_seqno c1)) tombstoneValue = Inr c'" "same_ctx c1 c'"
        "ctx_ok P C base c'" "table C c' = (table C c1)(dr_Key del := if isTombstone tombstoneValue then None else Some tombstoneValue)"
        "readable P (RBatch (uc_batch c')) = readable P (RBatch (uc_batch c1))"
        using batch_set_ok [OF ok c1(5) k] .
      have "{k. table C c k \<noteq> None \<and> abs_delete (table C c) del k = None} = {dr_Key del}"
        using Some by (auto simp: abs_delete_def None)
      moreover have "\<exists>resp. handleDelete P c del = Inr (c', resp) \<and> (dr_Count del \<longrightarrow> ds_Deleted resp = 1)"
        using l c'(1) by (auto simp: handleDelete_def None c1(1) single_resp_def Some Let_def)
      ultimately show ?thesis using c1 c' same_ctx_trans [OF c1(3) c'(2)]
        by (auto simp: abs_delete_def None)
    qed
  next
    case (Some hi)
    then have b: "bound_key (dr_Key del)" "bound_key hi" using d by (auto simp: del_ok_def)
    have st: "store_ok (C (RBatch (uc_batch c1)))" using c1(5) by (simp add: ctx_ok_def)
    obtain opts cs where r: "iterOptionsForBounds (dr_Key del) hi = Inr opts"
      "pb_NewIter P (RBatch (uc_batch c1)) opts = Inr (map cell_pair cs)" "cells_ok cs"
      "\<forall>k s v. user_key k \<longrightarrow> ((k, s, v) \<in> set (firsts cs) \<longleftrightarrow>
         is_newest (C (RBatch (uc_batch c1))) k s v \<and> in_range (dr_Key del) hi k)"
      using range_cells [OF ok c1(2) st b] .
    let ?live = "live_cells (firsts cs)"
    have uk: "\<forall>k \<in> fst ` set ?live. user_key k"
      using firsts_sub [of cs] r(3) unfolding cells_ok_def live_cells_def by fastforce
    have live: "k \<in> fst ` set ?live \<longleftrightarrow> table C c k \<noteq> None \<and> in_range (dr_Key del) hi k" for k
    proof (cases "user_key k")
      case True
      then show ?thesis using visible_Some [of "C (RBatch (uc_batch c1))" k]
        by (auto simp: live_cells_mem r(4) [rule_format, OF True] table_def c1(4) [symmetric])
    qed (use uk in \<open>auto simp: table_def\<close>)
    have uk': "\<forall>k \<in> set (map fst ?live). user_key k" using uk by simp
    obtain c' where c': "write_tombstones P (map fst ?live) c1 = Inr c'" "same_ctx c1 c'" "ctx_ok P C base c'"
      "table C c' = (\<lambda>k. if k \<in> set (map fst ?live) then None else table C c1 k)"
      "readable P (RBatch (uc_batch c')) = readable P (RBatch (uc_batch c1))"
      using write_tombstones_ok [OF ok c1(5) uk'] by blast
    have T: "table C c' = abs_delete (table C c) del"
    proof
      fix k show "table C c' k = abs_delete (table C c) del k"
        using live [of k] by (simp add: c'(4) abs_delete_def Some c1(6))
    qed
    have "sorted_wrt (<) (map fst ?live)"
      using firsts_sorted [OF r(3)] by (auto simp: live_cells_def sorted_wrt_map sorted_wrt_filter case_prod_unfold
          intro: sorted_wrt_mono_rel)
    then have dist: "distinct (map fst ?live)" by (simp add: strict_sorted_iff)
    have "{k. table C c k \<noteq> None \<and> abs_delete (table C c) del k = None} = fst ` set ?live"
      using live by (auto simp: abs_delete_def Some)
    then have card: "card {k. table C c k \<noteq> None \<and> abs_delete (table C c) del k = None} = length ?live"
      using distinct_card [OF dist] by simp
    have "\<exists>resp. handleDelete P c del = Inr (c', resp) \<and> (dr_Count del \<longrightarrow> ds_Deleted resp = int (length ?live))"
      by (simp add: handleDelete_def Some c1(1) r(1,2) delete_scan_cells [OF r(3)] c'(1))
    then show ?thesis using c1 c' same_ctx_trans [OF c1(3) c'(2)] T card by auto
  qed
qed

end
