(* ===== verification/MvccRefine.thy ===== *)
theory MvccRefine
  imports MvccWrite
begin

text \<open>
  The refinement of the table state machine: applying a batch of log entries changes the visible table
  exactly as the abstract commands do, one after the other, and stores the applied index. Comparisons of
  a transaction are covered for single keys; sequences of commands are not part of this statement.
\<close>

section \<open>Abstract commands\<close>

definition abs_compare :: "(bytes \<Rightarrow> bytes option) \<Rightarrow> Compare \<Rightarrow> bool" where
  "abs_compare T cmp = (case T (cp_Key cmp) of None \<Rightarrow> False | Some v \<Rightarrow> txnCompareSingle cmp v)"

fun abs_op :: "RequestOp \<Rightarrow> (bytes \<Rightarrow> bytes option) \<Rightarrow> (bytes \<Rightarrow> bytes option)" where
  "abs_op (RequestPut p) T = abs_put T (pr_Key p) (pr_Value p)"
| "abs_op (RequestDeleteRange d) T = abs_delete T d"
| "abs_op _ T = T"

definition abs_cmd :: "Command \<Rightarrow> (bytes \<Rightarrow> bytes option) \<Rightarrow> (bytes \<Rightarrow> bytes option)" where
  "abs_cmd cmd T =
     (case cm_Type cmd of
        PUT \<Rightarrow> abs_put T (kv_Key (the (cm_Kv cmd))) (kv_Value (the (cm_Kv cmd)))
      | DELETE \<Rightarrow> abs_delete T \<lparr>dr_Key = kv_Key (the (cm_Kv cmd)), dr_RangeEnd = cm_RangeEnd cmd,
                                dr_PrevKv = cm_PrevKvs cmd, dr_Count = cm_Count cmd\<rparr>
      | PUT_BATCH \<Rightarrow> fold (\<lambda>kv T. abs_put T (kv_Key kv) (kv_Value kv)) (cm_Batch cmd) T
      | DELETE_BATCH \<Rightarrow> fold (\<lambda>kv T. T(kv_Key kv := None)) (cm_Batch cmd) T
      | TXN \<Rightarrow> let txn = the (cm_Txn cmd)
               in fold abs_op (if \<forall>cmp \<in> set (tx_Compare txn). abs_compare T cmp
                               then tx_Success txn else tx_Failure txn) T
      | _ \<Rightarrow> T)"

text \<open>Well-formed requests: keys the API lets through, and comparisons of single keys.\<close>

fun op_ok :: "RequestOp \<Rightarrow> bool" where
  "op_ok (RequestPut p) = user_key (pr_Key p)"
| "op_ok (RequestDeleteRange d) = del_ok d"
| "op_ok (RequestRange r) =
     (case rr_RangeEnd r of None \<Rightarrow> user_key (rr_Key r) | Some hi \<Rightarrow> bound_key (rr_Key r) \<and> bound_key hi)"
| "op_ok RequestUnset = True"

definition cmd_ok :: "Command \<Rightarrow> bool" where
  "cmd_ok cmd =
     (case cm_Type cmd of
        PUT \<Rightarrow> (case cm_Kv cmd of None \<Rightarrow> False | Some kv \<Rightarrow> user_key (kv_Key kv))
      | DELETE \<Rightarrow> (case cm_Kv cmd of None \<Rightarrow> False | Some kv \<Rightarrow>
            del_ok \<lparr>dr_Key = kv_Key kv, dr_RangeEnd = cm_RangeEnd cmd, dr_PrevKv = cm_PrevKvs cmd, dr_Count = cm_Count cmd\<rparr>)
      | PUT_BATCH \<Rightarrow> (\<forall>kv \<in> set (cm_Batch cmd). user_key (kv_Key kv))
      | DELETE_BATCH \<Rightarrow> (\<forall>kv \<in> set (cm_Batch cmd). user_key (kv_Key kv))
      | TXN \<Rightarrow> (case cm_Txn cmd of None \<Rightarrow> False | Some txn \<Rightarrow>
            (\<forall>cmp \<in> set (tx_Compare txn). user_key (cp_Key cmp) \<and> cp_RangeEnd cmp = None) \<and>
            (\<forall>op \<in> set (tx_Success txn). op_ok op) \<and> (\<forall>op \<in> set (tx_Failure txn). op_ok op))
      | DUMMY \<Rightarrow> True
      | GC \<Rightarrow> True
      | _ \<Rightarrow> False)"

section \<open>Range lookups return\<close>

lemma iterate_loop_total:
  assumes "cells_ok cs"
  shows "\<exists>r rs. iterate_loop req (map cell_pair cs) i sz resp = (r # rs, None)"
  using assms
proof (induction cs arbitrary: i sz resp rule: firsts.induct)
  case (2 c cs)
  obtain k s v where c: "c = (k, s, v)" by (cases c)
  note v = visit_cells [OF 2(2) [unfolded c]]
  have IH: "\<exists>r rs. iterate_loop req (map cell_pair (dropWhile (\<lambda>d. fst d = k) cs)) i sz resp = (r # rs, None)" for i sz resp
    using 2(1) v(3) by (simp add: c)
  obtain fill sf where f: "iterFuncsFromReq req = (fill, sf)" by fastforce
  show ?case
    unfolding c v(1) iterate_loop.simps v(2) DecodeBytes_physical sum.case f Let_def prod.case
    using IH by (auto split: prod.splits) (metis prod.inject)+
qed simp

lemma lookup_total:
  assumes ok: "pebble_ok P C base" "readable P (RBatch (uc_batch c))" "ctx_ok P C base c" and o: "op_ok (RequestRange req)"
  shows "\<exists>resp. lookup P (RBatch (uc_batch c)) req = Inr resp"
proof (cases "rr_RangeEnd req")
  case None
  then show ?thesis using lookup_table [OF ok] o by (simp add: lookup_def)
next
  case (Some hi)
  then have b: "bound_key (rr_Key req)" "bound_key hi" using o by auto
  have st: "store_ok (C (RBatch (uc_batch c)))" using ok(3) by (simp add: ctx_ok_def)
  obtain opts cs where r: "iterOptionsForBounds (rr_Key req) hi = Inr opts"
    "pb_NewIter P (RBatch (uc_batch c)) opts = Inr (map cell_pair cs)" "cells_ok cs"
    using range_cells [OF ok(1,2) st b] by metis
  obtain r rs where "iterate_loop req (map cell_pair cs) 0 0 zero_RangeResp = (r # rs, None)"
    using iterate_loop_total [OF r(3)] by blast
  then show ?thesis using r Some by (simp add: lookup_def rangeLookup_def iterate_def iterx_First_def)
qed

section \<open>One command\<close>

lemma handlePutBatch_ok:
  assumes ok: "pebble_ok P C base" and "ctx_ok P C base c" "\<forall>p \<in> set ps. user_key (pr_Key p)"
  shows "\<exists>c' rs. handlePutBatch P c ps = Inr (c', rs) \<and> same_ctx c c' \<and> ctx_ok P C base c' \<and>
    table C c' = fold (\<lambda>p T. abs_put T (pr_Key p) (pr_Value p)) ps (table C c)"
  using assms(2,3)
proof (induction ps arbitrary: c)
  case (Cons p ps)
  obtain c1 prev where c1: "handlePut P c p = Inr (c1, prev)" "same_ctx c c1" "ctx_ok P C base c1"
    "table C c1 = abs_put (table C c) (pr_Key p) (pr_Value p)"
    using handlePut_ok [OF ok Cons.prems(1), of p] Cons.prems(2) unfolding abs_put_def by (metis list.set_intros(1))
  obtain c' rs where "handlePutBatch P c1 ps = Inr (c', rs)" "same_ctx c1 c'" "ctx_ok P C base c'"
    "table C c' = fold (\<lambda>p T. abs_put T (pr_Key p) (pr_Value p)) ps (table C c1)"
    using Cons.IH [OF c1(3)] Cons.prems(2) by auto
  with c1 show ?case by (auto intro: same_ctx_trans)
qed simp

lemma handleDeleteBatch_ok:
  assumes ok: "pebble_ok P C base" and "ctx_ok P C base c" "\<forall>d \<in> set ds. del_ok d"
  shows "\<exists>c' rs. handleDeleteBatch P c ds = Inr (c', rs) \<and> same_ctx c c' \<and> ctx_ok P C base c' \<and>
    table C c' = fold (\<lambda>d T. abs_delete T d) ds (table C c)"
  using assms(2,3)
proof (induction ds arbitrary: c)
  case (Cons d ds)
  obtain c1 r where c1: "handleDelete P c d = Inr (c1, r)" "same_ctx c c1" "ctx_ok P C base c1"
    "table C c1 = abs_delete (table C c) d"
    using handleDelete_ok [OF ok Cons.prems(1), of d] Cons.prems(2) by (metis list.set_intros(1))
  obtain c' rs where "handleDeleteBatch P c1 ds = Inr (c', rs)" "same_ctx c1 c'" "ctx_ok P C base c'"
    "table C c' = fold (\<lambda>d T. abs_delete T d) ds (table C c1)"
    using Cons.IH [OF c1(3)] Cons.prems(2) by auto
  with c1 show ?case by (auto intro: same_ctx_trans)
qed simp

lemma handleTxnOps_ok:
  assumes ok: "pebble_ok P C base" and "ctx_ok P C base c" "readable P (RBatch (uc_batch c))" "\<forall>op \<in> set ops. op_ok op"
  shows "\<exists>c' rs. handleTxnOps P c ops = Inr (c', rs) \<and> same_ctx c c' \<and> ctx_ok P C base c' \<and>
    table C c' = fold abs_op ops (table C c)"
  using assms(2,3,4)
proof (induction ops arbitrary: c)
  case (Cons op ops)
  let ?step = "case op of
         RequestRange r \<Rightarrow> bind_res (lookup P (RBatch (uc_batch c)) r) (\<lambda>response. Inr (c, [ResponseRange response]))
       | RequestPut p \<Rightarrow> bind_res (handlePut P c p) (\<lambda>(ctx, response). Inr (ctx, [ResponsePut response]))
       | RequestDeleteRange d \<Rightarrow>
           bind_res (handleDelete P c d) (\<lambda>(ctx, response). Inr (ctx, [ResponseDeleteRange response]))
       | RequestUnset \<Rightarrow> Inr (c, [])"
  have o: "op_ok op" using Cons.prems(3) by simp
  have "\<exists>c1 r. ?step = Inr (c1, r) \<and> same_ctx c c1 \<and> ctx_ok P C base c1 \<and>
      readable P (RBatch (uc_batch c1)) \<and> table C c1 = abs_op op (table C c)"
  proof (cases op)
    case (RequestRange req)
    then show ?thesis using lookup_total [OF ok Cons.prems(2,1)] o Cons.prems(1,2) by fastforce
  next
    case (RequestPut p)
    then have "user_key (pr_Key p)" using o by simp
    from handlePut_ok [OF ok Cons.prems(1) this] obtain c1 where "handlePut P c p = Inr (c1, if pr_PrevKv p
      then map_option (\<lambda>v. \<lparr>kv_Key = pr_Key p, kv_Value = v\<rparr>) (table C c (pr_Key p)) else None)"
      "same_ctx c c1" "ctx_ok P C base c1"
      "table C c1 = (table C c)(pr_Key p := if isTombstone (pr_Value p) then None else Some (pr_Value p))"
      "readable P (RBatch (uc_batch c)) \<longrightarrow> readable P (RBatch (uc_batch c1))" .
    then show ?thesis using RequestPut Cons.prems(2) by (simp add: abs_put_def)
  next
    case (RequestDeleteRange d)
    then have "del_ok d" using o by simp
    from handleDelete_ok [OF ok Cons.prems(1) this] show ?thesis using RequestDeleteRange by auto
  next
    case RequestUnset
    then show ?thesis using Cons.prems by simp
  qed
  then obtain c1 r where c1: "?step = Inr (c1, r)" "same_ctx c c1" "ctx_ok P C base c1"
    "readable P (RBatch (uc_batch c1))" "table C c1 = abs_op op (table C c)" by blast
  obtain c' rs where c': "handleTxnOps P c1 ops = Inr (c', rs)" "same_ctx c1 c'" "ctx_ok P C base c'"
    "table C c' = fold abs_op ops (table C c1)"
    using Cons.IH [OF c1(3,4)] Cons.prems(3) by auto
  have "handleTxnOps P c (op # ops) = Inr (c', r @ rs)"
    unfolding handleTxnOps.simps c1(1) by (simp add: c'(1))
  then show ?case using c1 c' by (auto intro: same_ctx_trans)
qed simp

lemma txnCompare_ok:
  assumes ok: "pebble_ok P C base" "readable P (RBatch (uc_batch c))" "ctx_ok P C base c"
    and "\<forall>cmp \<in> set cmps. user_key (cp_Key cmp) \<and> cp_RangeEnd cmp = None"
  shows "txnCompare P (RBatch (uc_batch c)) cmps = Inr (\<forall>cmp \<in> set cmps. abs_compare (table C c) cmp)"
  using assms(4)
proof (induction cmps)
  case (Cons cmp cmps)
  let ?m = "C (RBatch (uc_batch c))"
  have k: "user_key (cp_Key cmp)" "cp_RangeEnd cmp = None" using Cons.prems by auto
  obtain xs where xs: "pb_NewIter P (RBatch (uc_batch c)) no_options = Inr xs" "iter_ok ?m no_options xs"
    using pebble_iter [OF ok(1,2)] .
  have st: "store_ok ?m" using ok(3) by (simp add: ctx_ok_def)
  note s = SeekPrefix_newest [OF st xs(2) k(1)]
  have "compare_one P (RBatch (uc_batch c)) cmp = Inr (abs_compare (table C c) cmp)"
  proof (cases "it_SeekPrefixGE xs (ukey (cp_Key cmp) (- 1))")
    case Nil
    with s have "visible ?m (cp_Key cmp) = None" by (intro visible_no_version) simp
    with Nil k show ?thesis by (simp add: compare_one_def xs(1) abs_compare_def table_def)
  next
    case (Cons a ys)
    obtain p v where a: "a = (p, v)" by fastforce
    with s Cons obtain s' where "is_newest ?m (cp_Key cmp) s' v" by auto
    note v = visible_newest [OF this]
    show ?thesis using Cons a k by (simp add: compare_one_def xs(1) abs_compare_def table_def v)
  qed
  with Cons show ?case by simp
qed simp


lemma sys_not_user: "physical_key TypeSystem k s \<noteq> ukey k' s'"
  using type_less [of k' s' k s] by auto

text \<open>Writing a system key leaves the visible table alone.\<close>

lemma batch_set_system:
  assumes ok: "pebble_ok P C base" and c: "ctx_ok P C base c" and k: "k \<noteq> []" "0 \<notin> set k"
  obtains c' where "batch_set P c (physical_key TypeSystem k s) v = Inr c'" "same_ctx c c'" "ctx_ok P C base c'"
    "table C c' = table C c" "C (RBatch (uc_batch c')) = (C (RBatch (uc_batch c)))(physical_key TypeSystem k s \<mapsto> v)"
proof -
  let ?p = "physical_key TypeSystem k s" let ?m = "C (RBatch (uc_batch c))"
  obtain b where b: "pb_Set P (uc_batch c) ?p v = Inr b" "C (RBatch b) = ?m(?p \<mapsto> v)" "base b = base (uc_batch c)"
    using ok unfolding pebble_ok_def by metis
  let ?c = "c\<lparr>uc_batch := b\<rparr>"
  have s: "same_ctx c ?c" by (simp add: same_ctx_def)
  have c2: "base (uc_batch c) = uc_db c" "store_ok ?m" "\<And>k s. ?m (ukey k s) \<noteq> None \<Longrightarrow> s \<le> uc_seqno c"
    using c by (simp_all add: ctx_ok_def)
  have u: "(?m(?p \<mapsto> v)) (ukey k' s') = ?m (ukey k' s')" for k' s' using sys_not_user [of k s k' s'] by simp
  have "store_ok (?m(?p \<mapsto> v))" using c2(2) k unfolding store_ok_def by (metis fun_upd_apply)
  then have "ctx_ok P C base ?c" using c2 same_ctx_seqno [OF s] b u by (simp add: ctx_ok_def)
  moreover have "visible (?m(?p \<mapsto> v)) k' = visible ?m k'" for k' by (rule visible_cong) (rule u)
  then have "table C ?c = table C c" by (intro ext) (simp add: table_def b(2))
  ultimately show ?thesis using s b by (intro that [of ?c]) (simp_all add: batch_set_def)
qed

lemma fold_map_args: "fold f (map g xs) s = fold (\<lambda>x. f (g x)) xs s"
  by (induction xs arbitrary: s) auto

lemma handle_ok:
  assumes ok: "pebble_ok P C base" and c: "ctx_ok P C base c" and cmd: "cmd_ok cmd"
  shows "\<exists>c' r res. handle P c cmd = Inr (c', r, res) \<and> same_ctx c c' \<and> ctx_ok P C base c' \<and>
    table C c' = abs_cmd cmd (table C c) \<and> cr_Revision res = uc_seqno c"
proof -
  obtain tb ty kv li bt tx re pk sq ct where cmd_eq: "cmd = Command tb ty kv li bt tx re pk sq ct" by (cases cmd)
  note unf = cmd_eq handle.simps abs_cmd_def cmd_ok_def
  show ?thesis
  proof (cases ty)
    case PUT
    then obtain kv' where kv: "kv = Some kv'" "user_key (kv_Key kv')" using cmd by (auto simp: unf split: option.splits)
    let ?p = "\<lparr>pr_Key = kv_Key kv', pr_Value = kv_Value kv', pr_PrevKv = pk\<rparr>"
    obtain c' where "handlePut P c ?p = Inr (c', if pr_PrevKv ?p
        then map_option (\<lambda>v. \<lparr>kv_Key = pr_Key ?p, kv_Value = v\<rparr>) (table C c (pr_Key ?p)) else None)"
      "same_ctx c c'" "ctx_ok P C base c'"
      "table C c' = (table C c)(pr_Key ?p := if isTombstone (pr_Value ?p) then None else Some (pr_Value ?p))"
      using handlePut_ok [OF ok c, of ?p] kv(2) by auto
    then show ?thesis using PUT kv same_ctx_seqno by (fastforce simp: unf abs_put_def)
  next
    case DELETE
    then obtain kv' where kv: "kv = Some kv'"
      "del_ok \<lparr>dr_Key = kv_Key kv', dr_RangeEnd = re, dr_PrevKv = pk, dr_Count = ct\<rparr>"
      using cmd by (auto simp: unf split: option.splits)
    from handleDelete_ok [OF ok c kv(2)] show ?thesis using DELETE kv(1) same_ctx_seqno by (fastforce simp: unf)
  next
    case PUT_BATCH
    let ?ps = "map (\<lambda>kv. \<lparr>pr_Key = kv_Key kv, pr_Value = kv_Value kv, pr_PrevKv = False\<rparr>) bt"
    have "\<forall>p \<in> set ?ps. user_key (pr_Key p)" using cmd PUT_BATCH by (auto simp: unf)
    from handlePutBatch_ok [OF ok c this] show ?thesis
      using PUT_BATCH same_ctx_seqno by (fastforce simp: unf fold_map_args)
  next
    case DELETE_BATCH
    let ?ds = "map (\<lambda>kv. \<lparr>dr_Key = kv_Key kv, dr_RangeEnd = None, dr_PrevKv = False, dr_Count = False\<rparr>) bt"
    have "\<forall>d \<in> set ?ds. del_ok d" using cmd DELETE_BATCH by (auto simp: unf del_ok_def)
    from handleDeleteBatch_ok [OF ok c this] show ?thesis
      using DELETE_BATCH same_ctx_seqno by (fastforce simp: unf fold_map_args abs_delete_def)
  next
    case TXN
    then obtain t where t: "tx = Some t" "\<forall>cmp \<in> set (tx_Compare t). user_key (cp_Key cmp) \<and> cp_RangeEnd cmp = None"
      "\<forall>op \<in> set (tx_Success t). op_ok op" "\<forall>op \<in> set (tx_Failure t). op_ok op"
      using cmd by (auto simp: unf split: option.splits)
    obtain c1 where c1: "EnsureIndexed P c = Inr c1" "readable P (RBatch (uc_batch c1))" "same_ctx c c1"
      "C (RBatch (uc_batch c1)) = C (RBatch (uc_batch c))" "ctx_ok P C base c1" "table C c1 = table C c"
      using EnsureIndexed_ok [OF ok c] .
    let ?b = "\<forall>cmp \<in> set (tx_Compare t). abs_compare (table C c) cmp"
    let ?ops = "if ?b then tx_Success t else tx_Failure t"
    have cmp: "txnCompare P (RBatch (uc_batch c1)) (tx_Compare t) = Inr ?b"
      using txnCompare_ok [OF ok c1(2,5) t(2)] c1(6) by simp
    have "\<forall>op \<in> set ?ops. op_ok op" using t(3,4) by simp
    from handleTxnOps_ok [OF ok c1(5,2) this] obtain c' rs where c': "handleTxnOps P c1 ?ops = Inr (c', rs)"
      "same_ctx c1 c'" "ctx_ok P C base c'" "table C c' = fold abs_op ?ops (table C c1)" by blast
    have "handleTxn P c t = Inr (c', ?b, rs)"
      unfolding handleTxn_def by (simp add: c1(1) cmp c'(1) del: bind_res_eq_Inr)
    moreover have "same_ctx c c'" using c1(3) c'(2) by (rule same_ctx_trans)
    ultimately show ?thesis using TXN t(1) c' c1(6) same_ctx_seqno [of c c']
      by (simp add: unf Let_def)
  next
    case DUMMY
    then show ?thesis using c by (simp add: unf)
  next
    case GC
    obtain c' where "batch_set P c sysGCHorizon (le_PutUint64 (uc_seqno c)) = Inr c'" "same_ctx c c'"
      "ctx_ok P C base c'" "table C c' = table C c"
      unfolding sysGCHorizon_def by (rule batch_set_system [OF ok c]) auto
    then show ?thesis using GC same_ctx_seqno by (fastforce simp: unf)
  qed (use cmd in \<open>simp_all add: unf\<close>)
qed

section \<open>A batch of entries\<close>

definition entry_seqno :: "smEntry \<Rightarrow> Command \<Rightarrow> u64" where
  "entry_seqno e cmd = (case cm_LeaderIndex cmd of Some l \<Rightarrow> l | None \<Rightarrow> sme_Index e)"

lemma ctx_ok_advance:
  assumes "ctx_ok P C base c" "uc_batch c' = uc_batch c" "uc_db c' = uc_db c" "uc_seqno c \<le> uc_seqno c'"
  shows "ctx_ok P C base c'"
  using assms unfolding ctx_ok_def by (metis order.trans)

lemma update_loop_ok:
  assumes ok: "pebble_ok P C base"
    and "\<forall>(e, cmd) \<in> set ecs. unmarshal (sme_Cmd e) = Inr cmd \<and> cmd_ok cmd"
    and "ctx_ok P C base c" "sorted (uc_seqno c # map (\<lambda>(e, cmd). entry_seqno e cmd) ecs)"
  shows "\<exists>c' g rs. update_loop P unmarshal c gc (map fst ecs) = Inr (c', g, rs) \<and> ctx_ok P C base c' \<and>
    uc_db c' = uc_db c \<and> length rs = length ecs \<and>
    table C c' = fold abs_cmd (map snd ecs) (table C c) \<and>
    (ecs \<noteq> [] \<longrightarrow> uc_index c' = sme_Index (fst (last ecs)) \<and> uc_leaderIndex c' = cm_LeaderIndex (snd (last ecs)))"
  using assms(2,3,4)
proof (induction ecs arbitrary: c gc)
  case (Cons ec ecs)
  obtain e cmd where ec: "ec = (e, cmd)" by fastforce
  have p: "unmarshal (sme_Cmd e) = Inr cmd" "cmd_ok cmd" using Cons.prems(1) by (auto simp: ec)
  let ?c = "c\<lparr>uc_index := sme_Index e, uc_leaderIndex := cm_LeaderIndex cmd\<rparr>"
  have sq: "uc_seqno ?c = entry_seqno e cmd" by (simp add: uc_seqno_def entry_seqno_def split: option.split)
  have "ctx_ok P C base ?c"
    by (rule ctx_ok_advance [OF Cons.prems(2)]) (use Cons.prems(3) sq in \<open>simp_all add: ec\<close>)
  from handle_ok [OF ok this p(2)] obtain c1 r res where c1: "handle P ?c cmd = Inr (c1, r, res)" "same_ctx ?c c1"
    "ctx_ok P C base c1" "table C c1 = abs_cmd cmd (table C ?c)" by blast
  have tc: "table C ?c = table C c" by (rule ext) (simp add: table_def)
  let ?gc = "if r = ResultGC then cr_Revision res else gc"
  have pr: "\<forall>(e, cmd) \<in> set ecs. unmarshal (sme_Cmd e) = Inr cmd \<and> cmd_ok cmd" using Cons.prems(1) by simp
  have srt: "sorted (uc_seqno c1 # map (\<lambda>(e, cmd). entry_seqno e cmd) ecs)"
    using Cons.prems(3) same_ctx_seqno [OF c1(2)] sq by (auto simp: ec)
  obtain c' g rs where c': "update_loop P unmarshal c1 ?gc (map fst ecs) = Inr (c', g, rs)"
    "ctx_ok P C base c'" "uc_db c' = uc_db c1" "length rs = length ecs"
    "table C c' = fold abs_cmd (map snd ecs) (table C c1)"
    "ecs \<noteq> [] \<longrightarrow> uc_index c' = sme_Index (fst (last ecs)) \<and> uc_leaderIndex c' = cm_LeaderIndex (snd (last ecs))"
    using Cons.IH [OF pr c1(3) srt, of ?gc] by (elim exE conjE) (rule that)
  have u: "update_loop P unmarshal c gc (map fst (ec # ecs)) = Inr (c', g, (r, res) # rs)"
    using c'(1) by (simp add: ec parseCommand_def p(1) c1(1) del: bind_res_eq_Inr)
  have "ecs = [] \<longrightarrow> c' = c1" using c'(1) by auto
  then have "uc_index c' = sme_Index (fst (last (ec # ecs))) \<and> uc_leaderIndex c' = cm_LeaderIndex (snd (last (ec # ecs)))"
    using c'(6) c1(2) by (auto simp: ec same_ctx_def)
  moreover have "table C c' = fold abs_cmd (map snd (ec # ecs)) (table C c)" using c'(5) c1(4) tc by (simp add: ec)
  moreover have "uc_db c' = uc_db c" "length ((r, res) # rs) = length (ec # ecs)" using c'(3,4) c1(2) by (simp_all add: same_ctx_def)
  ultimately show ?case unfolding u using c'(2) by blast
qed simp

definition db_table :: "(('db, 'b) reader \<Rightarrow> store) \<Rightarrow> 'db \<Rightarrow> bytes \<Rightarrow> bytes option" where
  "db_table C d k = (if user_key k then visible (C (RDB d)) k else None)"

definition fsm_ok :: "(('db, 'b) reader \<Rightarrow> store) \<Rightarrow> 'db \<Rightarrow> u64 \<Rightarrow> bool" where
  "fsm_ok C d n \<longleftrightarrow> store_ok (C (RDB d)) \<and> (\<forall>k s. C (RDB d) (ukey k s) \<noteq> None \<longrightarrow> s \<le> n)"


lemma Uint64_le: "Uint64 (rev (take 8 (le_PutUint64 v))) = v"
  by (simp add: le_PutUint64_def)

lemma commit_ok:
  assumes ok: "pebble_ok P C base" and c: "ctx_ok P C base c"
  shows "\<exists>d. ctx_Commit P c = Inr d \<and> fsm_ok C d (uc_seqno c) \<and> db_table C d = table C c \<and>
    readLocalIndex P (RDB d) sysLocalIndex = Inr (uc_index c)"
proof -
  have ne: "[105, 110, 100, 101, 120] \<noteq> ([] :: bytes)" "0 \<notin> set ([105, 110, 100, 101, 120] :: bytes)"
    "[108, 101, 97, 100, 101, 114, 95, 105, 110, 100, 101, 120] \<noteq> ([] :: bytes)"
    "0 \<notin> set ([108, 101, 97, 100, 101, 114, 95, 105, 110, 100, 101, 120] :: bytes)"
    by simp_all
  have "\<exists>c1. (case uc_leaderIndex c of Some l \<Rightarrow> batch_set P c sysLeaderIndex (le_PutUint64 l) | None \<Rightarrow> Inr c) = Inr c1 \<and>
      same_ctx c c1 \<and> ctx_ok P C base c1 \<and> table C c1 = table C c"
  proof (cases "uc_leaderIndex c")
    case (Some l)
    then show ?thesis unfolding sysLeaderIndex_def
      using batch_set_system [OF ok c ne(3,4), of 0 "le_PutUint64 l"] by auto
  qed (use c in simp)
  then obtain c1 where c1: "(case uc_leaderIndex c of Some l \<Rightarrow> batch_set P c sysLeaderIndex (le_PutUint64 l) | None \<Rightarrow> Inr c) = Inr c1"
    "same_ctx c c1" "ctx_ok P C base c1" "table C c1 = table C c" by blast
  obtain c2 where c2: "batch_set P c1 sysLocalIndex (le_PutUint64 (uc_index c1)) = Inr c2" "same_ctx c1 c2"
    "ctx_ok P C base c2" "table C c2 = table C c1"
    "C (RBatch (uc_batch c2)) = (C (RBatch (uc_batch c1)))(sysLocalIndex \<mapsto> le_PutUint64 (uc_index c1))"
    unfolding sysLocalIndex_def by (rule batch_set_system [OF ok c1(3) ne(1,2)])
  obtain d where d: "pb_Commit P (uc_batch c2) (base (uc_batch c2)) = Inr d" "C (RDB d) = C (RBatch (uc_batch c2))"
    using ok unfolding pebble_ok_def by metis
  have b: "base (uc_batch c2) = uc_db c2" using c2(3) by (simp add: ctx_ok_def)
  have sq: "uc_seqno c2 = uc_seqno c" "uc_index c1 = uc_index c"
    using same_ctx_seqno [OF c1(2)] same_ctx_seqno [OF c2(2)] c1(2) by (simp_all add: same_ctx_def)
  have "ctx_Commit P c = Inr d"
    unfolding ctx_Commit_def c1(1) using c2(1) d(1) b by (simp del: bind_res_eq_Inr)
  moreover have "fsm_ok C d (uc_seqno c)" using c2(3) sq(1) by (simp add: fsm_ok_def ctx_ok_def d(2))
  moreover have "db_table C d = table C c2" by (rule ext) (simp add: db_table_def table_def d(2))
  then have "db_table C d = table C c" using c2(4) c1(4) by simp
  moreover have "pb_Get P (RDB d) sysLocalIndex = Inr (Some (le_PutUint64 (uc_index c)))"
  proof -
    have "readable P (RDB d)" by (simp add: readable_def)
    then have "pb_Get P (RDB d) sysLocalIndex = Inr (C (RDB d) sysLocalIndex)"
      using ok unfolding pebble_ok_def by blast
    then show ?thesis by (simp add: d(2) c2(5) sq(2))
  qed
  then have "readLocalIndex P (RDB d) sysLocalIndex = Inr (uc_index c)"
    using Uint64_le [of "uc_index c"] by (simp add: readLocalIndex_def le_PutUint64_def)
  ultimately show ?thesis by blast
qed


section \<open>An engine in memory\<close>

type_synonym membatch = "kvs \<times> kvs \<times> bool"

definition mem_iter :: "kvs \<Rightarrow> IterOptions \<Rightarrow> kvs" where
  "mem_iter d o' = map (\<lambda>k. (k, the (map_of d k))) (filter (in_bounds o') (sort (remdups (map fst d))))"

definition mem_pebble :: "(kvs, membatch) pebble" where
  "mem_pebble =
     \<lparr>pb_NewBatch = (\<lambda>d. (d, d, False)), pb_NewIndexedBatch = (\<lambda>d. (d, d, True)),
      pb_Indexed = (\<lambda>(_, _, i). i), pb_Apply = (\<lambda>(d, _, i) (_, m, _). Inr (d, m, i)),
      pb_Set = (\<lambda>(d, m, i) k v. Inr (d, (k, v) # m, i)),
      pb_DeleteRange = (\<lambda>(d, m, i) lo hi. Inr (d, filter (\<lambda>(k, _). \<not> (lo \<le> k \<and> k < hi)) m, i)),
      pb_Commit = (\<lambda>(_, m, _) _. Inr m), pb_Close = (\<lambda>_. Inr ()),
      pb_Count = (\<lambda>(d, m, _). if d = m then 0 else 1), pb_Len = (\<lambda>(_, m, _). length m),
      pb_Get = (\<lambda>r k. Inr (case r of RDB d \<Rightarrow> map_of d k | RBatch (_, m, _) \<Rightarrow> map_of m k)),
      pb_NewIter = (\<lambda>r o'. case r of RDB d \<Rightarrow> Inr (mem_iter d o')
        | RBatch (_, m, i) \<Rightarrow> if i then Inr (mem_iter m o') else Inl (ErrOther ''pebble: not indexed''))\<rparr>"

definition mem_contents :: "(kvs, membatch) reader \<Rightarrow> store" where
  "mem_contents r = (case r of RDB d \<Rightarrow> map_of d | RBatch (_, m, _) \<Rightarrow> map_of m)"

lemma mem_iter_ok: "iter_ok (map_of d) o' (mem_iter d o')"
proof -
  let ?ks = "filter (in_bounds o') (sort (remdups (map fst d)))"
  have "sorted_wrt (<) ?ks"
    by (auto simp: strict_sorted_iff intro: sorted_wrt_filter)
  then have "sorted_wrt (<) (map fst (mem_iter d o'))" by (simp add: mem_iter_def comp_def)
  moreover have "(k, v) \<in> set (mem_iter d o') \<longleftrightarrow> map_of d k = Some v \<and> in_bounds o' k" for k v
  proof -
    have "k \<in> set ?ks \<longleftrightarrow> map_of d k \<noteq> None \<and> in_bounds o' k" by (auto simp: map_of_eq_None_iff)
    moreover have "(k, v) \<in> set (mem_iter d o') \<longleftrightarrow> k \<in> set ?ks \<and> v = the (map_of d k)"
      unfolding mem_iter_def set_map by blast
    ultimately show ?thesis by auto
  qed
  ultimately show ?thesis by (simp add: iter_ok_def)
qed

lemma map_of_filter_key: "map_of (filter (\<lambda>(k, _). Q k) m) k = (if Q k then map_of m k else None)"
  by (induction m) auto

lemma mem_pebble_ok: "pebble_ok mem_pebble mem_contents fst"
  unfolding pebble_ok_def
  by (auto simp: mem_pebble_def mem_contents_def readable_def mem_iter_ok map_of_filter_key fun_eq_iff
      split: reader.split if_splits)

definition demo_db :: kvs where
  "demo_db = [(ukey [97] 3, [5]), (ukey [97] 2, [7]), (ukey [97] 1, [0]), (ukey [98] 4, [0]), (ukey [98] 1, [9])]"

lemma demo_contents: "mem_contents (RDB demo_db) (ukey k s) =
    (if k = [97] then if s = 3 then Some [5] else if s = 2 then Some [7] else if s = 1 then Some [0] else None
     else if k = [98] then if s = 4 then Some [0] else if s = 1 then Some [9] else None else None)"
  if "user_key k"
  using that by (auto simp: mem_contents_def demo_db_def physical_key_inj user_key_def)

lemma demo_user: "user_key [97]" "user_key [98]"
  by (simp_all add: user_key_def key_consts)

lemma demo_store: "store_ok (mem_contents (RDB demo_db))"
  using demo_user by (auto simp: store_ok_def mem_contents_def demo_db_def split: if_splits)

lemma demo_newest:
  "is_newest (mem_contents (RDB demo_db)) [97] 3 [5]" "is_newest (mem_contents (RDB demo_db)) [98] 4 [0]"
  using demo_user by (auto simp: is_newest_def demo_contents)

lemma demo_table: "db_table mem_contents demo_db [97] = Some [5]" "db_table mem_contents demo_db [98] = None"
  using demo_newest [THEN visible_newest] demo_user by (simp_all add: db_table_def isTombstone_def tombstoneValue_def)

lemma demo_other: "db_table mem_contents demo_db k = None" if "k \<noteq> [97]" "k \<noteq> [98]"
  using that by (simp add: db_table_def visible_def demo_contents)

lemma demo_keys: "s \<le> 4" if "mem_contents (RDB demo_db) (ukey k s) \<noteq> None"
proof -
  have "ukey k s \<in> fst ` set demo_db" using that by (force simp: mem_contents_def dest!: map_of_SomeD)
  then show ?thesis by (auto simp: demo_db_def dest!: ukey_seqno_inj)
qed

lemma demo_index: "readLocalIndex mem_pebble (RDB demo_db) sysLocalIndex = Inr 0"
  "readLocalIndex mem_pebble (RDB demo_db) sysGCHorizon = Inr 0"
  by (simp_all add: readLocalIndex_def mem_pebble_def demo_db_def sysLocalIndex_def sysGCHorizon_def sys_not_user)


end
