(* ===== verification/MvccGC.thy ===== *)
theory MvccGC
  imports MvccRefine
begin

text \<open>
  Garbage collection is safe: a sweep removes only versions below the horizon that a newer version
  hides, or whole deleted keys, and it never changes the visible table. The iterator of the sweep may
  skip versions at or above the horizon (a block property filter), so the sweep does not see every
  newer version; the invariant below shows that this only makes it keep more.
\<close>

section \<open>What a sweep may remove\<close>

definition may_go :: "store \<Rightarrow> u64 \<Rightarrow> bytes \<Rightarrow> u64 \<Rightarrow> bool" where
  "may_go m g k s \<longleftrightarrow> s < g \<and>
     ((\<exists>s'. s < s' \<and> m (ukey k s') \<noteq> None) \<or> (\<exists>v. is_newest m k s v \<and> isTombstone v))"

definition collected :: "store \<Rightarrow> u64 \<Rightarrow> store \<Rightarrow> bool" where
  "collected m g m' \<longleftrightarrow>
     (\<forall>p. m' p \<noteq> m p \<longrightarrow> m' p = None \<and> (\<exists>k s. p = ukey k s \<and> user_key k \<and> may_go m g k s)) \<and>
     (\<forall>k s s'. user_key k \<longrightarrow> m (ukey k s) \<noteq> None \<longrightarrow> m' (ukey k s) = None \<longrightarrow> s' \<le> s \<longrightarrow> m' (ukey k s') = None)"

lemma collected_refl: "collected m g m"
  by (auto simp: collected_def)

lemma collected_version:
  assumes "collected m g m'" "user_key k"
  shows "m' (ukey k s) = m (ukey k s) \<or> m' (ukey k s) = None \<and> may_go m g k s"
proof (cases "m' (ukey k s) = m (ukey k s)")
  case False
  then obtain k' s' where "m' (ukey k s) = None" "ukey k s = ukey k' s'" "user_key k'" "may_go m g k' s'"
    using assms(1) unfolding collected_def by blast
  then show ?thesis using assms(2) by (auto simp: physical_key_inj user_key_def)
qed simp

lemma collected_visible:
  assumes c: "collected m g m'" and k: "user_key k"
  shows "visible m' k = visible m k"
proof (cases rule: newest_cases [of m k])
  case none
  then have "m' (ukey k s) = None" for s using collected_version [OF c k, of s] by auto
  with none show ?thesis by (simp add: visible_no_version)
next
  case (newest s v)
  have above: "m' (ukey k s') = None" if "s < s'" for s'
    using collected_version [OF c k, of s'] newest that by (auto simp: is_newest_def)
  show ?thesis
  proof (cases "m' (ukey k s) = None")
    case True
    moreover have "m (ukey k s) \<noteq> None" using newest by (simp add: is_newest_def)
    ultimately have gone: "m' (ukey k s') = None" if "s' \<le> s" for s'
      using c k that unfolding collected_def by blast
    have "m' (ukey k s') = None" for s' using gone [of s'] above [of s'] by (cases "s < s'") auto
    then have v': "visible m' k = None" by (rule visible_no_version)
    have "may_go m g k s"
      using collected_version [OF c k, of s] True newest by (auto simp: is_newest_def)
    then consider s' where "s < s'" "m (ukey k s') \<noteq> None" | v1 where "is_newest m k s v1" "isTombstone v1"
      unfolding may_go_def by blast
    then have "isTombstone v"
    proof cases
      case 1
      then show ?thesis using newest by (simp add: is_newest_def)
    next
      case 2
      then show ?thesis using is_newest_unique(2) [OF newest 2(1)] by simp
    qed
    then show ?thesis using v' visible_newest [OF newest] by simp
  next
    case False
    then have "m' (ukey k s) = Some v" using collected_version [OF c k, of s] newest by (auto simp: is_newest_def)
    then have "is_newest m' k s v" using above by (simp add: is_newest_def)
    then show ?thesis using visible_newest newest by metis
  qed
qed

lemma collected_keeps:
  assumes "collected m g m'" "user_key k" "g \<le> s"
  shows "m' (ukey k s) = m (ukey k s)"
  using collected_version [OF assms(1,2), of s] assms(3) by (auto simp: may_go_def)

text \<open>Deleting every version of a key up to one that may go.\<close>

lemma collected_delete:
  assumes c: "collected m g m'" and k: "user_key k"
    and go: "\<And>s'. s' \<le> s \<Longrightarrow> m (ukey k s') \<noteq> None \<Longrightarrow> may_go m g k s'"
    and m'': "\<And>p. m'' p = (if \<exists>s'. s' \<le> s \<and> p = ukey k s' then None else m' p)"
  shows "collected m g m''"
  unfolding collected_def
proof (intro conjI allI impI)
  fix p assume d: "m'' p \<noteq> m p"
  show "m'' p = None"
  proof (cases "\<exists>s'. s' \<le> s \<and> p = ukey k s'")
    case False
    then show ?thesis using d c unfolding m'' collected_def by metis
  qed (simp add: m'')
  show "\<exists>k s. p = ukey k s \<and> user_key k \<and> may_go m g k s"
  proof (cases "\<exists>s'. s' \<le> s \<and> p = ukey k s'")
    case True
    then obtain s' where s': "s' \<le> s" "p = ukey k s'" by blast
    then have "m p \<noteq> None" using d True by (simp add: m'')
    with go [OF s'(1)] s' k show ?thesis by blast
  next
    case False
    then show ?thesis using d c unfolding m'' collected_def by metis
  qed
next
  fix k0 s0 s1
  assume a: "user_key k0" "m (ukey k0 s0) \<noteq> None" "m'' (ukey k0 s0) = None" "s1 \<le> s0"
  have inj: "(\<exists>s'. s' \<le> s \<and> ukey k0 t = ukey k s') \<longleftrightarrow> k0 = k \<and> t \<le> s" for t
    using a(1) k by (auto simp: physical_key_inj user_key_def)
  show "m'' (ukey k0 s1) = None"
  proof (cases "k0 = k \<and> s0 \<le> s")
    case True
    then have "k0 = k \<and> s1 \<le> s" using a(4) by auto
    then show ?thesis unfolding m'' inj by simp
  next
    case False
    then have "m' (ukey k0 s0) = None" using a(3) unfolding m'' inj by (auto split: if_splits)
    then have "m' (ukey k0 s1) = None" using c a(1,2,4) unfolding collected_def by blast
    then show ?thesis unfolding m'' by simp
  qed
qed

section \<open>The range of one key\<close>

lemma upper_eq: "gcPrefixUpper (take (length (ukey k s) - V2SeqLen) (ukey k s)) = [2, 0, 0, 0, TypeUser] @ k @ [1]"
proof -
  have p: "ukey k s = ([2, 0, 0, 0, TypeUser] @ k @ [0]) @ stored_seqno s" by (simp add: physical_key_eq)
  have t: "take (length (a @ stored_seqno s) - 8) (a @ stored_seqno s) = a" for a by simp
  have "take (length (ukey k s) - V2SeqLen) (ukey k s) = [2, 0, 0, 0, TypeUser] @ k @ [0]"
    unfolding V2SeqLen_def p by (rule t)
  then show ?thesis by (simp add: gcPrefixUpper_def list_update_append)
qed

lemma below_upper:
  assumes "(0 :: byte) \<notin> set k'" "0 \<notin> set k"
  shows "k' @ 0 # a < k @ [1] \<longleftrightarrow> k' \<le> k"
  using assms
proof (induction k arbitrary: k')
  case Nil
  have "\<not> y < 1" if "y \<noteq> 0" for y :: byte
    using that by (simp add: word_less_nat_alt unat_eq_0)
  with Nil show ?case by (cases k') auto
next
  case (Cons x k)
  have x: "0 < x" using Cons.prems(2) by (simp add: word_neq_0_conv [symmetric])
  show ?case
  proof (cases k')
    case Nil
    with x show ?thesis by simp
  next
    case k': (Cons y ys)
    have "ys @ 0 # a < k @ [1] \<longleftrightarrow> ys \<le> k" using Cons.IH [of ys] Cons.prems k' by simp
    with k' show ?thesis by simp
  qed
qed

lemma ukey_below_upper:
  assumes "user_key k'" "user_key k"
  shows "ukey k' s' < [2, 0, 0, 0, TypeUser] @ k @ [1] \<longleftrightarrow> k' \<le> k"
  using below_upper [of k' k] assms by (simp add: physical_key_eq user_key_def)

lemma system_not_below_upper: "\<not> physical_key TypeSystem k' s' < [2, 0, 0, 0, TypeUser] @ k @ [1]"
  by (simp add: physical_key_eq key_consts)

lemma delete_range_effect:
  assumes "store_ok m'" "user_key k" "m' p \<noteq> None"
  shows "ukey k s \<le> p \<and> p < [2, 0, 0, 0, TypeUser] @ k @ [1] \<longleftrightarrow> (\<exists>s'. s' \<le> s \<and> p = ukey k s')"
proof -
  consider (user) k' s' where "p = ukey k' s'" "user_key k'" | (sys) k' s' where "p = physical_key TypeSystem k' s'"
    using assms(1,3) unfolding store_ok_def by blast
  then show ?thesis
  proof cases
    case user
    have z: "0 \<notin> set k" "0 \<notin> set k'" using assms(2) user(2) by (simp_all add: user_key_def)
    show ?thesis unfolding user(1) ukey_le [OF z] ukey_below_upper [OF user(2) assms(2)] physical_key_inj [OF z(2,1)]
      by auto
  next
    case sys
    then show ?thesis using system_not_below_upper sys_not_user by metis
  qed
qed

lemma increment_seqno:
  assumes "s \<noteq> 0"
  shows "incrementStoredSeqno (ukey k s) = ukey k (s - 1)"
proof -
  let ?a = "[2, 0, 0, 0, TypeUser] @ k @ [0]"
  have p: "ukey k s = ?a @ stored_seqno s" for s by (simp add: physical_key_eq)
  have td: "take (length (a @ stored_seqno s) - 8) (a @ stored_seqno s) = a"
    "drop (length (a @ stored_seqno s) - 8) (a @ stored_seqno s) = stored_seqno s" for a by simp_all
  have "Uint64 (stored_seqno s) = NOT s" for s
  proof -
    have "be_value (map (\<lambda>b. NOT b) bs) = 256 ^ length bs - 1 - be_value bs" for bs :: bytes
    proof (induction bs)
      case (Cons b bs)
      have "unat b * 256 ^ length bs \<le> 255 * 256 ^ length bs" using byte_lt [of b] by (intro mult_right_mono) auto
      then show ?case using Cons be_value_lt [of bs] by (simp add: unat_not_byte diff_mult_distrib)
    qed simp
    then have "be_value (stored_seqno s) = 2 ^ 64 - 1 - unat s"
      using u64_unat_lt [of s] by (simp add: stored_seqno_def PutUint64_def be_value_bytes)
    moreover have "of_nat (2 ^ 64 - 1 - unat s) = (- 1 - s :: u64)"
      using u64_unat_lt [of s] by (simp add: of_nat_diff)
    ultimately show ?thesis by (simp add: Uint64_def not_eq_complement)
  qed
  then have "PutUint64 (Uint64 (stored_seqno s) + 1) = stored_seqno (s - 1)"
    using Put_Uint64 [of "stored_seqno (s - 1)"] by (simp add: not_eq_complement)
  then show ?thesis unfolding incrementStoredSeqno_def Let_def V2SeqLen_def p td by simp
qed


section \<open>The sweep\<close>

lemma store_ok_collected: "store_ok m \<Longrightarrow> collected m g m' \<Longrightarrow> store_ok m'"
  unfolding store_ok_def collected_def by (metis option.distinct(1))

definition gc_ok :: "(('db, 'b) reader \<Rightarrow> store) \<Rightarrow> ('b \<Rightarrow> 'db) \<Rightarrow> store \<Rightarrow> u64 \<Rightarrow> 'db \<Rightarrow> 'b \<Rightarrow> bool" where
  "gc_ok C base m g db b \<longleftrightarrow> base b = db \<and> collected m g (C (RBatch b)) \<and> collected m g (C (RDB db))"

lemma commitBatch_ok:
  assumes ok: "pebble_ok P C base" and g: "gc_ok C base m g db b"
  shows "\<exists>db' b'. commitBatch P db b = Inr (db', b') \<and> gc_ok C base m g db' b' \<and> C (RDB db') = C (RBatch b)"
proof (cases "pb_Count P b = 0")
  case True
  then have "C (RBatch b) = C (RDB (base b))" using ok unfolding pebble_ok_def by blast
  with True g show ?thesis by (simp add: commitBatch_def gc_ok_def)
next
  case False
  obtain d where d: "pb_Commit P b db = Inr d" "C (RDB d) = C (RBatch b)"
    using ok g unfolding pebble_ok_def gc_ok_def by metis
  have "C (RBatch (pb_NewBatch P d)) = C (RDB d)" "base (pb_NewBatch P d) = d"
    using ok unfolding pebble_ok_def by blast+
  with False d g show ?thesis by (simp add: commitBatch_def gc_ok_def)
qed

lemma gc_delete:
  assumes ok: "pebble_ok P C base" and g: "gc_ok C base m g db b" and m: "store_ok m"
    and k: "user_key k" and v: "m (ukey k s) = Some v" "s < g" "s \<noteq> 0"
    and h: "h \<longrightarrow> (\<exists>s'. g \<le> s' \<and> m (ukey k s') \<noteq> None)"
  shows "\<exists>b'. pb_DeleteRange P b (if h \<or> isTombstone v then ukey k s else incrementStoredSeqno (ukey k s))
      ([2, 0, 0, 0, TypeUser] @ k @ [1]) = Inr b' \<and> gc_ok C base m g db b'"
proof -
  define t where "t = (if h \<or> isTombstone v then s else s - 1)"
  have lo: "(if h \<or> isTombstone v then ukey k s else incrementStoredSeqno (ukey k s)) = ukey k t"
    using v(3) by (simp add: t_def increment_seqno)
  have ts: "t \<le> s" "\<not> (h \<or> isTombstone v) \<longrightarrow> t < s"
    using v(3) by (auto simp: t_def word_le_nat_alt word_less_nat_alt unat_pred_u64 unat_gt_0)
  have c: "collected m g (C (RBatch b))" using g by (simp add: gc_ok_def)
  obtain b' where b': "pb_DeleteRange P b (ukey k t) ([2, 0, 0, 0, TypeUser] @ k @ [1]) = Inr b'" "base b' = base b"
    "C (RBatch b') = (\<lambda>p. if ukey k t \<le> p \<and> p < [2, 0, 0, 0, TypeUser] @ k @ [1] then None else C (RBatch b) p)"
    using ok unfolding pebble_ok_def by metis
  have eff: "C (RBatch b') p = (if \<exists>s'. s' \<le> t \<and> p = ukey k s' then None else C (RBatch b) p)" for p
    using delete_range_effect [OF store_ok_collected [OF m c] k, of p t]
    unfolding b'(3) by (cases "C (RBatch b) p") auto
  have "may_go m g k s'" if s': "s' \<le> t" "m (ukey k s') \<noteq> None" for s'
  proof -
    have lt: "s' < g" using s'(1) ts(1) v(2) by simp
    show ?thesis
    proof (cases "h \<or> s' < s")
      case True
      then have "\<exists>s''. s' < s'' \<and> m (ukey k s'') \<noteq> None" using h v(1) lt by (auto dest: order.strict_trans2)
      with lt show ?thesis by (simp add: may_go_def)
    next
      case False
      then have "s' = s" "isTombstone v" using s'(1) ts by auto
      then show ?thesis using lt v(1) by (auto simp: may_go_def is_newest_def)
    qed
  qed
  from collected_delete [OF c k this eff] have "collected m g (C (RBatch b'))" .
  with b' g show ?thesis unfolding lo by (simp add: gc_ok_def)
qed

lemma gc_loop_ok:
  assumes ok: "pebble_ok P C base" and m: "store_ok m" "\<And>k. m (ukey k 0) = None"
    and "cells_ok cs" "\<forall>(k, s, v) \<in> set cs. m (ukey k s) = Some v" "gc_ok C base m g db b"
    and "\<And>k. user_key k \<Longrightarrow> lp = [2, 0, 0, 0, TypeUser] @ k @ [0] \<Longrightarrow> h \<Longrightarrow> \<exists>s. g \<le> s \<and> m (ukey k s) \<noteq> None"
  shows "\<exists>db'. gc_loop P g (map cell_pair cs) lp h db b = (db', None) \<and> collected m g (C (RDB db'))"
  using assms(4-7)
proof (induction cs arbitrary: lp h db b rule: measure_induct_rule [where f = length])
  case (less cs)
  show ?case
  proof (cases cs)
    case Nil
    obtain db' b' where "commitBatch P db b = Inr (db', b')" "gc_ok C base m g db' b'"
      using commitBatch_ok [OF ok less.prems(3)] by blast
    then show ?thesis by (simp add: Nil gc_ok_def)
  next
    case (Cons c cs')
    obtain k s v where c: "c = (k, s, v)" by (cases c)
    let ?pre = "[2, 0, 0, 0, TypeUser] @ k @ [0]" let ?up = "[2, 0, 0, 0, TypeUser] @ k @ [1]"
    have cs: "cells_ok cs'" "user_key k" "m (ukey k s) = Some v" "\<forall>(k, s, v) \<in> set cs'. m (ukey k s) = Some v"
      using less.prems(1,2) by (auto simp: Cons c cells_ok_Cons)
    have s0: "s \<noteq> 0" using m(2) [of k] cs(3) by auto
    have mp: "map cell_pair cs = (ukey k s, v) # map cell_pair cs'" by (simp add: Cons c cell_pair_def)
    have pre: "take (length (ukey k s) - V2SeqLen) (ukey k s) = ?pre"
    proof -
      have t: "take (length (a @ stored_seqno s) - 8) (a @ stored_seqno s) = a" for a by simp
      have p: "ukey k s = ?pre @ stored_seqno s" by (simp add: physical_key_eq)
      show ?thesis unfolding V2SeqLen_def p by (rule t)
    qed
    have len: "\<not> length (ukey k s) < V2SeqLen" by (simp add: physical_key_eq key_consts)
    define h' where "h' = (if lp \<noteq> ?pre then False else h)"
    have h'ok: "h' \<longrightarrow> (\<exists>s'. g \<le> s' \<and> m (ukey k s') \<noteq> None)"
      using less.prems(4) [OF cs(2)] by (simp add: h'_def)
    have step: "gc_loop P g (map cell_pair cs) lp h db b =
        (if s \<ge> g then gc_loop P g (map cell_pair cs') ?pre True db b
         else case pb_DeleteRange P b (if h' \<or> isTombstone v then ukey k s else incrementStoredSeqno (ukey k s)) ?up of
             Inl e \<Rightarrow> (db, Some e)
           | Inr batch \<Rightarrow>
               (case (if pb_Len P batch \<ge> maxBatchSize then commitBatch P db batch else Inr (db, batch)) of
                  Inl e \<Rightarrow> (db, Some e)
                | Inr (db, batch) \<Rightarrow> gc_loop P g (it_SeekGE (map cell_pair cs') ?up) ?pre h' db batch))"
      unfolding mp gc_loop.simps DecodeBytes_physical sum.case Key.simps if_not_P [OF len] Let_def pre
        upper_eq [of k s, unfolded pre] h'_def [symmetric] by simp
    have preinj: "k' = k" if "?pre = [2, 0, 0, 0, TypeUser] @ k' @ [0]" for k' using that by simp
    show ?thesis
    proof (cases "s \<ge> g")
      case True
      have "\<exists>db'. gc_loop P g (map cell_pair cs') ?pre True db b = (db', None) \<and> collected m g (C (RDB db'))"
      proof (rule less.IH [OF _ cs(1,4) less.prems(3)])
        fix k' assume "?pre = [2, 0, 0, 0, TypeUser] @ k' @ [0]"
        then have "k' = k" by (rule preinj)
        then show "\<exists>s. g \<le> s \<and> m (ukey k' s) \<noteq> None" using True cs(3) by auto
      qed (simp add: Cons)
      with True step show ?thesis by simp
    next
      case False
      then have lt: "s < g" by simp
      obtain b1 where b1: "pb_DeleteRange P b (if h' \<or> isTombstone v then ukey k s else incrementStoredSeqno (ukey k s)) ?up = Inr b1"
        "gc_ok C base m g db b1" using gc_delete [OF ok less.prems(3) m(1) cs(2,3) lt s0 h'ok] by blast
      obtain db2 b2 where b2: "(if pb_Len P b1 \<ge> maxBatchSize then commitBatch P db b1 else Inr (db, b1)) = Inr (db2, b2)"
        "gc_ok C base m g db2 b2" using commitBatch_ok [OF ok b1(2)] b1(2) by (cases "pb_Len P b1 \<ge> maxBatchSize") auto
      define rest where "rest = dropWhile ((\<lambda>(k', _). k' < ?up) \<circ> cell_pair) cs'"
      have rest: "it_SeekGE (map cell_pair cs') ?up = map cell_pair rest"
        by (simp add: it_SeekGE_def dropWhile_map rest_def)
      have sub: "set rest \<subseteq> set cs'" by (auto simp: rest_def dest: set_dropWhileD)
      have "\<exists>db'. gc_loop P g (map cell_pair rest) ?pre h' db2 b2 = (db', None) \<and> collected m g (C (RDB db'))"
      proof (rule less.IH [OF _ _ _ b2(2)])
        show "length rest < length cs" by (simp add: Cons rest_def length_dropWhile_le le_imp_less_Suc)
        show "cells_ok rest" unfolding rest_def by (rule cells_ok_dropWhile [OF cs(1)])
        show "\<forall>(k, s, v) \<in> set rest. m (ukey k s) = Some v" using cs(4) sub by blast
        fix k' assume "?pre = [2, 0, 0, 0, TypeUser] @ k' @ [0]" "h'"
        then show "\<exists>s. g \<le> s \<and> m (ukey k' s) \<noteq> None" using preinj h'ok by blast
      qed
      then show ?thesis unfolding step rest using False b1(1) b2(1) by simp
    qed
  qed
qed



end
