(* ===== verification/MvccSnapshot.thy ===== *)
theory MvccSnapshot
  imports MvccRefine
begin

text \<open>
  Snapshots of a table as streams of commands. Replaying a full snapshot into an empty table gives the
  visible table back; replaying an incremental snapshot into a copy that agrees on every key unchanged
  since its base index gives the visible table as well.
\<close>

section \<open>The whole key space\<close>

lemma user_system_split:
  assumes "sorted_wrt (<) (map fst xs)"
    and "\<forall>(p, v) \<in> set xs. (\<exists>k s. p = ukey k s \<and> user_key k) \<or> (\<exists>k s. p = physical_key TypeSystem k s)"
  shows "\<exists>us sys. xs = us @ sys \<and> (\<forall>(p, v) \<in> set us. \<exists>k s. p = ukey k s \<and> user_key k) \<and>
    (\<forall>(p, v) \<in> set sys. \<exists>k s. p = physical_key TypeSystem k s)"
  using assms
proof (induction xs)
  case (Cons x xs)
  obtain p v where x: "x = (p, v)" by fastforce
  have srt: "sorted_wrt (<) (map fst xs)" using Cons.prems(1) by simp
  have mem: "\<forall>(p, v) \<in> set xs. (\<exists>k s. p = ukey k s \<and> user_key k) \<or> (\<exists>k s. p = physical_key TypeSystem k s)"
    using Cons.prems(2) by simp
  obtain us sys where s: "xs = us @ sys" "\<forall>(p, v) \<in> set us. \<exists>k s. p = ukey k s \<and> user_key k"
    "\<forall>(p, v) \<in> set sys. \<exists>k s. p = physical_key TypeSystem k s"
    using Cons.IH [OF srt mem] by (elim exE conjE) (rule that)
  consider (user) "\<exists>k s. p = ukey k s \<and> user_key k" | (sys) k s where "p = physical_key TypeSystem k s"
    using Cons.prems(2) by (auto simp: x)
  then show ?case
  proof cases
    case user
    with s show ?thesis by (intro exI [of _ "x # us"] exI [of _ sys]) (auto simp: x)
  next
    case sys
    have "us = []"
    proof (cases us)
      case us: (Cons y ys)
      obtain p' v' where y: "y = (p', v')" by fastforce
      then obtain k' s' where "p' = ukey k' s'" using s(2) us by auto
      moreover have "p < p'" using Cons.prems(1) s(1) us by (auto simp: x y)
      ultimately show ?thesis using type_less [of k' s' k s] sys by auto
    qed simp
    with s sys show ?thesis by (intro exI [of _ "[]"] exI [of _ "x # sys"]) (auto simp: x)
  qed
qed simp

lemma all_cells:
  assumes ok: "pebble_ok P C base" "readable P r" "store_ok (C r)"
  obtains cs sys where "pb_NewIter P r no_options = Inr (map cell_pair cs @ sys)" "cells_ok cs"
    "\<forall>(p, v) \<in> set sys. \<exists>k s. p = physical_key TypeSystem k s"
    "\<forall>k s v. user_key k \<longrightarrow> ((k, s, v) \<in> set (firsts cs) \<longleftrightarrow> is_newest (C r) k s v)"
proof -
  obtain xs where xs: "pb_NewIter P r no_options = Inr xs" "iter_ok (C r) no_options xs" using pebble_iter [OF ok(1,2)] .
  have srt: "sorted_wrt (<) (map fst xs)" and mem: "\<And>p v. (p, v) \<in> set xs \<longleftrightarrow> C r p = Some v"
    using iter_okD [OF xs(2)] by simp_all
  have "\<forall>(p, v) \<in> set xs. (\<exists>k s. p = ukey k s \<and> user_key k) \<or> (\<exists>k s. p = physical_key TypeSystem k s)"
    using ok(3) mem unfolding store_ok_def by blast
  from user_system_split [OF srt this] obtain us sys where s: "xs = us @ sys"
    "\<forall>(p, v) \<in> set us. \<exists>k s. p = ukey k s \<and> user_key k"
    "\<forall>(p, v) \<in> set sys. \<exists>k s. p = physical_key TypeSystem k s" by (elim exE conjE) (rule that)
  have su: "sorted_wrt (<) (map fst us)" using srt by (simp add: s(1) sorted_wrt_append)
  have uk: "\<exists>k s. p = ukey k s \<and> user_key k" if "(p, v) \<in> set us" for p v using s(2) that by blast
  obtain cs where cs: "us = map cell_pair cs" "cells_ok cs" using sorted_cells [OF su uk] .
  have cm: "(k, s', v) \<in> set cs \<longleftrightarrow> C r (ukey k s') = Some v" if k: "user_key k" for k s' v
  proof
    assume "(k, s', v) \<in> set cs"
    then have "(ukey k s', v) \<in> set xs" unfolding s(1) cs(1) by (force simp: cell_pair_def)
    then show "C r (ukey k s') = Some v" by (simp add: mem)
  next
    assume "C r (ukey k s') = Some v"
    then have "(ukey k s', v) \<in> set us \<or> (ukey k s', v) \<in> set sys" unfolding mem [symmetric] s(1) by simp
    moreover have "(ukey k s', v) \<notin> set sys"
    proof
      assume "(ukey k s', v) \<in> set sys"
      then obtain k0 s0 where "ukey k s' = physical_key TypeSystem k0 s0" using s(3) by blast
      then show False using sys_not_user by metis
    qed
    ultimately have "(ukey k s', v) \<in> set us" by blast
    then obtain k1 s1 where "(k1, s1, v) \<in> set cs" "ukey k1 s1 = ukey k s'" by (auto simp: cs(1) cell_pair_def)
    moreover from this have "user_key k1" using cs(2) by (auto simp: cells_ok_def)
    ultimately show "(k, s', v) \<in> set cs" using k by (auto simp: physical_key_inj user_key_def)
  qed
  have "(k, s', v) \<in> set (firsts cs) \<longleftrightarrow> is_newest (C r) k s' v" if k: "user_key k" for k s' v
  proof
    assume f: "(k, s', v) \<in> set (firsts cs)"
    then have m: "C r (ukey k s') = Some v" using firsts_sub cm [OF k] by blast
    have "C r (ukey k t) = None" if "s' < t" for t
    proof (rule ccontr)
      assume "C r (ukey k t) \<noteq> None"
      then obtain v' where "(k, t, v') \<in> set cs" using cm [OF k] by auto
      from firsts_newest [OF cs(2) f this] that show False by simp
    qed
    with m show "is_newest (C r) k s' v" by (simp add: is_newest_def)
  next
    assume n: "is_newest (C r) k s' v"
    then have "(k, s', v) \<in> set cs" by (simp add: cm [OF k] is_newest_def)
    moreover have "t \<le> s'" if "(k, t, v') \<in> set cs" for t v'
      using newest_ge [OF n, of t] that by (simp add: cm [OF k])
    ultimately show "(k, s', v) \<in> set (firsts cs)" by (rule firsts_mem [OF cs(2)])
  qed
  with that xs(1) s cs show ?thesis by blast
qed

section \<open>Streams\<close>

definition put_cell :: "bytes \<Rightarrow> cell \<Rightarrow> Command" where
  "put_cell t c = (case c of (k, s, v) \<Rightarrow>
     if isTombstone v then writeDeleteCommand t k s else writeCommand t k v s)"

lemma system_above_cells:
  assumes "\<forall>(p, v) \<in> set sys. \<exists>k s. p = physical_key TypeSystem k s"
  shows "\<forall>p \<in> fst ` set sys. ukey k 0 < p"
  using assms type_less [of k 0] by fastforce

lemma snapshot_loop_cells:
  assumes "cells_ok cs" "\<forall>(p, v) \<in> set sys. \<exists>k s. p = physical_key TypeSystem k s" "\<forall>j. \<not> stop j"
  shows "snapshot_loop t stop j (map cell_pair cs @ sys) =
    Inr (map (put_cell t) (filter (\<lambda>(k, s, v). \<not> isTombstone v) (firsts cs)))"
  using assms(1)
proof (induction cs arbitrary: j rule: firsts.induct)
  case 1
  have "snapshot_loop t stop j sys = Inr []" for j
    using assms(2)
  proof (induction sys arbitrary: j)
    case (Cons x sys)
    obtain p v where x: "x = (p, v)" by fastforce
    obtain k s where "p = physical_key TypeSystem k s" using Cons.prems by (auto simp: x)
    then show ?case using Cons assms(3) by (simp add: x DecodeBytes_physical key_consts)
  qed simp
  then show ?case by simp
next
  case (2 c cs)
  obtain k s v where c: "c = (k, s, v)" by (cases c)
  note v = visit_cells [OF 2(2) [unfolded c]]
  have nx: "iterNextUserKey ((ukey k s, v) # map cell_pair cs @ sys) (ukey k s) =
      map cell_pair (dropWhile (\<lambda>d. fst d = k) cs) @ sys"
    using iterNext_cells [OF 2(2) [unfolded c] system_above_cells [OF assms(2)]] .
  have IH: "snapshot_loop t stop j (map cell_pair (dropWhile (\<lambda>d. fst d = k) cs) @ sys) =
      Inr (map (put_cell t) (filter (\<lambda>(k, s, v). \<not> isTombstone v) (firsts (dropWhile (\<lambda>d. fst d = k) cs))))" for j
    using 2(1) v(3) by (simp add: c)
  show ?case
    unfolding c v(1) append_Cons snapshot_loop.simps nx IH DecodeBytes_physical
    using assms(3) by (simp add: put_cell_def)
qed

lemma DecodeV2Seqno_ukey: "DecodeV2Seqno (physical_key t k s) = s"
proof -
  have p: "physical_key t k s = ([2, 0, 0, 0, t] @ k @ [0]) @ stored_seqno s" by (simp add: physical_key_eq)
  have d: "drop (length (a @ stored_seqno s) - 8) (a @ stored_seqno s) = stored_seqno s" for a by simp
  have "\<not> (length (physical_key t k s) \<le> V2SeqLen \<or> physical_key t k s ! 0 \<noteq> V2)"
    by (simp add: physical_key_eq key_consts)
  then show ?thesis unfolding DecodeV2Seqno_def V2SeqLen_def p by (simp only: d if_False read_stored)
qed

lemma incremental_loop_cells:
  assumes "cells_ok cs" "\<forall>(p, v) \<in> set sys. \<exists>k s. p = physical_key TypeSystem k s" "\<forall>j. \<not> stop j"
  shows "incremental_loop t stop b j (map cell_pair cs @ sys) =
    Inr (map (put_cell t) (filter (\<lambda>(k, s, v). b < s) (firsts cs)))"
  using assms(1)
proof (induction cs arbitrary: j rule: firsts.induct)
  case 1
  have "incremental_loop t stop b j sys = Inr []" for j
    using assms(2)
  proof (induction sys arbitrary: j)
    case (Cons x sys)
    obtain p v where x: "x = (p, v)" by fastforce
    obtain k s where "p = physical_key TypeSystem k s" using Cons.prems by (auto simp: x)
    then show ?case using Cons assms(3) by (simp add: x DecodeBytes_physical key_consts)
  qed simp
  then show ?case by simp
next
  case (2 c cs)
  obtain k s v where c: "c = (k, s, v)" by (cases c)
  note v = visit_cells [OF 2(2) [unfolded c]]
  have nx: "iterNextUserKey ((ukey k s, v) # map cell_pair cs @ sys) (ukey k s) =
      map cell_pair (dropWhile (\<lambda>d. fst d = k) cs) @ sys"
    using iterNext_cells [OF 2(2) [unfolded c] system_above_cells [OF assms(2)]] .
  have IH: "incremental_loop t stop b j (map cell_pair (dropWhile (\<lambda>d. fst d = k) cs) @ sys) =
      Inr (map (put_cell t) (filter (\<lambda>(k, s, v). b < s) (firsts (dropWhile (\<lambda>d. fst d = k) cs))))" for j
    using 2(1) v(3) by (simp add: c)
  show ?case
    unfolding c v(1) append_Cons incremental_loop.simps nx IH DecodeBytes_physical DecodeV2Seqno_ukey Let_def
    using assms(3) by (simp add: put_cell_def)
qed

section \<open>Replaying a stream\<close>

lemma abs_put_cell: "abs_cmd (put_cell t (k, s, v)) T = T(k := if isTombstone v then None else Some v)"
  by (simp add: put_cell_def abs_cmd_def writeCommand_def writeDeleteCommand_def abs_put_def abs_delete_def)

lemma replay_cells:
  assumes "sorted_wrt (<) (map fst L)"
  shows "fold abs_cmd (map (put_cell t) L) T k =
    (case map_of L k of None \<Rightarrow> T k | Some (s, v) \<Rightarrow> if isTombstone v then None else Some v)"
  using assms
proof (induction L arbitrary: T)
  case (Cons c L)
  obtain k0 s v where c: "c = (k0, s, v)" by (cases c)
  have "k0 \<notin> fst ` set L" using Cons.prems by (auto simp: c)
  then have "map_of L k0 = None" by (simp add: map_of_eq_None_iff)
  with Cons show ?case by (auto simp: c abs_put_cell split: option.splits)
qed simp

lemma map_of_sorted_cells:
  fixes L :: "cell list"
  assumes "sorted_wrt (<) (map fst L)"
  shows "map_of L k = Some x \<longleftrightarrow> (k, x) \<in> set L"
proof -
  have "distinct (map fst L)" using assms by (simp add: strict_sorted_iff)
  then show ?thesis by (simp add: map_of_eq_Some_iff)
qed

text \<open>
  C19: Replaying the commands of a full snapshot into an empty table restores exactly the visible table the
  snapshot was taken of, and every command of the stream is one the state machine accepts.
\<close>
theorem snapshot_round_trip:
  assumes "pebble_ok P C base" "store_ok (C (RDB db))" "readLocalIndex P (RDB db) sysLocalIndex = Inr idx" "\<forall>j. \<not> stop j"
  shows "\<exists>w. commandSnapshot P (RDB db) tableName stop = Inr (idx, w) \<and> (\<forall>cmd \<in> set w. cmd_ok cmd) \<and>
    fold abs_cmd w (\<lambda>_. None) = db_table C db"
proof -
  have rd: "readable P (RDB db)" by (simp add: readable_def)
  obtain cs sys where cs: "pb_NewIter P (RDB db) no_options = Inr (map cell_pair cs @ sys)" "cells_ok cs"
    "\<forall>(p, v) \<in> set sys. \<exists>k s. p = physical_key TypeSystem k s"
    "\<forall>k s v. user_key k \<longrightarrow> ((k, s, v) \<in> set (firsts cs) \<longleftrightarrow> is_newest (C (RDB db)) k s v)"
    using all_cells [OF assms(1) rd assms(2)] .
  let ?L = "filter (\<lambda>(k, s, v). \<not> isTombstone v) (firsts cs)" let ?w = "map (put_cell tableName) ?L"
  have uk: "user_key k" if "(k, s, v) \<in> set (firsts cs)" for k s v
    using that firsts_sub [of cs] cs(2) by (auto simp: cells_ok_def)
  have srt: "sorted_wrt (<) (map fst ?L)" using firsts_sorted [OF cs(2)] by (simp add: sorted_wrt_map sorted_wrt_filter)
  have "fold abs_cmd ?w (\<lambda>_. None) k = db_table C db k" for k
  proof (cases "map_of ?L k")
    case None
    then have "\<not> (\<exists>s v. is_newest (C (RDB db)) k s v \<and> \<not> isTombstone v)" if "user_key k"
      using map_of_sorted_cells [OF srt, of k] cs(4) that by fastforce
    then have "visible (C (RDB db)) k = None" if "user_key k"
      using visible_Some [of "C (RDB db)" k] that by (cases "visible (C (RDB db)) k") (simp, blast)
    then have "db_table C db k = None" by (simp add: db_table_def)
    with None show ?thesis by (simp add: replay_cells [OF srt])
  next
    case (Some x)
    obtain s v where x: "x = (s, v)" by fastforce
    have m: "(k, s, v) \<in> set (firsts cs)" "\<not> isTombstone v" using Some map_of_sorted_cells [OF srt, of k x] by (auto simp: x)
    then have "is_newest (C (RDB db)) k s v" using cs(4) uk by blast
    from visible_newest [OF this] m uk [OF m(1)] Some show ?thesis
      unfolding replay_cells [OF srt] by (simp add: x db_table_def)
  qed
  moreover have "\<forall>cmd \<in> set ?w. cmd_ok cmd"
    using uk by (auto simp: put_cell_def cmd_ok_def writeCommand_def)
  moreover have "commandSnapshot P (RDB db) tableName stop = Inr (idx, ?w)"
    by (simp add: commandSnapshot_def cs(1) assms(3) snapshot_loop_cells [OF cs(2,3) assms(4)])
  ultimately show ?thesis by blast
qed

text \<open>
  C20: An incremental snapshot reports the base index it starts from, and replaying it into a table that
  agrees with the visible one on every key whose newest version is not above the base index brings that
  table up to date, deletions included.
\<close>
theorem incremental_snapshot_catches_up:
  assumes "pebble_ok P C base" "store_ok (C (RDB db))" "readLocalIndex P (RDB db) sysLocalIndex = Inr idx"
    "readLocalIndex P (RDB db) sysGCHorizon = Inr g" "\<forall>j. \<not> stop j"
    and b: "b = (if 0 < g \<and> since \<le> g then g + 1 else since)"
    and old: "\<forall>k. (\<forall>s v. user_key k \<and> is_newest (C (RDB db)) k s v \<longrightarrow> s \<le> b) \<longrightarrow> T k = db_table C db k"
  shows "\<exists>rsp w. commandIncrementalSnapshot P (RDB db) tableName since stop = Inr (rsp, w) \<and>
    sr_TipIndex rsp = idx \<and> sr_BaseIndex rsp = b \<and> (\<forall>cmd \<in> set w. cmd_ok cmd) \<and>
    fold abs_cmd w T = db_table C db"
proof -
  have rd: "readable P (RDB db)" by (simp add: readable_def)
  obtain cs sys where cs: "pb_NewIter P (RDB db) no_options = Inr (map cell_pair cs @ sys)" "cells_ok cs"
    "\<forall>(p, v) \<in> set sys. \<exists>k s. p = physical_key TypeSystem k s"
    "\<forall>k s v. user_key k \<longrightarrow> ((k, s, v) \<in> set (firsts cs) \<longleftrightarrow> is_newest (C (RDB db)) k s v)"
    using all_cells [OF assms(1) rd assms(2)] .
  let ?L = "filter (\<lambda>(k, s, v). b < s) (firsts cs)" let ?w = "map (put_cell tableName) ?L"
  have uk: "user_key k" if "(k, s, v) \<in> set (firsts cs)" for k s v
    using that firsts_sub [of cs] cs(2) by (auto simp: cells_ok_def)
  have srt: "sorted_wrt (<) (map fst ?L)" using firsts_sorted [OF cs(2)] by (simp add: sorted_wrt_map sorted_wrt_filter)
  have "fold abs_cmd ?w T k = db_table C db k" for k
  proof (cases "map_of ?L k")
    case None
    have "s \<le> b" if n: "user_key k" "is_newest (C (RDB db)) k s v" for s v
    proof (rule ccontr)
      assume "\<not> s \<le> b"
      then have "(k, s, v) \<in> set ?L" using cs(4) n by simp
      then show False using None map_of_sorted_cells [OF srt, of k "(s, v)"] by simp
    qed
    then have "T k = db_table C db k" using old by blast
    with None show ?thesis by (simp add: replay_cells [OF srt])
  next
    case (Some x)
    obtain s v where x: "x = (s, v)" by fastforce
    have m: "(k, s, v) \<in> set (firsts cs)" using Some map_of_sorted_cells [OF srt, of k x] by (auto simp: x)
    then have "is_newest (C (RDB db)) k s v" using cs(4) uk by blast
    from visible_newest [OF this] uk [OF m] Some show ?thesis
      unfolding replay_cells [OF srt] by (simp add: x db_table_def)
  qed
  moreover have "\<forall>cmd \<in> set ?w. cmd_ok cmd"
    using uk by (auto simp: put_cell_def cmd_ok_def writeCommand_def writeDeleteCommand_def del_ok_def)
  moreover have "commandIncrementalSnapshot P (RDB db) tableName since stop =
      Inr (\<lparr>sr_Index = idx, sr_TipIndex = idx, sr_BaseIndex = b, sr_GCHorizon = g\<rparr>, ?w)"
    unfolding commandIncrementalSnapshot_def assms(3,4) bind_res_simps cs(1) Let_def b [symmetric]
      incremental_loop_cells [OF cs(2,3) assms(5)] by simp
  ultimately show ?thesis by auto
qed

section \<open>A concrete table\<close>

lemma snapshot_round_trip_witness:
  "\<exists>w. commandSnapshot mem_pebble (RDB demo_db) [116] (\<lambda>_. False) = Inr (0, w) \<and> (\<forall>cmd \<in> set w. cmd_ok cmd) \<and>
    fold abs_cmd w (\<lambda>_. None) [97] = Some [5] \<and> fold abs_cmd w (\<lambda>_. None) [98] = None"
  using snapshot_round_trip [OF mem_pebble_ok demo_store, of 0 "\<lambda>_. False" "[116]"] demo_table demo_index by auto

lemma incremental_snapshot_catches_up_witness:
  "\<exists>rsp w. commandIncrementalSnapshot mem_pebble (RDB demo_db) [116] 2 (\<lambda>_. False) = Inr (rsp, w) \<and>
    sr_BaseIndex rsp = 2 \<and> fold abs_cmd w [[98] \<mapsto> [9]] [97] = Some [5] \<and> fold abs_cmd w [[98] \<mapsto> [9]] [98] = None"
proof -
  have "\<forall>k. (\<forall>s v. user_key k \<and> is_newest (mem_contents (RDB demo_db)) k s v \<longrightarrow> s \<le> 2) \<longrightarrow>
      [[98] \<mapsto> [9]] k = db_table mem_contents demo_db k"
  proof (intro allI impI)
    fix k assume n: "\<forall>s v. user_key k \<and> is_newest (mem_contents (RDB demo_db)) k s v \<longrightarrow> s \<le> 2"
    have "k \<noteq> [97]" using n [rule_format, of 3 "[5]"] demo_newest(1) demo_user(1) by auto
    moreover have "k \<noteq> [98]" using n [rule_format, of 4 "[0]"] demo_newest(2) demo_user(2) by auto
    ultimately show "[[98] \<mapsto> [9]] k = db_table mem_contents demo_db k" using demo_other [of k] by simp
  qed
  from incremental_snapshot_catches_up [OF mem_pebble_ok demo_store, of 0 0 "\<lambda>_. False" 2 2 "[[98] \<mapsto> [9]]" "[116]"] this
  show ?thesis using demo_table demo_index by auto
qed

end
