(* ===== verification/RsmPayload.thy ===== *)
theory RsmPayload
  imports Varint
begin

text \<open>
  The payload of an entry (\<open>raft/internal/rsm/encoded.go\<close> and the block functions of
  \<open>raft/internal/utils/dio/io.go\<close>): the command of a proposal is stored after a one-byte header, as it is
  or compressed. The compression library (\<open>golang/snappy\<close>) is a parameter; what its documentation
  promises is \<open>snappy_ok\<close>: a block starts with the length of the uncompressed data, and decoding a block
  gives the data back.
\<close>

record snappy =
  sn_Encode :: "bytes \<Rightarrow> bytes"
  sn_Decode :: "bytes \<Rightarrow> bytes option"
  sn_MaxEncodedLen :: "nat \<Rightarrow> nat option"

section \<open>Blocks\<close>

definition MaxBlockLen :: "CompressionType \<Rightarrow> u64" where
  "MaxBlockLen ct = (if ct = Snappy then 6 * (0xffffffff - 32) div 7 else - 1)"

definition MaxEncodedLen :: "snappy \<Rightarrow> CompressionType \<Rightarrow> u64 \<Rightarrow> u64 option res" where
  "MaxEncodedLen sn ct srcLen =
     (if ct = Snappy then
        if srcLen > MaxBlockLen ct then Inr None
        else case sn_MaxEncodedLen sn (unat srcLen) of None \<Rightarrow> Inr None | Some sz \<Rightarrow> Inr (Some (of_nat sz))
      else Inl (GoPanic ''not supported compression type''))"

definition CompressSnappyBlock :: "snappy \<Rightarrow> bytes \<Rightarrow> nat \<Rightarrow> bytes res" where
  "CompressSnappyBlock sn src dstLen =
     (let result = sn_Encode sn src in
      if length result > dstLen then Inl (GoPanic ''dst length is too small'') else Inr result)"

definition DecompressSnappyBlock :: "snappy \<Rightarrow> bytes \<Rightarrow> nat \<Rightarrow> bytes res" where
  "DecompressSnappyBlock sn src dstLen =
     (let (result, err) = (case sn_Decode sn src of None \<Rightarrow> ([], True) | Some r \<Rightarrow> (r, False)) in
      if length result \<noteq> dstLen then Inl (GoPanic ''corrupted decodedLen in header'')
      else if err then Inl (ErrOther ''snappy: corrupt input'')
      else Inr result)"

section \<open>Entries\<close>

definition EEV0 :: byte where "EEV0 = 0"

definition EENoCompression :: byte where "EENoCompression = 0"

definition EESnappy :: byte where "EESnappy = push_bit 1 1"

definition getEncodedHeader :: "byte \<Rightarrow> byte \<Rightarrow> bool \<Rightarrow> byte" where
  "getEncodedHeader version cf session = 0 OR version OR cf OR (if session then 1 else 0)"

definition getEncoded :: "snappy \<Rightarrow> CompressionType \<Rightarrow> bytes \<Rightarrow> bytes res" where
  "getEncoded sn ct cmd =
     (case ct of
        NoCompression \<Rightarrow> Inr (getEncodedHeader EEV0 EENoCompression False # cmd)
      | Snappy \<Rightarrow>
          bind_res (MaxEncodedLen sn Snappy (of_nat (length cmd))) (\<lambda>m. case m of
            None \<Rightarrow> Inl (GoPanic ''invalid payload length'')
          | Some maxSize \<Rightarrow>
              bind_res (CompressSnappyBlock sn cmd (unat (maxSize + 1) - 1)) (\<lambda>block.
              Inr (getEncodedHeader EEV0 EESnappy False # block))))"

definition GetEncoded :: "snappy \<Rightarrow> CompressionType \<Rightarrow> bytes \<Rightarrow> bytes res" where
  "GetEncoded sn ct cmd = (if length cmd = 0 then Inl (GoPanic ''empty payload'') else getEncoded sn ct cmd)"

definition parseEncodedHeader :: "bytes \<Rightarrow> (byte \<times> byte \<times> bool) res" where
  "parseEncodedHeader cmd =
     (case cmd of
        [] \<Rightarrow> Inl (GoPanic ''index out of range'')
      | header # _ \<Rightarrow> Inr (header AND push_bit 4 15, header AND push_bit 1 7, header AND 1 = 1))"

text \<open>
  \<open>binary.Uvarint\<close> of the standard library: the number of bytes read is zero when the buffer ends too
  early and negative when the value overflows.
\<close>

fun Uvarint_loop :: "nat \<Rightarrow> u64 \<Rightarrow> bytes \<Rightarrow> u64 \<times> int" where
  "Uvarint_loop i x [] = (0, 0)"
| "Uvarint_loop i x (b # bs) =
     (if i = 10 then (0, - int (i + 1))
      else if b < 0x80 then
        if i = 9 \<and> b > 1 then (0, - int (i + 1)) else (x OR push_bit (7 * i) (ucast b), int (i + 1))
      else Uvarint_loop (i + 1) (x OR push_bit (7 * i) (ucast (b AND 0x7f))) bs)"

definition Uvarint :: "bytes \<Rightarrow> u64 \<times> int" where
  "Uvarint buf = Uvarint_loop 0 0 buf"

definition getV0PayloadUncompressedSize :: "bytes \<Rightarrow> u64 \<times> int" where
  "getV0PayloadUncompressedSize cmd = Uvarint (drop 1 cmd)"

definition getDecodedPayload :: "snappy \<Rightarrow> bytes \<Rightarrow> bytes res" where
  "getDecodedPayload sn cmd =
     bind_res (parseEncodedHeader cmd) (\<lambda>(ver, ct, hasSession).
     if ver = EEV0 then
       if hasSession then Inl (GoPanic ''v0 cmd has session info'')
       else if ct = EENoCompression then Inr (drop 1 cmd)
       else if ct = EESnappy then
         let (sz, offset) = getV0PayloadUncompressedSize cmd in
         if sz = 0 then Inl (GoPanic ''empty uncompressed size found'')
         else if offset = 0 then Inl (GoPanic ''zero offset found'')
         else DecompressSnappyBlock sn (drop 1 cmd) (unat sz)
       else Inl (GoPanic ''unknown compression type'')
     else Inl (GoPanic ''unknown cmd encoding version''))"

definition GetPayload :: "snappy \<Rightarrow> Entry \<Rightarrow> bytes res" where
  "GetPayload sn e =
     (if e_Type e = ApplicationEntry \<or> e_Type e = ConfigChangeEntry then Inr (e_Cmd e)
      else if e_Type e = EncodedEntry then getDecodedPayload sn (e_Cmd e)
      else Inl (GoPanic ''unknown entry type''))"

section \<open>Round trip\<close>

definition snappy_ok :: "snappy \<Rightarrow> bool" where
  "snappy_ok sn \<longleftrightarrow>
     (\<forall>x. length x \<le> unat (MaxBlockLen Snappy) \<longrightarrow>
        sn_Decode sn (sn_Encode sn x) = Some x \<and>
        fst (Uvarint (sn_Encode sn x)) = of_nat (length x) \<and> 0 < snd (Uvarint (sn_Encode sn x)))"

lemma header_plain: "parseEncodedHeader (getEncodedHeader EEV0 EENoCompression False # bs) = Inr (EEV0, EENoCompression, False)"
  by (simp add: parseEncodedHeader_def getEncodedHeader_def EEV0_def EENoCompression_def)

lemma header_snappy: "parseEncodedHeader (getEncodedHeader EEV0 EESnappy False # bs) = Inr (EEV0, EESnappy, False)"
  by (simp add: parseEncodedHeader_def getEncodedHeader_def EEV0_def EESnappy_def)

lemma Uvarint_loop_encode:
  assumes "7 * i < 64" "unat v < 2 ^ (64 - 7 * i)"
  shows "Uvarint_loop i x (encodeVarintRaft v @ rest) = (x OR push_bit (7 * i) v, int (i + length (encodeVarintRaft v)))"
  using assms
proof (induction v arbitrary: i x rule: encodeVarintRaft.induct)
  case (1 v)
  show ?case
  proof (cases "0x80 \<le> v")
    case False
    then have lt: "v < 0x80" by simp
    have n: "unat v < 128" using lt by (simp add: word_less_nat_alt)
    have "unat (ucast v :: byte) = unat v" using n by (simp add: unsigned_ucast_eq take_bit_nat_eq_self)
    moreover have "ucast (ucast v :: byte) = v"
      using n by (simp add: word_unat_eq_iff unsigned_ucast_eq unsigned_take_bit_eq take_bit_nat_eq_self)
    moreover have "\<not> (i = 9 \<and> 1 < unat v)" using 1(3) by auto
    ultimately show ?thesis
      using False 1(2) low_byte(1) [OF lt] by (subst (1 2) encodeVarintRaft.simps) (auto simp: word_less_nat_alt)
  next
    case True
    have "(2 :: nat) ^ 7 < 2 ^ (64 - 7 * i)" using True 1(3) by (simp add: word_le_nat_alt)
    then have "7 < 64 - 7 * i" by (rule power_less_imp_less_exp [rotated]) simp
    then have s: "7 * (i + 1) < 64" "64 - 7 * i = (64 - 7 * (i + 1)) + 7" by simp_all
    have "unat v < 2 ^ (64 - 7 * (i + 1)) * 2 ^ 7" using 1(3) unfolding s(2) power_add .
    then have "unat v div 128 < 2 ^ (64 - 7 * (i + 1))" by (simp add: less_mult_imp_div_less)
    then have "Uvarint_loop (i + 1) y (encodeVarintRaft (drop_bit 7 v) @ rest) =
        (y OR push_bit (7 * (i + 1)) (drop_bit 7 v), int (i + 1 + length (encodeVarintRaft (drop_bit 7 v))))" for y
      using 1(1) [OF True s(1)] by (simp add: unat_drop_7)
    moreover have "push_bit (7 * i) v = push_bit (7 * i) (take_bit 7 v) OR push_bit (7 * (i + 1)) (drop_bit 7 v)"
      by (subst (1) split_7 [of v, symmetric]) (simp add: push_bit_or push_bit_push_bit add.commute)
    ultimately show ?thesis
      using True s(1) high_byte [of v] by (subst (1 2) encodeVarintRaft.simps) (simp add: or.assoc)
  qed
qed

lemma Uvarint_encode: "Uvarint (encodeVarintRaft v @ rest) = (v, int (length (encodeVarintRaft v)))"
  using Uvarint_loop_encode [of 0 v 0 rest] unsigned_less [of v, where ?'a = nat] by (simp add: Uvarint_def)

lemma GetEncoded_payload:
  assumes "snappy_ok sn" "GetEncoded sn ct cmd = Inr enc" "length cmd < 2 ^ 64"
  shows "getDecodedPayload sn enc = Inr cmd"
proof (cases ct)
  case NoCompression
  then have "enc = getEncodedHeader EEV0 EENoCompression False # cmd"
    using assms(2) by (simp add: GetEncoded_def getEncoded_def split: if_splits)
  then show ?thesis by (simp add: getDecodedPayload_def header_plain)
next
  case Snappy
  have ne: "cmd \<noteq> []" using assms(2) by (auto simp: GetEncoded_def)
  have u: "unat (of_nat (length cmd) :: u64) = length cmd" using assms(3) by (simp add: unat_of_nat take_bit_nat_eq_self)
  from assms(2) Snappy obtain maxSize where
    enc: "MaxEncodedLen sn CompressionType.Snappy (of_nat (length cmd)) = Inr (Some maxSize)"
      "enc = getEncodedHeader EEV0 EESnappy False # sn_Encode sn cmd"
    by (auto simp: GetEncoded_def getEncoded_def CompressSnappyBlock_def Let_def bind_res_eq_Inr
        split: if_splits option.splits)
  from enc(1) have "length cmd \<le> unat (MaxBlockLen CompressionType.Snappy)"
    using u by (auto simp: MaxEncodedLen_def word_less_nat_alt split: if_splits option.splits)
  then have dec: "sn_Decode sn (sn_Encode sn cmd) = Some cmd"
      "fst (Uvarint (sn_Encode sn cmd)) = of_nat (length cmd)" "0 < snd (Uvarint (sn_Encode sn cmd))"
    using assms(1) unfolding snappy_ok_def by blast+
  have "(of_nat (length cmd) :: u64) \<noteq> 0" using ne u by (metis length_0_conv unsigned_0)
  moreover have "EESnappy \<noteq> EENoCompression" by (simp add: EESnappy_def EENoCompression_def)
  ultimately show ?thesis
    using dec u unfolding enc(2) getDecodedPayload_def header_snappy
    by (cases "Uvarint (sn_Encode sn cmd)")
      (simp add: getV0PayloadUncompressedSize_def DecompressSnappyBlock_def)
qed

text \<open>
  C37: The payload of an entry that stores an encoded command is the command, with and without compression,
  for every command that can be encoded.
\<close>
theorem encoded_payload_round_trip:
  assumes "snappy_ok sn" "GetEncoded sn ct cmd = Inr enc" "length cmd < 2 ^ 64"
  shows "GetPayload sn (e\<lparr>e_Type := EncodedEntry, e_Cmd := enc\<rparr>) = Inr cmd"
  using GetEncoded_payload [OF assms] by (simp add: GetPayload_def)

text \<open>A library that stores the data uncompressed after their length meets the contract.\<close>

definition stored_snappy :: snappy where
  "stored_snappy =
     \<lparr>sn_Encode = (\<lambda>x. encodeVarintRaft (of_nat (length x)) @ x),
      sn_Decode = (\<lambda>b. let (v, n) = Uvarint b in if n \<le> 0 then None else Some (drop (nat n) b)),
      sn_MaxEncodedLen = (\<lambda>n. Some (n + 10))\<rparr>"

lemma stored_snappy_ok: "snappy_ok stored_snappy"
proof -
  have "sovRaft v \<noteq> 0" for v using sovRaft_pos [of v] by (rule less_imp_neq [THEN not_sym])
  then show ?thesis
    unfolding snappy_ok_def stored_snappy_def
    by (intro allI impI) (simp add: Uvarint_encode length_encodeVarint)
qed

lemma encoded_payload_round_trip_witness:
  "snappy_ok stored_snappy \<and>
   (\<exists>enc. GetEncoded stored_snappy Snappy [1, 2, 3] = Inr enc \<and>
     GetPayload stored_snappy (zero_Entry\<lparr>e_Type := EncodedEntry, e_Cmd := enc\<rparr>) = Inr [1, 2, 3])"
proof -
  have "length (encodeVarintRaft (of_nat (length [1, 2, 3 :: byte])) @ [1, 2, 3]) = 4"
    by (subst encodeVarintRaft.simps) (simp add: word_le_nat_alt)
  then have "\<exists>enc. GetEncoded stored_snappy Snappy [1, 2, 3] = Inr enc"
    by (simp add: GetEncoded_def getEncoded_def MaxEncodedLen_def MaxBlockLen_def stored_snappy_def
        CompressSnappyBlock_def Let_def)
  then obtain enc where "GetEncoded stored_snappy Snappy [1, 2, 3] = Inr enc" ..
  then show ?thesis using encoded_payload_round_trip [OF stored_snappy_ok, of Snappy "[1, 2, 3]" enc zero_Entry] stored_snappy_ok by auto
qed

text \<open>
  A corrupt block panics: the error of the library comes with an empty result, whose length differs from
  the expected one before the error is looked at.
\<close>

lemma corrupt_block_panics:
  assumes "sn_Decode sn src = None" "0 < dstLen"
  shows "is_panic (DecompressSnappyBlock sn src dstLen)"
  using assms by (simp add: DecompressSnappyBlock_def is_panic_def)

end
