(* ===== verification/RsmSession.thy ===== *)
theory RsmSession
  imports Raftpb
begin

text \<open>
  Client sessions (\<open>raft/internal/rsm/session.go\<close>, \<open>lrusession.go\<close> and \<open>sessionmanager.go\<close>). A session
  keeps the results of the proposals of a client that the client has not confirmed yet. The manager holds
  the sessions in an ordered cache of a third-party package (\<open>lni/goutils/cache\<close>), whose entries point
  to session objects that are updated in place; the objects are the cells of a store, the pointers their
  positions, and the cache is a parameter with the contract \<open>cache_ok\<close>.
\<close>

section \<open>One session\<close>

record smResult =
  res_Value :: u64
  res_Data :: "bytes option"

definition zero_Result :: smResult where
  "zero_Result = \<lparr>res_Value = 0, res_Data = None\<rparr>"

record Session =
  ses_History :: "(u64, smResult) gomap"
  ses_ClientID :: u64
  ses_RespondedUpTo :: u64

definition newSession :: "u64 \<Rightarrow> Session" where
  "newSession cid = \<lparr>ses_History = [], ses_ClientID = cid, ses_RespondedUpTo = 0\<rparr>"

definition getResponse :: "Session \<Rightarrow> u64 \<Rightarrow> smResult option" where
  "getResponse s sid = mget (ses_History s) sid"

definition addResponse :: "Session \<Rightarrow> u64 \<Rightarrow> smResult \<Rightarrow> Session res" where
  "addResponse s sid result =
     (if \<not> mhas (ses_History s) sid then Inr (s\<lparr>ses_History := mput sid result (ses_History s)\<rparr>)
      else Inl (GoPanic ''adding a duplicated response''))"

definition clearTo :: "Session \<Rightarrow> u64 \<Rightarrow> Session" where
  "clearTo s to =
     (if to \<le> ses_RespondedUpTo s then s
      else if to = ses_RespondedUpTo s + 1 then s\<lparr>ses_History := mdel to (ses_History s), ses_RespondedUpTo := to\<rparr>
      else s\<lparr>ses_RespondedUpTo := to, ses_History := filter (\<lambda>(k, _). \<not> k \<le> to) (ses_History s)\<rparr>)"

definition hasResponded :: "Session \<Rightarrow> u64 \<Rightarrow> bool" where
  "hasResponded s sid \<longleftrightarrow> sid \<le> ses_RespondedUpTo s"

text \<open>A session keeps no result of a proposal that the client has confirmed.\<close>

definition session_wf :: "Session \<Rightarrow> bool" where
  "session_wf s \<longleftrightarrow> gm_wf (ses_History s) \<and> (\<forall>k \<in> set (mkeys (ses_History s)). ses_RespondedUpTo s < k)"

lemma clearTo_reference:
  assumes "session_wf s"
  shows "clearTo s to = s\<lparr>ses_RespondedUpTo := max to (ses_RespondedUpTo s),
    ses_History := filter (\<lambda>(k, _). to < k) (ses_History s)\<rparr>"
proof -
  have keep: "filter (\<lambda>(k, _). to < k) (ses_History s) = ses_History s" if "to \<le> ses_RespondedUpTo s"
    using assms that by (force simp: session_wf_def filter_id_conv)
  have "filter (\<lambda>(k, _). to < k) (ses_History s) = mdel to (ses_History s)" if "to = ses_RespondedUpTo s + 1" "\<not> to \<le> ses_RespondedUpTo s"
    unfolding AList.delete_eq
  proof (rule filter_cong [OF refl])
    fix x assume "x \<in> set (ses_History s)"
    then have "ses_RespondedUpTo s < fst x" using assms by (auto simp: session_wf_def)
    then show "(case x of (k, _) \<Rightarrow> to < k) = (case x of (k', v) \<Rightarrow> to \<noteq> k')"
      using that by (auto simp: word_less_nat_alt word_le_nat_alt unat_word_ariths word_unat_eq_iff split: prod.splits)
  qed
  then show ?thesis using keep by (auto simp: clearTo_def not_le)
qed

lemma map_of_filter_series: "map_of (filter (\<lambda>(k, _). P k) l) k = (if P k then map_of l k else None)"
  by (induction l) auto

lemma clearTo_facts:
  assumes "session_wf s"
  shows "session_wf (clearTo s to)" "ses_ClientID (clearTo s to) = ses_ClientID s"
    "ses_RespondedUpTo (clearTo s to) = max to (ses_RespondedUpTo s)"
    "getResponse (clearTo s to) k = (if to < k then getResponse s k else None)"
  using assms unfolding clearTo_reference [OF assms]
  by (auto simp: session_wf_def gm_wf_def getResponse_def distinct_map_filter map_of_filter_series)

section \<open>The session cache\<close>

record 'c OrderedCache =
  ca_New :: 'c
  ca_Get :: "'c \<Rightarrow> u64 \<Rightarrow> nat option \<times> 'c"
  ca_AddEntry :: "u64 \<Rightarrow> 'c \<Rightarrow> u64 \<Rightarrow> nat \<Rightarrow> 'c"
  ca_Del :: "'c \<Rightarrow> u64 \<Rightarrow> 'c"

text \<open>
  \<open>K c\<close> is the content of the cache \<open>c\<close>. A lookup changes the recency of the entries only; an
  addition stores the new entry and may evict others (the policy is told how many entries the manager
  allows, the first argument); a deletion removes one entry.
\<close>

definition cache_ok :: "'c OrderedCache \<Rightarrow> ('c \<Rightarrow> u64 \<Rightarrow> nat option) \<Rightarrow> bool" where
  "cache_ok C K \<longleftrightarrow>
     K (ca_New C) = Map.empty \<and>
     (\<forall>c k. fst (ca_Get C c k) = K c k \<and> K (snd (ca_Get C c k)) = K c) \<and>
     (\<forall>c k v sz. 0 < sz \<longrightarrow> K (ca_AddEntry C sz c k v) k = Some v \<and>
        (\<forall>k'. k' \<noteq> k \<longrightarrow> K (ca_AddEntry C sz c k v) k' \<in> {K c k', None})) \<and>
     (\<forall>c k. K (ca_Del C c k) = (K c)(k := None))"

record 'c lrusession =
  lru_sessions :: 'c
  lru_size :: u64
  lru_heap :: "Session list"

definition newLRUSession :: "'c OrderedCache \<Rightarrow> u64 \<Rightarrow> 'c lrusession res" where
  "newLRUSession C sz =
     (if sz = 0 then Inl (GoPanic ''lrusession size must be > 0'')
      else Inr \<lparr>lru_sessions = ca_New C, lru_size = sz, lru_heap = []\<rparr>)"

definition getSession :: "'c OrderedCache \<Rightarrow> 'c lrusession \<Rightarrow> u64 \<Rightarrow> nat option \<times> 'c lrusession" where
  "getSession C rec key = (let (v, c) = ca_Get C (lru_sessions rec) key in (v, rec\<lparr>lru_sessions := c\<rparr>))"

definition addSession :: "'c OrderedCache \<Rightarrow> 'c lrusession \<Rightarrow> u64 \<Rightarrow> Session \<Rightarrow> 'c lrusession" where
  "addSession C rec key s =
     rec\<lparr>lru_sessions := ca_AddEntry C (lru_size rec) (lru_sessions rec) key (length (lru_heap rec)),
         lru_heap := lru_heap rec @ [s]\<rparr>"

definition delSession :: "'c OrderedCache \<Rightarrow> 'c lrusession \<Rightarrow> u64 \<Rightarrow> 'c lrusession" where
  "delSession C rec key = rec\<lparr>lru_sessions := ca_Del C (lru_sessions rec) key\<rparr>"

section \<open>The session manager\<close>

definition LRUMaxSessionCount :: u64 where "LRUMaxSessionCount = 4096"

definition NewSessionManager :: "'c OrderedCache \<Rightarrow> 'c lrusession res" where
  "NewSessionManager C = newLRUSession C LRUMaxSessionCount"

definition unexpected_session :: "'a res" where
  "unexpected_session = Inl (GoPanic ''returned an expected session'')"

definition ClientRegistered :: "'c OrderedCache \<Rightarrow> 'c lrusession \<Rightarrow> u64 \<Rightarrow> (nat option \<times> 'c lrusession) res" where
  "ClientRegistered C ds clientID =
     (let (es, ds) = getSession C ds clientID in
      case es of
        None \<Rightarrow> Inr (None, ds)
      | Some p \<Rightarrow> if ses_ClientID (lru_heap ds ! p) \<noteq> clientID then unexpected_session else Inr (Some p, ds))"

definition RegisterClientID :: "'c OrderedCache \<Rightarrow> 'c lrusession \<Rightarrow> u64 \<Rightarrow> (smResult \<times> 'c lrusession) res" where
  "RegisterClientID C ds clientID =
     (let (es, ds) = getSession C ds clientID in
      case es of
        Some p \<Rightarrow> if ses_ClientID (lru_heap ds ! p) \<noteq> clientID then unexpected_session else Inr (zero_Result, ds)
      | None \<Rightarrow> Inr (zero_Result\<lparr>res_Value := clientID\<rparr>, addSession C ds clientID (newSession clientID)))"

definition UnregisterClientID :: "'c OrderedCache \<Rightarrow> 'c lrusession \<Rightarrow> u64 \<Rightarrow> (smResult \<times> 'c lrusession) res" where
  "UnregisterClientID C ds clientID =
     (let (es, ds) = getSession C ds clientID in
      case es of
        None \<Rightarrow> Inr (zero_Result, ds)
      | Some p \<Rightarrow> if ses_ClientID (lru_heap ds ! p) \<noteq> clientID then unexpected_session
                  else Inr (zero_Result\<lparr>res_Value := clientID\<rparr>, delSession C ds clientID))"

definition UpdateRespondedTo :: "'c lrusession \<Rightarrow> nat \<Rightarrow> u64 \<Rightarrow> 'c lrusession" where
  "UpdateRespondedTo ds p respondedTo = ds\<lparr>lru_heap := (lru_heap ds)[p := clearTo (lru_heap ds ! p) respondedTo]\<rparr>"

definition UpdateRequired :: "Session \<Rightarrow> u64 \<Rightarrow> smResult \<times> bool \<times> bool" where
  "UpdateRequired session seriesID =
     (if hasResponded session seriesID then (zero_Result, True, False)
      else case getResponse session seriesID of
             Some v \<Rightarrow> (v, False, False)
           | None \<Rightarrow> (zero_Result, False, True))"

definition AddResponse :: "'c lrusession \<Rightarrow> nat \<Rightarrow> u64 \<Rightarrow> smResult \<Rightarrow> 'c lrusession res" where
  "AddResponse ds p seriesID result =
     bind_res (addResponse (lru_heap ds ! p) seriesID result) (\<lambda>s. Inr (ds\<lparr>lru_heap := (lru_heap ds)[p := s]\<rparr>))"

section \<open>Invariant\<close>

text \<open>
  Every entry of the cache points to the session of its client. Hence no two clients share a session
  object, and the manager never sees the session of another client.
\<close>

definition sessions_wf :: "('c \<Rightarrow> u64 \<Rightarrow> nat option) \<Rightarrow> 'c lrusession \<Rightarrow> bool" where
  "sessions_wf K ds \<longleftrightarrow>
     0 < lru_size ds \<and> (\<forall>s \<in> set (lru_heap ds). session_wf s) \<and>
     (\<forall>c p. K (lru_sessions ds) c = Some p \<longrightarrow> p < length (lru_heap ds) \<and> ses_ClientID (lru_heap ds ! p) = c)"

lemma sessions_wf_inj:
  assumes "sessions_wf K ds" "K (lru_sessions ds) c = Some p" "K (lru_sessions ds) c' = Some p"
  shows "c = c'"
  using assms unfolding sessions_wf_def by blast

lemma cache_okD:
  assumes "cache_ok C K"
  shows "K (ca_New C) = Map.empty" "ca_Get C c k = (K c k, snd (ca_Get C c k))" "K (snd (ca_Get C c k)) = K c"
    "0 < sz \<Longrightarrow> K (ca_AddEntry C sz c k v) k = Some v"
    "0 < sz \<Longrightarrow> k' \<noteq> k \<Longrightarrow> K (ca_AddEntry C sz c k v) k' \<in> {K c k', None}"
    "K (ca_Del C c k) = (K c)(k := None)"
  using assms unfolding cache_ok_def by (simp_all add: prod_eq_iff)

lemma getSession_eq:
  assumes "cache_ok C K"
  obtains c where "getSession C ds k = (K (lru_sessions ds) k, ds\<lparr>lru_sessions := c\<rparr>)" "K c = K (lru_sessions ds)"
proof
  show "getSession C ds k = (K (lru_sessions ds) k, ds\<lparr>lru_sessions := snd (ca_Get C (lru_sessions ds) k)\<rparr>)"
    unfolding getSession_def by (subst cache_okD(2) [OF assms]) simp
  show "K (snd (ca_Get C (lru_sessions ds) k)) = K (lru_sessions ds)" by (rule cache_okD(3) [OF assms])
qed

lemma NewSessionManager_wf:
  assumes "cache_ok C K" "NewSessionManager C = Inr ds"
  shows "sessions_wf K ds"
  using assms by (auto simp: NewSessionManager_def newLRUSession_def LRUMaxSessionCount_def sessions_wf_def cache_okD split: if_splits)

lemma sessions_wf_recency:
  "K c = K (lru_sessions ds) \<Longrightarrow> sessions_wf K (ds\<lparr>lru_sessions := c\<rparr>) = sessions_wf K ds"
  by (simp add: sessions_wf_def)

lemma sessions_wf_cell:
  assumes "sessions_wf K ds" "session_wf s" "ses_ClientID s = ses_ClientID (lru_heap ds ! p)"
  shows "sessions_wf K (ds\<lparr>lru_heap := (lru_heap ds)[p := s]\<rparr>)"
proof -
  have "ses_ClientID ((lru_heap ds)[p := s] ! q) = ses_ClientID (lru_heap ds ! q)" for q
    using assms(3) by (cases "q = p"; cases "p < length (lru_heap ds)") (auto simp: list_update_beyond)
  then show ?thesis
    using assms(1,2) unfolding sessions_wf_def by (auto dest: set_update_subset_insert [THEN subsetD])
qed

lemma ClientRegistered_wf:
  assumes "cache_ok C K" "sessions_wf K ds"
  obtains c where "ClientRegistered C ds k = Inr (K (lru_sessions ds) k, ds\<lparr>lru_sessions := c\<rparr>)" "K c = K (lru_sessions ds)"
proof -
  obtain c where c: "getSession C ds k = (K (lru_sessions ds) k, ds\<lparr>lru_sessions := c\<rparr>)" "K c = K (lru_sessions ds)"
    by (rule getSession_eq [OF assms(1)])
  then have "ClientRegistered C ds k = Inr (K (lru_sessions ds) k, ds\<lparr>lru_sessions := c\<rparr>)"
    using assms(2) by (auto simp: ClientRegistered_def sessions_wf_def split: option.splits)
  then show thesis using c(2) by (rule that)
qed

lemma RegisterClientID_wf:
  assumes C: "cache_ok C K" and wf: "sessions_wf K ds"
  obtains r ds' where "RegisterClientID C ds k = Inr (r, ds')" "sessions_wf K ds'"
    "\<And>j. j \<noteq> k \<Longrightarrow> K (lru_sessions ds') j \<in> {K (lru_sessions ds) j, None}"
    "K (lru_sessions ds') k \<noteq> None"
    "\<And>p. K (lru_sessions ds) k = Some p \<Longrightarrow> K (lru_sessions ds') k = Some p \<and> r = zero_Result"
    "K (lru_sessions ds) k = None \<Longrightarrow> r = zero_Result\<lparr>res_Value := k\<rparr>"
    "\<exists>l. lru_heap ds' = lru_heap ds @ l"
proof -
  obtain c where c: "getSession C ds k = (K (lru_sessions ds) k, ds\<lparr>lru_sessions := c\<rparr>)" "K c = K (lru_sessions ds)"
    by (rule getSession_eq [OF C])
  show thesis
  proof (cases "K (lru_sessions ds) k")
    case None
    let ?ds = "addSession C (ds\<lparr>lru_sessions := c\<rparr>) k (newSession k)"
    have pos: "0 < lru_size ds" using wf by (simp add: sessions_wf_def)
    note add = cache_okD(4) [OF C pos, of c k "length (lru_heap ds)"] cache_okD(5) [OF C pos, of _ k c "length (lru_heap ds)"]
    have nw: "session_wf (newSession k)" by (simp add: newSession_def session_wf_def)
    have "p < length (lru_heap ?ds) \<and> ses_ClientID (lru_heap ?ds ! p) = j" if "K (lru_sessions ?ds) j = Some p" for j p
    proof (cases "j = k")
      case False
      then have "K (lru_sessions ds) j = Some p" using add(2) [of j] that c(2) by (auto simp: addSession_def)
      then have "p < length (lru_heap ds) \<and> ses_ClientID (lru_heap ds ! p) = j"
        using wf unfolding sessions_wf_def by blast
      then show ?thesis by (simp add: addSession_def nth_append)
    qed (use that add(1) in \<open>auto simp: addSession_def newSession_def\<close>)
    then have 1: "sessions_wf K ?ds" using wf nw by (auto simp: sessions_wf_def addSession_def)
    have 2: "RegisterClientID C ds k = Inr (zero_Result\<lparr>res_Value := k\<rparr>, ?ds)"
      using c(1) None by (simp add: RegisterClientID_def)
    show ?thesis by (rule that [OF 2 1]) (use None add c(2) in \<open>auto simp: addSession_def\<close>)
  next
    case (Some p)
    then have 2: "RegisterClientID C ds k = Inr (zero_Result, ds\<lparr>lru_sessions := c\<rparr>)"
      using c wf by (auto simp: RegisterClientID_def sessions_wf_def)
    have 1: "sessions_wf K (ds\<lparr>lru_sessions := c\<rparr>)" using wf sessions_wf_recency [of K, OF c(2)] by simp
    show ?thesis by (rule that [OF 2 1]) (use Some c(2) in auto)
  qed
qed

lemma UnregisterClientID_wf:
  assumes C: "cache_ok C K" and wf: "sessions_wf K ds"
  obtains r ds' where "UnregisterClientID C ds k = Inr (r, ds')" "sessions_wf K ds'"
    "K (lru_sessions ds') = (K (lru_sessions ds))(k := None)" "lru_heap ds' = lru_heap ds"
proof -
  obtain c where c: "getSession C ds k = (K (lru_sessions ds) k, ds\<lparr>lru_sessions := c\<rparr>)" "K c = K (lru_sessions ds)"
    by (rule getSession_eq [OF C])
  show thesis
  proof (cases "K (lru_sessions ds) k")
    case None
    then have 2: "UnregisterClientID C ds k = Inr (zero_Result, ds\<lparr>lru_sessions := c\<rparr>)"
      using c(1) by (simp add: UnregisterClientID_def)
    show ?thesis by (rule that [OF 2]) (use None c(2) wf sessions_wf_recency [of K, OF c(2)] in \<open>auto simp: fun_upd_idem\<close>)
  next
    case (Some p)
    then have 2: "UnregisterClientID C ds k = Inr (zero_Result\<lparr>res_Value := k\<rparr>, delSession C (ds\<lparr>lru_sessions := c\<rparr>) k)"
      using c wf by (auto simp: UnregisterClientID_def sessions_wf_def)
    have 1: "sessions_wf K (delSession C (ds\<lparr>lru_sessions := c\<rparr>) k)"
      using wf c(2) by (auto simp: sessions_wf_def delSession_def cache_okD(6) [OF C] split: if_splits)
    show ?thesis by (rule that [OF 2 1]) (use c(2) in \<open>auto simp: delSession_def cache_okD(6) [OF C]\<close>)
  qed
qed

text \<open>A list of entries, the most recently used first, meets the contract of the cache.\<close>

definition list_cache :: "(u64 \<times> nat) list OrderedCache" where
  "list_cache =
     \<lparr>ca_New = [],
      ca_Get = (\<lambda>c k. case map_of c k of None \<Rightarrow> (None, c) | Some v \<Rightarrow> (Some v, (k, v) # mdel k c)),
      ca_AddEntry = (\<lambda>sz c k v. take (unat sz) ((k, v) # mdel k c)),
      ca_Del = (\<lambda>c k. mdel k c)\<rparr>"

lemma map_of_take_None: "map_of (take n l) k = Some v \<Longrightarrow> map_of l k = Some v"
  by (induction l arbitrary: n) (auto simp: take_Cons split: if_splits nat.splits)

lemma list_cache_ok: "cache_ok list_cache map_of"
proof -
  have a: "map_of (take (unat (sz :: u64)) ((k, v) # mdel k c)) k' = map_of c k' \<or>
      map_of (take (unat sz) ((k, v) # mdel k c)) k' = None" if "k' \<noteq> k" for sz k v c k'
    using map_of_take_None [of "unat sz" "(k, v) # mdel k c" k'] that
    by (cases "map_of (take (unat sz) ((k, v) # mdel k c)) k'") auto
  have b: "map_of (take (unat sz) ((k, v) # mdel k c)) k = Some v" if "0 < (sz :: u64)" for sz k v c
    using that by (cases "unat sz") (auto simp: word_less_nat_alt)
  have c: "fst (ca_Get list_cache c k) = map_of c k \<and> map_of (snd (ca_Get list_cache c k)) = map_of c" for c k
    by (auto simp: list_cache_def fun_eq_iff split: option.splits)
  show ?thesis
    unfolding cache_ok_def
    using a b c by (intro conjI allI impI) (simp_all add: list_cache_def delete_conv' fun_eq_iff)
qed

text \<open>
  C38: Forgetting confirmed results is the same on its short path and on its general path: the session then
  keeps exactly the results above the confirmed series number, and the confirmed number never moves back.
\<close>
theorem clearTo_equivalence:
  assumes "session_wf s"
  shows "session_wf (clearTo s to) \<and> ses_RespondedUpTo (clearTo s to) = max to (ses_RespondedUpTo s) \<and>
    ses_History (clearTo s to) = filter (\<lambda>(k, _). to < k) (ses_History s)"
  using clearTo_facts(1) [OF assms] clearTo_reference [OF assms] by simp

lemma clearTo_equivalence_witness:
  "session_wf \<lparr>ses_History = [(3, zero_Result), (4, zero_Result)], ses_ClientID = 7, ses_RespondedUpTo = 2\<rparr> \<and>
   session_wf (clearTo \<lparr>ses_History = [(3, zero_Result), (4, zero_Result)], ses_ClientID = 7, ses_RespondedUpTo = 2\<rparr> 3)"
proof -
  have "session_wf \<lparr>ses_History = [(3, zero_Result), (4, zero_Result)], ses_ClientID = 7, ses_RespondedUpTo = 2\<rparr>"
    by (simp add: session_wf_def gm_wf_def)
  then show ?thesis using clearTo_equivalence by blast
qed

end
