(* ===== verification/RsmMembership.thy ===== *)
theory RsmMembership
  imports Raftpb
begin

text \<open>
  The membership kept by the state machine manager (\<open>raft/internal/rsm/membership.go\<close>). Membership
  changes are committed like any other entry and reach this component in log order; it accepts or rejects
  each of them, and an accepted change is forwarded to the consensus core. Addresses are ASCII strings, so
  that trimming and case folding are those of the ASCII letters and white space.
\<close>

section \<open>Addresses\<close>

definition isSpace :: "char \<Rightarrow> bool" where
  "isSpace c \<longleftrightarrow> of_char c \<in> {9, 10, 11, 12, 13, 32 :: nat}"

definition TrimSpace :: "string \<Rightarrow> string" where
  "TrimSpace s = rev (dropWhile isSpace (rev (dropWhile isSpace s)))"

definition foldCase :: "char \<Rightarrow> char" where
  "foldCase c = (let n = of_char c :: nat in if 65 \<le> n \<and> n \<le> 90 then char_of (n + 32) else c)"

definition EqualFold :: "string \<Rightarrow> string \<Rightarrow> bool" where
  "EqualFold s t \<longleftrightarrow> map foldCase s = map foldCase t"

definition addressEqual :: "string \<Rightarrow> string \<Rightarrow> bool" where
  "addressEqual addr1 addr2 = EqualFold (TrimSpace addr1) (TrimSpace addr2)"

lemma addressEqual_refl [simp]: "addressEqual a a"
  by (simp add: addressEqual_def EqualFold_def)

lemma addressEqual_sym: "addressEqual a b = addressEqual b a"
  by (auto simp: addressEqual_def EqualFold_def)

lemma addressEqual_trans: "addressEqual a b \<Longrightarrow> addressEqual b c \<Longrightarrow> addressEqual a c"
  by (simp add: addressEqual_def EqualFold_def)

section \<open>State\<close>

record membership =
  ms_members :: Membership
  ms_shardID :: u64
  ms_replicaID :: u64
  ms_ordered :: bool

definition deepCopyMembership :: "Membership \<Rightarrow> Membership" where
  "deepCopyMembership m =
     \<lparr>mb_ConfigChangeId = mb_ConfigChangeId m,
      mb_Addresses = maps_copy [] (mb_Addresses m),
      mb_Removed = fold (\<lambda>nid. mput nid True) (mkeys (mb_Removed m)) [],
      mb_NonVotings = maps_copy [] (mb_NonVotings m),
      mb_Witnesses = maps_copy [] (mb_Witnesses m)\<rparr>"

definition newMembership :: "u64 \<Rightarrow> u64 \<Rightarrow> bool \<Rightarrow> membership" where
  "newMembership shardID replicaID ordered =
     \<lparr>ms_members = \<lparr>mb_ConfigChangeId = 0, mb_Addresses = [], mb_Removed = [], mb_NonVotings = [], mb_Witnesses = []\<rparr>,
      ms_shardID = shardID, ms_replicaID = replicaID, ms_ordered = ordered\<rparr>"

definition ms_set :: "membership \<Rightarrow> Membership \<Rightarrow> membership" where
  "ms_set m n = m\<lparr>ms_members := deepCopyMembership n\<rparr>"

definition ms_get :: "membership \<Rightarrow> Membership" where
  "ms_get m = deepCopyMembership (ms_members m)"

definition ms_isEmpty :: "membership \<Rightarrow> bool" where
  "ms_isEmpty m \<longleftrightarrow> length (mb_Addresses (ms_members m)) = 0"

section \<open>Reasons to reject a change\<close>

definition isAddition :: "ConfigChange \<Rightarrow> bool" where
  "isAddition cc \<longleftrightarrow> cc_Type cc = AddNode \<or> cc_Type cc = AddNonVoting \<or> cc_Type cc = AddWitness"

definition isUpToDate :: "membership \<Rightarrow> ConfigChange \<Rightarrow> bool" where
  "isUpToDate m cc =
     (if \<not> ms_ordered m \<or> cc_Initialize cc then True
      else if mb_ConfigChangeId (ms_members m) = cc_ConfigChangeId cc then True else False)"

definition isAddRemovedNode :: "membership \<Rightarrow> ConfigChange \<Rightarrow> bool" where
  "isAddRemovedNode m cc =
     (if isAddition cc then mhas (mb_Removed (ms_members m)) (cc_ReplicaID cc) else False)"

definition isPromoteNonVoting :: "membership \<Rightarrow> ConfigChange \<Rightarrow> bool" where
  "isPromoteNonVoting m cc =
     (if cc_Type cc = AddNode then
        case mget (mb_NonVotings (ms_members m)) (cc_ReplicaID cc) of
          None \<Rightarrow> False | Some oa \<Rightarrow> addressEqual oa (cc_Address cc)
      else False)"

definition isInvalidNonVotingPromotion :: "membership \<Rightarrow> ConfigChange \<Rightarrow> bool" where
  "isInvalidNonVotingPromotion m cc =
     (if cc_Type cc = AddNode then
        case mget (mb_NonVotings (ms_members m)) (cc_ReplicaID cc) of
          None \<Rightarrow> False | Some oa \<Rightarrow> \<not> addressEqual oa (cc_Address cc)
      else False)"

definition isAddExistingMember :: "membership \<Rightarrow> ConfigChange \<Rightarrow> bool" where
  "isAddExistingMember m cc =
     (let mb = ms_members m; id = cc_ReplicaID cc;
          taken = (\<lambda>addrs. list_ex (\<lambda>(_, addr). addressEqual addr (cc_Address cc)) addrs)
      in if cc_Type cc = AddNode \<and> mhas (mb_Addresses mb) id then True
         else if cc_Type cc = AddNonVoting \<and> mhas (mb_NonVotings mb) id then True
         else if cc_Type cc = AddWitness \<and> mhas (mb_Witnesses mb) id then True
         else if isPromoteNonVoting m cc then False
         else if isAddition cc then taken (mb_Addresses mb) \<or> taken (mb_NonVotings mb) \<or> taken (mb_Witnesses mb)
         else False)"

definition isAddNodeAsNonVoting :: "membership \<Rightarrow> ConfigChange \<Rightarrow> bool" where
  "isAddNodeAsNonVoting m cc \<longleftrightarrow> cc_Type cc = AddNonVoting \<and> mhas (mb_Addresses (ms_members m)) (cc_ReplicaID cc)"

definition isAddNodeAsWitness :: "membership \<Rightarrow> ConfigChange \<Rightarrow> bool" where
  "isAddNodeAsWitness m cc \<longleftrightarrow> cc_Type cc = AddWitness \<and> mhas (mb_Addresses (ms_members m)) (cc_ReplicaID cc)"

definition isAddWitnessAsNonVoting :: "membership \<Rightarrow> ConfigChange \<Rightarrow> bool" where
  "isAddWitnessAsNonVoting m cc \<longleftrightarrow> cc_Type cc = AddNonVoting \<and> mhas (mb_Witnesses (ms_members m)) (cc_ReplicaID cc)"

definition isAddWitnessAsNode :: "membership \<Rightarrow> ConfigChange \<Rightarrow> bool" where
  "isAddWitnessAsNode m cc \<longleftrightarrow> cc_Type cc = AddNode \<and> mhas (mb_Witnesses (ms_members m)) (cc_ReplicaID cc)"

definition isAddNonVotingAsWitness :: "membership \<Rightarrow> ConfigChange \<Rightarrow> bool" where
  "isAddNonVotingAsWitness m cc \<longleftrightarrow> cc_Type cc = AddWitness \<and> mhas (mb_NonVotings (ms_members m)) (cc_ReplicaID cc)"

definition isDeleteOnlyNode :: "membership \<Rightarrow> ConfigChange \<Rightarrow> bool" where
  "isDeleteOnlyNode m cc =
     (if cc_Type cc = RemoveNode \<and> length (mb_Addresses (ms_members m)) = 1
      then mhas (mb_Addresses (ms_members m)) (cc_ReplicaID cc) else False)"

section \<open>Applying a change\<close>

definition ms_apply :: "membership \<Rightarrow> ConfigChange \<Rightarrow> u64 \<Rightarrow> membership res" where
  "ms_apply m cc index =
     (let mb = (ms_members m)\<lparr>mb_ConfigChangeId := index\<rparr>; id = cc_ReplicaID cc in
      case cc_Type cc of
        AddNode \<Rightarrow>
          let mb = mb\<lparr>mb_NonVotings := mdel id (mb_NonVotings mb)\<rparr> in
          if mhas (mb_Witnesses mb) id then Inl (GoPanic ''not suppose to reach here'')
          else Inr (m\<lparr>ms_members := mb\<lparr>mb_Addresses := mput id (cc_Address cc) (mb_Addresses mb)\<rparr>\<rparr>)
      | AddNonVoting \<Rightarrow>
          if mhas (mb_Addresses mb) id then Inl (GoPanic ''not suppose to reach here'')
          else Inr (m\<lparr>ms_members := mb\<lparr>mb_NonVotings := mput id (cc_Address cc) (mb_NonVotings mb)\<rparr>\<rparr>)
      | AddWitness \<Rightarrow>
          if mhas (mb_Addresses mb) id then Inl (GoPanic ''not suppose to reach here'')
          else if mhas (mb_NonVotings mb) id then Inl (GoPanic ''not suppose to reach here'')
          else Inr (m\<lparr>ms_members := mb\<lparr>mb_Witnesses := mput id (cc_Address cc) (mb_Witnesses mb)\<rparr>\<rparr>)
      | RemoveNode \<Rightarrow>
          Inr (m\<lparr>ms_members := mb\<lparr>mb_Addresses := mdel id (mb_Addresses mb),
                 mb_NonVotings := mdel id (mb_NonVotings mb),
                 mb_Witnesses := mdel id (mb_Witnesses mb),
                 mb_Removed := mput id True (mb_Removed mb)\<rparr>\<rparr>))"

definition cc_accepted :: "membership \<Rightarrow> ConfigChange \<Rightarrow> bool" where
  "cc_accepted m cc \<longleftrightarrow>
     isUpToDate m cc \<and> \<not> isAddRemovedNode m cc \<and> \<not> isAddExistingMember m cc \<and>
     \<not> isAddNodeAsNonVoting m cc \<and> \<not> isAddNodeAsWitness m cc \<and> \<not> isAddWitnessAsNode m cc \<and>
     \<not> isAddWitnessAsNonVoting m cc \<and> \<not> isAddNonVotingAsWitness m cc \<and> \<not> isDeleteOnlyNode m cc \<and>
     \<not> isInvalidNonVotingPromotion m cc"

definition ms_handleConfigChange :: "membership \<Rightarrow> ConfigChange \<Rightarrow> u64 \<Rightarrow> (membership \<times> bool) res" where
  "ms_handleConfigChange m cc index =
     (let accepted = cc_accepted m cc in
      bind_res (if accepted then ms_apply m cc index else Inr m) (\<lambda>m. Inr (m, accepted)))"

section \<open>Invariant\<close>

text \<open>
  A replica is in at most one of the four maps, and no two replicas that are members share an address.
\<close>

definition member_addr :: "Membership \<Rightarrow> u64 \<Rightarrow> string option" where
  "member_addr mb nid =
     (case mget (mb_Addresses mb) nid of Some a \<Rightarrow> Some a | None \<Rightarrow>
      case mget (mb_NonVotings mb) nid of Some a \<Rightarrow> Some a | None \<Rightarrow> mget (mb_Witnesses mb) nid)"

definition membership_wf :: "Membership \<Rightarrow> bool" where
  "membership_wf mb \<longleftrightarrow>
     gm_wf (mb_Addresses mb) \<and> gm_wf (mb_NonVotings mb) \<and> gm_wf (mb_Witnesses mb) \<and> gm_wf (mb_Removed mb) \<and>
     (\<forall>nid. mhas (mb_Addresses mb) nid \<longrightarrow> \<not> mhas (mb_NonVotings mb) nid \<and> \<not> mhas (mb_Witnesses mb) nid) \<and>
     (\<forall>nid. mhas (mb_NonVotings mb) nid \<longrightarrow> \<not> mhas (mb_Witnesses mb) nid) \<and>
     (\<forall>nid. mhas (mb_Removed mb) nid \<longrightarrow> member_addr mb nid = None)"

definition addresses_distinct :: "Membership \<Rightarrow> bool" where
  "addresses_distinct mb \<longleftrightarrow>
     (\<forall>i j a b. member_addr mb i = Some a \<and> member_addr mb j = Some b \<and> addressEqual a b \<longrightarrow> i = j)"

lemmas cc_checks = isUpToDate_def isAddRemovedNode_def isAddExistingMember_def isAddNodeAsNonVoting_def
  isAddNodeAsWitness_def isAddWitnessAsNode_def isAddWitnessAsNonVoting_def isAddNonVotingAsWitness_def
  isDeleteOnlyNode_def isInvalidNonVotingPromotion_def isPromoteNonVoting_def isAddition_def

lemma accepted_apply:
  assumes "cc_accepted m cc"
  obtains m' where "ms_apply m cc index = Inr m'" and "mb_ConfigChangeId (ms_members m') = index"
    and "ms_ordered m' = ms_ordered m"
  using assms by (cases "cc_Type cc") (auto simp: cc_accepted_def cc_checks ms_apply_def Let_def)

lemma member_addr_None: "member_addr mb nid = None \<longleftrightarrow>
    \<not> mhas (mb_Addresses mb) nid \<and> \<not> mhas (mb_NonVotings mb) nid \<and> \<not> mhas (mb_Witnesses mb) nid"
  by (auto simp: member_addr_def mhas_def split: option.splits)

lemma accepted_wf:
  assumes "cc_accepted m cc" "ms_apply m cc index = Inr m'" "membership_wf (ms_members m)"
  shows "membership_wf (ms_members m')"
  using assms by (cases "cc_Type cc")
    (auto simp: cc_accepted_def cc_checks ms_apply_def Let_def membership_wf_def member_addr_None)

lemma untaken:
  assumes "\<not> list_ex (\<lambda>(_, addr). addressEqual addr x) l" "map_of l nid = Some a"
  shows "\<not> addressEqual a x"
  using assms by (auto simp: list_ex_iff dest: map_of_SomeD)

text \<open>The address a change adds is not that of another member.\<close>

lemma accepted_fresh:
  assumes "cc_accepted m cc" "isAddition cc" "addresses_distinct (ms_members m)" "membership_wf (ms_members m)"
    "member_addr (ms_members m) i = Some a" "addressEqual a (cc_Address cc)"
  shows "i = cc_ReplicaID cc"
proof (cases "isPromoteNonVoting m cc")
  case True
  then obtain oa where "mget (mb_NonVotings (ms_members m)) (cc_ReplicaID cc) = Some oa" "addressEqual oa (cc_Address cc)"
    by (auto simp: isPromoteNonVoting_def split: if_splits option.splits)
  moreover from this have "member_addr (ms_members m) (cc_ReplicaID cc) = Some oa"
    using assms(4) by (auto simp: member_addr_def membership_wf_def mhas_def split: option.splits)
  moreover have "addressEqual a oa" using assms(6) calculation(2) addressEqual_sym addressEqual_trans by blast
  ultimately show ?thesis using assms(3,5) unfolding addresses_distinct_def by blast
next
  case False
  let ?t = "\<lambda>l. list_ex (\<lambda>(_, addr). addressEqual addr (cc_Address cc)) l" and ?mb = "ms_members m"
  have "\<not> isAddExistingMember m cc" using assms(1) by (simp add: cc_accepted_def)
  then have "\<not> ?t (mb_Addresses ?mb)" "\<not> ?t (mb_NonVotings ?mb)" "\<not> ?t (mb_Witnesses ?mb)"
    using False assms(2) by (simp_all add: isAddExistingMember_def Let_def split: if_splits)
  moreover have "mget (mb_Addresses ?mb) i = Some a \<or> mget (mb_NonVotings ?mb) i = Some a \<or> mget (mb_Witnesses ?mb) i = Some a"
    using assms(5) by (simp add: member_addr_def split: option.splits)
  ultimately have "\<not> addressEqual a (cc_Address cc)" by (elim disjE) (erule (1) untaken)+
  then show ?thesis using assms(6) by contradiction
qed

lemma accepted_facts:
  assumes "cc_accepted m cc"
  shows "isAddition cc \<Longrightarrow> \<not> mhas (mb_Addresses (ms_members m)) (cc_ReplicaID cc) \<and> \<not> mhas (mb_Witnesses (ms_members m)) (cc_ReplicaID cc)"
    and "isAddition cc \<Longrightarrow> cc_Type cc \<noteq> AddNode \<Longrightarrow> \<not> mhas (mb_NonVotings (ms_members m)) (cc_ReplicaID cc)"
  using assms unfolding cc_accepted_def isAddition_def isAddExistingMember_def isAddNodeAsNonVoting_def
    isAddNodeAsWitness_def isAddWitnessAsNode_def isAddWitnessAsNonVoting_def isAddNonVotingAsWitness_def Let_def
  by (auto split: if_splits)

lemma accepted_member_addr:
  assumes "cc_accepted m cc" "ms_apply m cc index = Inr m'"
  shows "member_addr (ms_members m') i =
    (if i = cc_ReplicaID cc then if isAddition cc then Some (cc_Address cc) else None else member_addr (ms_members m) i)"
proof (cases "isAddition cc")
  case True
  note f = accepted_facts [OF assms(1) True]
  show ?thesis
  proof (cases "cc_Type cc = AddNode")
    case False
    then have "cc_Type cc = AddNonVoting \<or> cc_Type cc = AddWitness" using True by (simp add: isAddition_def)
    then show ?thesis using True f(1) f(2) [OF False] assms(2)
      by (elim disjE) (auto simp: ms_apply_def Let_def member_addr_def mhas_def cong: option.case_cong)
  qed (use True f(1) assms(2) in \<open>auto simp: ms_apply_def Let_def member_addr_def cong: option.case_cong\<close>)
next
  case False
  then have "cc_Type cc = RemoveNode" by (cases "cc_Type cc") (simp_all add: isAddition_def)
  then show ?thesis using False assms(2) by (auto simp: ms_apply_def Let_def member_addr_def cong: option.case_cong)
qed

lemma accepted_distinct:
  assumes "cc_accepted m cc" "ms_apply m cc index = Inr m'" "membership_wf (ms_members m)"
    "addresses_distinct (ms_members m)"
  shows "addresses_distinct (ms_members m')"
  unfolding addresses_distinct_def
proof (intro allI impI, elim conjE)
  fix i j a b
  assume 1: "member_addr (ms_members m') i = Some a" "member_addr (ms_members m') j = Some b" "addressEqual a b"
  note [simp] = accepted_member_addr [OF assms(1,2)]
  note fresh = accepted_fresh [OF assms(1) _ assms(4) assms(3)]
  have old: "addressEqual a b \<Longrightarrow> member_addr (ms_members m) i = Some a \<Longrightarrow> member_addr (ms_members m) j = Some b \<Longrightarrow> i = j"
    using assms(4) unfolding addresses_distinct_def by blast
  show "i = j"
    using 1 old fresh [of i a] fresh [of j b] addressEqual_sym [of a b] by (auto split: if_splits)
qed

lemma accepted_keeps_voter:
  assumes "cc_accepted m cc" "ms_apply m cc index = Inr m'" "membership_wf (ms_members m)" "\<not> ms_isEmpty m"
  shows "\<not> ms_isEmpty m'"
proof (cases "cc_Type cc")
  case RemoveNode
  let ?A = "mb_Addresses (ms_members m)"
  obtain k v A' where A: "?A = (k, v) # A'" using assms(4) by (cases ?A) (auto simp: ms_isEmpty_def)
  have "\<exists>i. i \<noteq> cc_ReplicaID cc \<and> mhas ?A i"
  proof (cases "k = cc_ReplicaID cc")
    case True
    then have "length ?A \<noteq> 1" using RemoveNode assms(1) A by (auto simp: cc_accepted_def isDeleteOnlyNode_def mhas_def)
    then obtain k' v' A'' where "A' = (k', v') # A''" using A by (cases A') auto
    then show ?thesis using assms(3) A True by (auto simp: membership_wf_def gm_wf_def mhas_def intro!: exI [of _ k'])
  qed (auto simp: A mhas_def)
  then obtain i where "mhas (mdel (cc_ReplicaID cc) ?A) i" by auto
  then have "mdel (cc_ReplicaID cc) ?A \<noteq> []" by (metis mhas_iff list.simps(8) list.set(1) empty_iff)
  then show ?thesis using RemoveNode assms(2) by (auto simp: ms_apply_def ms_isEmpty_def Let_def)
next
  case AddNode
  then have "mb_Addresses (ms_members m') = mput (cc_ReplicaID cc) (cc_Address cc) (mb_Addresses (ms_members m))"
    using assms(2) by (auto simp: ms_apply_def Let_def split: if_splits)
  then show ?thesis unfolding ms_isEmpty_def by (metis length_mput length_0_conv mhas_iff list.set(1) list.simps(8) empty_iff nat.distinct(2))
qed (use assms in \<open>auto simp: ms_apply_def ms_isEmpty_def Let_def split: if_splits\<close>)

lemma accepted_removed:
  assumes "ms_apply m cc index = Inr m'"
  shows "mhas (mb_Removed (ms_members m')) i \<longleftrightarrow>
    mhas (mb_Removed (ms_members m)) i \<or> cc_Type cc = RemoveNode \<and> i = cc_ReplicaID cc"
  using assms by (cases "cc_Type cc") (auto simp: ms_apply_def Let_def split: if_splits)

lemma handleConfigChange_cases:
  obtains (rejected) "\<not> cc_accepted m cc" "ms_handleConfigChange m cc index = Inr (m, False)"
  | (accepted) m' where "cc_accepted m cc" "ms_apply m cc index = Inr m'" "ms_handleConfigChange m cc index = Inr (m', True)"
proof (cases "cc_accepted m cc")
  case True
  then obtain m' where "ms_apply m cc index = Inr m'" by (rule accepted_apply)
  with True accepted show ?thesis by (simp add: ms_handleConfigChange_def Let_def)
qed (use rejected in \<open>simp add: ms_handleConfigChange_def Let_def\<close>)


definition demo_membership :: membership where
  "demo_membership = (newMembership 1 1 True)\<lparr>ms_members :=
     \<lparr>mb_ConfigChangeId = 3, mb_Addresses = [(1, ''a1''), (2, ''a2'')], mb_Removed = [(4, True)],
      mb_NonVotings = [(3, ''a3'')], mb_Witnesses = []\<rparr>\<rparr>"

lemma demo_membership_wf: "membership_wf (ms_members demo_membership) \<and> addresses_distinct (ms_members demo_membership)"
proof -
  have "\<not> addressEqual ''a1'' ''a2''" "\<not> addressEqual ''a1'' ''a3''" "\<not> addressEqual ''a2'' ''a3''" by code_simp+
  then show ?thesis
    using addressEqual_sym
    by (auto simp: demo_membership_def newMembership_def membership_wf_def addresses_distinct_def member_addr_def
        gm_wf_def mhas_def split: if_splits)
qed


end
