(* ===== verification/RsmTaskQueue.thy ===== *)
theory RsmTaskQueue
  imports Raftpb
begin

text \<open>
  The queue of tasks of the state machine manager (\<open>raft/internal/rsm/taskqueue.go\<close>): a slice with the
  position of the next task, compacted when its capacity is large and few tasks are left. The capacity of
  a slice is the choice of the Go runtime, a function \<open>cp\<close> of the slice here; the queue behaves as a
  first-in first-out list whatever it is.
\<close>

record 't TaskQueue =
  tq_tasks :: "'t list"
  tq_next :: nat

definition TaskQueueInitialCap :: nat where "TaskQueueInitialCap = 24"

definition TaskQueueTargetLength :: nat where "TaskQueueTargetLength = 64"

definition NewTaskQueue :: "'t TaskQueue" where
  "NewTaskQueue = \<lparr>tq_tasks = [], tq_next = 0\<rparr>"

definition tq_size :: "'t TaskQueue \<Rightarrow> nat" where
  "tq_size tq = length (tq_tasks tq) - tq_next tq"

definition MoreEntryToApply :: "'t TaskQueue \<Rightarrow> bool" where
  "MoreEntryToApply tq \<longleftrightarrow> tq_size tq < TaskQueueTargetLength"

definition tq_resize :: "('t list \<Rightarrow> nat) \<Rightarrow> 't TaskQueue \<Rightarrow> 't TaskQueue" where
  "tq_resize cp tq =
     (if cp (tq_tasks tq) > TaskQueueInitialCap * 2 then
        if tq_size tq < TaskQueueInitialCap
        then tq\<lparr>tq_tasks := take (tq_size tq) (drop (tq_next tq) (tq_tasks tq)), tq_next := 0\<rparr> else tq
      else tq)"

definition tq_Add :: "'t TaskQueue \<Rightarrow> 't \<Rightarrow> 't TaskQueue" where
  "tq_Add tq task = tq\<lparr>tq_tasks := tq_tasks tq @ [task]\<rparr>"

definition tq_GetAll :: "'t TaskQueue \<Rightarrow> 't list \<times> 't TaskQueue" where
  "tq_GetAll tq = (tq_tasks tq, tq\<lparr>tq_tasks := [], tq_next := 0\<rparr>)"

definition tq_Get :: "('t list \<Rightarrow> nat) \<Rightarrow> 't \<Rightarrow> 't TaskQueue \<Rightarrow> 't option \<times> 't TaskQueue" where
  "tq_Get cp emptyTask tq =
     (if tq_next tq < length (tq_tasks tq) then
        let task = tq_tasks tq ! tq_next tq in
        (Some task, tq_resize cp (tq\<lparr>tq_tasks := (tq_tasks tq)[tq_next tq := emptyTask], tq_next := tq_next tq + 1\<rparr>))
      else (None, tq_resize cp tq))"

section \<open>Refinement of a first-in first-out list\<close>

definition tq_wf :: "'t TaskQueue \<Rightarrow> bool" where
  "tq_wf tq \<longleftrightarrow> tq_next tq \<le> length (tq_tasks tq)"

definition tq_abs :: "'t TaskQueue \<Rightarrow> 't list" where
  "tq_abs tq = drop (tq_next tq) (tq_tasks tq)"

lemma tq_resize_abs [simp]:
  "tq_wf tq \<Longrightarrow> tq_wf (tq_resize cp tq)" "tq_abs (tq_resize cp tq) = tq_abs tq"
  by (auto simp: tq_resize_def tq_wf_def tq_abs_def tq_size_def)

lemma tq_Get_cases:
  assumes "tq_wf tq"
  obtains (empty) tq' where "tq_abs tq = []" "tq_Get cp e tq = (None, tq')" "tq_wf tq'" "tq_abs tq' = []"
  | (task) t tq' where "tq_Get cp e tq = (Some t, tq')" "tq_wf tq'" "tq_abs tq = t # tq_abs tq'"
proof (cases "tq_next tq < length (tq_tasks tq)")
  case True
  let ?q = "tq\<lparr>tq_tasks := (tq_tasks tq)[tq_next tq := e], tq_next := tq_next tq + 1\<rparr>"
  have "tq_wf (tq_resize cp ?q)" using True by (intro tq_resize_abs) (simp add: tq_wf_def)
  moreover have "tq_abs tq = tq_tasks tq ! tq_next tq # tq_abs (tq_resize cp ?q)"
    unfolding tq_resize_abs using True by (simp add: tq_abs_def Cons_nth_drop_Suc)
  moreover have "tq_Get cp e tq = (Some (tq_tasks tq ! tq_next tq), tq_resize cp ?q)"
    using True by (simp add: tq_Get_def Let_def)
  ultimately show ?thesis by (intro task)
next
  case False
  then have "tq_abs tq = []" by (simp add: tq_abs_def)
  then show ?thesis using False assms by (intro empty [of "tq_resize cp tq"]) (simp_all add: tq_Get_def)
qed

text \<open>
  C39: The task queue is a first-in first-out list, whatever capacity the runtime gives its slice: adding a
  task appends it, taking one returns the oldest task and keeps the others in order, and an empty queue
  returns none. Its size is the length of the list.
\<close>
theorem task_queue_fifo:
  assumes "tq_wf (tq :: 't TaskQueue)"
  shows "tq_abs NewTaskQueue = ([] :: 't list) \<and>
    tq_wf (tq_Add tq t) \<and> tq_abs (tq_Add tq t) = tq_abs tq @ [t] \<and> tq_size tq = length (tq_abs tq) \<and>
    (case tq_Get cp e tq of (r, tq') \<Rightarrow> tq_wf tq' \<and>
       (case tq_abs tq of [] \<Rightarrow> r = None \<and> tq_abs tq' = [] | x # xs \<Rightarrow> r = Some x \<and> tq_abs tq' = xs))"
proof -
  have "case tq_Get cp e tq of (r, tq') \<Rightarrow> tq_wf tq' \<and>
      (case tq_abs tq of [] \<Rightarrow> r = None \<and> tq_abs tq' = [] | x # xs \<Rightarrow> r = Some x \<and> tq_abs tq' = xs)"
    by (rule tq_Get_cases [OF assms, of cp e]) simp_all
  then show ?thesis using assms by (simp add: NewTaskQueue_def tq_Add_def tq_wf_def tq_abs_def tq_size_def)
qed

lemma task_queue_fifo_witness:
  "tq_wf \<lparr>tq_tasks = [0, 5, 6 :: nat], tq_next = 1\<rparr> \<and>
   tq_abs (snd (tq_Get (\<lambda>_. 1000) 0 \<lparr>tq_tasks = [0, 5, 6 :: nat], tq_next = 1\<rparr>)) = [6]"
proof -
  have wf: "tq_wf \<lparr>tq_tasks = [0, 5, 6 :: nat], tq_next = 1\<rparr>" by (simp add: tq_wf_def)
  moreover have "tq_abs \<lparr>tq_tasks = [0, 5, 6 :: nat], tq_next = 1\<rparr> = [5, 6]" by (simp add: tq_abs_def)
  ultimately show ?thesis
    using task_queue_fifo [OF wf, of 9 "\<lambda>_. 1000" 0] by (auto split: prod.splits)
qed

end
