(* ===== verification/RsmStateMachine.thy ===== *)
theory RsmStateMachine
  imports RsmPayload RsmSession RsmMembership RsmTaskQueue Codec
begin

text \<open>
  The state machine manager (\<open>raft/internal/rsm/statemachine.go\<close>), which applies committed entries to the
  user's state machine. The user's state machine, the snapshotter and the node are interfaces of the code
  and parameters of the model; the calls made to the node are recorded in the order they are made. The
  mutexes guard what is a single step here.
\<close>

section \<open>State\<close>

datatype SSReqType = Periodic | UserRequested | Exported | Streaming

record SSRequest =
  rq_Path :: string
  rq_Type :: SSReqType
  rq_Key :: u64
  rq_CompactionOverhead :: u64
  rq_CompactionIndex :: u64
  rq_OverrideCompaction :: bool

record Task =
  tk_Entries :: "Entry list"
  tk_SSRequest :: SSRequest
  tk_ShardID :: u64
  tk_ReplicaID :: u64
  tk_Index :: u64
  tk_Save :: bool
  tk_Stream :: bool
  tk_PeriodicSync :: bool
  tk_NewNode :: bool
  tk_Recover :: bool
  tk_Initial :: bool

definition emptyTask :: Task where
  "emptyTask =
     \<lparr>tk_Entries = [], tk_SSRequest = \<lparr>rq_Path = [], rq_Type = Periodic, rq_Key = 0, rq_CompactionOverhead = 0,
        rq_CompactionIndex = 0, rq_OverrideCompaction = False\<rparr>, tk_ShardID = 0, tk_ReplicaID = 0, tk_Index = 0,
      tk_Save = False, tk_Stream = False, tk_PeriodicSync = False, tk_NewNode = False, tk_Recover = False,
      tk_Initial = False\<rparr>"

definition IsSnapshotTask :: "Task \<Rightarrow> bool" where
  "IsSnapshotTask t \<longleftrightarrow> tk_Recover t \<or> tk_Save t \<or> tk_Stream t"

definition isSyncTask :: "Task \<Rightarrow> bool res" where
  "isSyncTask t =
     (if tk_PeriodicSync t \<and> IsSnapshotTask t then Inl (GoPanic ''invalid task'') else Inr (tk_PeriodicSync t))"

datatype node_call =
  ApplyUpdate Entry smResult bool bool bool
| ApplyConfigChange ConfigChange u64 bool
| RestoreRemotes Snapshot

record 'u userSM =
  us_Update :: "'u \<Rightarrow> u64 \<Rightarrow> bytes \<Rightarrow> ('u \<times> smResult) res"
  us_BatchedUpdate :: "'u \<Rightarrow> (u64 \<times> bytes) list \<Rightarrow> ('u \<times> (u64 \<times> smResult) list) res"
  us_Sync :: "'u \<Rightarrow> 'u res"
  us_Open :: "'u \<Rightarrow> ('u \<times> u64) res"
  us_Concurrent :: bool

record ('c, 'u) sm_env =
  en_cache :: "'c OrderedCache"
  en_user :: "'u userSM"
  en_snappy :: snappy
  en_Shrunk :: "Snapshot \<Rightarrow> bool res"
  en_Load :: "Snapshot \<Rightarrow> 'c lrusession \<Rightarrow> 'u \<Rightarrow> ('c lrusession \<times> 'u) res"
  en_ApplyConfigChange :: "ConfigChange \<Rightarrow> u64 \<Rightarrow> bool \<Rightarrow> unit res"
  en_cap :: "Task list \<Rightarrow> nat"

record ('c, 'u) StateMachine =
  sm_user :: 'u
  sm_taskQ :: "Task TaskQueue"
  sm_sessions :: "'c lrusession"
  sm_members :: membership
  sm_lastApplied_index :: u64
  sm_lastApplied_term :: u64
  sm_index :: u64
  sm_term :: u64
  sm_snapshotIndex :: u64
  sm_onDiskInitIndex :: u64
  sm_onDiskIndex :: u64
  sm_syncedIndex :: u64
  sm_onDiskSM :: bool
  sm_aborted :: bool
  sm_isWitness :: bool
  sm_calls :: "node_call list"

definition tell :: "node_call \<Rightarrow> ('c, 'u) StateMachine \<Rightarrow> ('c, 'u) StateMachine" where
  "tell c s = s\<lparr>sm_calls := sm_calls s @ [c]\<rparr>"

definition NewStateMachine :: "('c, 'u) sm_env \<Rightarrow> 'u \<Rightarrow> bool \<Rightarrow> u64 \<Rightarrow> u64 \<Rightarrow> bool \<Rightarrow> bool \<Rightarrow> ('c, 'u) StateMachine res" where
  "NewStateMachine E sm onDisk shardID replicaID ordered isWitness =
     bind_res (NewSessionManager (en_cache E)) (\<lambda>sessions.
     Inr \<lparr>sm_user = sm, sm_taskQ = NewTaskQueue, sm_sessions = sessions,
          sm_members = newMembership shardID replicaID ordered, sm_lastApplied_index = 0, sm_lastApplied_term = 0,
          sm_index = 0, sm_term = 0, sm_snapshotIndex = 0, sm_onDiskInitIndex = 0, sm_onDiskIndex = 0,
          sm_syncedIndex = 0, sm_onDiskSM = onDisk, sm_aborted = False, sm_isWitness = isWitness, sm_calls = []\<rparr>)"

section \<open>Indexes\<close>

definition setSyncedIndex :: "u64 \<Rightarrow> ('c, 'u) StateMachine \<Rightarrow> ('c, 'u) StateMachine res" where
  "setSyncedIndex index s =
     (if sm_syncedIndex s > index then Inl (GoPanic ''synced index moving backward'')
      else Inr (s\<lparr>sm_syncedIndex := index\<rparr>))"

definition sm_setApplied :: "u64 \<Rightarrow> u64 \<Rightarrow> ('c, 'u) StateMachine \<Rightarrow> ('c, 'u) StateMachine res" where
  "sm_setApplied index term s =
     (if sm_index s + 1 \<noteq> index then Inl (GoPanic ''applied index gap'')
      else if sm_term s > term then Inl (GoPanic ''applied term moving backward'')
      else Inr (s\<lparr>sm_index := index, sm_term := term\<rparr>))"

fun check_entries :: "u64 \<Rightarrow> u64 \<Rightarrow> Entry list \<Rightarrow> unit res" where
  "check_entries index term [] = Inr ()"
| "check_entries index term (e # es) =
     (if e_Index e = 0 \<or> e_Term e = 0 then Inl (GoPanic ''invalid entry'')
      else if e_Index e \<noteq> index + 1 then Inl (GoPanic ''index gap found'')
      else if e_Term e < term then Inl (GoPanic ''term moving backward'')
      else check_entries (e_Index e) (e_Term e) es)"

definition setLastApplied :: "Entry list \<Rightarrow> ('c, 'u) StateMachine \<Rightarrow> ('c, 'u) StateMachine res" where
  "setLastApplied entries s =
     (case entries of
        [] \<Rightarrow> Inr s
      | e # es \<Rightarrow>
          if e_Index e = 0 \<or> e_Term e = 0 then Inl (GoPanic ''invalid entry'')
          else
            bind_res (check_entries (e_Index e) (e_Term e) es) (\<lambda>_.
            if sm_lastApplied_index s + 1 \<noteq> e_Index e then Inl (GoPanic ''gap between batches'')
            else if sm_lastApplied_term s > e_Term e then Inl (GoPanic ''invalid term'')
            else Inr (s\<lparr>sm_lastApplied_index := e_Index (last entries), sm_lastApplied_term := e_Term (last entries)\<rparr>)))"

definition entryInInitDiskSM :: "('c, 'u) StateMachine \<Rightarrow> u64 \<Rightarrow> bool" where
  "entryInInitDiskSM s index = (if \<not> sm_onDiskSM s then False else index \<le> sm_onDiskInitIndex s)"

definition setOnDiskIndex :: "u64 \<Rightarrow> u64 \<Rightarrow> ('c, 'u) StateMachine \<Rightarrow> ('c, 'u) StateMachine res" where
  "setOnDiskIndex fst_i lst_i s =
     (if \<not> sm_onDiskSM s then Inr s
      else if fst_i > lst_i then Inl (GoPanic ''first > last'')
      else if fst_i \<le> sm_onDiskInitIndex s then Inl (GoPanic ''first index below init on disk'')
      else if fst_i \<le> sm_onDiskIndex s then Inl (GoPanic ''first index below on disk index'')
      else Inr (s\<lparr>sm_onDiskIndex := lst_i\<rparr>))"

section \<open>Applying one entry\<close>

definition isEmptyResult :: "smResult \<Rightarrow> bool" where
  "isEmptyResult result \<longleftrightarrow> res_Data result = None \<and> res_Value result = 0"

definition sm_configChange :: "('c, 'u) sm_env \<Rightarrow> Entry \<Rightarrow> ('c, 'u) StateMachine \<Rightarrow> ('c, 'u) StateMachine res" where
  "sm_configChange E e s =
     (case cc_Unmarshal (e_Cmd e)
        \<lparr>cc_ConfigChangeId = 0, cc_Type = AddNode, cc_ReplicaID = 0, cc_Address = [], cc_Initialize = False\<rparr> of
        Inl _ \<Rightarrow> Inl (GoPanic ''failed to unmarshal'')
      | Inr cc \<Rightarrow>
          bind_res (ms_handleConfigChange (sm_members s) cc (e_Index e)) (\<lambda>(members, accepted).
          bind_res (sm_setApplied (e_Index e) (e_Term e) (s\<lparr>sm_members := members\<rparr>)) (\<lambda>s.
          bind_res (en_ApplyConfigChange E cc (e_Key e) (\<not> accepted)) (\<lambda>_.
          Inr (tell (ApplyConfigChange cc (e_Key e) (\<not> accepted)) s)))))"

definition registerSession :: "('c, 'u) sm_env \<Rightarrow> Entry \<Rightarrow> ('c, 'u) StateMachine \<Rightarrow> (smResult \<times> ('c, 'u) StateMachine) res" where
  "registerSession E e s =
     bind_res (RegisterClientID (en_cache E) (sm_sessions s) (e_ClientID e)) (\<lambda>(r, sessions).
     bind_res (sm_setApplied (e_Index e) (e_Term e) (s\<lparr>sm_sessions := sessions\<rparr>)) (\<lambda>s. Inr (r, s)))"

definition unregisterSession :: "('c, 'u) sm_env \<Rightarrow> Entry \<Rightarrow> ('c, 'u) StateMachine \<Rightarrow> (smResult \<times> ('c, 'u) StateMachine) res" where
  "unregisterSession E e s =
     bind_res (UnregisterClientID (en_cache E) (sm_sessions s) (e_ClientID e)) (\<lambda>(r, sessions).
     bind_res (sm_setApplied (e_Index e) (e_Term e) (s\<lparr>sm_sessions := sessions\<rparr>)) (\<lambda>s. Inr (r, s)))"

definition sm_noop :: "Entry \<Rightarrow> ('c, 'u) StateMachine \<Rightarrow> ('c, 'u) StateMachine res" where
  "sm_noop e s =
     (if \<not> IsEmpty e \<or> IsSessionManaged e then Inl (GoPanic ''handle empty event called on non-empty event'')
      else sm_setApplied (e_Index e) (e_Term e) s)"

text \<open>
  The part of \<open>update\<close> before the user's state machine is called: the session of the entry if it has one,
  or the answer when the state machine must not be called.
\<close>

datatype admission = Answer smResult bool bool | Proceed "nat option"

definition sm_admit :: "('c, 'u) sm_env \<Rightarrow> Entry \<Rightarrow> ('c, 'u) StateMachine \<Rightarrow> (admission \<times> ('c, 'u) StateMachine) res" where
  "sm_admit E e s =
     (if IsNoOPSession e then Inr (Proceed None, s)
      else
        bind_res (ClientRegistered (en_cache E) (sm_sessions s) (e_ClientID e)) (\<lambda>(session, sessions).
        case session of
          None \<Rightarrow> Inr (Answer zero_Result False True, s\<lparr>sm_sessions := sessions\<rparr>)
        | Some p \<Rightarrow>
            let sessions = UpdateRespondedTo sessions p (e_RespondedTo e);
                s = s\<lparr>sm_sessions := sessions\<rparr>;
                (v, responded, toUpdate) = UpdateRequired (lru_heap sessions ! p) (e_SeriesID e)
            in if responded then Inr (Answer zero_Result True False, s)
               else if \<not> toUpdate then Inr (Answer v False False, s)
               else Inr (Proceed (Some p), s)))"

definition sm_update :: "('c, 'u) sm_env \<Rightarrow> Entry \<Rightarrow> ('c, 'u) StateMachine \<Rightarrow> (smResult \<times> bool \<times> bool \<times> ('c, 'u) StateMachine) res" where
  "sm_update E e s =
     bind_res (sm_admit E e s) (\<lambda>(a, s).
     case a of
       Answer v ignored rejected \<Rightarrow>
         bind_res (sm_setApplied (e_Index e) (e_Term e) s) (\<lambda>s. Inr (v, ignored, rejected, s))
     | Proceed session \<Rightarrow>
         if \<exists>p \<in> set_option session. getResponse (lru_heap (sm_sessions s) ! p) (e_SeriesID e) \<noteq> None
         then Inl (GoPanic ''already has response in session'')
         else
           bind_res (GetPayload (en_snappy E) e) (\<lambda>payload.
           bind_res (us_Update (en_user E) (sm_user s) (e_Index e) payload) (\<lambda>(u, r).
           bind_res (setOnDiskIndex (e_Index e) (e_Index e) (s\<lparr>sm_user := u\<rparr>)) (\<lambda>s.
           bind_res
             (case session of
                None \<Rightarrow> Inr s
              | Some p \<Rightarrow> bind_res (AddResponse (sm_sessions s) p (e_SeriesID e) r) (\<lambda>ds. Inr (s\<lparr>sm_sessions := ds\<rparr>))) (\<lambda>s.
           bind_res (sm_setApplied (e_Index e) (e_Term e) s) (\<lambda>s. Inr (r, False, False, s)))))))"

definition handleEntry :: "('c, 'u) sm_env \<Rightarrow> Entry \<Rightarrow> bool \<Rightarrow> ('c, 'u) StateMachine \<Rightarrow> ('c, 'u) StateMachine res" where
  "handleEntry E e islast s =
     (if IsConfigChange e then sm_configChange E e s
      else if \<not> IsSessionManaged e then
        if IsEmpty e then bind_res (sm_noop e s) (\<lambda>s. Inr (tell (ApplyUpdate e zero_Result False True islast) s))
        else Inl (GoPanic ''not session managed, not empty'')
      else if IsNewSessionRequest e then
        bind_res (registerSession E e s) (\<lambda>(r, s). Inr (tell (ApplyUpdate e r (isEmptyResult r) False islast) s))
      else if IsEndOfSessionRequest e then
        bind_res (unregisterSession E e s) (\<lambda>(r, s). Inr (tell (ApplyUpdate e r (isEmptyResult r) False islast) s))
      else if \<not> entryInInitDiskSM s (e_Index e) then
        bind_res (sm_update E e s) (\<lambda>(r, ignored, rejected, s).
        Inr (if \<not> ignored then tell (ApplyUpdate e r rejected ignored islast) s else s))
      else sm_noop (zero_Entry\<lparr>e_Index := e_Index e, e_Term := e_Term e\<rparr>) s)"

section \<open>Applying batches\<close>

definition batch_collect ::
  "('c, 'u) sm_env \<Rightarrow> Entry \<Rightarrow> ('c, 'u) StateMachine \<times> (u64 \<times> bytes) list \<times> nat \<Rightarrow>
     (('c, 'u) StateMachine \<times> (u64 \<times> bytes) list \<times> nat) res" where
  "batch_collect E e = (\<lambda>(s, ents, skipped).
     if \<not> entryInInitDiskSM s (e_Index e) then
       bind_res (GetPayload (en_snappy E) e) (\<lambda>payload. Inr (s, ents @ [(e_Index e, payload)], skipped))
     else bind_res (sm_setApplied (e_Index e) (e_Term e) s) (\<lambda>s. Inr (s, ents, skipped + 1)))"

definition batch_applied ::
  "Entry list \<Rightarrow> nat \<Rightarrow> (nat \<times> u64 \<times> smResult) \<Rightarrow> ('c, 'u) StateMachine \<Rightarrow> ('c, 'u) StateMachine res" where
  "batch_applied input skipped r s =
     (let (idx, index, result) = r in
      if skipped + idx \<ge> length input then Inl (GoPanic ''index out of range'')
      else
        let ce = input ! (skipped + idx) in
        if e_Index ce \<noteq> index then Inl (GoPanic ''alignment error'')
        else
          let islast = e_Index ce = e_Index (last input) in
          sm_setApplied (e_Index ce) (e_Term ce) (tell (ApplyUpdate ce result False False islast) s))"

definition handleBatch :: "('c, 'u) sm_env \<Rightarrow> Entry list \<Rightarrow> ('c, 'u) StateMachine \<Rightarrow> ('c, 'u) StateMachine res" where
  "handleBatch E input s =
     bind_res (foldM (batch_collect E) input (s, [], 0)) (\<lambda>(s, ents, skipped).
     if ents \<noteq> [] then
       bind_res (us_BatchedUpdate (en_user E) (sm_user s) ents) (\<lambda>(u, results).
       bind_res (foldM (batch_applied input skipped) (List.enumerate 0 results) (s\<lparr>sm_user := u\<rparr>)) (\<lambda>s.
       setOnDiskIndex (fst (hd ents)) (fst (last ents)) s))
     else Inr s)"

definition getEntryTypes :: "Entry list \<Rightarrow> bool \<times> bool" where
  "getEntryTypes entries = (list_all IsUpdateEntry entries, list_all IsNoOPSession entries)"

fun handle_entries :: "('c, 'u) sm_env \<Rightarrow> bool \<Rightarrow> Entry list \<Rightarrow> ('c, 'u) StateMachine \<Rightarrow> ('c, 'u) StateMachine res" where
  "handle_entries E lastTask [] s = Inr s"
| "handle_entries E lastTask (e # es) s = bind_res (handleEntry E e (lastTask \<and> es = []) s) (handle_entries E lastTask es)"

fun sm_handle :: "('c, 'u) sm_env \<Rightarrow> Task list \<Rightarrow> ('c, 'u) StateMachine \<Rightarrow> ('c, 'u) StateMachine res" where
  "sm_handle E [] s = Inr s"
| "sm_handle E (t # ts) s =
     bind_res (if IsSnapshotTask t then Inr True else isSyncTask t) (\<lambda>bad.
     if bad then Inl (GoPanic ''trying to handle a snapshot/sync request'')
     else
       bind_res (EntriesToApply (tk_Entries t) (sm_index s) False) (\<lambda>entries.
       bind_res
         (case getEntryTypes entries of (update, noop) \<Rightarrow>
            if us_Concurrent (en_user E) \<and> update \<and> noop then handleBatch E entries s
            else handle_entries E (ts = []) entries s) (\<lambda>s.
       bind_res (setLastApplied entries s) (\<lambda>s. sm_handle E ts s))))"

definition sm_sync :: "('c, 'u) sm_env \<Rightarrow> ('c, 'u) StateMachine \<Rightarrow> ('c, 'u) StateMachine res" where
  "sm_sync E s =
     (if \<not> sm_onDiskSM s then Inr s
      else
        let index = sm_lastApplied_index s in
        bind_res (us_Sync (en_user E) (sm_user s)) (\<lambda>u. setSyncedIndex index (s\<lparr>sm_user := u\<rparr>)))"

lemma sm_sync_taskQ: "sm_sync E s = Inr s' \<Longrightarrow> sm_taskQ s' = sm_taskQ s"
  by (auto simp: sm_sync_def setSyncedIndex_def Let_def bind_res_eq_Inr split: if_splits)

lemma tq_Get_shorter: "tq_Get cp e q = (Some t, q') \<Longrightarrow> length (tq_abs q') < length (tq_abs q)"
  by (auto simp: tq_Get_def Let_def tq_abs_def [of "_\<lparr>tq_tasks := _, tq_next := _\<rparr>"] split: if_splits)
    (simp add: tq_abs_def)

text \<open>
  \<open>Handle\<close> takes tasks off the queue until it is empty or a snapshot task is found, which is returned to
  the caller after the tasks before it have been handled.
\<close>

function sm_Handle_loop ::
  "('c, 'u) sm_env \<Rightarrow> Task list \<Rightarrow> ('c, 'u) StateMachine \<Rightarrow> (Task \<times> ('c, 'u) StateMachine) res" where
  "sm_Handle_loop E batch s =
     (case tq_Get (en_cap E) emptyTask (sm_taskQ s) of
        (None, q) \<Rightarrow> bind_res (sm_handle E batch (s\<lparr>sm_taskQ := q\<rparr>)) (\<lambda>s. Inr (emptyTask, s))
      | (Some rec, q) \<Rightarrow>
          if IsSnapshotTask rec then bind_res (sm_handle E batch (s\<lparr>sm_taskQ := q\<rparr>)) (\<lambda>s. Inr (rec, s))
          else
            case isSyncTask rec of
              Inl e \<Rightarrow> Inl e
            | Inr sync \<Rightarrow>
                if \<not> sync then sm_Handle_loop E (batch @ [rec]) (s\<lparr>sm_taskQ := q\<rparr>)
                else (case sm_sync E (s\<lparr>sm_taskQ := q\<rparr>) of Inl e \<Rightarrow> Inl e | Inr s \<Rightarrow> sm_Handle_loop E batch s))"
  by auto

termination
  by (relation "measure (\<lambda>(E, batch, s). length (tq_abs (sm_taskQ s)))")
    (auto dest!: sm_sync_taskQ tq_Get_shorter [OF sym])

definition sm_Handle :: "('c, 'u) sm_env \<Rightarrow> ('c, 'u) StateMachine \<Rightarrow> (Task \<times> ('c, 'u) StateMachine) res" where
  "sm_Handle E s =
     (case tq_Get (en_cap E) emptyTask (sm_taskQ s) of
        (None, q) \<Rightarrow> bind_res (sm_handle E [] (s\<lparr>sm_taskQ := q\<rparr>)) (\<lambda>s. Inr (emptyTask, s))
      | (Some rec, q) \<Rightarrow>
          if IsSnapshotTask rec then Inr (rec, s\<lparr>sm_taskQ := q\<rparr>)
          else bind_res (isSyncTask rec) (\<lambda>sync.
            if \<not> sync then sm_Handle_loop E [rec] (s\<lparr>sm_taskQ := q\<rparr>)
            else bind_res (sm_sync E (s\<lparr>sm_taskQ := q\<rparr>)) (sm_Handle_loop E [])))"

end
