(* ===== verification/RsmSpec.thy ===== *)
theory RsmSpec
  imports RsmStateMachine
begin

text \<open>
  Properties of the state machine manager: a proposal of a registered client is applied at most once and
  answered with the same result each time, and the error behaviour of the manager.
\<close>

section \<open>Sessions only learn\<close>

definition ses_le :: "Session \<Rightarrow> Session \<Rightarrow> bool" where
  "ses_le s s' \<longleftrightarrow> ses_RespondedUpTo s \<le> ses_RespondedUpTo s' \<and>
     (\<forall>n r. getResponse s n = Some r \<longrightarrow> getResponse s' n = Some r \<or> n \<le> ses_RespondedUpTo s')"

definition heap_le :: "Session list \<Rightarrow> Session list \<Rightarrow> bool" where
  "heap_le h h' \<longleftrightarrow> length h \<le> length h' \<and> (\<forall>q < length h. ses_le (h ! q) (h' ! q))"

lemma ses_le_refl [simp]: "ses_le s s"
  by (simp add: ses_le_def)

lemma ses_le_trans: "ses_le a b \<Longrightarrow> ses_le b c \<Longrightarrow> ses_le a c"
  unfolding ses_le_def by (meson order_trans)

lemma ses_le_clearTo: "session_wf s \<Longrightarrow> ses_le s (clearTo s to)"
  by (auto simp: ses_le_def clearTo_facts not_less le_max_iff_disj)

lemma ses_le_add: "getResponse s k = None \<Longrightarrow> ses_le s (s\<lparr>ses_History := mput k r (ses_History s)\<rparr>)"
  by (auto simp: ses_le_def getResponse_def)

lemma heap_le_refl [simp]: "heap_le h h"
  by (simp add: heap_le_def)

lemma heap_le_trans: "heap_le a b \<Longrightarrow> heap_le b c \<Longrightarrow> heap_le a c"
  unfolding heap_le_def by (meson ses_le_trans order_trans less_le_trans)

lemma heap_le_append [simp]: "heap_le h (h @ l)"
  by (simp add: heap_le_def nth_append)

lemma heap_le_cell: "ses_le (h ! p) s \<Longrightarrow> heap_le h (h[p := s])"
  unfolding heap_le_def length_list_update by (metis nth_list_update_eq nth_list_update_neq ses_le_refl order_refl)

section \<open>The operations on sessions\<close>

lemma setApplied_Inr: "sm_setApplied i t s = Inr s' \<longleftrightarrow>
    sm_index s + 1 = i \<and> sm_term s \<le> t \<and> s' = s\<lparr>sm_index := i, sm_term := t\<rparr>"
  by (auto simp: sm_setApplied_def)

lemma setOnDiskIndex_Inr: "setOnDiskIndex a b s = Inr s' \<Longrightarrow> \<exists>i. s' = s\<lparr>sm_onDiskIndex := i\<rparr>"
  by (auto simp: setOnDiskIndex_def split: if_splits intro: exI [of _ "sm_onDiskIndex s"])

definition admit_answer :: "Session \<Rightarrow> u64 \<Rightarrow> nat \<Rightarrow> admission" where
  "admit_answer ses sid p =
     (if hasResponded ses sid then Answer zero_Result True False
      else case getResponse ses sid of Some v \<Rightarrow> Answer v False False | None \<Rightarrow> Proceed (Some p))"

lemma sm_admit_session:
  assumes C: "cache_ok (en_cache E) K" and wf: "sessions_wf K (sm_sessions s)" and ses: "\<not> IsNoOPSession e"
  obtains (unregistered) c where "K (lru_sessions (sm_sessions s)) (e_ClientID e) = None"
      "K c = K (lru_sessions (sm_sessions s))"
      "sm_admit E e s = Inr (Answer zero_Result False True, s\<lparr>sm_sessions := (sm_sessions s)\<lparr>lru_sessions := c\<rparr>\<rparr>)"
  | (registered) p c ses where "K (lru_sessions (sm_sessions s)) (e_ClientID e) = Some p"
      "K c = K (lru_sessions (sm_sessions s))" "p < length (lru_heap (sm_sessions s))"
      "ses = clearTo (lru_heap (sm_sessions s) ! p) (e_RespondedTo e)"
      "sm_admit E e s = Inr (admit_answer ses (e_SeriesID e) p,
         s\<lparr>sm_sessions := (sm_sessions s)\<lparr>lru_sessions := c, lru_heap := (lru_heap (sm_sessions s))[p := ses]\<rparr>\<rparr>)"
proof -
  obtain c where c: "ClientRegistered (en_cache E) (sm_sessions s) (e_ClientID e) =
      Inr (K (lru_sessions (sm_sessions s)) (e_ClientID e), (sm_sessions s)\<lparr>lru_sessions := c\<rparr>)"
      "K c = K (lru_sessions (sm_sessions s))"
    by (rule ClientRegistered_wf [OF C wf])
  show thesis
  proof (cases "K (lru_sessions (sm_sessions s)) (e_ClientID e)")
    case None
    then have "sm_admit E e s = Inr (Answer zero_Result False True, s\<lparr>sm_sessions := (sm_sessions s)\<lparr>lru_sessions := c\<rparr>\<rparr>)"
      using c(1) ses by (simp add: sm_admit_def)
    with None c(2) show ?thesis by (rule unregistered)
  next
    case (Some p)
    let ?ses = "clearTo (lru_heap (sm_sessions s) ! p) (e_RespondedTo e)"
    have p: "p < length (lru_heap (sm_sessions s))" using wf Some unfolding sessions_wf_def by blast
    have "sm_admit E e s = Inr (admit_answer ?ses (e_SeriesID e) p,
         s\<lparr>sm_sessions := (sm_sessions s)\<lparr>lru_sessions := c, lru_heap := (lru_heap (sm_sessions s))[p := ?ses]\<rparr>\<rparr>)"
      using c(1) ses Some p
      by (simp add: sm_admit_def UpdateRespondedTo_def UpdateRequired_def admit_answer_def split: option.splits)
    with Some c(2) p refl show ?thesis by (rule registered)
  qed
qed

text \<open>What a single update does to the sessions, and when it leaves the user's state machine alone.\<close>

definition sessions_step :: "('c \<Rightarrow> u64 \<Rightarrow> nat option) \<Rightarrow> 'c lrusession \<Rightarrow> 'c lrusession \<Rightarrow> bool" where
  "sessions_step K ds ds' \<longleftrightarrow> sessions_wf K ds' \<and> heap_le (lru_heap ds) (lru_heap ds')"

lemma cleared_wf:
  assumes wf: "sessions_wf K ds" and p: "p < length (lru_heap ds)" and c: "K c = K (lru_sessions ds)"
  shows "sessions_wf K (ds\<lparr>lru_sessions := c, lru_heap := (lru_heap ds)[p := clearTo (lru_heap ds ! p) to]\<rparr>)"
    and "heap_le (lru_heap ds) ((lru_heap ds)[p := clearTo (lru_heap ds ! p) to])"
    and "session_wf (clearTo (lru_heap ds ! p) to)"
proof -
  have w: "session_wf (lru_heap ds ! p)" using wf p by (simp add: sessions_wf_def)
  show "session_wf (clearTo (lru_heap ds ! p) to)" by (rule clearTo_facts(1) [OF w])
  show "heap_le (lru_heap ds) ((lru_heap ds)[p := clearTo (lru_heap ds ! p) to])"
    by (rule heap_le_cell [OF ses_le_clearTo [OF w]])
  have "sessions_wf K (ds\<lparr>lru_heap := (lru_heap ds)[p := clearTo (lru_heap ds ! p) to]\<rparr>)"
    using wf clearTo_facts(1,2) [OF w] by (intro sessions_wf_cell) simp_all
  then show "sessions_wf K (ds\<lparr>lru_sessions := c, lru_heap := (lru_heap ds)[p := clearTo (lru_heap ds ! p) to]\<rparr>)"
    using c by (simp add: sessions_wf_def)
qed

lemma answered_wf:
  assumes wf: "sessions_wf K ds" and p: "p < length (lru_heap ds)" and add: "AddResponse ds p k r = Inr ds'"
    and new: "\<not> hasResponded (lru_heap ds ! p) k"
  shows "sessions_step K ds ds'" and "lru_sessions ds' = lru_sessions ds"
    and "getResponse (lru_heap ds' ! p) k = Some r"
proof -
  let ?s = "lru_heap ds ! p"
  have none: "getResponse ?s k = None" and
    ds': "ds' = ds\<lparr>lru_heap := (lru_heap ds)[p := ?s\<lparr>ses_History := mput k r (ses_History ?s)\<rparr>]\<rparr>"
    using add by (auto simp: AddResponse_def addResponse_def bind_res_eq_Inr getResponse_def mhas_def split: if_splits)
  have "session_wf ?s" using wf p by (simp add: sessions_wf_def)
  then have "session_wf (?s\<lparr>ses_History := mput k r (ses_History ?s)\<rparr>)"
    using new by (auto simp: session_wf_def hasResponded_def update_keys not_le)
  then have "sessions_wf K ds'" unfolding ds' using wf by (intro sessions_wf_cell) simp_all
  then show "sessions_step K ds ds'"
    using heap_le_cell [OF ses_le_add [OF none, of r]] by (simp add: sessions_step_def ds')
  show "lru_sessions ds' = lru_sessions ds" "getResponse (lru_heap ds' ! p) k = Some r"
    using p by (simp_all add: ds' getResponse_def)
qed

lemma sm_update_noop_session:
  assumes "IsNoOPSession e" "sm_update E e s = Inr (r, ig, rej, s')"
  shows "sm_sessions s' = sm_sessions s" "sm_calls s' = sm_calls s" "\<not> ig" "\<not> rej"
  using assms by (auto simp: sm_update_def sm_admit_def bind_res_eq_Inr setApplied_Inr dest!: setOnDiskIndex_Inr)

lemma sm_update_unregistered:
  assumes "cache_ok (en_cache E) K" "sessions_wf K (sm_sessions s)" "\<not> IsNoOPSession e"
    "K (lru_sessions (sm_sessions s)) (e_ClientID e) = None"
  obtains c where "K c = K (lru_sessions (sm_sessions s))"
    "sm_update E e s = bind_res (sm_setApplied (e_Index e) (e_Term e) (s\<lparr>sm_sessions := (sm_sessions s)\<lparr>lru_sessions := c\<rparr>\<rparr>))
       (\<lambda>s'. Inr (zero_Result, False, True, s'))"
  using assms(4) by (cases rule: sm_admit_session [OF assms(1-3)]) (auto simp: sm_update_def intro: that)

text \<open>The update of a registered client: the new state of its session, and the answer.\<close>

lemma sm_update_answered:
  assumes "sm_admit E e s = Inr (Answer v i j, t)" "sm_update E e s = Inr (r, ig, rej, s')"
  shows "r = v" "ig = i" "rej = j" "sm_sessions s' = sm_sessions t" "sm_user s' = sm_user t" "sm_calls s' = sm_calls t"
  using assms by (auto simp: sm_update_def bind_res_eq_Inr setApplied_Inr)

lemma sm_update_proceeds:
  assumes "sm_admit E e s = Inr (Proceed (Some p), t)" "sm_update E e s = Inr (r, ig, rej, s')"
  shows "\<not> ig" "\<not> rej" "AddResponse (sm_sessions t) p (e_SeriesID e) r = Inr (sm_sessions s')" "sm_calls s' = sm_calls t"
  using assms by (auto simp: sm_update_def bind_res_eq_Inr setApplied_Inr split: if_splits dest!: setOnDiskIndex_Inr)

lemma sm_update_registered:
  assumes C: "cache_ok (en_cache E) K" and wf: "sessions_wf K (sm_sessions s)" and ses: "\<not> IsNoOPSession e"
    and p: "K (lru_sessions (sm_sessions s)) (e_ClientID e) = Some p"
    and upd: "sm_update E e s = Inr (r, ig, rej, s')"
  defines "old \<equiv> lru_heap (sm_sessions s) ! p" and "new \<equiv> lru_heap (sm_sessions s') ! p"
  shows "sessions_step K (sm_sessions s) (sm_sessions s')"
    and "K (lru_sessions (sm_sessions s')) = K (lru_sessions (sm_sessions s))"
    and "sm_calls s' = sm_calls s" and "\<not> rej"
    and "if ig then e_SeriesID e \<le> ses_RespondedUpTo new else getResponse new (e_SeriesID e) = Some r"
    and "e_SeriesID e \<le> ses_RespondedUpTo old \<or> getResponse old (e_SeriesID e) = Some v \<Longrightarrow>
      sm_user s' = sm_user s \<and> (ig \<or> r = v \<and> \<not> e_SeriesID e \<le> ses_RespondedUpTo old)"
proof -
  let ?sid = "e_SeriesID e" and ?h = "lru_heap (sm_sessions s)"
  obtain c where c: "K c = K (lru_sessions (sm_sessions s))" and l: "p < length ?h" and
    adm: "sm_admit E e s = Inr (admit_answer (clearTo old (e_RespondedTo e)) ?sid p,
      s\<lparr>sm_sessions := (sm_sessions s)\<lparr>lru_sessions := c, lru_heap := ?h[p := clearTo old (e_RespondedTo e)]\<rparr>\<rparr>)"
    using sm_admit_session [OF C wf ses] p unfolding old_def by (metis option.distinct(1) option.inject)
  let ?ses = "clearTo old (e_RespondedTo e)"
  let ?t = "(sm_sessions s)\<lparr>lru_sessions := c, lru_heap := ?h[p := ?ses]\<rparr>"
  note clr = cleared_wf [OF wf l c, of "e_RespondedTo e", folded old_def]
  have old: "session_wf old" using wf l by (simp add: sessions_wf_def old_def)
  note cf = clearTo_facts [OF old, of "e_RespondedTo e"]
  have "sessions_step K (sm_sessions s) (sm_sessions s') \<and> K (lru_sessions (sm_sessions s')) = K (lru_sessions (sm_sessions s)) \<and>
    sm_calls s' = sm_calls s \<and> \<not> rej \<and> (if ig then ?sid \<le> ses_RespondedUpTo new else getResponse new ?sid = Some r) \<and>
    (?sid \<le> ses_RespondedUpTo old \<or> getResponse old ?sid = Some v \<longrightarrow>
      sm_user s' = sm_user s \<and> (ig \<or> r = v \<and> \<not> ?sid \<le> ses_RespondedUpTo old))"
  proof (cases "admit_answer ?ses ?sid p")
    case (Answer w i j)
    note a = sm_update_answered [OF adm [unfolded Answer] upd]
    have "new = ?ses" using a(4) l by (simp add: new_def)
    then show ?thesis
      using Answer a clr(1,2) c cf
      by (auto simp: admit_answer_def sessions_step_def hasResponded_def le_max_iff_disj not_less split: if_splits option.splits)
  next
    case (Proceed q)
    then have q: "q = Some p" "\<not> hasResponded ?ses ?sid" "getResponse ?ses ?sid = None"
      by (auto simp: admit_answer_def split: if_splits option.splits)
    note b = sm_update_proceeds [OF adm [unfolded Proceed q] upd]
    have add: "AddResponse ?t p ?sid r = Inr (sm_sessions s')" using b(3) by simp
    have "\<not> hasResponded (lru_heap ?t ! p) ?sid" using q(2) l by simp
    note d = answered_wf [OF clr(1) _ add this]
    have "heap_le ?h (lru_heap (sm_sessions s'))"
      using heap_le_trans [OF clr(2)] d(1) l by (simp add: sessions_step_def)
    moreover have "\<not> ?sid \<le> ses_RespondedUpTo old" "getResponse old ?sid = None"
      using q(2,3) cf by (auto simp: hasResponded_def le_max_iff_disj split: if_splits)
    ultimately show ?thesis
      using b d l c by (auto simp: sessions_step_def new_def)
  qed
  then show "sessions_step K (sm_sessions s) (sm_sessions s')"
    "K (lru_sessions (sm_sessions s')) = K (lru_sessions (sm_sessions s))" "sm_calls s' = sm_calls s" "\<not> rej"
    "if ig then ?sid \<le> ses_RespondedUpTo new else getResponse new ?sid = Some r"
    "?sid \<le> ses_RespondedUpTo old \<or> getResponse old ?sid = Some v \<Longrightarrow>
      sm_user s' = sm_user s \<and> (ig \<or> r = v \<and> \<not> ?sid \<le> ses_RespondedUpTo old)"
    by blast+
qed

lemma sm_update_step:
  assumes C: "cache_ok (en_cache E) K" and wf: "sessions_wf K (sm_sessions s)" and upd: "sm_update E e s = Inr (r, ig, rej, s')"
  shows "sessions_step K (sm_sessions s) (sm_sessions s')"
proof (cases "IsNoOPSession e")
  case True
  then show ?thesis using sm_update_noop_session(1) [OF True upd] wf by (simp add: sessions_step_def)
next
  case False
  show ?thesis
  proof (cases "K (lru_sessions (sm_sessions s)) (e_ClientID e)")
    case None
    then obtain c where c: "K c = K (lru_sessions (sm_sessions s))" and
      u: "sm_update E e s = bind_res (sm_setApplied (e_Index e) (e_Term e) (s\<lparr>sm_sessions := (sm_sessions s)\<lparr>lru_sessions := c\<rparr>\<rparr>))
        (\<lambda>s'. Inr (zero_Result, False, True, s'))"
      by (rule sm_update_unregistered [OF C wf False])
    have "sm_sessions s' = (sm_sessions s)\<lparr>lru_sessions := c\<rparr>"
      using upd unfolding u by (auto simp: bind_res_eq_Inr setApplied_Inr)
    then show ?thesis using wf sessions_wf_recency [of K, OF c] by (simp add: sessions_step_def)
  qed (rule sm_update_registered(1) [OF C wf False _ upd])
qed

section \<open>One entry\<close>

lemma handleEntry_step:
  assumes C: "cache_ok (en_cache E) K" and wf: "sessions_wf K (sm_sessions s)" and h: "handleEntry E e l s = Inr s'"
  shows "sessions_step K (sm_sessions s) (sm_sessions s')"
proof -
  have same: ?thesis if "sm_sessions s' = sm_sessions s" using that wf by (simp add: sessions_step_def)
  consider "IsConfigChange e" | "\<not> IsConfigChange e" "\<not> IsSessionManaged e"
    | "\<not> IsConfigChange e" "IsSessionManaged e" "IsNewSessionRequest e"
    | "\<not> IsConfigChange e" "IsSessionManaged e" "\<not> IsNewSessionRequest e" "IsEndOfSessionRequest e"
    | "\<not> IsConfigChange e" "IsSessionManaged e" "\<not> IsNewSessionRequest e" "\<not> IsEndOfSessionRequest e" by blast
  then show ?thesis
  proof cases
    case 1
    then show ?thesis
      using h by (intro same) (auto simp: handleEntry_def sm_configChange_def bind_res_eq_Inr setApplied_Inr tell_def split: sum.splits)
  next
    case 2
    then show ?thesis
      using h by (intro same) (auto simp: handleEntry_def sm_noop_def bind_res_eq_Inr setApplied_Inr tell_def split: if_splits)
  next
    case 3
    obtain r ds' where reg: "RegisterClientID (en_cache E) (sm_sessions s) (e_ClientID e) = Inr (r, ds')" "sessions_wf K ds'"
      "\<exists>l. lru_heap ds' = lru_heap (sm_sessions s) @ l"
      by (rule RegisterClientID_wf [OF C wf])
    then have "sm_sessions s' = ds'"
      using 3 h by (auto simp: handleEntry_def registerSession_def bind_res_eq_Inr setApplied_Inr tell_def)
    then show ?thesis using reg by (auto simp: sessions_step_def)
  next
    case 4
    obtain r ds' where reg: "UnregisterClientID (en_cache E) (sm_sessions s) (e_ClientID e) = Inr (r, ds')" "sessions_wf K ds'"
      "lru_heap ds' = lru_heap (sm_sessions s)"
      by (rule UnregisterClientID_wf [OF C wf])
    then have "sm_sessions s' = ds'"
      using 4 h by (auto simp: handleEntry_def unregisterSession_def bind_res_eq_Inr setApplied_Inr tell_def)
    then show ?thesis using reg by (auto simp: sessions_step_def)
  next
    case 5
    show ?thesis
    proof (cases "entryInInitDiskSM s (e_Index e)")
      case True
      then show ?thesis
        using 5 h by (intro same) (auto simp: handleEntry_def sm_noop_def setApplied_Inr split: if_splits)
    next
      case False
      then obtain r ig rej t where "sm_update E e s = Inr (r, ig, rej, t)" "sm_sessions s' = sm_sessions t"
        using 5 h by (auto simp: handleEntry_def bind_res_eq_Inr tell_def split: if_splits)
      then show ?thesis using sm_update_step [OF C wf] by simp
    qed
  qed
qed

definition sm_run :: "('c, 'u) sm_env \<Rightarrow> (Entry \<times> bool) list \<Rightarrow> ('c, 'u) StateMachine \<Rightarrow> ('c, 'u) StateMachine res" where
  "sm_run E es s = foldM (\<lambda>(e, l). handleEntry E e l) es s"

lemma sessions_step_trans: "sessions_step K a b \<Longrightarrow> sessions_step K b c \<Longrightarrow> sessions_step K a c"
  unfolding sessions_step_def using heap_le_trans by blast

lemma sm_run_step:
  assumes C: "cache_ok (en_cache E) K" and wf: "sessions_wf K (sm_sessions s)" and r: "sm_run E es s = Inr s'"
  shows "sessions_step K (sm_sessions s) (sm_sessions s')"
  using wf r unfolding sm_run_def
proof (induction es arbitrary: s)
  case Nil
  then show ?case by (simp add: sessions_step_def)
next
  case (Cons x es)
  obtain e l where x: "x = (e, l)" by (cases x)
  with Cons.prems obtain t where t: "handleEntry E e l s = Inr t" "foldM (\<lambda>(e, l). handleEntry E e l) es t = Inr s'"
    by (auto simp: bind_res_eq_Inr)
  have st: "sessions_step K (sm_sessions s) (sm_sessions t)" by (rule handleEntry_step [OF C Cons.prems(1) t(1)])
  then have "sessions_wf K (sm_sessions t)" by (simp add: sessions_step_def)
  from sessions_step_trans [OF st Cons.IH [OF this t(2)]] show ?case .
qed

lemma handleEntry_update:
  assumes "IsUpdateEntry e" "handleEntry E e l s = Inr s'" "\<not> entryInInitDiskSM s (e_Index e)"
  obtains r ig rej t where "sm_update E e s = Inr (r, ig, rej, t)"
    "s' = (if ig then t else tell (ApplyUpdate e r rej False l) t)"
proof -
  have "bind_res (sm_update E e s) (\<lambda>(r, ig, rej, t). Inr (if \<not> ig then tell (ApplyUpdate e r rej ig l) t else t)) = Inr s'"
    using assms by (simp add: IsUpdateEntry_def handleEntry_def)
  note eq = this
  obtain x where x: "sm_update E e s = Inr x" using eq by (cases "sm_update E e s") simp_all
  obtain r ig rej t where "x = (r, ig, rej, t)" by (rule prod_cases4)
  with eq x show thesis by (intro that [of r ig rej t]) auto
qed

lemma handleEntry_skipped:
  assumes "IsUpdateEntry e" "handleEntry E e l s = Inr s'" "entryInInitDiskSM s (e_Index e)"
  shows "sm_user s' = sm_user s" "sm_calls s' = sm_calls s"
  using assms by (auto simp: IsUpdateEntry_def handleEntry_def sm_noop_def setApplied_Inr split: if_splits)

lemma first_answer:
  assumes C: "cache_ok (en_cache E) K" and wf: "sessions_wf K (sm_sessions s)"
    and e: "IsUpdateEntry e" "\<not> IsNoOPSession e" "\<not> entryInInitDiskSM s (e_Index e)"
    and h: "handleEntry E e l s = Inr s1" and p: "K (lru_sessions (sm_sessions s1)) (e_ClientID e) = Some p"
  obtains "e_SeriesID e \<le> ses_RespondedUpTo (lru_heap (sm_sessions s1) ! p)"
  | r where "getResponse (lru_heap (sm_sessions s1) ! p) (e_SeriesID e) = Some r"
      "sm_calls s1 = sm_calls s @ [ApplyUpdate e r False False l]"
proof -
  obtain r ig rej t where u: "sm_update E e s = Inr (r, ig, rej, t)"
    and s1: "s1 = (if ig then t else tell (ApplyUpdate e r rej False l) t)"
    by (rule handleEntry_update [OF e(1) h e(3)])
  have ds: "sm_sessions s1 = sm_sessions t" by (simp add: s1 tell_def)
  have "K (lru_sessions (sm_sessions s)) (e_ClientID e) = Some p"
  proof (cases "K (lru_sessions (sm_sessions s)) (e_ClientID e)")
    case None
    then obtain c where c: "K c = K (lru_sessions (sm_sessions s))" and
      v: "sm_update E e s = bind_res (sm_setApplied (e_Index e) (e_Term e) (s\<lparr>sm_sessions := (sm_sessions s)\<lparr>lru_sessions := c\<rparr>\<rparr>))
        (\<lambda>s'. Inr (zero_Result, False, True, s'))"
      by (rule sm_update_unregistered [OF C wf e(2)])
    have "lru_sessions (sm_sessions t) = c" using u unfolding v by (auto simp: bind_res_eq_Inr setApplied_Inr)
    then show ?thesis using p None ds c by simp
  next
    case (Some q)
    then show ?thesis using sm_update_registered(2) [OF C wf e(2) Some u] p ds by simp
  qed
  note reg = sm_update_registered [OF C wf e(2) this u]
  show thesis
  proof (cases ig)
    case True
    then show ?thesis using reg(5) that(1) ds by simp
  next
    case False
    then show ?thesis using reg(3,4,5) that(2) [of r] ds s1 by (simp add: tell_def)
  qed
qed

lemma repeated_answer:
  assumes C: "cache_ok (en_cache E) K" and wf: "sessions_wf K (sm_sessions s)"
    and e: "IsUpdateEntry e" "\<not> IsNoOPSession e" and h: "handleEntry E e l s = Inr s'"
    and p: "K (lru_sessions (sm_sessions s)) (e_ClientID e) = Some p"
    and old: "e_SeriesID e \<le> ses_RespondedUpTo (lru_heap (sm_sessions s) ! p) \<or>
      getResponse (lru_heap (sm_sessions s) ! p) (e_SeriesID e) = Some v"
  shows "sm_user s' = sm_user s \<and> (sm_calls s' = sm_calls s \<or>
    \<not> e_SeriesID e \<le> ses_RespondedUpTo (lru_heap (sm_sessions s) ! p) \<and> sm_calls s' = sm_calls s @ [ApplyUpdate e v False False l])"
proof (cases "entryInInitDiskSM s (e_Index e)")
  case True
  then show ?thesis using handleEntry_skipped [OF e(1) h] by simp
next
  case False
  obtain r ig rej t where u: "sm_update E e s = Inr (r, ig, rej, t)"
    and s': "s' = (if ig then t else tell (ApplyUpdate e r rej False l) t)"
    by (rule handleEntry_update [OF e(1) h False])
  note reg = sm_update_registered(3,4) [OF C wf e(2) p u] sm_update_registered(6) [OF C wf e(2) p u old]
  show ?thesis using reg by (auto simp: s' tell_def)
qed

text \<open>
  C6: A proposal of a registered client is applied at most once. When an entry with a client id and a
  series number has been handled and the client still has the same session, handling any later entry with
  the same client id and series number does not call the user's state machine; the node is told the result
  of the first entry again, or nothing when the client has confirmed that result.
\<close>
theorem at_most_once:
  assumes C: "cache_ok (en_cache E) K" and wf: "sessions_wf K (sm_sessions s)"
    and e: "IsUpdateEntry e" "\<not> IsNoOPSession e" "\<not> entryInInitDiskSM s (e_Index e)"
    and h: "handleEntry E e l s = Inr s1" and p: "K (lru_sessions (sm_sessions s1)) (e_ClientID e) = Some p"
    and r: "sm_run E es s1 = Inr s2" and q: "K (lru_sessions (sm_sessions s2)) (e_ClientID e) = Some p"
    and e': "IsUpdateEntry e'" "e_ClientID e' = e_ClientID e" "e_SeriesID e' = e_SeriesID e"
    and h': "handleEntry E e' l' s2 = Inr s3"
  shows "sm_user s3 = sm_user s2 \<and>
    (sm_calls s3 = sm_calls s2 \<or>
     (\<exists>r. sm_calls s1 = sm_calls s @ [ApplyUpdate e r False False l] \<and>
          sm_calls s3 = sm_calls s2 @ [ApplyUpdate e' r False False l']))"
proof -
  let ?a = "lru_heap (sm_sessions s1) ! p" and ?b = "lru_heap (sm_sessions s2) ! p" and ?n = "e_SeriesID e"
  have wf1: "sessions_wf K (sm_sessions s1)" using handleEntry_step [OF C wf h] by (simp add: sessions_step_def)
  note st = sm_run_step [OF C wf1 r]
  have wf2: "sessions_wf K (sm_sessions s2)" using st by (simp add: sessions_step_def)
  have "p < length (lru_heap (sm_sessions s1))" using wf1 p unfolding sessions_wf_def by blast
  then have le: "ses_le ?a ?b" using st by (simp add: sessions_step_def heap_le_def)
  have ns: "\<not> IsNoOPSession e'" using e(2) e'(3) by (simp add: IsNoOPSession_def)
  note rep = repeated_answer [OF C wf2 e'(1) ns h' q [folded e'(2)], unfolded e'(3)]
  show ?thesis
  proof (rule first_answer [OF C wf e h p])
    assume "?n \<le> ses_RespondedUpTo ?a"
    then have "?n \<le> ses_RespondedUpTo ?b" using le unfolding ses_le_def by (meson order_trans)
    then show ?thesis using rep by blast
  next
    fix v assume v: "getResponse ?a ?n = Some v" "sm_calls s1 = sm_calls s @ [ApplyUpdate e v False False l]"
    then have "?n \<le> ses_RespondedUpTo ?b \<or> getResponse ?b ?n = Some v" using le unfolding ses_le_def by blast
    then show ?thesis using rep [of v] v(2) by blast
  qed
qed

section \<open>A concrete instance\<close>

text \<open>A counter as the user's state machine, and one registered client.\<close>

definition counter_sm :: "nat userSM" where
  "counter_sm =
     \<lparr>us_Update = (\<lambda>u i cmd. Inr (u + 1, \<lparr>res_Value = i, res_Data = None\<rparr>)),
      us_BatchedUpdate = (\<lambda>u ents. Inr (u + length ents, map (\<lambda>(i, cmd). (i, zero_Result)) ents)),
      us_Sync = Inr, us_Open = (\<lambda>u. Inr (u, 0)), us_Concurrent = False\<rparr>"

definition demo_env :: "((u64 \<times> nat) list, nat) sm_env" where
  "demo_env =
     \<lparr>en_cache = list_cache, en_user = counter_sm, en_snappy = stored_snappy, en_Shrunk = (\<lambda>_. Inr False),
      en_Load = (\<lambda>_ ds u. Inr (ds, u)), en_ApplyConfigChange = (\<lambda>_ _ _. Inr ()), en_cap = length\<rparr>"

definition demo_sm :: "((u64 \<times> nat) list, nat) StateMachine" where
  "demo_sm =
     \<lparr>sm_user = 0, sm_taskQ = NewTaskQueue,
      sm_sessions = \<lparr>lru_sessions = [(7, 0)], lru_size = 4096, lru_heap = [newSession 7]\<rparr>,
      sm_members = newMembership 1 1 False, sm_lastApplied_index = 5, sm_lastApplied_term = 2,
      sm_index = 5, sm_term = 2, sm_snapshotIndex = 0, sm_onDiskInitIndex = 0, sm_onDiskIndex = 0,
      sm_syncedIndex = 0, sm_onDiskSM = False, sm_aborted = False, sm_isWitness = False, sm_calls = []\<rparr>"

definition demo_proposal :: "u64 \<Rightarrow> Entry" where
  "demo_proposal i = zero_Entry\<lparr>e_Index := i, e_Term := 2, e_ClientID := 7, e_SeriesID := 1, e_Cmd := [1]\<rparr>"

lemma demo_sessions_wf: "cache_ok (en_cache demo_env) map_of \<and> sessions_wf map_of (sm_sessions demo_sm)"
  using list_cache_ok
  by (auto simp: demo_env_def demo_sm_def sessions_wf_def newSession_def session_wf_def split: if_splits)

lemma demo_first: "\<exists>s1. handleEntry demo_env (demo_proposal 6) False demo_sm = Inr s1 \<and>
    sm_sessions s1 = \<lparr>lru_sessions = [(7, 0)], lru_size = 4096,
      lru_heap = [\<lparr>ses_History = [(1, \<lparr>res_Value = 6, res_Data = None\<rparr>)], ses_ClientID = 7, ses_RespondedUpTo = 0\<rparr>]\<rparr> \<and>
    sm_user s1 = 1 \<and> sm_index s1 = 6 \<and> sm_term s1 = 2 \<and> \<not> sm_onDiskSM s1 \<and>
    sm_calls s1 = [ApplyUpdate (demo_proposal 6) \<lparr>res_Value = 6, res_Data = None\<rparr> False False False]"
  by (simp add: handleEntry_def demo_proposal_def IsConfigChange_def IsSessionManaged_def NotSessionManagedClientID_def
      IsNewSessionRequest_def IsEndOfSessionRequest_def entryInInitDiskSM_def demo_sm_def sm_update_def sm_admit_def
      IsNoOPSession_def NoOPSeriesID_def ClientRegistered_def getSession_def demo_env_def list_cache_def
      UpdateRespondedTo_def UpdateRequired_def newSession_def clearTo_def hasResponded_def getResponse_def GetPayload_def
      counter_sm_def setOnDiskIndex_def AddResponse_def addResponse_def mhas_def sm_setApplied_def tell_def)

lemma at_most_once_witness:
  "\<exists>s1 s3. handleEntry demo_env (demo_proposal 6) False demo_sm = Inr s1 \<and>
     handleEntry demo_env (demo_proposal 7) False s1 = Inr s3 \<and> sm_user s1 = 1 \<and> sm_user s3 = 1"
proof -
  obtain s1 where s1: "handleEntry demo_env (demo_proposal 6) False demo_sm = Inr s1"
    "sm_sessions s1 = \<lparr>lru_sessions = [(7, 0)], lru_size = 4096,
      lru_heap = [\<lparr>ses_History = [(1, \<lparr>res_Value = 6, res_Data = None\<rparr>)], ses_ClientID = 7, ses_RespondedUpTo = 0\<rparr>]\<rparr>"
    "sm_user s1 = 1" "sm_index s1 = 6" "sm_term s1 = 2" "\<not> sm_onDiskSM s1"
    using demo_first by blast
  have e: "IsUpdateEntry (demo_proposal i)" "\<not> IsNoOPSession (demo_proposal i)" for i
    by (simp_all add: demo_proposal_def IsUpdateEntry_def IsConfigChange_def IsSessionManaged_def NotSessionManagedClientID_def
        IsNewSessionRequest_def IsEndOfSessionRequest_def IsNoOPSession_def NoOPSeriesID_def)
  have "\<exists>s3. handleEntry demo_env (demo_proposal 7) False s1 = Inr s3"
    using s1(2-6) e [of 7]
    by (simp add: handleEntry_def IsUpdateEntry_def entryInInitDiskSM_def sm_update_def sm_admit_def
        ClientRegistered_def getSession_def demo_env_def list_cache_def UpdateRespondedTo_def UpdateRequired_def
        clearTo_def hasResponded_def getResponse_def demo_proposal_def sm_setApplied_def)
  then obtain s3 where s3: "handleEntry demo_env (demo_proposal 7) False s1 = Inr s3" by blast
  have "sm_user s3 = sm_user s1"
    using at_most_once [of demo_env map_of demo_sm "demo_proposal 6" False s1 0 "[]" s1 "demo_proposal 7" False s3]
      demo_sessions_wf e s1 s3
    by (simp add: sm_run_def entryInInitDiskSM_def demo_sm_def demo_proposal_def)
  then show ?thesis using s1(1,3) s3 by auto
qed

end
