(* ===== verification/RsmApply.thy ===== *)
theory RsmApply
  imports RsmSpec
begin

text \<open>
  The bookkeeping of the state machine manager: entries are applied in order and without gaps, the index
  visible to other modules is that of the last entry applied, and errors are reported.
\<close>

section \<open>Indexes of one entry\<close>

lemma sm_admit_frame:
  assumes "sm_admit E e s = Inr (a, t)"
  shows "t = s\<lparr>sm_sessions := sm_sessions t\<rparr>"
proof (cases "IsNoOPSession e")
  case True
  then show ?thesis using assms by (simp add: sm_admit_def)
next
  case False
  then obtain session ds where ds: "ClientRegistered (en_cache E) (sm_sessions s) (e_ClientID e) = Inr (session, ds)"
    using assms by (cases "ClientRegistered (en_cache E) (sm_sessions s) (e_ClientID e)") (auto simp: sm_admit_def)
  show ?thesis
  proof (cases session)
    case None
    then show ?thesis using assms False ds by (auto simp: sm_admit_def)
  next
    case (Some p)
    obtain v b c where "UpdateRequired (lru_heap (UpdateRespondedTo ds p (e_RespondedTo e)) ! p) (e_SeriesID e) = (v, b, c)"
      by (rule prod_cases3)
    then show ?thesis using assms False ds Some by (cases b; cases c) (auto simp: sm_admit_def Let_def)
  qed
qed

definition same_bounds :: "('c, 'u) StateMachine \<Rightarrow> ('c, 'u) StateMachine \<Rightarrow> bool" where
  "same_bounds s s' \<longleftrightarrow> sm_lastApplied_index s' = sm_lastApplied_index s \<and> sm_lastApplied_term s' = sm_lastApplied_term s \<and>
     sm_onDiskSM s' = sm_onDiskSM s \<and> sm_onDiskInitIndex s' = sm_onDiskInitIndex s \<and> sm_taskQ s' = sm_taskQ s"

definition applied_next :: "Entry \<Rightarrow> ('c, 'u) StateMachine \<Rightarrow> ('c, 'u) StateMachine \<Rightarrow> bool" where
  "applied_next e s s' \<longleftrightarrow> e_Index e = sm_index s + 1 \<and> sm_term s \<le> e_Term e \<and>
     sm_index s' = e_Index e \<and> sm_term s' = e_Term e \<and> same_bounds s s'"

lemma sm_update_next:
  assumes "sm_update E e s = Inr (r, ig, rej, s')"
  shows "applied_next e s s'" and "sm_members s' = sm_members s"
proof -
  obtain a t where at: "sm_admit E e s = Inr (a, t)" using assms by (auto simp: sm_update_def bind_res_eq_Inr)
  obtain ds where t: "t = s\<lparr>sm_sessions := ds\<rparr>" using sm_admit_frame [OF at] by (rule that)
  have "applied_next e s s' \<and> sm_members s' = sm_members s"
  proof (cases a)
    case (Answer v i j)
    then show ?thesis
      using assms at t by (auto simp: sm_update_def bind_res_eq_Inr setApplied_Inr applied_next_def same_bounds_def)
  next
    case (Proceed q)
    then show ?thesis
      using assms at t
      by (auto simp: sm_update_def bind_res_eq_Inr setApplied_Inr applied_next_def same_bounds_def
          split: if_splits option.splits dest!: setOnDiskIndex_Inr)
  qed
  then show "applied_next e s s'" "sm_members s' = sm_members s" by blast+
qed

lemma tell_simps [simp]:
  "applied_next e s (tell c s') = applied_next e s s'" "sm_members (tell c s) = sm_members s"
  by (simp_all add: applied_next_def same_bounds_def tell_def)

lemma sm_noop_next: "sm_noop e s = Inr s' \<Longrightarrow> applied_next e s s' \<and> sm_members s' = sm_members s"
  by (auto simp: sm_noop_def setApplied_Inr applied_next_def same_bounds_def split: if_splits)

lemma handleEntry_next:
  assumes "handleEntry E e l s = Inr s'"
  shows "applied_next e s s'"
proof -
  consider "IsConfigChange e" | "\<not> IsConfigChange e" "\<not> IsSessionManaged e"
    | "\<not> IsConfigChange e" "IsSessionManaged e" "IsNewSessionRequest e \<or> IsEndOfSessionRequest e"
    | "IsUpdateEntry e" by (auto simp: IsUpdateEntry_def)
  then show ?thesis
  proof cases
    case 1
    then show ?thesis
      using assms by (auto simp: handleEntry_def sm_configChange_def bind_res_eq_Inr setApplied_Inr applied_next_def
          same_bounds_def tell_def split: sum.splits)
  next
    case 2
    then show ?thesis
      using assms by (auto simp: handleEntry_def bind_res_eq_Inr dest!: sm_noop_next split: if_splits)
  next
    case 3
    then show ?thesis
      using assms by (auto simp: handleEntry_def registerSession_def unregisterSession_def bind_res_eq_Inr setApplied_Inr
          applied_next_def same_bounds_def tell_def split: if_splits)
  next
    case 4
    show ?thesis
    proof (cases "entryInInitDiskSM s (e_Index e)")
      case True
      then have "sm_noop (zero_Entry\<lparr>e_Index := e_Index e, e_Term := e_Term e\<rparr>) s = Inr s'"
        using 4 assms by (simp add: handleEntry_def IsUpdateEntry_def)
      from sm_noop_next [OF this] show ?thesis by (simp add: applied_next_def)
    next
      case False
      then show ?thesis by (rule handleEntry_update [OF 4 assms]) (auto dest: sm_update_next(1))
    qed
  qed
qed



section \<open>The invariant of the manager\<close>

definition sm_wf :: "('c \<Rightarrow> u64 \<Rightarrow> nat option) \<Rightarrow> ('c, 'u) StateMachine \<Rightarrow> bool" where
  "sm_wf K s \<longleftrightarrow> sessions_wf K (sm_sessions s) \<and>
     membership_wf (ms_members (sm_members s)) \<and> addresses_distinct (ms_members (sm_members s)) \<and> tq_wf (sm_taskQ s)"

definition caught_up :: "('c, 'u) StateMachine \<Rightarrow> bool" where
  "caught_up s \<longleftrightarrow> sm_lastApplied_index s = sm_index s \<and> sm_lastApplied_term s = sm_term s"

text \<open>
  What the interface of the user's state machine asks of a batched update: the results are returned for
  the entries that were passed, in their order.
\<close>

definition batch_contract :: "'u userSM \<Rightarrow> bool" where
  "batch_contract U \<longleftrightarrow>
     (\<forall>u ents u' results. us_BatchedUpdate U u ents = Inr (u', results) \<longrightarrow> map fst results = map fst ents)"

lemma handleConfigChange_wf:
  assumes "membership_wf (ms_members m)" "addresses_distinct (ms_members m)" "ms_handleConfigChange m cc i = Inr (m', b)"
  shows "membership_wf (ms_members m') \<and> addresses_distinct (ms_members m')"
  using assms accepted_wf [of m cc i m'] accepted_distinct [of m cc i m']
  by (cases rule: handleConfigChange_cases [of m cc i]) auto

lemma handleEntry_members:
  assumes "handleEntry E e l s = Inr s'" "\<not> IsConfigChange e"
  shows "sm_members s' = sm_members s"
proof (cases "IsUpdateEntry e \<and> \<not> entryInInitDiskSM s (e_Index e)")
  case True
  then show ?thesis using handleEntry_update [OF _ assms(1)] by (metis sm_update_next(2) tell_simps(2))
next
  case False
  then show ?thesis
    using assms by (auto simp: handleEntry_def IsUpdateEntry_def registerSession_def unregisterSession_def sm_noop_def
        bind_res_eq_Inr setApplied_Inr tell_def split: if_splits)
qed

lemma handleEntry_wf:
  assumes C: "cache_ok (en_cache E) K" and wf: "sm_wf K s" and h: "handleEntry E e l s = Inr s'"
  shows "sm_wf K s'"
proof -
  have "sessions_wf K (sm_sessions s')"
    using handleEntry_step [OF C _ h] wf by (simp add: sm_wf_def sessions_step_def)
  moreover have "sm_taskQ s' = sm_taskQ s" using handleEntry_next [OF h] by (simp add: applied_next_def same_bounds_def)
  moreover have "membership_wf (ms_members (sm_members s')) \<and> addresses_distinct (ms_members (sm_members s'))"
  proof (cases "IsConfigChange e")
    case True
    then obtain cc m b where "ms_handleConfigChange (sm_members s) cc (e_Index e) = Inr (m, b)" "sm_members s' = m"
      using h by (auto simp: handleEntry_def sm_configChange_def bind_res_eq_Inr setApplied_Inr tell_def split: sum.splits)
    then show ?thesis using handleConfigChange_wf [of "sm_members s"] wf unfolding sm_wf_def by blast
  next
    case False
    then show ?thesis using handleEntry_members [OF h] wf by (simp add: sm_wf_def)
  qed
  ultimately show ?thesis using wf by (simp add: sm_wf_def)
qed

text \<open>A block of entries has been applied up to its last entry.\<close>

definition applied_upto :: "Entry list \<Rightarrow> ('c, 'u) StateMachine \<Rightarrow> ('c, 'u) StateMachine \<Rightarrow> bool" where
  "applied_upto es s s' \<longleftrightarrow> same_bounds s s' \<and>
     (if es = [] then sm_index s' = sm_index s \<and> sm_term s' = sm_term s
      else sm_index s' = e_Index (last es) \<and> sm_term s' = e_Term (last es))"

lemma handle_entries_wf:
  assumes C: "cache_ok (en_cache E) K"
  shows "sm_wf K s \<Longrightarrow> handle_entries E b es s = Inr s' \<Longrightarrow> sm_wf K s' \<and> applied_upto es s s'"
proof (induction es arbitrary: s)
  case Nil
  then show ?case by (simp add: applied_upto_def same_bounds_def)
next
  case (Cons e es)
  then obtain t where t: "handleEntry E e (b \<and> es = []) s = Inr t" "handle_entries E b es t = Inr s'"
    by (auto simp: bind_res_eq_Inr)
  then have "sm_wf K s' \<and> applied_upto es t s'" using Cons handleEntry_wf [OF C] by blast
  then show ?case using handleEntry_next [OF t(1)] by (auto simp: applied_upto_def applied_next_def same_bounds_def)
qed

lemma batch_collect_cases:
  assumes "batch_collect E e (s, ents, k) = Inr (s1, ents1, k1)"
  obtains (taken) "s1 = s" "length ents1 = Suc (length ents)" "k1 = k"
  | (skipped) "s1 = s\<lparr>sm_index := e_Index e, sm_term := e_Term e\<rparr>" "ents1 = ents" "k1 = k + 1"
  using assms by (auto simp: batch_collect_def bind_res_eq_Inr setApplied_Inr split: if_splits)

lemma batch_collect_Cons:
  assumes "foldM (batch_collect E) (e # input) (s, ents, k) = Inr r"
  obtains s1 ents1 k1 where "batch_collect E e (s, ents, k) = Inr (s1, ents1, k1)"
    "foldM (batch_collect E) input (s1, ents1, k1) = Inr r"
  using assms by (cases "batch_collect E e (s, ents, k)") auto

lemma batch_collect_mono:
  "foldM (batch_collect E) input (s, ents, k) = Inr (s', ents', k') \<Longrightarrow> length ents \<le> length ents'"
proof (induction input arbitrary: s ents k)
  case (Cons e input)
  from Cons.prems obtain s1 ents1 k1 where 1: "batch_collect E e (s, ents, k) = Inr (s1, ents1, k1)"
    "foldM (batch_collect E) input (s1, ents1, k1) = Inr (s', ents', k')" by (rule batch_collect_Cons)
  from 1(1) have "length ents \<le> length ents1" by (rule batch_collect_cases) simp_all
  with Cons.IH [OF 1(2)] show ?case by simp
qed simp

lemma batch_collect_facts:
  assumes "foldM (batch_collect E) input (s, ents, k) = Inr (s', ents', k')"
  shows "k' + length ents' = k + length ents + length input \<and>
    s' = s\<lparr>sm_index := sm_index s', sm_term := sm_term s'\<rparr> \<and>
    (length ents' = length ents \<longrightarrow> applied_upto input s s')"
  using assms
proof (induction input arbitrary: s ents k)
  case Nil
  then show ?case by (simp add: applied_upto_def same_bounds_def)
next
  case (Cons e input)
  from Cons.prems obtain s1 ents1 k1 where 1: "batch_collect E e (s, ents, k) = Inr (s1, ents1, k1)"
    "foldM (batch_collect E) input (s1, ents1, k1) = Inr (s', ents', k')" by (rule batch_collect_Cons)
  note IH = Cons.IH [OF 1(2)] and mono = batch_collect_mono [OF 1(2)]
  from 1(1) show ?case
  proof (cases rule: batch_collect_cases)
    case taken
    then show ?thesis using IH mono by simp
  next
    case skipped
    then have "s' = s\<lparr>sm_index := sm_index s', sm_term := sm_term s'\<rparr>" using IH by simp
    then show ?thesis using skipped IH by (auto simp: applied_upto_def same_bounds_def)
  qed
qed

lemma batch_applied_frame:
  assumes "foldM (batch_applied input k) rs s = Inr s'"
  shows "\<exists>i j c. s' = s\<lparr>sm_index := i, sm_term := j, sm_calls := c\<rparr>"
  using assms
proof (induction rs arbitrary: s)
  case Nil
  then have "s' = s\<lparr>sm_index := sm_index s, sm_term := sm_term s, sm_calls := sm_calls s\<rparr>" by simp
  then show ?case by (intro exI)
next
  case (Cons r rs)
  then obtain t where t: "batch_applied input k r s = Inr t" "foldM (batch_applied input k) rs t = Inr s'"
    by (auto simp: bind_res_eq_Inr)
  then have "t = s\<lparr>sm_index := sm_index t, sm_term := sm_term t, sm_calls := sm_calls t\<rparr>"
    by (auto simp: batch_applied_def Let_def setApplied_Inr tell_def split: if_splits prod.splits)
  then obtain i j c where ti: "t = s\<lparr>sm_index := i, sm_term := j, sm_calls := c\<rparr>" by (rule that)
  from Cons.IH [OF t(2)] obtain i' j' c' where "s' = t\<lparr>sm_index := i', sm_term := j', sm_calls := c'\<rparr>" by blast
  then have "s' = s\<lparr>sm_index := i', sm_term := j', sm_calls := c'\<rparr>" unfolding ti by simp
  then show ?case by (intro exI)
qed

lemma batch_applied_last:
  assumes "foldM (batch_applied input k) (List.enumerate n rs) s = Inr s'" "rs \<noteq> []" "k + n + length rs = length input"
  shows "sm_index s' = e_Index (last input) \<and> sm_term s' = e_Term (last input)"
  using assms
proof (induction rs arbitrary: n s)
  case (Cons r rs)
  obtain i res where r: "r = (i, res)" by (cases r)
  from Cons.prems(1) obtain t where t: "batch_applied input k (n, i, res) s = Inr t"
    "foldM (batch_applied input k) (List.enumerate (Suc n) rs) t = Inr s'"
    by (auto simp: bind_res_eq_Inr r)
  show ?case
  proof (cases "rs = []")
    case True
    then have "s' = t" "k + n = length input - 1" "input \<noteq> []" using t(2) Cons.prems(3) by auto
    then have "input ! (k + n) = last input" by (simp add: last_conv_nth)
    then show ?thesis
      using t(1) \<open>s' = t\<close> by (auto simp: batch_applied_def Let_def setApplied_Inr split: if_splits)
  next
    case False
    then show ?thesis using Cons.IH [OF t(2)] Cons.prems(3) by simp
  qed
qed simp

lemma handleBatch_facts:
  assumes ct: "batch_contract (en_user E)" and h: "handleBatch E input s = Inr s'"
  shows "sm_sessions s' = sm_sessions s \<and> sm_members s' = sm_members s \<and> applied_upto input s s'"
proof -
  obtain s1 ents k where c: "foldM (batch_collect E) input (s, [], 0) = Inr (s1, ents, k)"
    using h by (auto simp: handleBatch_def bind_res_eq_Inr)
  note f = batch_collect_facts [OF c]
  obtain i j where s1: "s1 = s\<lparr>sm_index := i, sm_term := j\<rparr>" using f by blast
  show ?thesis
  proof (cases "ents = []")
    case True
    then have "s' = s1" using h c by (simp add: handleBatch_def)
    then show ?thesis using f True s1 by simp
  next
    case False
    obtain u results s2 where u: "us_BatchedUpdate (en_user E) (sm_user s1) ents = Inr (u, results)"
      and s2: "foldM (batch_applied input k) (List.enumerate 0 results) (s1\<lparr>sm_user := u\<rparr>) = Inr s2"
      and d: "setOnDiskIndex (fst (hd ents)) (fst (last ents)) s2 = Inr s'"
      using h c False by (auto simp: handleBatch_def bind_res_eq_Inr)
    have "map fst results = map fst ents" using ct u unfolding batch_contract_def by blast
    then have len: "length results = length ents" by (metis length_map)
    have "k + 0 + length results = length input" using f len by simp
    moreover have "results \<noteq> []" using len False by auto
    ultimately have l: "sm_index s2 = e_Index (last input) \<and> sm_term s2 = e_Term (last input)"
      using batch_applied_last [OF s2] by blast
    obtain x where x: "s' = s2\<lparr>sm_onDiskIndex := x\<rparr>" using setOnDiskIndex_Inr [OF d] by blast
    obtain a b cs where s2': "s2 = s1\<lparr>sm_user := u, sm_index := a, sm_term := b, sm_calls := cs\<rparr>"
      using batch_applied_frame [OF s2] by auto
    have "input \<noteq> []" using f False by auto
    moreover have "sm_index s' = e_Index (last input)" "sm_term s' = e_Term (last input)" using l x by simp_all
    moreover have "same_bounds s s'" unfolding x s2' s1 by (simp add: same_bounds_def)
    moreover have "sm_sessions s' = sm_sessions s" "sm_members s' = sm_members s" unfolding x s2' s1 by simp_all
    ultimately show ?thesis by (simp add: applied_upto_def)
  qed
qed

lemma setLastApplied_facts:
  assumes "setLastApplied es s = Inr s'"
  shows "es = [] \<Longrightarrow> s' = s"
    and "es \<noteq> [] \<Longrightarrow> s' = s\<lparr>sm_lastApplied_index := e_Index (last es), sm_lastApplied_term := e_Term (last es)\<rparr>"
  using assms by (auto simp: setLastApplied_def bind_res_eq_Inr split: list.splits if_splits)

lemma handle_task_wf:
  assumes C: "cache_ok (en_cache E) K" and ct: "batch_contract (en_user E)" and wf: "sm_wf K s" "caught_up s"
    and h: "(case getEntryTypes es of (update, noop) \<Rightarrow>
      if us_Concurrent (en_user E) \<and> update \<and> noop then handleBatch E es s else handle_entries E b es s) = Inr t"
    and l: "setLastApplied es t = Inr s'"
  shows "sm_wf K s' \<and> caught_up s'"
proof -
  have "sm_wf K t \<and> applied_upto es s t"
  proof (cases "us_Concurrent (en_user E) \<and> fst (getEntryTypes es) \<and> snd (getEntryTypes es)")
    case True
    then have "handleBatch E es s = Inr t" using h by (simp add: case_prod_beta)
    then show ?thesis
      using handleBatch_facts [OF ct] wf by (auto simp: sm_wf_def applied_upto_def same_bounds_def)
  next
    case False
    then have "handle_entries E b es s = Inr t" using h by (auto simp: case_prod_beta split: if_splits)
    then show ?thesis using handle_entries_wf [OF C wf(1)] by blast
  qed
  then show ?thesis
    using setLastApplied_facts [OF l] wf(2)
    by (cases "es = []") (auto simp: sm_wf_def caught_up_def applied_upto_def same_bounds_def)
qed

text \<open>
  C30: Handling tasks keeps the manager well formed (the session of each cached client, the membership, the
  task queue), and when it returns the index and term visible to other modules are those of the last entry
  applied, for entries applied one by one and in batches.
\<close>
theorem manager_wf:
  assumes C: "cache_ok (en_cache E) K" and ct: "batch_contract (en_user E)"
    and wf: "sm_wf K s" "caught_up s" and h: "sm_handle E ts s = Inr s'"
  shows "sm_wf K s' \<and> caught_up s'"
  using wf h
proof (induction ts arbitrary: s)
  case (Cons t ts)
  then obtain es s1 s2 where
    1: "(case getEntryTypes es of (update, noop) \<Rightarrow>
      if us_Concurrent (en_user E) \<and> update \<and> noop then handleBatch E es s else handle_entries E (ts = []) es s) = Inr s1"
    "setLastApplied es s1 = Inr s2" "sm_handle E ts s2 = Inr s'"
    by (auto simp: bind_res_eq_Inr split: if_splits)
  show ?case using handle_task_wf [OF C ct Cons.prems(1,2) 1(1,2)] Cons.IH [OF _ _ 1(3)] by blast
qed simp

lemma demo_sm_wf: "sm_wf map_of demo_sm \<and> caught_up demo_sm \<and> batch_contract (en_user demo_env)"
  using demo_sessions_wf
  by (auto simp: sm_wf_def caught_up_def batch_contract_def demo_sm_def demo_env_def counter_sm_def newMembership_def
      membership_wf_def addresses_distinct_def member_addr_def mhas_def tq_wf_def NewTaskQueue_def split_def)

lemma manager_wf_witness:
  "\<exists>s'. sm_handle demo_env [emptyTask\<lparr>tk_Entries := [demo_proposal 6]\<rparr>, emptyTask] demo_sm = Inr s' \<and>
     sm_wf map_of s' \<and> caught_up s'"
proof -
  obtain s1 where s1: "handleEntry demo_env (demo_proposal 6) False demo_sm = Inr s1" using demo_first by blast
  have "sm_lastApplied_index s1 = 5" "sm_lastApplied_term s1 = 2"
    using handleEntry_next [OF s1] by (simp_all add: applied_next_def same_bounds_def demo_sm_def)
  then have l: "\<exists>s2. setLastApplied [demo_proposal 6] s1 = Inr s2" by (simp add: setLastApplied_def demo_proposal_def)
  have e: "EntriesToApply [demo_proposal 6] (sm_index demo_sm) False = Inr [demo_proposal 6]"
    by (simp add: EntriesToApply_def demo_proposal_def demo_sm_def slice_from_def)
  have c: "us_Concurrent (en_user demo_env) = False" by (simp add: demo_env_def counter_sm_def)
  have t: "IsSnapshotTask (emptyTask\<lparr>tk_Entries := es\<rparr>) = False" "isSyncTask (emptyTask\<lparr>tk_Entries := es\<rparr>) = Inr False"
    "IsSnapshotTask emptyTask = False" "isSyncTask emptyTask = Inr False" "tk_Entries emptyTask = []" for es
    by (simp_all add: IsSnapshotTask_def isSyncTask_def emptyTask_def)
  have n: "EntriesToApply [] i b = Inr []" "setLastApplied [] s = Inr s" for i b s
    by (simp_all add: EntriesToApply_def setLastApplied_def)
  from l obtain s' where "sm_handle demo_env [emptyTask\<lparr>tk_Entries := [demo_proposal 6]\<rparr>, emptyTask] demo_sm = Inr s'"
    using s1 by (auto simp: t n e c split_def)
  note h = this
  show ?thesis using manager_wf [OF _ _ _ _ h, of map_of] demo_sm_wf demo_sessions_wf h by blast
qed

end
