(* ===== verification/SnapshotCodec.thy ===== *)
theory SnapshotCodec
  imports Codec
begin

text \<open>
  The wire format of snapshot metadata: \<open>snapshotfile.go\<close>, \<open>membership.go\<close> and \<open>snapshot.go\<close> of
  \<open>raft/raftpb\<close>. The entries of a map are written in the order of the association list, which stands for
  the order the runtime iterates in.
\<close>

section \<open>Files\<close>

definition opt_bytes :: "byte \<Rightarrow> bytes \<Rightarrow> bytes" where
  "opt_bytes tag bs = (if bs \<noteq> [] then tag # lenDelimited bs else [])"

definition opt_bytes_size :: "bytes \<Rightarrow> nat" where
  "opt_bytes_size bs = (if bs \<noteq> [] then let l = length bs in 1 + l + sovRaft (of_nat l) else 0)"

definition SnapshotFile_MarshalTo :: "SnapshotFile \<Rightarrow> bytes" where
  "SnapshotFile_MarshalTo m =
     0x12 # lenDelimited (str_bytes (sf_Filepath m)) @
     0x18 # encodeVarintRaft (sf_FileSize m) @
     0x20 # encodeVarintRaft (sf_FileId m) @
     opt_bytes 0x2a (sf_Metadata m)"

definition SnapshotFile_Size :: "SnapshotFile \<Rightarrow> nat" where
  "SnapshotFile_Size m =
     (let l = length (sf_Filepath m) in 1 + l + sovRaft (of_nat l)) +
     1 + sovRaft (sf_FileSize m) + 1 + sovRaft (sf_FileId m) + opt_bytes_size (sf_Metadata m)"

definition SnapshotFile_field :: "nat \<Rightarrow> SnapshotFile field" where
  "SnapshotFile_field l fieldNum wireType d m =
     (if fieldNum = 2 then bytes_field l wireType d (\<lambda>bs. Inr (m\<lparr>sf_Filepath := bytes_str bs\<rparr>))
      else if fieldNum = 3 then uint_field wireType d (\<lambda>v. Inr (m\<lparr>sf_FileSize := v\<rparr>))
      else if fieldNum = 4 then uint_field wireType d (\<lambda>v. Inr (m\<lparr>sf_FileId := v\<rparr>))
      else if fieldNum = 5 then bytes_field l wireType d (\<lambda>bs. Inr (m\<lparr>sf_Metadata := bs\<rparr>))
      else Inr None)"

definition SnapshotFile_Unmarshal :: "bytes \<Rightarrow> SnapshotFile \<Rightarrow> SnapshotFile res" where
  "SnapshotFile_Unmarshal dAtA m = proto_loop (length dAtA) (SnapshotFile_field (length dAtA)) dAtA m"

section \<open>Membership\<close>

definition string_entry :: "byte \<Rightarrow> u64 \<times> string \<Rightarrow> bytes" where
  "string_entry tag = (\<lambda>(k, v).
     let mapSize = 1 + sovRaft k + 1 + length v + sovRaft (of_nat (length v)) in
     tag # encodeVarintRaft (of_nat mapSize) @ 0x8 # encodeVarintRaft k @ 0x12 # lenDelimited (str_bytes v))"

definition bool_entry :: "byte \<Rightarrow> u64 \<times> bool \<Rightarrow> bytes" where
  "bool_entry tag = (\<lambda>(k, v).
     let mapSize = 1 + sovRaft k + 1 + 1 in
     tag # encodeVarintRaft (of_nat mapSize) @ 0x8 # encodeVarintRaft k @ 0x10 # flag v)"

definition Membership_MarshalTo :: "Membership \<Rightarrow> bytes" where
  "Membership_MarshalTo m =
     0x8 # encodeVarintRaft (mb_ConfigChangeId m) @
     concat (map (string_entry 0x12) (mb_Addresses m)) @
     concat (map (bool_entry 0x1a) (mb_Removed m)) @
     concat (map (string_entry 0x22) (mb_NonVotings m)) @
     concat (map (string_entry 0x2a) (mb_Witnesses m))"

definition string_entry_size :: "u64 \<times> string \<Rightarrow> nat" where
  "string_entry_size = (\<lambda>(k, v).
     let mapEntrySize = 1 + sovRaft k + 1 + length v + sovRaft (of_nat (length v)) in
     mapEntrySize + 1 + sovRaft (of_nat mapEntrySize))"

definition bool_entry_size :: "u64 \<times> bool \<Rightarrow> nat" where
  "bool_entry_size = (\<lambda>(k, v).
     let mapEntrySize = 1 + sovRaft k + 1 + 1 in mapEntrySize + 1 + sovRaft (of_nat mapEntrySize))"

definition Membership_Size :: "Membership \<Rightarrow> nat" where
  "Membership_Size m =
     1 + sovRaft (mb_ConfigChangeId m) +
     sum_list (map string_entry_size (mb_Addresses m)) +
     sum_list (map bool_entry_size (mb_Removed m)) +
     sum_list (map string_entry_size (mb_NonVotings m)) +
     sum_list (map string_entry_size (mb_Witnesses m))"

text \<open>
  The decoder of one map entry reads from the whole buffer and stops when it has passed the end of the
  entry; repeated keys are combined bitwise, as in the generated code.
\<close>

function map_loop :: "(bytes \<Rightarrow> ('v \<times> nat) res) \<Rightarrow> int \<Rightarrow> bytes \<Rightarrow> u64 \<Rightarrow> 'v \<Rightarrow> (u64 \<times> 'v) res" where
  "map_loop val rem d k v =
     (if rem \<le> 0 then Inr (k, v)
      else
        case getVarint d of
          Inl e \<Rightarrow> Inl e
        | Inr (wire, n) \<Rightarrow>
            let fieldNum = sint (ucast (drop_bit 3 wire) :: 32 word) in
            if fieldNum = 1 then
              (case getVarint (drop n d) of
                 Inl e \<Rightarrow> Inl e
               | Inr (x, n') \<Rightarrow> map_loop val (rem - int n - int n') (drop (n + n') d) (k OR x) v)
            else if fieldNum = 2 then
              (case val (drop n d) of
                 Inl e \<Rightarrow> Inl e
               | Inr (v', n') \<Rightarrow> map_loop val (rem - int n - int n') (drop (n + n') d) k v')
            else
              (case skipRaft d of
                 Inl e \<Rightarrow> Inl e
               | Inr skippy \<Rightarrow>
                   if int skippy > rem then Inl ErrUnexpectedEOF
                   else map_loop val (rem - int skippy) (drop skippy d) k v))"
  by auto
termination
  by (relation "measure (\<lambda>(val, rem, d, k, v). nat rem)") (auto dest!: getVarint_consumed skip_progress(1))

declare map_loop.simps [simp del]

definition map_field ::
  "nat \<Rightarrow> nat \<Rightarrow> bytes \<Rightarrow> (bytes \<Rightarrow> ('v \<times> nat) res) \<Rightarrow> 'v \<Rightarrow> (u64 \<Rightarrow> 'v \<Rightarrow> 'm) \<Rightarrow> ('m \<times> nat) option res" where
  "map_field l wireType d val v0 upd =
     (if wireType \<noteq> 2 then Inl wrong_wireType
      else bind_res (getVarint d) (\<lambda>(len, n).
        if sint len < 0 \<or> l - length d + n + unat len > max_int then Inl ErrInvalidLengthRaft
        else if n + unat len > length d then Inl ErrUnexpectedEOF
        else bind_res (map_loop val (int (unat len)) (drop n d) 0 v0) (\<lambda>(k, v). Inr (Some (upd k v, n + unat len)))))"

definition map_string :: "nat \<Rightarrow> bytes \<Rightarrow> (string \<times> nat) res" where
  "map_string l d =
     bind_res (getVarint d) (\<lambda>(len, n).
       if sint len < 0 \<or> l - length d + n + unat len > max_int then Inl ErrInvalidLengthRaft
       else if n + unat len > length d then Inl ErrUnexpectedEOF
       else Inr (bytes_str (take (unat len) (drop n d)), n + unat len))"

definition map_bool :: "bytes \<Rightarrow> (bool \<times> nat) res" where
  "map_bool d = bind_res (getVarint d) (\<lambda>(v, n). Inr (v \<noteq> 0, n))"

definition Membership_field :: "nat \<Rightarrow> Membership field" where
  "Membership_field l fieldNum wireType d m =
     (if fieldNum = 1 then uint_field wireType d (\<lambda>v. Inr (m\<lparr>mb_ConfigChangeId := v\<rparr>))
      else if fieldNum = 2 then map_field l wireType d (map_string l) [] (\<lambda>k v. m\<lparr>mb_Addresses := mput k v (mb_Addresses m)\<rparr>)
      else if fieldNum = 3 then map_field l wireType d map_bool False (\<lambda>k v. m\<lparr>mb_Removed := mput k v (mb_Removed m)\<rparr>)
      else if fieldNum = 4 then map_field l wireType d (map_string l) [] (\<lambda>k v. m\<lparr>mb_NonVotings := mput k v (mb_NonVotings m)\<rparr>)
      else if fieldNum = 5 then map_field l wireType d (map_string l) [] (\<lambda>k v. m\<lparr>mb_Witnesses := mput k v (mb_Witnesses m)\<rparr>)
      else Inr None)"

definition Membership_Unmarshal :: "bytes \<Rightarrow> Membership \<Rightarrow> Membership res" where
  "Membership_Unmarshal dAtA m = proto_loop (length dAtA) (Membership_field (length dAtA)) dAtA m"

section \<open>Snapshots\<close>

definition StateMachineType_num :: "StateMachineType \<Rightarrow> u64" where
  "StateMachineType_num t =
     (case t of UnknownStateMachine \<Rightarrow> 0 | RegularStateMachine \<Rightarrow> 1 | ConcurrentStateMachine \<Rightarrow> 2 | OnDiskStateMachine \<Rightarrow> 3)"

definition StateMachineType_of :: "32 word \<Rightarrow> StateMachineType res" where
  "StateMachineType_of x =
     (if x = 0 then Inr UnknownStateMachine else if x = 1 then Inr RegularStateMachine
      else if x = 2 then Inr ConcurrentStateMachine else if x = 3 then Inr OnDiskStateMachine
      else Inl (ErrOther ''unknown state machine type''))"

definition Snapshot_MarshalTo :: "Snapshot \<Rightarrow> bytes" where
  "Snapshot_MarshalTo m =
     0x12 # lenDelimited (str_bytes (ss_Filepath m)) @
     0x18 # encodeVarintRaft (ss_FileSize m) @
     0x20 # encodeVarintRaft (ss_Index m) @
     0x28 # encodeVarintRaft (ss_Term m) @
     0x32 # encodeVarintRaft (of_nat (Membership_Size (ss_Membership m))) @ Membership_MarshalTo (ss_Membership m) @
     concat (map (\<lambda>f. 0x3a # encodeVarintRaft (of_nat (SnapshotFile_Size f)) @ SnapshotFile_MarshalTo f) (ss_Files m)) @
     opt_bytes 0x42 (ss_Checksum m) @
     0x48 # flag (ss_Dummy m) @
     0x50 # encodeVarintRaft (ss_ShardID m) @
     0x58 # encodeVarintRaft (StateMachineType_num (ss_Type m)) @
     0x60 # flag (ss_Imported m) @
     0x68 # encodeVarintRaft (ss_OnDiskIndex m) @
     0x70 # flag (ss_Witness m)"

definition Snapshot_Size :: "Snapshot \<Rightarrow> nat" where
  "Snapshot_Size m =
     (let l = length (ss_Filepath m) in 1 + l + sovRaft (of_nat l)) +
     1 + sovRaft (ss_FileSize m) + 1 + sovRaft (ss_Index m) + 1 + sovRaft (ss_Term m) +
     (let l = Membership_Size (ss_Membership m) in 1 + l + sovRaft (of_nat l)) +
     sum_list (map (\<lambda>e. let l = SnapshotFile_Size e in 1 + l + sovRaft (of_nat l)) (ss_Files m)) +
     opt_bytes_size (ss_Checksum m) + 2 + 1 + sovRaft (ss_ShardID m) +
     1 + sovRaft (StateMachineType_num (ss_Type m)) + 2 + 1 + sovRaft (ss_OnDiskIndex m) + 2"

definition zero_SnapshotFile :: SnapshotFile where
  "zero_SnapshotFile = \<lparr>sf_Filepath = [], sf_FileSize = 0, sf_FileId = 0, sf_Metadata = []\<rparr>"

definition Snapshot_field :: "nat \<Rightarrow> Snapshot field" where
  "Snapshot_field l fieldNum wireType d m =
     (if fieldNum = 2 then bytes_field l wireType d (\<lambda>bs. Inr (m\<lparr>ss_Filepath := bytes_str bs\<rparr>))
      else if fieldNum = 3 then uint_field wireType d (\<lambda>v. Inr (m\<lparr>ss_FileSize := v\<rparr>))
      else if fieldNum = 4 then uint_field wireType d (\<lambda>v. Inr (m\<lparr>ss_Index := v\<rparr>))
      else if fieldNum = 5 then uint_field wireType d (\<lambda>v. Inr (m\<lparr>ss_Term := v\<rparr>))
      else if fieldNum = 6 then
        bytes_field l wireType d (\<lambda>bs.
          bind_res (Membership_Unmarshal bs (ss_Membership m)) (\<lambda>x. Inr (m\<lparr>ss_Membership := x\<rparr>)))
      else if fieldNum = 7 then
        bytes_field l wireType d (\<lambda>bs.
          bind_res (SnapshotFile_Unmarshal bs zero_SnapshotFile) (\<lambda>f. Inr (m\<lparr>ss_Files := ss_Files m @ [f]\<rparr>)))
      else if fieldNum = 8 then bytes_field l wireType d (\<lambda>bs. Inr (m\<lparr>ss_Checksum := bs\<rparr>))
      else if fieldNum = 9 then uint_field wireType d (\<lambda>v. Inr (m\<lparr>ss_Dummy := (v \<noteq> 0)\<rparr>))
      else if fieldNum = 10 then uint_field wireType d (\<lambda>v. Inr (m\<lparr>ss_ShardID := v\<rparr>))
      else if fieldNum = 11 then
        uint_field wireType d (\<lambda>v. bind_res (StateMachineType_of (ucast v)) (\<lambda>t. Inr (m\<lparr>ss_Type := t\<rparr>)))
      else if fieldNum = 12 then uint_field wireType d (\<lambda>v. Inr (m\<lparr>ss_Imported := (v \<noteq> 0)\<rparr>))
      else if fieldNum = 13 then uint_field wireType d (\<lambda>v. Inr (m\<lparr>ss_OnDiskIndex := v\<rparr>))
      else if fieldNum = 14 then uint_field wireType d (\<lambda>v. Inr (m\<lparr>ss_Witness := (v \<noteq> 0)\<rparr>))
      else Inr None)"

definition Snapshot_Unmarshal :: "bytes \<Rightarrow> Snapshot \<Rightarrow> Snapshot res" where
  "Snapshot_Unmarshal dAtA m = proto_loop (length dAtA) (Snapshot_field (length dAtA)) dAtA m"

section \<open>Sizes\<close>

lemma length_opt_bytes: "length (opt_bytes tag bs) = opt_bytes_size bs"
  by (simp add: opt_bytes_def opt_bytes_size_def lenDelimited_def length_encodeVarint Let_def)

lemma SnapshotFile_size: "length (SnapshotFile_MarshalTo m) = SnapshotFile_Size m"
  by (simp add: SnapshotFile_MarshalTo_def SnapshotFile_Size_def lenDelimited_def length_encodeVarint length_opt_bytes Let_def)

lemma length_string_entry: "length (string_entry tag x) = string_entry_size x"
  by (cases x) (simp add: string_entry_def string_entry_size_def lenDelimited_def length_encodeVarint Let_def)

lemma length_bool_entry: "length (bool_entry tag x) = bool_entry_size x"
  by (cases x) (simp add: bool_entry_def bool_entry_size_def length_encodeVarint Let_def)

lemma Membership_size: "length (Membership_MarshalTo m) = Membership_Size m"
  by (simp add: Membership_MarshalTo_def Membership_Size_def length_encodeVarint length_concat comp_def
      length_string_entry length_bool_entry)

lemma Snapshot_size: "length (Snapshot_MarshalTo m) = Snapshot_Size m"
  by (simp add: Snapshot_MarshalTo_def Snapshot_Size_def lenDelimited_def length_encodeVarint length_concat comp_def
      length_opt_bytes Membership_size SnapshotFile_size Let_def add.commute)

section \<open>Round trips\<close>

lemma lenDelimited_eq: "length bs = n \<Longrightarrow> encodeVarintRaft (of_nat n) @ bs = lenDelimited bs"
  by (simp add: lenDelimited_def)

lemma proto_loop_concat:
  assumes "\<And>x rest m. x \<in> set xs \<Longrightarrow> length (enc x @ rest) \<le> l \<Longrightarrow> proto_loop l f (enc x @ rest) m = proto_loop l f rest (upd x m)"
    and "length (concat (map enc xs) @ rest) \<le> l"
  shows "proto_loop l f (concat (map enc xs) @ rest) m = proto_loop l f rest (fold upd xs m)"
  using assms
proof (induction xs arbitrary: m)
  case (Cons x xs)
  have "proto_loop l f (enc x @ concat (map enc xs) @ rest) m = proto_loop l f (concat (map enc xs) @ rest) (upd x m)"
    using Cons.prems by (intro Cons.prems(1)) simp_all
  then show ?case using Cons by simp
qed simp

lemma SnapshotFile_decode:
  assumes "length (SnapshotFile_MarshalTo m) \<le> max_int"
  shows "SnapshotFile_Unmarshal (SnapshotFile_MarshalTo m) zero_SnapshotFile = Inr m"
proof -
  let ?l = "length (SnapshotFile_MarshalTo m)" let ?f = "SnapshotFile_field ?l"
  have f: "proto_loop ?l ?f (0x18 # encodeVarintRaft v @ rest) m = proto_loop ?l ?f rest (m\<lparr>sf_FileSize := v\<rparr>)"
    "proto_loop ?l ?f (0x20 # encodeVarintRaft v @ rest) m = proto_loop ?l ?f rest (m\<lparr>sf_FileId := v\<rparr>)" for v rest m
    by (rule proto_loop_field; simp add: SnapshotFile_field_def uint_field_encode)+
  have g: "proto_loop ?l ?f (0x12 # lenDelimited (str_bytes s) @ rest) m = proto_loop ?l ?f rest (m\<lparr>sf_Filepath := s\<rparr>)"
    if "length (lenDelimited (str_bytes s) @ rest) \<le> ?l" for s rest m
    by (rule proto_loop_field; simp add: SnapshotFile_field_def bytes_field_encode [OF _ that assms])
  have h: "proto_loop ?l ?f (0x2a # lenDelimited bs @ rest) m = proto_loop ?l ?f rest (m\<lparr>sf_Metadata := bs\<rparr>)"
    if "length (lenDelimited bs @ rest) \<le> ?l" for bs rest m
    by (rule proto_loop_field; simp add: SnapshotFile_field_def bytes_field_encode [OF _ that assms])
  have "length (lenDelimited (sf_Metadata m) @ []) \<le> ?l" if "sf_Metadata m \<noteq> []"
    using that by (simp add: SnapshotFile_MarshalTo_def opt_bytes_def)
  then have o: "proto_loop ?l ?f (opt_bytes 0x2a (sf_Metadata m)) m' = Inr (m'\<lparr>sf_Metadata := sf_Metadata m\<rparr>)"
    if "sf_Metadata m' = []" for m'
    using that h [of "sf_Metadata m" "[]" m'] by (cases "sf_Metadata m = []") (simp_all add: opt_bytes_def)
  have "length (lenDelimited (str_bytes (sf_Filepath m)) @ 0x18 # encodeVarintRaft (sf_FileSize m) @
      0x20 # encodeVarintRaft (sf_FileId m) @ opt_bytes 0x2a (sf_Metadata m)) \<le> ?l"
    by (simp add: SnapshotFile_MarshalTo_def)
  then show ?thesis
    unfolding SnapshotFile_Unmarshal_def
    by (subst (3) SnapshotFile_MarshalTo_def) (simp add: f g o zero_SnapshotFile_def)
qed

subsection \<open>Map entries\<close>

lemma map_string_encode:
  assumes "length (lenDelimited (str_bytes v) @ rest) \<le> l" "l \<le> max_int"
  shows "map_string l (lenDelimited (str_bytes v) @ rest) = Inr (v, length (lenDelimited (str_bytes v)))"
proof -
  have "map_string l d = bind_res (bytes_field l 2 d (\<lambda>bs. Inr (bytes_str bs))) (\<lambda>x. Inr (the x))" for d
    by (cases "getVarint d") (auto simp: map_string_def bytes_field_def)
  then show ?thesis using bytes_field_encode [OF _ assms, of "\<lambda>bs. Inr (bytes_str bs)" v] by simp
qed

lemma map_bool_encode: "map_bool (flag v @ rest) = Inr (v, 1)"
  by (cases v) (simp_all add: map_bool_def flag_def getVarint_byte word_less_nat_alt)

lemma map_tags:
  "getVarint (0x8 # d) = Inr (8, 1)" "getVarint (0x12 # d) = Inr (0x12, 1)" "getVarint (0x10 # d) = Inr (0x10, 1)"
  by (simp_all add: getVarint_byte word_less_nat_alt)

lemma map_loop_entry:
  assumes "val (vb @ rest) = Inr (v, length vb)" "tag = 0x12 \<or> tag = 0x10"
  shows "map_loop val (int (length (0x8 # encodeVarintRaft k @ tag # vb))) (0x8 # encodeVarintRaft k @ tag # vb @ rest) 0 v0 = Inr (k, v)"
proof -
  have "map_loop val (int (Suc (length vb))) (tag # vb @ rest) k v0 = Inr (k, v)"
    using assms by (subst map_loop.simps) (auto simp: map_tags Let_def map_loop.simps [of _ 0])
  then show ?thesis
    by (subst map_loop.simps) (simp add: map_tags Let_def getVarint_encode)
qed

lemma map_field_encode:
  assumes "map_loop val (int (length P)) (P @ rest) 0 v0 = Inr (k, v)" "length (lenDelimited P @ rest) \<le> l" "l \<le> max_int"
  shows "map_field l 2 (lenDelimited P @ rest) val v0 upd = Inr (Some (upd k v, length (lenDelimited P)))"
proof -
  let ?v = "of_nat (length P) :: u64"
  have b: "length P \<le> max_int" using assms(2,3) by (simp add: lenDelimited_def)
  then have u: "unat ?v = length P" by (simp add: unat_of_nat_u64)
  have "\<not> sint ?v < 0" using b u by (intro sint_nonneg) simp
  moreover have "\<not> l - length (lenDelimited P @ rest) + length (encodeVarintRaft ?v) + length P > max_int"
    using assms(2,3) by (simp add: lenDelimited_def)
  ultimately show ?thesis
    using assms(1) u by (simp add: map_field_def lenDelimited_def getVarint_encode)
qed

lemma string_entry_eq:
  "string_entry tag (k, v) = tag # lenDelimited (0x8 # encodeVarintRaft k @ 0x12 # lenDelimited (str_bytes v))"
  by (simp add: string_entry_def lenDelimited_def length_encodeVarint Let_def add_ac)

lemma bool_entry_eq: "bool_entry tag (k, v) = tag # lenDelimited (0x8 # encodeVarintRaft k @ 0x10 # flag v)"
  by (simp add: bool_entry_def lenDelimited_def length_encodeVarint Let_def add_ac)

lemma string_map_field:
  assumes "length (lenDelimited (0x8 # encodeVarintRaft k @ 0x12 # lenDelimited (str_bytes v)) @ rest) \<le> l" "l \<le> max_int"
  shows "map_field l 2 (lenDelimited (0x8 # encodeVarintRaft k @ 0x12 # lenDelimited (str_bytes v)) @ rest) (map_string l) [] upd =
    Inr (Some (upd k v, length (lenDelimited (0x8 # encodeVarintRaft k @ 0x12 # lenDelimited (str_bytes v)))))"
proof (rule map_field_encode [OF _ assms])
  have "length (lenDelimited (str_bytes v) @ rest) \<le> l" using assms(1) by (simp add: lenDelimited_def)
  then show "map_loop (map_string l) (int (length (0x8 # encodeVarintRaft k @ 0x12 # lenDelimited (str_bytes v))))
      ((0x8 # encodeVarintRaft k @ 0x12 # lenDelimited (str_bytes v)) @ rest) 0 [] = Inr (k, v)"
    using map_loop_entry [of "map_string l" "lenDelimited (str_bytes v)" rest v "0x12" k "[]"]
      map_string_encode [OF _ assms(2), of v rest] by simp
qed

lemma bool_map_field:
  assumes "length (lenDelimited (0x8 # encodeVarintRaft k @ 0x10 # flag v) @ rest) \<le> l" "l \<le> max_int"
  shows "map_field l 2 (lenDelimited (0x8 # encodeVarintRaft k @ 0x10 # flag v) @ rest) map_bool False upd =
    Inr (Some (upd k v, length (lenDelimited (0x8 # encodeVarintRaft k @ 0x10 # flag v))))"
proof (rule map_field_encode [OF _ assms])
  have "map_bool (flag v @ rest) = Inr (v, length (flag v))" by (simp add: map_bool_encode)
  then show "map_loop map_bool (int (length (0x8 # encodeVarintRaft k @ 0x10 # flag v)))
      ((0x8 # encodeVarintRaft k @ 0x10 # flag v) @ rest) 0 False = Inr (k, v)"
    using map_loop_entry [of map_bool "flag v" rest v "0x10" k False] by simp
qed

lemma mput_new: "k \<notin> set (mkeys l) \<Longrightarrow> mput k v l = l @ [(k, v)]"
  by (induction l) auto

lemma fold_mput: "distinct (mkeys (ys @ xs)) \<Longrightarrow> fold (\<lambda>(k, v). mput k v) xs ys = ys @ xs"
proof (induction xs arbitrary: ys)
  case (Cons x xs)
  obtain k v where x: "x = (k, v)" by (cases x)
  with Cons.prems have "mput k v ys = ys @ [x]" by (simp add: mput_new)
  then show ?case using Cons.IH [of "ys @ [x]"] Cons.prems x by simp
qed simp

lemma fold_mput_wf: "gm_wf xs \<Longrightarrow> fold (\<lambda>(k, v). mput k v) xs [] = xs"
  using fold_mput [of "[]" xs] by (simp add: gm_wf_def)

lemma fold_members:
  "fold (\<lambda>x m. m\<lparr>mb_Addresses := mput (fst x) (snd x) (mb_Addresses m)\<rparr>) xs m =
     m\<lparr>mb_Addresses := fold (\<lambda>(k, v). mput k v) xs (mb_Addresses m)\<rparr>"
  "fold (\<lambda>x m. m\<lparr>mb_NonVotings := mput (fst x) (snd x) (mb_NonVotings m)\<rparr>) xs m =
     m\<lparr>mb_NonVotings := fold (\<lambda>(k, v). mput k v) xs (mb_NonVotings m)\<rparr>"
  "fold (\<lambda>x m. m\<lparr>mb_Witnesses := mput (fst x) (snd x) (mb_Witnesses m)\<rparr>) xs m =
     m\<lparr>mb_Witnesses := fold (\<lambda>(k, v). mput k v) xs (mb_Witnesses m)\<rparr>"
  by (induction xs arbitrary: m) (simp_all add: split_def)

lemma fold_removed:
  "fold (\<lambda>x m. m\<lparr>mb_Removed := mput (fst x) (snd x) (mb_Removed m)\<rparr>) xs m =
     m\<lparr>mb_Removed := fold (\<lambda>(k, v). mput k v) xs (mb_Removed m)\<rparr>"
  by (induction xs arbitrary: m) (simp_all add: split_def)

lemma Membership_steps:
  assumes "l \<le> max_int"
  shows "length (string_entry 0x12 x @ rest) \<le> l \<Longrightarrow> proto_loop l (Membership_field l) (string_entry 0x12 x @ rest) m =
      proto_loop l (Membership_field l) rest (m\<lparr>mb_Addresses := mput (fst x) (snd x) (mb_Addresses m)\<rparr>)"
    "length (bool_entry 0x1a y @ rest) \<le> l \<Longrightarrow> proto_loop l (Membership_field l) (bool_entry 0x1a y @ rest) m =
      proto_loop l (Membership_field l) rest (m\<lparr>mb_Removed := mput (fst y) (snd y) (mb_Removed m)\<rparr>)"
    "length (string_entry 0x22 x @ rest) \<le> l \<Longrightarrow> proto_loop l (Membership_field l) (string_entry 0x22 x @ rest) m =
      proto_loop l (Membership_field l) rest (m\<lparr>mb_NonVotings := mput (fst x) (snd x) (mb_NonVotings m)\<rparr>)"
    "length (string_entry 0x2a x @ rest) \<le> l \<Longrightarrow> proto_loop l (Membership_field l) (string_entry 0x2a x @ rest) m =
      proto_loop l (Membership_field l) rest (m\<lparr>mb_Witnesses := mput (fst x) (snd x) (mb_Witnesses m)\<rparr>)"
proof -
  obtain k v where x: "x = (k, v)" by (cases x)
  obtain k' b where y: "y = (k', b)" by (cases y)
  let ?P = "lenDelimited (0x8 # encodeVarintRaft k @ 0x12 # lenDelimited (str_bytes v))"
  let ?Q = "lenDelimited (0x8 # encodeVarintRaft k' @ 0x10 # flag b)"
  have P: "length (?P @ rest) \<le> l" if "length (string_entry tag x @ rest) \<le> l" for tag
    using that by (simp add: x string_entry_eq)
  show "length (bool_entry 0x1a y @ rest) \<le> l \<Longrightarrow> proto_loop l (Membership_field l) (bool_entry 0x1a y @ rest) m =
      proto_loop l (Membership_field l) rest (m\<lparr>mb_Removed := mput (fst y) (snd y) (mb_Removed m)\<rparr>)"
    unfolding y bool_entry_eq append_Cons
    by (rule proto_loop_field) (simp_all add: Membership_field_def bool_map_field [OF _ assms])
  show "length (string_entry 0x12 x @ rest) \<le> l \<Longrightarrow> proto_loop l (Membership_field l) (string_entry 0x12 x @ rest) m =
      proto_loop l (Membership_field l) rest (m\<lparr>mb_Addresses := mput (fst x) (snd x) (mb_Addresses m)\<rparr>)"
    "length (string_entry 0x22 x @ rest) \<le> l \<Longrightarrow> proto_loop l (Membership_field l) (string_entry 0x22 x @ rest) m =
      proto_loop l (Membership_field l) rest (m\<lparr>mb_NonVotings := mput (fst x) (snd x) (mb_NonVotings m)\<rparr>)"
    "length (string_entry 0x2a x @ rest) \<le> l \<Longrightarrow> proto_loop l (Membership_field l) (string_entry 0x2a x @ rest) m =
      proto_loop l (Membership_field l) rest (m\<lparr>mb_Witnesses := mput (fst x) (snd x) (mb_Witnesses m)\<rparr>)"
    unfolding x string_entry_eq append_Cons
    by (rule proto_loop_field; simp add: Membership_field_def string_map_field [OF _ assms])+
qed

definition maps_wf :: "Membership \<Rightarrow> bool" where
  "maps_wf m \<longleftrightarrow> gm_wf (mb_Addresses m) \<and> gm_wf (mb_Removed m) \<and> gm_wf (mb_NonVotings m) \<and> gm_wf (mb_Witnesses m)"

lemma Membership_decode:
  assumes "length (Membership_MarshalTo m) \<le> max_int" "maps_wf m"
  shows "Membership_Unmarshal (Membership_MarshalTo m) zero_Membership = Inr m"
proof -
  let ?l = "length (Membership_MarshalTo m)" let ?f = "Membership_field ?l"
  let ?A = "concat (map (string_entry 0x12) (mb_Addresses m))" and ?R = "concat (map (bool_entry 0x1a) (mb_Removed m))"
  let ?N = "concat (map (string_entry 0x22) (mb_NonVotings m))" and ?W = "concat (map (string_entry 0x2a) (mb_Witnesses m))"
  have len: "length (?A @ ?R @ ?N @ ?W) \<le> ?l" by (simp add: Membership_MarshalTo_def)
  have 1: "proto_loop ?l ?f (0x8 # encodeVarintRaft v @ rest) z = proto_loop ?l ?f rest (z\<lparr>mb_ConfigChangeId := v\<rparr>)" for v rest z
    by (rule proto_loop_field; simp add: Membership_field_def uint_field_encode)
  have 2: "proto_loop ?l ?f (?A @ ?R @ ?N @ ?W) z = proto_loop ?l ?f (?R @ ?N @ ?W)
      (z\<lparr>mb_Addresses := fold (\<lambda>(k, v). mput k v) (mb_Addresses m) (mb_Addresses z)\<rparr>)" for z
    unfolding fold_members(1) [symmetric] using len by (intro proto_loop_concat Membership_steps(1) [OF assms(1)]) simp_all
  have 3: "proto_loop ?l ?f (?R @ ?N @ ?W) z = proto_loop ?l ?f (?N @ ?W)
      (z\<lparr>mb_Removed := fold (\<lambda>(k, v). mput k v) (mb_Removed m) (mb_Removed z)\<rparr>)" for z
    unfolding fold_removed [symmetric] using len by (intro proto_loop_concat Membership_steps(2) [OF assms(1)]) simp_all
  have 4: "proto_loop ?l ?f (?N @ ?W) z = proto_loop ?l ?f ?W
      (z\<lparr>mb_NonVotings := fold (\<lambda>(k, v). mput k v) (mb_NonVotings m) (mb_NonVotings z)\<rparr>)" for z
    unfolding fold_members(2) [symmetric] using len by (intro proto_loop_concat Membership_steps(3) [OF assms(1)]) simp_all
  have 5: "proto_loop ?l ?f (?W @ []) z = proto_loop ?l ?f []
      (z\<lparr>mb_Witnesses := fold (\<lambda>(k, v). mput k v) (mb_Witnesses m) (mb_Witnesses z)\<rparr>)" for z
    unfolding fold_members(3) [symmetric] using len by (intro proto_loop_concat Membership_steps(4) [OF assms(1)]) simp_all
  have w: "fold (\<lambda>(k, v). mput k v) (mb_Addresses m) [] = mb_Addresses m" "fold (\<lambda>(k, v). mput k v) (mb_Removed m) [] = mb_Removed m"
    "fold (\<lambda>(k, v). mput k v) (mb_NonVotings m) [] = mb_NonVotings m" "fold (\<lambda>(k, v). mput k v) (mb_Witnesses m) [] = mb_Witnesses m"
    using assms(2) by (simp_all add: maps_wf_def fold_mput_wf)
  show ?thesis
    unfolding Membership_Unmarshal_def
    using 5 by (subst (3) Membership_MarshalTo_def) (simp add: 1 2 3 4 w zero_Membership_def)
qed

lemma StateMachineType_num_of: "StateMachineType_of (ucast (StateMachineType_num t)) = Inr t"
  by (cases t) (simp_all add: StateMachineType_num_def StateMachineType_of_def)

lemma Snapshot_uint_steps:
  "proto_loop l (Snapshot_field l) (0x18 # encodeVarintRaft v @ rest) m = proto_loop l (Snapshot_field l) rest (m\<lparr>ss_FileSize := v\<rparr>)"
  "proto_loop l (Snapshot_field l) (0x20 # encodeVarintRaft v @ rest) m = proto_loop l (Snapshot_field l) rest (m\<lparr>ss_Index := v\<rparr>)"
  "proto_loop l (Snapshot_field l) (0x28 # encodeVarintRaft v @ rest) m = proto_loop l (Snapshot_field l) rest (m\<lparr>ss_Term := v\<rparr>)"
  "proto_loop l (Snapshot_field l) (0x48 # flag b @ rest) m = proto_loop l (Snapshot_field l) rest (m\<lparr>ss_Dummy := b\<rparr>)"
  "proto_loop l (Snapshot_field l) (0x50 # encodeVarintRaft v @ rest) m = proto_loop l (Snapshot_field l) rest (m\<lparr>ss_ShardID := v\<rparr>)"
  "proto_loop l (Snapshot_field l) (0x58 # encodeVarintRaft (StateMachineType_num t) @ rest) m =
     proto_loop l (Snapshot_field l) rest (m\<lparr>ss_Type := t\<rparr>)"
  "proto_loop l (Snapshot_field l) (0x60 # flag b @ rest) m = proto_loop l (Snapshot_field l) rest (m\<lparr>ss_Imported := b\<rparr>)"
  "proto_loop l (Snapshot_field l) (0x68 # encodeVarintRaft v @ rest) m = proto_loop l (Snapshot_field l) rest (m\<lparr>ss_OnDiskIndex := v\<rparr>)"
  "proto_loop l (Snapshot_field l) (0x70 # flag b @ rest) m = proto_loop l (Snapshot_field l) rest (m\<lparr>ss_Witness := b\<rparr>)"
  unfolding flag_varint
  by (rule proto_loop_field; simp add: Snapshot_field_def uint_field_encode StateMachineType_num_of)+

lemma Snapshot_bytes_steps:
  assumes "length (lenDelimited bs @ rest) \<le> l" "l \<le> max_int"
  shows "bytes_str bs = s \<Longrightarrow> proto_loop l (Snapshot_field l) (0x12 # lenDelimited bs @ rest) m =
      proto_loop l (Snapshot_field l) rest (m\<lparr>ss_Filepath := s\<rparr>)"
    "Membership_Unmarshal bs (ss_Membership m) = Inr x \<Longrightarrow> proto_loop l (Snapshot_field l) (0x32 # lenDelimited bs @ rest) m =
      proto_loop l (Snapshot_field l) rest (m\<lparr>ss_Membership := x\<rparr>)"
    "SnapshotFile_Unmarshal bs zero_SnapshotFile = Inr y \<Longrightarrow> proto_loop l (Snapshot_field l) (0x3a # lenDelimited bs @ rest) m =
      proto_loop l (Snapshot_field l) rest (m\<lparr>ss_Files := ss_Files m @ [y]\<rparr>)"
    "proto_loop l (Snapshot_field l) (0x42 # lenDelimited bs @ rest) m = proto_loop l (Snapshot_field l) rest (m\<lparr>ss_Checksum := bs\<rparr>)"
  by (rule proto_loop_field; simp add: Snapshot_field_def bytes_field_encode [OF _ assms])+

lemma fold_files:
  "fold (\<lambda>f m. m\<lparr>ss_Files := ss_Files m @ [f]\<rparr>) fs m = m\<lparr>ss_Files := ss_Files m @ fs\<rparr>"
  by (induction fs arbitrary: m) simp_all

lemma Snapshot_files_step:
  assumes "length (concat (map (\<lambda>f. 0x3a # lenDelimited (SnapshotFile_MarshalTo f)) fs) @ rest) \<le> l" "l \<le> max_int"
  shows "proto_loop l (Snapshot_field l) (concat (map (\<lambda>f. 0x3a # lenDelimited (SnapshotFile_MarshalTo f)) fs) @ rest) m =
    proto_loop l (Snapshot_field l) rest (m\<lparr>ss_Files := ss_Files m @ fs\<rparr>)"
proof -
  have "proto_loop l (Snapshot_field l) (concat (map (\<lambda>f. 0x3a # lenDelimited (SnapshotFile_MarshalTo f)) fs) @ rest) m =
    proto_loop l (Snapshot_field l) rest (fold (\<lambda>f m. m\<lparr>ss_Files := ss_Files m @ [f]\<rparr>) fs m)"
  proof (rule proto_loop_concat [OF _ assms(1)])
    fix f rest m
    assume len: "length ((0x3a # lenDelimited (SnapshotFile_MarshalTo f)) @ rest) \<le> l"
    then have "length (lenDelimited (SnapshotFile_MarshalTo f) @ rest) \<le> l" by simp
    note st = Snapshot_bytes_steps(3) [OF this assms(2)]
    have "length (SnapshotFile_MarshalTo f) \<le> max_int" using len assms(2) by (simp add: lenDelimited_def)
    then show "proto_loop l (Snapshot_field l) ((0x3a # lenDelimited (SnapshotFile_MarshalTo f)) @ rest) m =
        proto_loop l (Snapshot_field l) rest (m\<lparr>ss_Files := ss_Files m @ [f]\<rparr>)"
      using st SnapshotFile_decode by simp
  qed
  then show ?thesis by (simp only: fold_files)
qed

lemma Snapshot_MarshalTo_eq:
  "Snapshot_MarshalTo m =
     0x12 # lenDelimited (str_bytes (ss_Filepath m)) @ 0x18 # encodeVarintRaft (ss_FileSize m) @
     0x20 # encodeVarintRaft (ss_Index m) @ 0x28 # encodeVarintRaft (ss_Term m) @
     0x32 # lenDelimited (Membership_MarshalTo (ss_Membership m)) @
     concat (map (\<lambda>f. 0x3a # lenDelimited (SnapshotFile_MarshalTo f)) (ss_Files m)) @
     opt_bytes 0x42 (ss_Checksum m) @ 0x48 # flag (ss_Dummy m) @ 0x50 # encodeVarintRaft (ss_ShardID m) @
     0x58 # encodeVarintRaft (StateMachineType_num (ss_Type m)) @ 0x60 # flag (ss_Imported m) @
     0x68 # encodeVarintRaft (ss_OnDiskIndex m) @ 0x70 # flag (ss_Witness m)"
  by (simp add: Snapshot_MarshalTo_def lenDelimited_def [of "Membership_MarshalTo _"] lenDelimited_def [of "SnapshotFile_MarshalTo _"]
      Membership_size SnapshotFile_size)

lemma Snapshot_decode:
  assumes "length (Snapshot_MarshalTo m) \<le> max_int" "maps_wf (ss_Membership m)"
  shows "Snapshot_Unmarshal (Snapshot_MarshalTo m) zero_Snapshot = Inr m"
proof -
  let ?l = "length (Snapshot_MarshalTo m)" let ?f = "Snapshot_field ?l"
  define E where "E = 0x48 # flag (ss_Dummy m) @ 0x50 # encodeVarintRaft (ss_ShardID m) @
     0x58 # encodeVarintRaft (StateMachineType_num (ss_Type m)) @ 0x60 # flag (ss_Imported m) @
     0x68 # encodeVarintRaft (ss_OnDiskIndex m) @ 0x70 # flag (ss_Witness m) @ []"
  define F where "F = concat (map (\<lambda>f. 0x3a # lenDelimited (SnapshotFile_MarshalTo f)) (ss_Files m)) @ opt_bytes 0x42 (ss_Checksum m) @ E"
  define G where "G = 0x18 # encodeVarintRaft (ss_FileSize m) @ 0x20 # encodeVarintRaft (ss_Index m) @
     0x28 # encodeVarintRaft (ss_Term m) @ 0x32 # lenDelimited (Membership_MarshalTo (ss_Membership m)) @ F"
  have all: "Snapshot_MarshalTo m = 0x12 # lenDelimited (str_bytes (ss_Filepath m)) @ G"
    by (simp add: Snapshot_MarshalTo_eq G_def F_def E_def)
  have l1: "length (lenDelimited (str_bytes (ss_Filepath m)) @ G) \<le> ?l" and
    l2: "length (lenDelimited (Membership_MarshalTo (ss_Membership m)) @ F) \<le> ?l" and l3: "length F \<le> ?l"
    by (simp_all add: all G_def)
  have mm: "length (Membership_MarshalTo (ss_Membership m)) \<le> max_int"
    using l2 assms(1) by (simp add: lenDelimited_def)
  have 1: "proto_loop ?l ?f (0x12 # lenDelimited (str_bytes (ss_Filepath m)) @ G) z = proto_loop ?l ?f G (z\<lparr>ss_Filepath := ss_Filepath m\<rparr>)" for z
    by (rule Snapshot_bytes_steps(1) [OF l1 assms(1)]) simp
  have 2: "proto_loop ?l ?f (0x32 # lenDelimited (Membership_MarshalTo (ss_Membership m)) @ F) z =
      proto_loop ?l ?f F (z\<lparr>ss_Membership := ss_Membership m\<rparr>)" if "ss_Membership z = zero_Membership" for z
    by (rule Snapshot_bytes_steps(2) [OF l2 assms(1)]) (simp only: that Membership_decode [OF mm assms(2)])
  have 3: "proto_loop ?l ?f F z = proto_loop ?l ?f (opt_bytes 0x42 (ss_Checksum m) @ E) (z\<lparr>ss_Files := ss_Files z @ ss_Files m\<rparr>)" for z
    unfolding F_def by (rule Snapshot_files_step [OF _ assms(1)]) (use l3 in \<open>simp add: F_def\<close>)
  have 4: "proto_loop ?l ?f (opt_bytes 0x42 (ss_Checksum m) @ E) z = proto_loop ?l ?f E (z\<lparr>ss_Checksum := ss_Checksum m\<rparr>)"
    if "ss_Checksum z = []" for z
  proof (cases "ss_Checksum m = []")
    case False
    then have "length (lenDelimited (ss_Checksum m) @ E) \<le> ?l" using l3 by (simp add: F_def opt_bytes_def)
    from Snapshot_bytes_steps(4) [OF this assms(1)] False show ?thesis by (simp add: opt_bytes_def)
  next
    case True
    then have "z\<lparr>ss_Checksum := ss_Checksum m\<rparr> = z" using that by simp
    then show ?thesis using True by (simp add: opt_bytes_def)
  qed
  have 5: "proto_loop ?l ?f E z = Inr (z\<lparr>ss_Dummy := ss_Dummy m, ss_ShardID := ss_ShardID m, ss_Type := ss_Type m,
      ss_Imported := ss_Imported m, ss_OnDiskIndex := ss_OnDiskIndex m, ss_Witness := ss_Witness m\<rparr>)" for z
    unfolding E_def by (simp only: Snapshot_uint_steps proto_loop_Nil)
  have "Snapshot_Unmarshal (Snapshot_MarshalTo m) zero_Snapshot = proto_loop ?l ?f G (zero_Snapshot\<lparr>ss_Filepath := ss_Filepath m\<rparr>)"
    unfolding Snapshot_Unmarshal_def using 1 [of zero_Snapshot] all by simp
  also have "\<dots> = Inr m"
    unfolding G_def by (simp add: Snapshot_uint_steps 2 3 4 5 zero_Snapshot_def)
  finally show ?thesis .
qed

text \<open>
  C35: Decoding the encoding of snapshot metadata into an empty record gives the metadata back, with its
  membership and its files, in whatever order the maps of the membership were iterated, and the encoding
  has the computed size.
\<close>
theorem snapshot_meta_round_trip:
  assumes "Snapshot_Size ss \<le> max_int" "maps_wf (ss_Membership ss)"
  shows "Snapshot_Unmarshal (Snapshot_MarshalTo ss) zero_Snapshot = Inr ss \<and>
    length (Snapshot_MarshalTo ss) = Snapshot_Size ss"
  using Snapshot_decode [of ss] assms by (simp add: Snapshot_size)

lemma snapshot_meta_round_trip_witness:
  "let ss = zero_Snapshot\<lparr>ss_Index := 300, ss_Membership := zero_Membership\<lparr>mb_Addresses := [(2, ''b''), (1, ''a'')]\<rparr>\<rparr>
   in Snapshot_Size ss \<le> max_int \<and> Snapshot_Unmarshal (Snapshot_MarshalTo ss) zero_Snapshot = Inr ss"
proof -
  let ?mb = "zero_Membership\<lparr>mb_Addresses := [(2, ''b''), (1, ''a'')]\<rparr>"
  let ?ss = "zero_Snapshot\<lparr>ss_Index := 300, ss_Membership := ?mb\<rparr>"
  have e: "string_entry_size (k, v) \<le> 33 + length v" for k v
    using sovRaft_10 [of k] sovRaft_10 [of "of_nat (length v)"]
      sovRaft_10 [of "of_nat (1 + sovRaft k + 1 + length v + sovRaft (of_nat (length v)))"]
    by (simp add: string_entry_size_def Let_def)
  have m: "Membership_Size ?mb \<le> 100"
    using e [of 2 "''b''"] e [of 1 "''a''"] sovRaft_10 [of 0] by (simp add: Membership_Size_def zero_Membership_def)
  have "Snapshot_Size ?ss \<le> 250"
    using m sovRaft_10 [of 0] sovRaft_10 [of 300] sovRaft_10 [of "of_nat (Membership_Size ?mb)"]
    by (simp add: Snapshot_Size_def zero_Snapshot_def opt_bytes_size_def StateMachineType_num_def Let_def)
  then have "Snapshot_Size ?ss \<le> max_int" by simp
  moreover have "maps_wf (ss_Membership ?ss)" by (simp add: maps_wf_def gm_wf_def zero_Membership_def)
  ultimately show ?thesis using snapshot_meta_round_trip [of ?ss] by (simp add: Let_def)
qed

end
