(* ===== verification/Colfer.thy ===== *)
theory Colfer
  imports Codec
begin

text \<open>
  The codec of log entries (\<open>raft/raftpb/raft_optimized.go\<close>): every field that is not zero is written
  after a header byte with its number, as a variable-length integer or, when the value is large, as eight
  bytes with the top bit of the header set; the byte 0x7f ends the entry. The decoder is a function of the
  header it has just read and of the bytes after it; the position in the buffer is the difference of the
  lengths. The type of an entry is an enumeration here, so that decoding any other number is an error.
\<close>

definition ColferSizeMax :: nat where
  "ColferSizeMax = 8 * 1024 * 1024 * 1024 * 1024"

definition ErrEOF :: go_error where "ErrEOF = ErrOther ''EOF''"

definition ErrColferMax :: go_error where "ErrColferMax = ErrOther ''colfer: size exceeds the maximum''"

section \<open>Encoding\<close>

function col_varint :: "u64 \<Rightarrow> bytes" where
  "col_varint x = (if x \<ge> 0x80 then ucast (x OR 0x80) # col_varint (drop_bit 7 x) else [ucast x])"
  by auto
termination
  by (relation "measure unat") (auto simp: unat_drop_7 word_le_nat_alt)

declare col_varint.simps [simp del]

definition col_field :: "byte \<Rightarrow> u64 \<Rightarrow> bytes" where
  "col_field k x =
     (if x \<ge> push_bit 49 1 then (k OR 0x80) # PutUint64 x
      else if x \<noteq> 0 then k # col_varint x
      else [])"

definition EntryType_num :: "EntryType \<Rightarrow> u64" where
  "EntryType_num t = (case t of ApplicationEntry \<Rightarrow> 0 | ConfigChangeEntry \<Rightarrow> 1 | EncodedEntry \<Rightarrow> 2 | MetadataEntry \<Rightarrow> 3)"

definition col_type :: "EntryType \<Rightarrow> bytes" where
  "col_type t = (let x = EntryType_num t in if x \<noteq> 0 then 2 # col_varint x else [])"

definition col_cmd :: "bytes \<Rightarrow> bytes" where
  "col_cmd cmd = (if length cmd \<noteq> 0 then 7 # col_varint (of_nat (length cmd)) @ cmd else [])"

definition Entry_marshalTo :: "Entry \<Rightarrow> bytes" where
  "Entry_marshalTo m =
     col_field 0 (e_Term m) @ col_field 1 (e_Index m) @ col_type (e_Type m) @ col_field 3 (e_Key m) @
     col_field 4 (e_ClientID m) @ col_field 5 (e_SeriesID m) @ col_field 6 (e_RespondedTo m) @
     col_cmd (e_Cmd m) @ [0x7f]"

section \<open>Size\<close>

function col_extra :: "u64 \<Rightarrow> nat" where
  "col_extra x = (if x \<ge> 0x80 then Suc (col_extra (drop_bit 7 x)) else 0)"
  by auto
termination
  by (relation "measure unat") (auto simp: unat_drop_7 word_le_nat_alt)

declare col_extra.simps [simp del]

definition col_field_size :: "u64 \<Rightarrow> nat" where
  "col_field_size x = (if x \<ge> push_bit 49 1 then 9 else if x \<noteq> 0 then 2 + col_extra x else 0)"

definition Entry_Size :: "Entry \<Rightarrow> nat res" where
  "Entry_Size m =
     (let l = 1 + col_field_size (e_Term m) + col_field_size (e_Index m) +
              (let v = EntryType_num (e_Type m) in if v \<noteq> 0 then 2 + col_extra v else 0) +
              col_field_size (e_Key m) + col_field_size (e_ClientID m) + col_field_size (e_SeriesID m) +
              col_field_size (e_RespondedTo m);
          x = length (e_Cmd m)
      in if x \<noteq> 0 \<and> x > ColferSizeMax then Inl (GoPanic ''max size reached'')
         else
           let l = (if x \<noteq> 0 then l + x + 2 + col_extra (of_nat x) else l) in
           if l > ColferSizeMax then Inl (GoPanic ''max size reached'') else Inr l)"

section \<open>Decoding\<close>

definition col_eof :: "nat \<Rightarrow> 'a res" where
  "col_eof i = (if i \<ge> ColferSizeMax then Inl ErrColferMax else Inl ErrEOF)"

fun col_loop :: "nat \<Rightarrow> u64 \<Rightarrow> bytes \<Rightarrow> (u64 \<times> bytes) option" where
  "col_loop shift x [] = None"
| "col_loop shift x (b # bs) =
     (if bs = [] then None
      else if b < 0x80 \<or> shift = 56 then Some (x OR push_bit shift (ucast b), bs)
      else col_loop (shift + 7) (x OR push_bit shift (ucast (b AND 0x7f))) bs)"

definition next_header :: "bytes \<Rightarrow> Entry \<Rightarrow> (byte \<times> bytes \<times> Entry) res" where
  "next_header bs m = (case bs of [] \<Rightarrow> Inl (GoPanic ''index out of range'') | h # ds \<Rightarrow> Inr (h, ds, m))"

definition col_u64 ::
  "nat \<Rightarrow> byte \<Rightarrow> (u64 \<Rightarrow> Entry \<Rightarrow> Entry) \<Rightarrow> byte \<times> bytes \<times> Entry \<Rightarrow> (byte \<times> bytes \<times> Entry) res" where
  "col_u64 n k upd = (\<lambda>(header, ds, m).
     if header = k then
       case col_loop 0 0 ds of
         None \<Rightarrow> col_eof (if ds = [] then n + 1 else n)
       | Some (x, bs) \<Rightarrow> next_header bs (upd x m)
     else if header = k OR 0x80 then
       if length ds \<le> 8 then col_eof (n - length ds + 8)
       else next_header (drop 8 ds) (upd (Uint64 (take 8 ds)) m)
     else Inr (header, ds, m))"

fun col_loop32 :: "nat \<Rightarrow> 32 word \<Rightarrow> bytes \<Rightarrow> (32 word \<times> bytes) option" where
  "col_loop32 shift x [] = None"
| "col_loop32 shift x (b # bs) =
     (if bs = [] then None
      else if b < 0x80 then Some (x OR push_bit shift (ucast b), bs)
      else col_loop32 (shift + 7) (x OR push_bit shift (ucast (b AND 0x7f))) bs)"

definition EntryType_of :: "32 word \<Rightarrow> EntryType res" where
  "EntryType_of x =
     (if x = 0 then Inr ApplicationEntry else if x = 1 then Inr ConfigChangeEntry
      else if x = 2 then Inr EncodedEntry else if x = 3 then Inr MetadataEntry
      else Inl (ErrOther ''unknown entry type''))"

definition col_entry_type :: "nat \<Rightarrow> byte \<times> bytes \<times> Entry \<Rightarrow> (byte \<times> bytes \<times> Entry) res" where
  "col_entry_type n = (\<lambda>(header, ds, m).
     if header = 2 \<or> header = 2 OR 0x80 then
       case col_loop32 0 0 ds of
         None \<Rightarrow> col_eof (if ds = [] then n + 1 else n)
       | Some (x, bs) \<Rightarrow>
           bind_res (EntryType_of (if header = 2 then x else NOT x + 1)) (\<lambda>t. next_header bs (m\<lparr>e_Type := t\<rparr>))
     else Inr (header, ds, m))"

fun col_len :: "nat \<Rightarrow> u64 \<Rightarrow> bytes \<Rightarrow> (u64 \<times> bytes) option" where
  "col_len shift x [] = None"
| "col_len shift x (b # bs) =
     (if b < 0x80 then Some (x OR push_bit shift (ucast b), bs)
      else col_len (shift + 7) (x OR push_bit shift (ucast (b AND 0x7f))) bs)"

definition col_bytes :: "nat \<Rightarrow> byte \<times> bytes \<times> Entry \<Rightarrow> (byte \<times> bytes \<times> Entry) res" where
  "col_bytes n = (\<lambda>(header, ds, m).
     if header = 7 then
       case col_len 0 0 ds of
         None \<Rightarrow> col_eof n
       | Some (x, bs) \<Rightarrow>
           if unat x > ColferSizeMax then Inl ErrColferMax
           else if length bs \<le> unat x then col_eof (n - length bs + unat x)
           else next_header (drop (unat x) bs) (m\<lparr>e_Cmd := take (unat x) bs\<rparr>)
     else Inr (header, ds, m))"

definition Entry_unmarshal :: "bytes \<Rightarrow> Entry \<Rightarrow> (nat \<times> Entry) res" where
  "Entry_unmarshal data m =
     (if length data = 0 then Inl ErrEOF
      else
        let n = length data in
        bind_res (col_u64 n 0 (\<lambda>x m. m\<lparr>e_Term := x\<rparr>) (hd data, tl data, m)) (\<lambda>s.
        bind_res (col_u64 n 1 (\<lambda>x m. m\<lparr>e_Index := x\<rparr>) s) (\<lambda>s.
        bind_res (col_entry_type n s) (\<lambda>s.
        bind_res (col_u64 n 3 (\<lambda>x m. m\<lparr>e_Key := x\<rparr>) s) (\<lambda>s.
        bind_res (col_u64 n 4 (\<lambda>x m. m\<lparr>e_ClientID := x\<rparr>) s) (\<lambda>s.
        bind_res (col_u64 n 5 (\<lambda>x m. m\<lparr>e_SeriesID := x\<rparr>) s) (\<lambda>s.
        bind_res (col_u64 n 6 (\<lambda>x m. m\<lparr>e_RespondedTo := x\<rparr>) s) (\<lambda>s.
        bind_res (col_bytes n s) (\<lambda>(header, ds, m).
        let i = n - length ds in
        if header \<noteq> 0x7f then Inl (ErrOther ''colfer: unknown header'')
        else if i < ColferSizeMax then Inr (i, m) else Inl ErrColferMax)))))))))"

definition Entry_Unmarshal :: "bytes \<Rightarrow> Entry \<Rightarrow> Entry res" where
  "Entry_Unmarshal data m = bind_res (Entry_unmarshal data m) (\<lambda>(_, m). Inr m)"

section \<open>Variable-length integers\<close>

lemma col_byte: "ucast (x OR 0x80 :: u64) = (ucast (x AND 0x7F OR 0x80) :: byte)"
proof (rule bit_word_eqI)
  fix n assume "n < LENGTH(8)"
  then show "bit (ucast (x OR 0x80) :: byte) n = bit (ucast (x AND 0x7F OR 0x80 :: u64) :: byte) n"
    unfolding bit_unsigned_iff bit_or_iff bit_and_iff bit_80 mask_7 bit_mask_iff by auto
qed

lemma col_varint_eq: "col_varint x = encodeVarintRaft x"
proof (induction x rule: col_varint.induct)
  case (1 x)
  then show ?case by (subst col_varint.simps, subst encodeVarintRaft.simps) (simp add: col_byte [of x])
qed

lemma col_extra_eq: "Suc (col_extra x) = length (col_varint x)"
proof (induction x rule: col_extra.induct)
  case (1 x)
  then show ?case by (subst col_extra.simps, subst col_varint.simps) simp
qed

lemma low_ucast:
  assumes "\<not> (0x80 :: u64) \<le> v"
  shows "encodeVarintRaft v = [ucast v]" "(ucast v :: byte) < 0x80" "ucast (ucast v :: byte) = v"
proof -
  show "encodeVarintRaft v = [ucast v]" using assms by (subst encodeVarintRaft.simps) simp
  show "(ucast v :: byte) < 0x80" using assms by (intro low_byte) simp
  have "unat v < 128" using assms by (simp add: word_le_nat_alt)
  then show "ucast (ucast v :: byte) = v"
    by (simp add: word_unat_eq_iff unsigned_ucast_eq unsigned_take_bit_eq take_bit_nat_eq_self)
qed

lemma high_step:
  assumes "(0x80 :: u64) \<le> v" "unat v < 2 ^ (w - shift)"
  shows "shift + 7 < w" "unat (drop_bit 7 v) < 2 ^ (w - (shift + 7))"
    "encodeVarintRaft v = ucast (v AND 0x7F OR 0x80) # encodeVarintRaft (drop_bit 7 v)"
    "push_bit shift v = push_bit shift (take_bit 7 v) OR push_bit (shift + 7) (drop_bit 7 v)"
proof -
  have "(2 :: nat) ^ 7 < 2 ^ (w - shift)" using assms by (simp add: word_le_nat_alt)
  then have "7 < w - shift" by (rule power_less_imp_less_exp [rotated]) simp
  then show s: "shift + 7 < w" by simp
  then have e: "w - shift = (w - (shift + 7)) + 7" by simp
  have "unat v < 2 ^ (w - (shift + 7)) * 2 ^ 7" using assms(2) unfolding e power_add .
  then show "unat (drop_bit 7 v) < 2 ^ (w - (shift + 7))" by (simp add: unat_drop_7 less_mult_imp_div_less)
  show "encodeVarintRaft v = ucast (v AND 0x7F OR 0x80) # encodeVarintRaft (drop_bit 7 v)"
    using assms(1) by (subst encodeVarintRaft.simps) simp
  show "push_bit shift v = push_bit shift (take_bit 7 v) OR push_bit (shift + 7) (drop_bit 7 v)"
    by (subst (1) split_7 [of v, symmetric]) (simp add: push_bit_or push_bit_push_bit add.commute)
qed

lemma col_loop_encode:
  assumes "shift < 56" "unat v < 2 ^ (56 - shift)" "rest \<noteq> []"
  shows "col_loop shift x (encodeVarintRaft v @ rest) = Some (x OR push_bit shift v, rest)"
  using assms(1,2)
proof (induction v arbitrary: shift x rule: encodeVarintRaft.induct)
  case (1 v)
  show ?case
  proof (cases "0x80 \<le> v")
    case False
    then show ?thesis using low_ucast [OF False] assms(3) by simp
  next
    case True
    note st = high_step [OF True 1(3)]
    have ne: "encodeVarintRaft (drop_bit 7 v) @ rest \<noteq> []" using assms(3) by simp
    show ?thesis
      unfolding st(3) using 1(1) [OF True st(1,2)] 1(2) ne high_byte [of v] by (simp add: st(4) or.assoc)
  qed
qed

lemma col_len_encode:
  assumes "shift < 64" "unat v < 2 ^ (64 - shift)"
  shows "col_len shift x (encodeVarintRaft v @ rest) = Some (x OR push_bit shift v, rest)"
  using assms
proof (induction v arbitrary: shift x rule: encodeVarintRaft.induct)
  case (1 v)
  show ?case
  proof (cases "0x80 \<le> v")
    case False
    then show ?thesis using low_ucast [OF False] by simp
  next
    case True
    note st = high_step [OF True 1(3)]
    show ?thesis
      unfolding st(3) using 1(1) [OF True st(1,2)] high_byte [of v] by (simp add: st(4) or.assoc)
  qed
qed

section \<open>Round trip\<close>

lemma small_lt: "\<not> push_bit 49 1 \<le> (x :: u64) \<Longrightarrow> unat x < 2 ^ 56"
  by (simp add: word_le_nat_alt)

lemma col_u64_encode:
  assumes "T = h # ds" "x = 0 \<Longrightarrow> h \<noteq> k \<and> h \<noteq> k OR 0x80" "k OR 0x80 \<noteq> k"
  shows "col_u64 n k upd (hd (col_field k x @ T), tl (col_field k x @ T), m) = Inr (h, ds, if x = 0 then m else upd x m)"
proof -
  consider "push_bit 49 1 \<le> x" | "\<not> push_bit 49 1 \<le> x" "x \<noteq> 0" | "x = 0" by blast
  then show ?thesis
  proof cases
    case 1
    then have "x \<noteq> 0" by auto
    then show ?thesis using 1 assms(1,3) by (simp add: col_u64_def col_field_def next_header_def)
  next
    case 2
    then show ?thesis
      using assms(1) col_loop_encode [of 0 x T 0] small_lt [OF 2(1)]
      by (simp add: col_u64_def col_field_def col_varint_eq next_header_def)
  next
    case 3
    then show ?thesis using assms by (simp add: col_u64_def col_field_def)
  qed
qed

lemma varint_123: "encodeVarintRaft 1 = [1]" "encodeVarintRaft 2 = [2]" "encodeVarintRaft 3 = [3]"
  by (subst encodeVarintRaft.simps; simp add: word_le_nat_alt)+

lemma col_entry_type_encode:
  assumes "T = h # ds" "h \<noteq> 2 \<and> h \<noteq> 2 OR 0x80"
  shows "col_entry_type n (hd (col_type t @ T), tl (col_type t @ T), m) =
    Inr (h, ds, if t = ApplicationEntry then m else m\<lparr>e_Type := t\<rparr>)"
  using assms by (cases t) (simp_all add: col_entry_type_def col_type_def Let_def col_varint_eq EntryType_num_def
      next_header_def EntryType_of_def word_less_nat_alt varint_123)

lemma col_bytes_encode:
  assumes "length cmd \<le> ColferSizeMax"
  shows "col_bytes n (hd (col_cmd cmd @ [0x7f]), tl (col_cmd cmd @ [0x7f]), m) =
    Inr (0x7f, [], if cmd = [] then m else m\<lparr>e_Cmd := cmd\<rparr>)"
proof (cases "cmd = []")
  case False
  have l: "length cmd < 2 ^ 64" using assms by (simp add: ColferSizeMax_def)
  then have u: "unat (of_nat (length cmd) :: u64) = length cmd" by (simp add: unat_of_nat take_bit_nat_eq_self)
  have "col_len 0 0 (encodeVarintRaft (of_nat (length cmd)) @ cmd @ [0x7f]) = Some (of_nat (length cmd), cmd @ [0x7f])"
    using col_len_encode [of 0 "of_nat (length cmd)" 0] unsigned_less [of "of_nat (length cmd) :: u64", where ?'a = nat] by simp
  then show ?thesis
    using False u assms by (simp add: col_bytes_def col_cmd_def col_varint_eq next_header_def)
qed (simp add: col_bytes_def col_cmd_def)

lemma col_heads:
  assumes "T \<noteq> []"
  shows "hd (col_field k x @ T) \<in> {k, k OR 0x80, hd T}" "hd (col_type t @ T) \<in> {2, hd T}" "hd (col_cmd c @ T) \<in> {7, hd T}"
  using assms by (auto simp: col_field_def col_type_def col_cmd_def Let_def)

lemma col_u64_step:
  assumes "T \<noteq> []" "hd T \<noteq> k" "hd T \<noteq> k OR 0x80" "k OR 0x80 \<noteq> k" "upd 0 m = m"
  shows "col_u64 n k upd (hd (col_field k x @ T), tl (col_field k x @ T), m) = Inr (hd T, tl T, upd x m)"
  using col_u64_encode [of T "hd T" "tl T" x k n upd m] assms by auto

lemma Entry_decode:
  assumes "length (e_Cmd e) \<le> ColferSizeMax" "length (Entry_marshalTo e) < ColferSizeMax"
  shows "Entry_unmarshal (Entry_marshalTo e) zero_Entry = Inr (length (Entry_marshalTo e), e)"
proof -
  let ?n = "length (Entry_marshalTo e)"
  define T8 where "T8 = col_cmd (e_Cmd e) @ [0x7f]"
  define T7 where "T7 = col_field 6 (e_RespondedTo e) @ T8"
  define T6 where "T6 = col_field 5 (e_SeriesID e) @ T7"
  define T5 where "T5 = col_field 4 (e_ClientID e) @ T6"
  define T4 where "T4 = col_field 3 (e_Key e) @ T5"
  define T3 where "T3 = col_type (e_Type e) @ T4"
  define T2 where "T2 = col_field 1 (e_Index e) @ T3"
  have all: "Entry_marshalTo e = col_field 0 (e_Term e) @ T2"
    by (simp add: Entry_marshalTo_def T2_def T3_def T4_def T5_def T6_def T7_def T8_def)
  have ne: "T8 \<noteq> []" "T7 \<noteq> []" "T6 \<noteq> []" "T5 \<noteq> []" "T4 \<noteq> []" "T3 \<noteq> []" "T2 \<noteq> []"
    by (simp_all add: T2_def T3_def T4_def T5_def T6_def T7_def T8_def)
  have h8: "hd T8 \<in> {7, 0x7f}" using col_heads(3) [of "[0x7f]"] by (simp add: T8_def)
  then have h7: "hd T7 \<in> {6, 0x86, 7, 0x7f}" using col_heads(1) [OF ne(1), of 6 "e_RespondedTo e", folded T7_def] by auto
  then have h6: "hd T6 \<in> {5, 0x85, 6, 0x86, 7, 0x7f}" using col_heads(1) [OF ne(2), of 5 "e_SeriesID e", folded T6_def] by auto
  then have h5: "hd T5 \<in> {4, 0x84, 5, 0x85, 6, 0x86, 7, 0x7f}" using col_heads(1) [OF ne(3), of 4 "e_ClientID e", folded T5_def] by auto
  then have h4: "hd T4 \<in> {3, 0x83, 4, 0x84, 5, 0x85, 6, 0x86, 7, 0x7f}" using col_heads(1) [OF ne(4), of 3 "e_Key e", folded T4_def] by auto
  then have h3: "hd T3 \<in> {2, 3, 0x83, 4, 0x84, 5, 0x85, 6, 0x86, 7, 0x7f}" using col_heads(2) [OF ne(5), of "e_Type e", folded T3_def] by auto
  then have h2: "hd T2 \<in> {1, 0x81, 2, 3, 0x83, 4, 0x84, 5, 0x85, 6, 0x86, 7, 0x7f}"
    using col_heads(1) [OF ne(6), of 1 "e_Index e", folded T2_def] by auto
  let ?m1 = "zero_Entry\<lparr>e_Term := e_Term e\<rparr>" let ?m2 = "?m1\<lparr>e_Index := e_Index e\<rparr>"
  let ?m3 = "?m2\<lparr>e_Type := e_Type e\<rparr>" let ?m4 = "?m3\<lparr>e_Key := e_Key e\<rparr>"
  let ?m5 = "?m4\<lparr>e_ClientID := e_ClientID e\<rparr>" let ?m6 = "?m5\<lparr>e_SeriesID := e_SeriesID e\<rparr>"
  let ?m7 = "?m6\<lparr>e_RespondedTo := e_RespondedTo e\<rparr>"
  have 1: "col_u64 ?n 0 (\<lambda>x m. m\<lparr>e_Term := x\<rparr>) (hd (col_field 0 (e_Term e) @ T2), tl (col_field 0 (e_Term e) @ T2), zero_Entry) =
      Inr (hd T2, tl T2, ?m1)" using h2 by (intro col_u64_step [OF ne(7)]) auto
  have 2: "col_u64 ?n 1 (\<lambda>x m. m\<lparr>e_Index := x\<rparr>) (hd T2, tl T2, ?m1) = Inr (hd T3, tl T3, ?m2)"
    unfolding T2_def using h3 by (intro col_u64_step [OF ne(6)]) auto
  have 3: "col_entry_type ?n (hd T3, tl T3, ?m2) = Inr (hd T4, tl T4, ?m3)"
    unfolding T3_def using h4 ne(5) by (subst col_entry_type_encode [of T4 "hd T4" "tl T4"]) auto
  have 4: "col_u64 ?n 3 (\<lambda>x m. m\<lparr>e_Key := x\<rparr>) (hd T4, tl T4, ?m3) = Inr (hd T5, tl T5, ?m4)"
    unfolding T4_def using h5 by (intro col_u64_step [OF ne(4)]) auto
  have 5: "col_u64 ?n 4 (\<lambda>x m. m\<lparr>e_ClientID := x\<rparr>) (hd T5, tl T5, ?m4) = Inr (hd T6, tl T6, ?m5)"
    unfolding T5_def using h6 by (intro col_u64_step [OF ne(3)]) auto
  have 6: "col_u64 ?n 5 (\<lambda>x m. m\<lparr>e_SeriesID := x\<rparr>) (hd T6, tl T6, ?m5) = Inr (hd T7, tl T7, ?m6)"
    unfolding T6_def using h7 by (intro col_u64_step [OF ne(2)]) auto
  have 7: "col_u64 ?n 6 (\<lambda>x m. m\<lparr>e_RespondedTo := x\<rparr>) (hd T7, tl T7, ?m6) = Inr (hd T8, tl T8, ?m7)"
    unfolding T7_def using h8 by (intro col_u64_step [OF ne(1)]) auto
  have 8: "col_bytes ?n (hd T8, tl T8, ?m7) = Inr (0x7f, [], e)"
    unfolding T8_def using col_bytes_encode [OF assms(1)] by auto
  have "?n \<noteq> 0" by (simp add: Entry_marshalTo_def)
  then show ?thesis
    unfolding Entry_unmarshal_def Let_def
    using assms(2) by (simp only: all 1 [unfolded all] 2 [unfolded all] 3 [unfolded all] 4 [unfolded all] 5 [unfolded all]
        6 [unfolded all] 7 [unfolded all] 8 [unfolded all] bind_res_simps case_prod_conv list.size diff_zero simp_thms if_False if_True)
qed

section \<open>Sizes\<close>

definition State_SizeUpperLimit :: nat where
  "State_SizeUpperLimit = 8 + 16 * 3"

lemma length_col_field: "length (col_field k x) = col_field_size x"
  using col_extra_eq [of x] by (simp add: col_field_def col_field_size_def)

lemma length_col_varint: "length (col_varint x) \<le> 10"
  using sovRaft_10 [of x] by (simp add: col_varint_eq length_encodeVarint)

lemma col_field_size_11: "col_field_size x \<le> 11"
  using length_col_varint [of x] by (simp add: length_col_field [of 0, symmetric] col_field_def)

lemma length_marshalTo:
  "length (Entry_marshalTo e) = 1 + col_field_size (e_Term e) + col_field_size (e_Index e) + length (col_type (e_Type e)) +
     col_field_size (e_Key e) + col_field_size (e_ClientID e) + col_field_size (e_SeriesID e) +
     col_field_size (e_RespondedTo e) + length (col_cmd (e_Cmd e))"
  by (simp add: Entry_marshalTo_def length_col_field)

lemma marshalTo_bound: "length (Entry_marshalTo e) \<le> 128 + length (e_Cmd e)"
proof -
  have "length (col_type (e_Type e)) \<le> 11" using length_col_varint by (simp add: col_type_def Let_def)
  moreover have "length (col_cmd (e_Cmd e)) \<le> 11 + length (e_Cmd e)" using length_col_varint by (simp add: col_cmd_def)
  ultimately show ?thesis
    using col_field_size_11 [of "e_Term e"] col_field_size_11 [of "e_Index e"] col_field_size_11 [of "e_Key e"]
      col_field_size_11 [of "e_ClientID e"] col_field_size_11 [of "e_SeriesID e"] col_field_size_11 [of "e_RespondedTo e"]
    unfolding length_marshalTo by linarith
qed

lemma Entry_Size_exact:
  assumes "length (e_Cmd e) + 128 < ColferSizeMax"
  shows "Entry_Size e = Inr (length (Entry_marshalTo e))"
proof -
  have t: "length (col_type (e_Type e)) = (let v = EntryType_num (e_Type e) in if v \<noteq> 0 then 2 + col_extra v else 0)"
    using col_extra_eq by (simp add: col_type_def Let_def flip: col_extra_eq)
  have c: "length (col_cmd (e_Cmd e)) = (if length (e_Cmd e) \<noteq> 0 then length (e_Cmd e) + 2 + col_extra (of_nat (length (e_Cmd e))) else 0)"
    by (simp add: col_cmd_def flip: col_extra_eq)
  have "length (Entry_marshalTo e) \<le> ColferSizeMax" using marshalTo_bound [of e] assms by simp
  then show ?thesis
    using assms unfolding length_marshalTo t c Entry_Size_def Let_def by (auto simp: add_ac)
qed

text \<open>
  C31: The size computed for an entry is the length of its encoding, and the limit used to allocate buffers
  and to split batches is never exceeded by the encoding of an entry or of a hard state.
\<close>
theorem encoded_size_bounds:
  assumes "length (e_Cmd e) + 128 < ColferSizeMax"
  shows "Entry_Size e = Inr (length (Entry_marshalTo e)) \<and>
    length (Entry_marshalTo e) \<le> unat (SizeUpperLimit e) \<and> length (State_MarshalTo st) \<le> State_SizeUpperLimit"
proof -
  have "unat (of_nat (128 + length (e_Cmd e)) :: u64) = 128 + length (e_Cmd e)"
    using assms by (simp only: ColferSizeMax_def) (simp add: unat_of_nat take_bit_nat_eq_self del: of_nat_add)
  moreover have "SizeUpperLimit e = of_nat (128 + length (e_Cmd e))"
    by (simp add: SizeUpperLimit_def EntryNonCmdFieldsSize_def)
  moreover have "length (State_MarshalTo st) \<le> State_SizeUpperLimit"
    using sovRaft_10 [of "st_Term st"] sovRaft_10 [of "st_Vote st"] sovRaft_10 [of "st_Commit st"]
    unfolding State_SizeUpperLimit_def by (simp add: State_size State_Size_def)
  ultimately show ?thesis using Entry_Size_exact [OF assms] marshalTo_bound [of e] by simp
qed

lemma encoded_size_bounds_witness:
  "length (e_Cmd (zero_Entry\<lparr>e_Cmd := [1, 2]\<rparr>)) + 128 < ColferSizeMax \<and>
   Entry_Size (zero_Entry\<lparr>e_Cmd := [1, 2]\<rparr>) = Inr (length (Entry_marshalTo (zero_Entry\<lparr>e_Cmd := [1, 2]\<rparr>)))"
  using encoded_size_bounds [of "zero_Entry\<lparr>e_Cmd := [1, 2]\<rparr>"] by (simp add: ColferSizeMax_def)

text \<open>
  C32: Decoding the encoding of a log entry into an empty entry gives the entry back and reads exactly the
  bytes of the encoding.
\<close>
theorem entry_round_trip:
  assumes "length (e_Cmd e) + 128 < ColferSizeMax"
  shows "Entry_unmarshal (Entry_marshalTo e) zero_Entry = Inr (length (Entry_marshalTo e), e) \<and>
    Entry_Unmarshal (Entry_marshalTo e) zero_Entry = Inr e"
  using Entry_decode [of e] assms marshalTo_bound [of e] by (simp add: Entry_Unmarshal_def)

lemma entry_round_trip_witness:
  "length (e_Cmd (zero_Entry\<lparr>e_Term := 300, e_Cmd := [1, 2]\<rparr>)) + 128 < ColferSizeMax \<and>
   Entry_Unmarshal (Entry_marshalTo (zero_Entry\<lparr>e_Term := 300, e_Cmd := [1, 2]\<rparr>)) zero_Entry =
     Inr (zero_Entry\<lparr>e_Term := 300, e_Cmd := [1, 2]\<rparr>)"
  using entry_round_trip [of "zero_Entry\<lparr>e_Term := 300, e_Cmd := [1, 2]\<rparr>"] by (simp add: ColferSizeMax_def)

end
