(* ===== verification/MessageCodec.thy ===== *)
theory MessageCodec
  imports SnapshotCodec Colfer
begin

text \<open>
  The wire format of raft messages: \<open>message.go\<close> and the hand-optimised decoder of \<open>raft_optimized.go\<close>. The
  decoder counts the entries that follow the first one to allocate their slice. The count scans the rest of
  the buffer without checks, so that it panics when it runs past the end; a negative length takes it
  back, and then it may never end. It is a partial function here, and a call of the decoder in which it
  does not return has the value \<open>no_return\<close>.
\<close>

definition no_return :: go_error where
  "no_return = GoPanic ''does not return''"

section \<open>Encoding\<close>

definition MessageType_list :: "MessageType list" where
  "MessageType_list =
     [LocalTick, Election, LeaderHeartbeat, ConfigChangeEvent, NoOP, Ping, Pong, Propose, SnapshotStatus, Unreachable,
      CheckQuorum, BatchedReadIndex, Replicate, ReplicateResp, RequestVote, RequestVoteResp, InstallSnapshot, Heartbeat,
      HeartbeatResp, ReadIndex, ReadIndexResp, Quiesce, SnapshotReceived, LeaderTransfer, TimeoutNow, RateLimit,
      RequestPreVote, RequestPreVoteResp, LogQuery]"

fun index_in :: "'a list \<Rightarrow> 'a \<Rightarrow> nat" where
  "index_in [] x = 0"
| "index_in (y # ys) x = (if y = x then 0 else Suc (index_in ys x))"

definition MessageType_num :: "MessageType \<Rightarrow> u64" where
  "MessageType_num t = of_nat (index_in MessageType_list t)"

definition MessageType_of :: "32 word \<Rightarrow> MessageType res" where
  "MessageType_of x =
     (if unat x < length MessageType_list then Inr (MessageType_list ! unat x) else Inl (ErrOther ''unknown message type''))"

definition Message_MarshalTo :: "Message \<Rightarrow> bytes res" where
  "Message_MarshalTo m =
     bind_res
       (foldM (\<lambda>e acc. bind_res (Entry_Size e) (\<lambda>sz.
          Inr (acc @ 0x5a # encodeVarintRaft (of_nat sz) @ Entry_marshalTo e))) (m_Entries m) []) (\<lambda>entries.
     Inr (0x8 # encodeVarintRaft (MessageType_num (m_Type m)) @
       0x10 # encodeVarintRaft (m_To m) @
       0x18 # encodeVarintRaft (m_From m) @
       0x20 # encodeVarintRaft (m_ShardID m) @
       0x28 # encodeVarintRaft (m_Term m) @
       0x30 # encodeVarintRaft (m_LogTerm m) @
       0x38 # encodeVarintRaft (m_LogIndex m) @
       0x40 # encodeVarintRaft (m_Commit m) @
       0x48 # flag (m_Reject m) @
       0x50 # encodeVarintRaft (m_Hint m) @
       entries @
       0x62 # encodeVarintRaft (of_nat (Snapshot_Size (m_Snapshot m))) @ Snapshot_MarshalTo (m_Snapshot m) @
       0x68 # encodeVarintRaft (m_HintHigh m)))"

section \<open>Decoding\<close>

fun raw_varint :: "nat \<Rightarrow> u64 \<Rightarrow> nat \<Rightarrow> bytes \<Rightarrow> (u64 \<times> nat) res" where
  "raw_varint shift x n [] = Inl (GoPanic ''index out of range'')"
| "raw_varint shift x n (b # bs) =
     (let x = x OR push_bit shift (ucast (b AND 0x7F))
      in if b < 0x80 then Inr (x, Suc n) else raw_varint (shift + 7) x (Suc n) bs)"

partial_function (option) entryCount :: "bytes \<Rightarrow> int \<Rightarrow> nat \<Rightarrow> nat res option" where
  "entryCount dAtA iNdEx cnt =
     (if \<not> iNdEx < int (length dAtA) then Some (Inr cnt)
      else if iNdEx < 0 then Some (Inl (GoPanic ''index out of range''))
      else
        case raw_varint 0 0 0 (drop (nat iNdEx) dAtA) of
          Inl e \<Rightarrow> Some (Inl e)
        | Inr wn \<Rightarrow>
            if sint (ucast (drop_bit 3 (fst wn)) :: 32 word) = 11 then
              (case raw_varint 0 0 0 (drop (nat iNdEx + snd wn) dAtA) of
                 Inl e \<Rightarrow> Some (Inl e)
               | Inr mn \<Rightarrow>
                   entryCount dAtA (sint (word_of_int (iNdEx + int (snd wn) + int (snd mn) + sint (fst mn)) :: u64)) (cnt + 1))
            else Some (Inr cnt))"

text \<open>
  The length of an embedded message is only checked not to be negative: the end of the message may wrap,
  and then the slice expression panics.
\<close>

definition msg_bytes_field :: "nat \<Rightarrow> nat \<Rightarrow> bytes \<Rightarrow> (bytes \<Rightarrow> bytes \<Rightarrow> 'm res) \<Rightarrow> ('m \<times> nat) option res" where
  "msg_bytes_field l wireType d upd =
     (if wireType \<noteq> 2 then Inl wrong_wireType
      else bind_res (getVarint d) (\<lambda>(len, n).
        if sint len < 0 then Inl ErrInvalidLengthRaft
        else if l - length d + n + unat len > max_int then Inl (GoPanic ''slice bounds out of range'')
        else if n + unat len > length d then Inl ErrUnexpectedEOF
        else bind_res (upd (take (unat len) (drop n d)) (drop (n + unat len) d)) (\<lambda>m. Inr (Some (m, n + unat len)))))"

definition allocate_entries :: "Message \<Rightarrow> bytes \<Rightarrow> unit res" where
  "allocate_entries m rest =
     (if m_Entries m = [] then
        case entryCount rest 0 0 of None \<Rightarrow> Inl no_return | Some (Inl e) \<Rightarrow> Inl e | Some (Inr cnt) \<Rightarrow> Inr ()
      else Inr ())"

definition Message_field :: "nat \<Rightarrow> Message field" where
  "Message_field l fieldNum wireType d m =
     (if fieldNum = 1 then
        uint_field wireType d (\<lambda>v. bind_res (MessageType_of (ucast v)) (\<lambda>t. Inr (m\<lparr>m_Type := t\<rparr>)))
      else if fieldNum = 2 then uint_field wireType d (\<lambda>v. Inr (m\<lparr>m_To := v\<rparr>))
      else if fieldNum = 3 then uint_field wireType d (\<lambda>v. Inr (m\<lparr>m_From := v\<rparr>))
      else if fieldNum = 4 then uint_field wireType d (\<lambda>v. Inr (m\<lparr>m_ShardID := v\<rparr>))
      else if fieldNum = 5 then uint_field wireType d (\<lambda>v. Inr (m\<lparr>m_Term := v\<rparr>))
      else if fieldNum = 6 then uint_field wireType d (\<lambda>v. Inr (m\<lparr>m_LogTerm := v\<rparr>))
      else if fieldNum = 7 then uint_field wireType d (\<lambda>v. Inr (m\<lparr>m_LogIndex := v\<rparr>))
      else if fieldNum = 8 then uint_field wireType d (\<lambda>v. Inr (m\<lparr>m_Commit := v\<rparr>))
      else if fieldNum = 9 then uint_field wireType d (\<lambda>v. Inr (m\<lparr>m_Reject := (v \<noteq> 0)\<rparr>))
      else if fieldNum = 10 then uint_field wireType d (\<lambda>v. Inr (m\<lparr>m_Hint := v\<rparr>))
      else if fieldNum = 11 then
        msg_bytes_field l wireType d (\<lambda>bs rest.
          bind_res (allocate_entries m rest) (\<lambda>_.
          bind_res (Entry_Unmarshal bs zero_Entry) (\<lambda>e. Inr (m\<lparr>m_Entries := m_Entries m @ [e]\<rparr>))))
      else if fieldNum = 12 then
        msg_bytes_field l wireType d (\<lambda>bs rest.
          bind_res (Snapshot_Unmarshal bs (m_Snapshot m)) (\<lambda>x. Inr (m\<lparr>m_Snapshot := x\<rparr>)))
      else if fieldNum = 13 then uint_field wireType d (\<lambda>v. Inr (m\<lparr>m_HintHigh := v\<rparr>))
      else Inr None)"

definition Message_Unmarshal :: "bytes \<Rightarrow> Message \<Rightarrow> Message res" where
  "Message_Unmarshal dAtA m = proto_loop (length dAtA) (Message_field (length dAtA)) dAtA m"

section \<open>The count of entries\<close>

lemma raw_varint_getVarint:
  "varint_loop shift x n bs = Inr r \<Longrightarrow> raw_varint shift x n bs = Inr r"
  by (induction shift x n bs rule: varint_loop.induct) (auto simp: Let_def split: if_splits)

lemma raw_varint_encode: "raw_varint 0 0 0 (encodeVarintRaft v @ rest) = Inr (v, length (encodeVarintRaft v))"
  using getVarint_encode [of v rest] unfolding getVarint_def by (rule raw_varint_getVarint)

lemma raw_varint_tags: "raw_varint 0 0 0 (0x5a # bs) = Inr (0x5a, 1)" "raw_varint 0 0 0 (0x62 # bs) = Inr (0x62, 1)"
  by (rule raw_varint_getVarint, fold getVarint_def, simp add: getVarint_byte word_less_nat_alt)+

lemma sint_length: "n \<le> max_int \<Longrightarrow> sint (of_nat n :: u64) = int n"
  using sint_small [of "of_nat n :: u64"] by (simp add: unat_of_nat_u64)

lemma entryCount_entries:
  assumes "length (pre @ concat (map (\<lambda>e. 0x5a # lenDelimited (f e)) es) @ 0x62 # suf) \<le> max_int"
  shows "entryCount (pre @ concat (map (\<lambda>e. 0x5a # lenDelimited (f e)) es) @ 0x62 # suf) (int (length pre)) cnt =
    Some (Inr (cnt + length es))"
  using assms
proof (induction es arbitrary: pre cnt)
  case Nil
  then show ?case by (subst entryCount.simps) (simp add: raw_varint_tags)
next
  case (Cons e es)
  let ?R = "concat (map (\<lambda>e. 0x5a # lenDelimited (f e)) es) @ 0x62 # suf"
  let ?d = "pre @ 0x5a # lenDelimited (f e) @ ?R" and ?pre = "pre @ 0x5a # lenDelimited (f e)"
  let ?n = "length (encodeVarintRaft (of_nat (length (f e))))"
  have len: "length ?pre \<le> max_int" "length (f e) \<le> max_int" using Cons.prems by (simp_all add: lenDelimited_def)
  have w: "of_nat (length pre) + 1 + of_nat ?n + of_nat (length (f e)) = (of_nat (length ?pre) :: u64)"
    by (simp add: lenDelimited_def add_ac)
  have i: "sint (of_nat (length pre) + 1 + of_nat ?n + of_nat (length (f e)) :: u64) = int (length ?pre)"
    unfolding w by (rule sint_length [OF len(1)])
  have v: "raw_varint 0 0 0 (lenDelimited (f e) @ ?R) = Inr (of_nat (length (f e)), ?n)"
    by (simp add: lenDelimited_def raw_varint_encode)
  have "entryCount ?d (int (length pre)) cnt = entryCount ?d (int (length ?pre)) (cnt + 1)"
    by (subst entryCount.simps) (simp add: raw_varint_tags v i)
  moreover have "entryCount (?pre @ ?R) (int (length ?pre)) (cnt + 1) = Some (Inr (cnt + 1 + length es))"
    using Cons.prems by (intro Cons.IH) simp
  ultimately show ?case by simp
qed

section \<open>Round trip\<close>

lemma msg_bytes_field_encode:
  assumes "upd bs rest = Inr m" "length (lenDelimited bs @ rest) \<le> l" "l \<le> max_int"
  shows "msg_bytes_field l 2 (lenDelimited bs @ rest) upd = Inr (Some (m, length (lenDelimited bs)))"
proof -
  let ?v = "of_nat (length bs) :: u64"
  have b: "length bs \<le> max_int" using assms(2,3) by (simp add: lenDelimited_def)
  then have u: "unat ?v = length bs" by (simp add: unat_of_nat_u64)
  have "\<not> sint ?v < 0" using b u by (intro sint_nonneg) simp
  moreover have "\<not> l - length (lenDelimited bs @ rest) + length (encodeVarintRaft ?v) + length bs > max_int"
    using assms(2,3) by (simp add: lenDelimited_def)
  ultimately show ?thesis
    using assms(1) u by (simp add: msg_bytes_field_def lenDelimited_def getVarint_encode)
qed

lemma MessageType_num_of: "MessageType_of (ucast (MessageType_num t)) = Inr t"
  by (cases t) (simp_all add: MessageType_num_def MessageType_of_def MessageType_list_def)

lemma Message_uint_steps:
  "proto_loop l (Message_field l) (0x8 # encodeVarintRaft (MessageType_num t) @ rest) m = proto_loop l (Message_field l) rest (m\<lparr>m_Type := t\<rparr>)"
  "proto_loop l (Message_field l) (0x10 # encodeVarintRaft v @ rest) m = proto_loop l (Message_field l) rest (m\<lparr>m_To := v\<rparr>)"
  "proto_loop l (Message_field l) (0x18 # encodeVarintRaft v @ rest) m = proto_loop l (Message_field l) rest (m\<lparr>m_From := v\<rparr>)"
  "proto_loop l (Message_field l) (0x20 # encodeVarintRaft v @ rest) m = proto_loop l (Message_field l) rest (m\<lparr>m_ShardID := v\<rparr>)"
  "proto_loop l (Message_field l) (0x28 # encodeVarintRaft v @ rest) m = proto_loop l (Message_field l) rest (m\<lparr>m_Term := v\<rparr>)"
  "proto_loop l (Message_field l) (0x30 # encodeVarintRaft v @ rest) m = proto_loop l (Message_field l) rest (m\<lparr>m_LogTerm := v\<rparr>)"
  "proto_loop l (Message_field l) (0x38 # encodeVarintRaft v @ rest) m = proto_loop l (Message_field l) rest (m\<lparr>m_LogIndex := v\<rparr>)"
  "proto_loop l (Message_field l) (0x40 # encodeVarintRaft v @ rest) m = proto_loop l (Message_field l) rest (m\<lparr>m_Commit := v\<rparr>)"
  "proto_loop l (Message_field l) (0x48 # flag b @ rest) m = proto_loop l (Message_field l) rest (m\<lparr>m_Reject := b\<rparr>)"
  "proto_loop l (Message_field l) (0x50 # encodeVarintRaft v @ rest) m = proto_loop l (Message_field l) rest (m\<lparr>m_Hint := v\<rparr>)"
  "proto_loop l (Message_field l) (0x68 # encodeVarintRaft v @ rest) m = proto_loop l (Message_field l) rest (m\<lparr>m_HintHigh := v\<rparr>)"
  unfolding flag_varint
  by (rule proto_loop_field; simp add: Message_field_def uint_field_encode MessageType_num_of)+

lemma Message_bytes_steps:
  assumes "length (lenDelimited bs @ rest) \<le> l" "l \<le> max_int"
  shows "allocate_entries m rest = Inr () \<Longrightarrow> Entry_Unmarshal bs zero_Entry = Inr e \<Longrightarrow>
      proto_loop l (Message_field l) (0x5a # lenDelimited bs @ rest) m =
      proto_loop l (Message_field l) rest (m\<lparr>m_Entries := m_Entries m @ [e]\<rparr>)"
    "Snapshot_Unmarshal bs (m_Snapshot m) = Inr x \<Longrightarrow> proto_loop l (Message_field l) (0x62 # lenDelimited bs @ rest) m =
      proto_loop l (Message_field l) rest (m\<lparr>m_Snapshot := x\<rparr>)"
  by (rule proto_loop_field; simp add: Message_field_def msg_bytes_field_encode [OF _ assms])+

lemma Message_entries_step:
  assumes "length (concat (map (\<lambda>e. 0x5a # lenDelimited (Entry_marshalTo e)) es) @ 0x62 # suf) \<le> l" "l \<le> max_int"
    and "\<And>e. e \<in> set es \<Longrightarrow> length (e_Cmd e) + 128 < ColferSizeMax"
  shows "proto_loop l (Message_field l) (concat (map (\<lambda>e. 0x5a # lenDelimited (Entry_marshalTo e)) es) @ 0x62 # suf) m =
    proto_loop l (Message_field l) (0x62 # suf) (m\<lparr>m_Entries := m_Entries m @ es\<rparr>)"
  using assms(1,3)
proof (induction es arbitrary: m)
  case (Cons e es)
  let ?R = "concat (map (\<lambda>e. 0x5a # lenDelimited (Entry_marshalTo e)) es) @ 0x62 # suf"
  have len: "length (lenDelimited (Entry_marshalTo e) @ ?R) \<le> l" using Cons.prems(1) by simp
  have "entryCount ?R 0 0 = Some (Inr (0 + length es))"
    using entryCount_entries [of "[]" Entry_marshalTo es suf 0] len assms(2) by simp
  then have a: "allocate_entries m ?R = Inr ()" by (simp add: allocate_entries_def)
  have "Entry_Unmarshal (Entry_marshalTo e) zero_Entry = Inr e"
    using Entry_decode [of e] Cons.prems(2) [of e] marshalTo_bound [of e] by (simp add: Entry_Unmarshal_def)
  from Message_bytes_steps(1) [OF len assms(2) a this]
  show ?case using Cons.IH [of "m\<lparr>m_Entries := m_Entries m @ [e]\<rparr>"] Cons.prems by simp
qed simp

lemma Message_entries_encoded:
  assumes "\<And>e. e \<in> set es \<Longrightarrow> length (e_Cmd e) + 128 < ColferSizeMax"
  shows "foldM (\<lambda>e acc. bind_res (Entry_Size e) (\<lambda>sz. Inr (acc @ 0x5a # encodeVarintRaft (of_nat sz) @ Entry_marshalTo e))) es acc =
    Inr (acc @ concat (map (\<lambda>e. 0x5a # lenDelimited (Entry_marshalTo e)) es))"
  using assms by (induction es arbitrary: acc) (simp_all add: Entry_Size_exact lenDelimited_def)

lemma length_entries:
  "length (concat (map (\<lambda>e. 0x5a # lenDelimited (f e)) es)) \<le> sum_list (map (\<lambda>e. 11 + length (f e)) es)"
proof (induction es)
  case (Cons e es)
  then show ?case using sovRaft_10 [of "of_nat (length (f e))"] by (simp add: lenDelimited_def length_encodeVarint)
qed simp

lemma Message_length:
  assumes "\<forall>e \<in> set (m_Entries m). length (e_Cmd e) + 128 < ColferSizeMax"
  shows "\<exists>bs. Message_MarshalTo m = Inr bs \<and>
    length bs \<le> 200 + sum_list (map (\<lambda>e. 11 + length (Entry_marshalTo e)) (m_Entries m)) + Snapshot_Size (m_Snapshot m)"
proof -
  note s = sovRaft_10 [of "MessageType_num (m_Type m)"] sovRaft_10 [of "m_To m"] sovRaft_10 [of "m_From m"]
    sovRaft_10 [of "m_ShardID m"] sovRaft_10 [of "m_Term m"] sovRaft_10 [of "m_LogTerm m"] sovRaft_10 [of "m_LogIndex m"]
    sovRaft_10 [of "m_Commit m"] sovRaft_10 [of "m_Hint m"] sovRaft_10 [of "of_nat (Snapshot_Size (m_Snapshot m))"]
    sovRaft_10 [of "m_HintHigh m"]
  show ?thesis
    using s length_entries [of Entry_marshalTo "m_Entries m"] Message_entries_encoded [of "m_Entries m" "[]"] assms
    by (simp add: Message_MarshalTo_def length_encodeVarint Snapshot_size del: length_concat)
qed

lemma zero_Snapshot_size: "Snapshot_Size zero_Snapshot \<le> 200"
proof -
  have "Membership_Size zero_Membership \<le> 11" using sovRaft_10 [of 0] by (simp add: Membership_Size_def zero_Membership_def)
  then show ?thesis
    using sovRaft_10 [of 0] sovRaft_10 [of "of_nat (Membership_Size zero_Membership)"]
    by (simp add: Snapshot_Size_def zero_Snapshot_def opt_bytes_size_def StateMachineType_num_def Let_def)
qed

text \<open>
  C33: Decoding the encoding of a raft message into an empty message gives the message back, with its
  entries and its snapshot metadata; in particular the unchecked count of the entries always returns on it.
\<close>
theorem message_round_trip:
  assumes "Message_MarshalTo m = Inr bs" "length bs \<le> max_int" "maps_wf (ss_Membership (m_Snapshot m))"
    and "\<forall>e \<in> set (m_Entries m). length (e_Cmd e) + 128 < ColferSizeMax"
  shows "Message_Unmarshal bs (zero_Message t) = Inr m"
proof -
  define G where "G = 0x68 # encodeVarintRaft (m_HintHigh m) @ []"
  define S where "S = lenDelimited (Snapshot_MarshalTo (m_Snapshot m)) @ G"
  define F where "F = concat (map (\<lambda>e. 0x5a # lenDelimited (Entry_marshalTo e)) (m_Entries m)) @ 0x62 # S"
  have bs: "bs = 0x8 # encodeVarintRaft (MessageType_num (m_Type m)) @ 0x10 # encodeVarintRaft (m_To m) @
     0x18 # encodeVarintRaft (m_From m) @ 0x20 # encodeVarintRaft (m_ShardID m) @ 0x28 # encodeVarintRaft (m_Term m) @
     0x30 # encodeVarintRaft (m_LogTerm m) @ 0x38 # encodeVarintRaft (m_LogIndex m) @ 0x40 # encodeVarintRaft (m_Commit m) @
     0x48 # flag (m_Reject m) @ 0x50 # encodeVarintRaft (m_Hint m) @ F"
    using assms(1,4) Message_entries_encoded [of "m_Entries m" "[]"]
    by (simp add: Message_MarshalTo_def F_def S_def G_def lenDelimited_def [of "Snapshot_MarshalTo _"] Snapshot_size)
  let ?l = "length bs" let ?f = "Message_field ?l"
  have lF: "length F \<le> ?l" by (simp add: bs)
  have lS: "length (lenDelimited (Snapshot_MarshalTo (m_Snapshot m)) @ G) \<le> ?l" using lF by (simp add: F_def S_def)
  then have sl: "length (Snapshot_MarshalTo (m_Snapshot m)) \<le> max_int" using assms(2) by (simp add: lenDelimited_def)
  have 1: "proto_loop ?l ?f F z = proto_loop ?l ?f (0x62 # S) (z\<lparr>m_Entries := m_Entries z @ m_Entries m\<rparr>)" for z
    unfolding F_def using lF assms(2,4) by (intro Message_entries_step) (simp_all add: F_def)
  have 2: "proto_loop ?l ?f (0x62 # S) z = proto_loop ?l ?f G (z\<lparr>m_Snapshot := m_Snapshot m\<rparr>)" if "m_Snapshot z = zero_Snapshot" for z
    unfolding S_def by (rule Message_bytes_steps(2) [OF lS assms(2)]) (simp only: that Snapshot_decode [OF sl assms(3)])
  have 3: "proto_loop ?l ?f G z = Inr (z\<lparr>m_HintHigh := m_HintHigh m\<rparr>)" for z
    unfolding G_def by (simp only: Message_uint_steps proto_loop_Nil)
  have "proto_loop ?l ?f bs (zero_Message t) = Inr m"
    by (subst (3) bs) (simp add: Message_uint_steps 1 2 3 zero_Message_def)
  then show ?thesis by (simp add: Message_Unmarshal_def)
qed

lemma message_round_trip_witness:
  "\<exists>bs. Message_MarshalTo (zero_Message Replicate\<lparr>m_Term := 3, m_Entries := [zero_Entry\<lparr>e_Index := 5\<rparr>]\<rparr>) = Inr bs \<and>
     Message_Unmarshal bs (zero_Message NoOP) = Inr (zero_Message Replicate\<lparr>m_Term := 3, m_Entries := [zero_Entry\<lparr>e_Index := 5\<rparr>]\<rparr>)"
proof -
  let ?e = "zero_Entry\<lparr>e_Index := 5\<rparr>" let ?m = "zero_Message Replicate\<lparr>m_Term := 3, m_Entries := [?e]\<rparr>"
  have c: "length (e_Cmd ?e) + 128 < ColferSizeMax" by (simp add: ColferSizeMax_def)
  have en: "m_Entries ?m = [?e]" and sn: "m_Snapshot ?m = zero_Snapshot" by (simp_all add: zero_Message_def)
  have all: "\<forall>e \<in> set (m_Entries ?m). length (e_Cmd e) + 128 < ColferSizeMax" using c unfolding en by simp
  obtain bs where bs: "Message_MarshalTo ?m = Inr bs"
    "length bs \<le> 200 + sum_list (map (\<lambda>e. 11 + length (Entry_marshalTo e)) (m_Entries ?m)) + Snapshot_Size (m_Snapshot ?m)"
    using Message_length [OF all] by blast
  have "length (Entry_marshalTo ?e) \<le> 128" using marshalTo_bound [of ?e] by simp
  then have "sum_list (map (\<lambda>e. 11 + length (Entry_marshalTo e)) (m_Entries ?m)) \<le> 139" unfolding en by simp
  then have "length bs \<le> max_int" using bs(2) zero_Snapshot_size unfolding sn by linarith
  moreover have "maps_wf (ss_Membership (m_Snapshot ?m))" unfolding sn by (simp add: maps_wf_def zero_Snapshot_def zero_Membership_def)
  ultimately show ?thesis using message_round_trip [OF bs(1) _ _ all] bs(1) by blast
qed

text \<open>
  C34: The count of entries does not return on every input: a length that takes the scan back to the start
  of the same field makes it loop, and the decoder calls it on bytes that it has not checked yet.
\<close>
theorem entryCount_may_not_return:
  "entryCount [0x5a, 0xF5, 0xFF, 0xFF, 0xFF, 0xFF, 0xFF, 0xFF, 0xFF, 0xFF, 0x01] 0 0 = None"
proof -
  let ?d = "[0x5a, 0xF5, 0xFF, 0xFF, 0xFF, 0xFF, 0xFF, 0xFF, 0xFF, 0xFF, 0x01] :: bytes"
  have v: "raw_varint 0 0 0 [0xF5, 0xFF, 0xFF, 0xFF, 0xFF, 0xFF, 0xFF, 0xFF, 0xFF, 0x01] = Inr (- 11, 10)"
    by code_simp
  have "\<not> (d = ?d \<and> i = 0)" if "entryCount d i cnt = Some y" for d i cnt y
    by (rule entryCount.raw_induct [where P = "\<lambda>d i cnt y. \<not> (d = ?d \<and> i = 0)", OF _ that])
      (auto simp: raw_varint_tags v split: if_splits, blast)
  then show ?thesis by (cases "entryCount ?d 0 0") auto
qed

end
