(* ===== verification/Spec2Isabelle.thy ===== *)
theory Spec2Isabelle
  imports Peer ShardElection MvccGC MvccSnapshot RsmApply MessageCodec
begin

text \<open>
  Verification library for Armada, a distributed key-value store: every table is a shard replicated with
  Raft, the log of a replica is kept in a write-ahead log, and committed entries are applied to a
  multi-version table on the storage engine pebble.

  \<^bold>\<open>Parts and theories.\<close>

  \<^item> \<open>Prelude\<close> and \<open>Raftpb\<close>: results with Go errors and panics, Go maps as association lists, the
    nondeterminism of the Go runtime (map iteration order, random numbers) as the record \<open>go_rt\<close>, machine
    words; the records of \<open>src/raft/raftpb\<close>.
  \<^item> \<open>EntryUtils\<close>, \<open>RateLimiter\<close>, \<open>Remote\<close>, \<open>ReadIndexQueue\<close>, \<open>Config\<close>: the files of these names under
    \<open>src/raft/internal/raft\<close>, \<open>src/raft/internal/server/rate.go\<close> and the validation in
    \<open>src/raft/config/config.go\<close>.
  \<^item> \<open>InMemory\<close> and \<open>EntryLog\<close>: \<open>inmemory.go\<close> and \<open>logentry.go\<close>, the log of a replica. The locale \<open>ilogdb\<close>
    states what the entry log needs of the persisted log.
  \<^item> \<open>LogReader\<close>: \<open>src/raft/logreader\<close>, with the contract \<open>raft_logdb\<close> of the log database; the sublocale
    shows that a log reader provides \<open>ilogdb\<close>.
  \<^item> \<open>Tan\<close>, \<open>TanSpec\<close>, \<open>TanWrite\<close>, \<open>TanLog\<close>: the write-ahead log of \<open>src/raft/tan\<close> (records in log files, the
    index of a replica, range reads, file switches, compaction). The interpretation \<open>wal\<close> discharges
    \<open>raft_logdb\<close> for it. \<open>LogStack\<close> states the results for the whole stack.
  \<^item> \<open>Raft\<close> and \<open>RaftHandlers\<close>: \<open>src/raft/internal/raft/raft.go\<close>, one definition per method, the handler
    tables of the six states, \<open>tick\<close> and \<open>Handle\<close>. \<open>RaftFrame\<close>, \<open>RaftSteps\<close>, \<open>RaftHandle\<close> and
    \<open>RaftEffects\<close> prove what each handler may change, \<open>RaftSafety\<close> the properties of one replica, and
    \<open>ShardElection\<close> those of a shard as a step relation over replicas and a pool of messages that may be
    lost, repeated and reordered, with restarts from the saved state.
  \<^item> \<open>Peer\<close>: \<open>peer.go\<close>, launching a replica, requests as messages, and the updates handed to the layers above.
  \<^item> \<open>Varint\<close>, \<open>Wire\<close>, \<open>Codec\<close>, \<open>SnapshotCodec\<close>, \<open>Colfer\<close>, \<open>MessageCodec\<close>: the wire format of \<open>src/raft/raftpb\<close>. \<open>Varint\<close> has the variable-length
    integers, \<open>Wire\<close> the loop over the fields of a message that the generated decoders share and the skipping
    of unknown fields, \<open>Codec\<close> the hard state and membership changes, \<open>SnapshotCodec\<close> the metadata of snapshots, and \<open>Colfer\<close> and \<open>MessageCodec\<close> the
    codecs of log entries and messages in \<open>raft_optimized.go\<close>. The count of the entries of a message may
    not return, so it is a partial function, whose value is then None.
  \<^item> \<open>RsmSession\<close>, \<open>RsmMembership\<close>, \<open>RsmTaskQueue\<close>, \<open>RsmPayload\<close>, \<open>RsmStateMachine\<close>: the state machine manager of
    \<open>src/raft/internal/rsm\<close>, which applies committed entries: client sessions (objects in a store, with the
    cache of \<open>lni/goutils\<close> as the parameter \<open>OrderedCache\<close> and its contract \<open>cache_ok\<close>), the membership, the queue
    of tasks, the payload of an entry (the library \<open>golang/snappy\<close> is a parameter with the contract
    \<open>snappy_ok\<close>), and the handling of entries and batches. \<open>list_cache\<close> and \<open>stored_snappy\<close> are concrete
    instances of the parameters. \<open>RsmSpec\<close> and \<open>RsmApply\<close> hold the properties.
  \<^item> \<open>Keys\<close>: \<open>src/storage/table/key\<close>, the encoding of logical keys and versions as bytes.
  \<^item> \<open>Mvcc\<close> and \<open>TableFsm\<close>: \<open>src/storage/table/fsm\<close>, the commands, lookups, snapshots and the garbage
    collection of a table. The engine pebble is the record parameter \<open>pebble\<close>; \<open>pebble_ok\<close> states its
    documented behaviour (batches, iteration in key order within bounds, block filters that may hide
    versions above the horizon) and \<open>mem_pebble\<close> is a concrete engine that satisfies it. Unmarshalling of
    commands is a parameter as well. \<open>MvccSpec\<close>, \<open>MvccWrite\<close>, \<open>MvccRefine\<close>, \<open>MvccGC\<close> and \<open>MvccSnapshot\<close> relate
    the physical versions to the visible table.

  \<^bold>\<open>What is shown.\<close> At most one replica becomes leader in a term; a replica's term and commit index never
  go back, a vote is given once per term and only to a candidate with an up-to-date log; a leader has a
  quorum and commits only entries of its term that a quorum acknowledged. The log of a replica reads as one
  sequence over memory and files, appends cut it at the first conflict, writes to the write-ahead log
  refine truncate-and-append and removal hides exactly the removed prefix. The updates of a replica hand out
  only committed entries in order, and allow applying before saving only for entries already persisted. Applying committed entries
  refines puts, deletes and transactions on the visible table, garbage collection never changes it, and
  snapshots replay to it. Keys round-trip and sort by user key with newer versions first.
  A proposal of a client session is applied at most once and answered with the same result; committed
  membership changes keep each replica in one role, addresses distinct and a voter in the shard; entries are
  applied in order, without gaps, and errors are reported. Messages, entries, hard states, membership changes,
  snapshot metadata and compressed payloads round-trip through their encodings, which stay within the sizes computed for them.

  \<^bold>\<open>Bounds and fuel.\<close> \<open>uint64\<close> is a 64-bit word everywhere; where a theorem needs that a counter does not
  wrap, the invariant says so (\<open>Suc (el_last l) < u64_limit\<close>). The only loop with fuel is the count of
  pending configuration changes, with as many iterations as the log has indexes and two more;
  \<open>getPendingConfigChangeCount_total\<close> shows that it always returns the exact count. The count of entries in
  \<open>MessageCodec\<close> is a partial function; \<open>message_round_trip\<close> shows that it returns on encoded messages. All
  other loops are structural or have a termination proof. The clock and \<open>Handle\<close> call each other in the source; the model
  unrolls this once, and \<open>Handle0_is_Handle\<close> shows that nothing is lost.

  \<^bold>\<open>Not modelled.\<close> Of the state machine manager, the recovery from snapshots, the saving of sessions as
  JSON and the wrappers of the user's state machine are not translated; of the wire format, the other
  messages, whose generated code has the same shape. The metadata store
  (\<open>src/storage/kv\<close>) and the recovery of the write-ahead log at start are not translated either.
  The node host, the engine, the transport, the table manager, replication between clusters, the servers
  and the commands are goroutines, channels, timers and network or file I/O around these parts; the
  generated code of the public protocol, the virtual file system and the metrics are not modelled either. Comparisons of
  a transaction over a range and sequences of commands are defined, but the refinement of updates is stated
  for commands without them: a range comparison also looks at older versions, and the commands of a sequence
  carry indexes of their own.
\<close>

end
